(* ===== verification/Prelude.thy ===== *)
theory Prelude
  imports Complex_Main "HOL-Library.AList"
begin

text \<open>
  Shared vocabulary of the development: Python exceptions, the text of integers, the list and
  dictionary operations of Python that the components use, and the generic lemmas on them.

  Conventions used by every theory.
  \<^item> A Python \<open>float\<close> or a time stamp is a rational number (\<open>rat\<close>): the arithmetic is exact, the
    rounding of IEEE doubles is not modelled. A Python \<open>int\<close> is an \<open>int\<close>, or a \<open>nat\<close> where the code
    only counts up from 0.
  \<^item> A dictionary whose iteration order is read by the code is an association list updated with
    \<open>AList.update\<close> (a new key is appended, an old key keeps its place, as in Python); any other
    dictionary is a map.
  \<^item> Every clock reading is an argument, or is read from the world \<open>'w\<close> that user callbacks may
    change. A callback is a function of the world that returns its outcome and the next world.
\<close>

named_theorems inv_intros \<open>preservation lemmas: one per operation and invariant\<close>
named_theorems op_simps \<open>characteristic equations of the operations\<close>

subsection \<open>Exceptions and outcomes of calls\<close>

text \<open>A raised Python exception: the name of its class and \<open>str(e)\<close>.\<close>

datatype exn = Exn (exn_type: string) (exn_msg: string)

text \<open>A value that \<open>str\<close> or an exception that it stands for: the result of code that may raise.\<close>

type_synonym 'a raising = "exn + 'a"

definition raises :: "'a raising \<Rightarrow> bool" where
  "raises r \<longleftrightarrow> (case r of Inl _ \<Rightarrow> True | Inr _ \<Rightarrow> False)"

lemma raises_simps [simp]: "raises (Inl e)" "\<not> raises (Inr x)"
  by (simp_all add: raises_def)

subsection \<open>The decimal text of integers\<close>

fun digits_of :: "nat \<Rightarrow> nat list" where
  "digits_of n = (if n < 10 then [n] else digits_of (n div 10) @ [n mod 10])"

declare digits_of.simps [simp del]

definition digit_char :: "nat \<Rightarrow> char" where
  "digit_char d = char_of (48 + d)"

definition str_nat :: "nat \<Rightarrow> string" where
  "str_nat n = map digit_char (digits_of n)"

definition str_int :: "int \<Rightarrow> string" where
  "str_int i = (if i < 0 then CHR ''-'' # str_nat (nat (- i)) else str_nat (nat i))"

lemma digits_of_less: "d \<in> set (digits_of n) \<Longrightarrow> d < 10"
proof (induction n rule: digits_of.induct)
  case (1 n)
  then show ?case by (cases "n < 10") (auto simp: digits_of.simps [of n])
qed

definition digits_val :: "nat list \<Rightarrow> nat" where
  "digits_val ds = foldl (\<lambda>a d. 10 * a + d) 0 ds"

lemma digits_val_digits_of: "digits_val (digits_of n) = n"
proof (induction n rule: digits_of.induct)
  case (1 n)
  show ?case
  proof (cases "n < 10")
    case True
    then show ?thesis by (simp add: digits_of.simps [of n] digits_val_def)
  next
    case False
    then have "digits_val (digits_of n) = 10 * digits_val (digits_of (n div 10)) + n mod 10"
      by (simp add: digits_of.simps [of n] digits_val_def)
    with 1 False show ?thesis by simp
  qed
qed

lemma digits_of_inj: "digits_of m = digits_of n \<Longrightarrow> m = n"
  by (metis digits_val_digits_of)

subsection \<open>Truncation towards zero, the built-in int of a float\<close>

definition trunc :: "rat \<Rightarrow> int" where
  "trunc x = (if 0 \<le> x then \<lfloor>x\<rfloor> else \<lceil>x\<rceil>)"

lemma trunc_nonneg: "0 \<le> x \<Longrightarrow> 0 \<le> trunc x"
  by (simp add: trunc_def)

lemma trunc_le: "0 \<le> x \<Longrightarrow> of_int (trunc x) \<le> x"
  by (simp add: trunc_def)

lemma trunc_mono: "x \<le> y \<Longrightarrow> trunc x \<le> trunc y"
proof (cases "0 \<le> x \<or> y < 0")
  case True
  then show "x \<le> y \<Longrightarrow> trunc x \<le> trunc y"
    by (auto simp: trunc_def intro: floor_mono ceiling_mono)
next
  case False
  then have "trunc x \<le> 0" and "0 \<le> trunc y"
    by (simp_all add: trunc_def)
  then show "trunc x \<le> trunc y" by simp
qed

lemma trunc_of_int [simp]: "trunc (of_int i) = i"
  by (simp add: trunc_def)

subsection \<open>Python slices\<close>

text \<open>\<open>xs[:k]\<close> and \<open>xs[-k:]\<close> for an \<open>int\<close> \<open>k\<close>: a negative bound counts from the end, and \<open>-0\<close> is \<open>0\<close>,
  so \<open>xs[-0:]\<close> is the whole list.\<close>

definition slice_to :: "int \<Rightarrow> 'a list \<Rightarrow> 'a list" where
  "slice_to k xs = (if 0 \<le> k then take (nat k) xs else take (length xs - nat (- k)) xs)"

definition slice_last :: "int \<Rightarrow> 'a list \<Rightarrow> 'a list" where
  "slice_last k xs =
     (if 0 < k then drop (length xs - nat k) xs else drop (nat (- k)) xs)"

lemma length_slice_to_le: "0 \<le> k \<Longrightarrow> int (length (slice_to k xs)) \<le> k"
  by (simp add: slice_to_def)

lemma length_slice_to_le': "length (slice_to k xs) \<le> length xs"
  by (simp add: slice_to_def)

lemma set_slice_to: "set (slice_to k xs) \<subseteq> set xs"
  by (simp add: slice_to_def set_take_subset)

lemma slice_to_append: "\<exists>ys. xs = slice_to k xs @ ys"
  unfolding slice_to_def by (metis append_take_drop_id)

lemma set_slice_last: "set (slice_last k xs) \<subseteq> set xs"
  by (simp add: slice_last_def set_drop_subset)

lemma length_slice_last: "0 < k \<Longrightarrow> k \<le> int (length xs) \<Longrightarrow> int (length (slice_last k xs)) = k"
  by (simp add: slice_last_def)

subsection \<open>Dictionaries kept in insertion order\<close>

abbreviation keys :: "('k \<times> 'v) list \<Rightarrow> 'k list" where
  "keys d \<equiv> map fst d"

abbreviation wf_dict :: "('k \<times> 'v) list \<Rightarrow> bool" where
  "wf_dict d \<equiv> distinct (keys d)"

lemma map_of_update [simp]: "map_of (AList.update k v d) = (map_of d)(k \<mapsto> v)"
  by (simp add: update_conv')

lemma wf_update [inv_intros]: "wf_dict d \<Longrightarrow> wf_dict (AList.update k v d)"
  by (rule distinct_update)

lemma wf_delete [inv_intros]: "wf_dict d \<Longrightarrow> wf_dict (AList.delete k d)"
  by (rule distinct_delete)

lemma map_of_delete [simp]: "map_of (AList.delete k d) = (map_of d)(k := None)"
  by (simp add: delete_conv')

lemma length_update: "length (AList.update k v d) = (if k \<in> set (keys d) then length d else Suc (length d))"
  by (induction d) auto

lemma update_new: "k \<notin> set (keys d) \<Longrightarrow> AList.update k v d = d @ [(k, v)]"
  by (induction d) auto

lemma length_delete_le: "length (AList.delete k d) \<le> length d"
  by (simp add: AList.delete_eq)

lemma length_delete_mem: "wf_dict d \<Longrightarrow> k \<in> set (keys d) \<Longrightarrow> Suc (length (AList.delete k d)) = length d"
proof (induction d)
  case (Cons p d)
  show ?case
  proof (cases "fst p = k")
    case True
    with Cons.prems have "k \<notin> set (keys d)" by auto
    then have "AList.delete k d = d"
      by (force simp: AList.delete_eq filter_id_conv)
    with True show ?thesis by (cases p) simp
  next
    case False
    with Cons show ?thesis by (cases p) auto
  qed
qed simp

lemma map_of_eq_None_keys: "map_of d k = None \<longleftrightarrow> k \<notin> set (keys d)"
  by (simp add: map_of_eq_None_iff)

lemma map_of_in_keys: "map_of d k = Some v \<Longrightarrow> k \<in> set (keys d)"
  by (metis map_of_eq_None_keys option.simps(3))

lemma map_sum_Inr: "map_sum id f x = Inr y \<longleftrightarrow> (\<exists>z. x = Inr z \<and> y = f z)"
  by (cases x) auto

subsection \<open>Counting\<close>

text \<open>\<open>m[k] = m.get(k, 0) + 1\<close>.\<close>

definition bump :: "'k \<Rightarrow> ('k \<Rightarrow> nat option) \<Rightarrow> ('k \<Rightarrow> nat option)" where
  "bump k m = m(k \<mapsto> (case m k of None \<Rightarrow> 1 | Some n \<Rightarrow> Suc n))"

lemma bump_same: "bump k m k = Some (case m k of None \<Rightarrow> 1 | Some n \<Rightarrow> Suc n)"
  by (simp add: bump_def)

lemma bump_other: "k \<noteq> j \<Longrightarrow> bump k m j = m j"
  by (simp add: bump_def)

end
