(* ===== verification/Results.thy ===== *)
theory Results
  imports Prelude
begin

text \<open>
  The three-way result of \<open>core/result.py\<close>: \<open>Ok\<close>, \<open>Err\<close> with its message, code and retryable flag,
  and \<open>Pass\<close>; the queries, \<open>bind\<close>, \<open>map_result\<close> and \<open>fold\<close>, and the JSON form with its reader.
\<close>

datatype 'a result =
    Ok (ok_value: 'a)
  | Err (err_error: string) (err_code: "string option") (err_retryable: bool)
  | Pass (pass_message: "string option")

definition is_ok :: "'a result \<Rightarrow> bool" where
  "is_ok r = (case r of Ok _ \<Rightarrow> True | Err _ _ _ \<Rightarrow> False | Pass _ \<Rightarrow> False)"

definition is_err :: "'a result \<Rightarrow> bool" where
  "is_err r = (case r of Ok _ \<Rightarrow> False | Err _ _ _ \<Rightarrow> True | Pass _ \<Rightarrow> False)"

definition is_pass :: "'a result \<Rightarrow> bool" where
  "is_pass r = (case r of Ok _ \<Rightarrow> False | Err _ _ _ \<Rightarrow> False | Pass _ \<Rightarrow> True)"

lemma result_queries [simp]:
  "is_ok (Ok v)" "\<not> is_ok (Err e c b)" "\<not> is_ok (Pass m)"
  "\<not> is_err (Ok v)" "is_err (Err e c b)" "\<not> is_err (Pass m)"
  "\<not> is_pass (Ok v)" "\<not> is_pass (Err e c b)" "is_pass (Pass m)"
  by (simp_all add: is_ok_def is_err_def is_pass_def)

lemma is_ok_iff: "is_ok r \<longleftrightarrow> (\<exists>v. r = Ok v)"
  by (cases r) simp_all

lemma is_err_iff: "is_err r \<longleftrightarrow> (\<exists>e c b. r = Err e c b)"
  by (cases r) simp_all

definition unwrap :: "'a result \<Rightarrow> 'a raising" where
  "unwrap r = (case r of
     Ok v \<Rightarrow> Inr v
   | Err e _ _ \<Rightarrow> Inl (Exn ''ValueError'' e)
   | Pass _ \<Rightarrow> Inl (Exn ''ValueError'' ''Cannot unwrap Pass result''))"

definition unwrap_or :: "'a result \<Rightarrow> 'a \<Rightarrow> 'a" where
  "unwrap_or r d = (case r of Ok v \<Rightarrow> v | Err _ _ _ \<Rightarrow> d | Pass _ \<Rightarrow> d)"

text \<open>\<open>cast(Any, self)\<close>: an \<open>Err\<close> or a \<open>Pass\<close> seen at another value type.\<close>

definition recast :: "'a result \<Rightarrow> 'b result" where
  "recast r = (case r of Ok _ \<Rightarrow> undefined | Err e c b \<Rightarrow> Err e c b | Pass m \<Rightarrow> Pass m)"

lemma recast_simps [simp]: "recast (Err e c b) = Err e c b" "recast (Pass m) = Pass m"
  by (simp_all add: recast_def)

text \<open>\<open>Result.bind\<close> and the module function that calls it.\<close>

definition bind :: "'a result \<Rightarrow> ('a \<Rightarrow> 'b result) \<Rightarrow> 'b result" where
  "bind r f = (case r of Ok v \<Rightarrow> f v | _ \<Rightarrow> recast r)"

definition map_result :: "'a result \<Rightarrow> ('a \<Rightarrow> 'b) \<Rightarrow> 'b result" where
  "map_result r f = (case r of Ok v \<Rightarrow> Ok (f v) | _ \<Rightarrow> recast r)"

text \<open>\<open>fold\<close>: for a \<open>Pass\<close> without \<open>on_pass\<close> the code calls \<open>on_ok(None)\<close>, so \<open>on_ok\<close> takes an
  optional value here and an \<open>Ok\<close> passes \<open>Some\<close>.\<close>

definition fold_result ::
  "'a result \<Rightarrow> ('a option \<Rightarrow> 'b) \<Rightarrow> (string \<Rightarrow> 'b) \<Rightarrow> (string option \<Rightarrow> 'b) option \<Rightarrow> 'b" where
  "fold_result r on_ok on_err on_pass =
     (if is_ok r then on_ok (Some (ok_value r))
      else if is_err r then on_err (err_error r)
      else (case on_pass of Some f \<Rightarrow> f (pass_message r) | None \<Rightarrow> on_ok None))"

subsection \<open>The JSON form\<close>

text \<open>JSON values. The text codec of the standard library is not modelled: \<open>dumps\<close> and \<open>loads\<close> are
  inverse to each other on these values, so \<open>to_json\<close> is the object handed to \<open>dumps\<close> and \<open>from_json\<close>
  starts from the object \<open>loads\<close> returns.\<close>

datatype json = JNull | JBool bool | JNum rat | JStr string | JArr "json list"
  | JObj "(string \<times> json) list"

definition opt_str :: "string option \<Rightarrow> json" where
  "opt_str s = (case s of None \<Rightarrow> JNull | Some t \<Rightarrow> JStr t)"

definition str_opt :: "json \<Rightarrow> string option" where
  "str_opt j = (case j of JStr t \<Rightarrow> Some t | _ \<Rightarrow> None)"

definition to_json :: "json result \<Rightarrow> json" where
  "to_json r = (case r of
     Ok v \<Rightarrow> JObj [(''type'', JStr ''ok''), (''value'', v)]
   | Err e c b \<Rightarrow> JObj [(''type'', JStr ''err''), (''error'', JStr e), (''code'', opt_str c),
                       (''retryable'', JBool b)]
   | Pass m \<Rightarrow> JObj [(''type'', JStr ''pass''), (''message'', opt_str m)])"

text \<open>\<open>data.get(k)\<close> with the default \<open>None\<close>; \<open>data\<close> that is not an object has no \<open>get\<close>
  (\<open>AttributeError\<close>, which the code does not catch).\<close>

definition jget :: "(string \<times> json) list \<Rightarrow> string \<Rightarrow> json" where
  "jget d k = (case map_of d k of None \<Rightarrow> JNull | Some v \<Rightarrow> v)"

definition jtrue :: "json \<Rightarrow> bool" where
  "jtrue j = (case j of JNull \<Rightarrow> False | JBool b \<Rightarrow> b | JNum x \<Rightarrow> x \<noteq> 0 | JStr s \<Rightarrow> s \<noteq> []
     | JArr xs \<Rightarrow> xs \<noteq> [] | JObj d \<Rightarrow> d \<noteq> [])"

text \<open>The fields of the rebuilt \<open>Err\<close> are whatever the object holds; they are read back as the
  types the class declares (a JSON value of another type counts as absent).\<close>

definition from_json :: "json \<Rightarrow> json result raising" where
  "from_json j = (case j of
     JObj d \<Rightarrow>
       (if jget d ''type'' = JStr ''ok'' then Inr (Ok (jget d ''value''))
        else if jget d ''type'' = JStr ''err'' then
          Inr (Err (case str_opt (jget d ''error'') of None \<Rightarrow> '''' | Some e \<Rightarrow> e)
                   (str_opt (jget d ''code''))
                   (case map_of d ''retryable'' of None \<Rightarrow> False | Some b \<Rightarrow> jtrue b))
        else if jget d ''type'' = JStr ''pass'' then Inr (Pass (str_opt (jget d ''message'')))
        else Inl (Exn ''ValueError'' ''Unknown result type''))
   | _ \<Rightarrow> Inl (Exn ''AttributeError'' ''no attribute get''))"

lemma str_opt_opt_str [simp]: "str_opt (opt_str s) = s"
  by (cases s) (simp_all add: str_opt_def opt_str_def)

lemma str_opt_JStr: "str_opt (JStr s) = Some s"
  by (simp add: str_opt_def)

subsection \<open>Properties\<close>

text \<open>The three outcomes exclude each other, \<open>unwrap\<close> raises exactly on the outcomes that are not
  \<open>Ok\<close>, and \<open>bind\<close> obeys the monad laws: \<open>Ok\<close> is its unit on both sides, it is associative, and
  an \<open>Err\<close> or a \<open>Pass\<close> short-circuits every continuation.\<close>

theorem result_monad:
  "(is_ok r \<or> is_err r \<or> is_pass r) \<and> (raises (unwrap r) \<longleftrightarrow> \<not> is_ok r)
   \<and> bind (Ok v) f = f v \<and> bind r Ok = r
   \<and> bind (bind r f) g = bind r (\<lambda>x. bind (f x) g)
   \<and> map_result r h = bind r (\<lambda>x. Ok (h x))
   \<and> bind (Err e c b) f = Err e c b \<and> bind (Pass m) f = Pass m"
  by (cases r) (simp_all add: bind_def map_result_def unwrap_def)

text \<open>The JSON form of every result, of each of the three kinds, is read back as the same
  result.\<close>

theorem json_roundtrip: "from_json (to_json r) = Inr r"
  by (cases r) (simp_all add: to_json_def from_json_def jget_def jtrue_def str_opt_JStr)

end
