(* ===== verification/Circuit.thy ===== *)
theory Circuit
  imports Results
begin

text \<open>
  The circuit breaker of \<open>llm/circuit_breaker.py\<close>: its state, the failure tracking it declares, and
  all its operations. The clients (\<open>Retry\<close>, \<open>Reliability\<close>) only ask whether it is closed.
\<close>

datatype circuit_state = CLOSED | OPEN | HALF_OPEN

definition circuit_value :: "circuit_state \<Rightarrow> string" where
  "circuit_value s = (case s of CLOSED \<Rightarrow> ''closed'' | OPEN \<Rightarrow> ''open'' | HALF_OPEN \<Rightarrow> ''half_open'')"

record breaker =
  cb_failure_threshold :: int
  cb_half_open_threshold :: int
  cb_timeout_seconds :: int
  cb_reset_timeout_seconds :: int
  cb_state :: circuit_state
  cb_failures :: "string \<Rightarrow> nat option"
  cb_last_failure_time :: "string \<Rightarrow> rat option"
  cb_half_open_until :: "string \<Rightarrow> rat option"

definition cb_init :: "int \<Rightarrow> int \<Rightarrow> int \<Rightarrow> int \<Rightarrow> breaker" where
  "cb_init ft ht t rt =
     \<lparr>cb_failure_threshold = ft, cb_half_open_threshold = ht, cb_timeout_seconds = t,
      cb_reset_timeout_seconds = rt, cb_state = CLOSED, cb_failures = Map.empty,
      cb_last_failure_time = Map.empty, cb_half_open_until = Map.empty\<rparr>"

definition cb_is_open :: "breaker \<Rightarrow> bool" where
  "cb_is_open b \<longleftrightarrow> cb_state b \<noteq> CLOSED"

definition cb_is_closed :: "breaker \<Rightarrow> bool" where
  "cb_is_closed b \<longleftrightarrow> cb_state b = CLOSED"

definition cb_is_half_open :: "breaker \<Rightarrow> bool" where
  "cb_is_half_open b \<longleftrightarrow> cb_state b = HALF_OPEN"

definition cb_get_state :: "breaker \<Rightarrow> string" where
  "cb_get_state b = circuit_value (cb_state b)"

text \<open>The assignments of \<open>open\<close> and \<open>close\<close> cannot raise, so their \<open>except\<close> branches are dead.\<close>

definition cb_open :: "breaker \<Rightarrow> unit result \<times> breaker" where
  "cb_open b = (Ok (), b\<lparr>cb_state := OPEN\<rparr>)"

definition cb_close :: "breaker \<Rightarrow> unit result \<times> breaker" where
  "cb_close b = (Ok (), b\<lparr>cb_state := CLOSED, cb_failures := Map.empty,
                         cb_last_failure_time := Map.empty, cb_half_open_until := Map.empty\<rparr>)"

text \<open>\<open>_get_provider_name\<close>: \<open>None\<close> stands for an adapter without the method.\<close>

definition cb_provider_name :: "string option option \<Rightarrow> string" where
  "cb_provider_name adapter = (case adapter of
     None \<Rightarrow> ''unknown''
   | Some None \<Rightarrow> ''unknown''
   | Some (Some n) \<Rightarrow> if n = [] then ''unknown'' else n)"

subsection \<open>The operations as steps\<close>

datatype cb_op = CbOpen | CbClose | CbQuery

definition cb_step :: "breaker \<Rightarrow> cb_op \<Rightarrow> breaker" where
  "cb_step b p = (case p of CbOpen \<Rightarrow> snd (cb_open b) | CbClose \<Rightarrow> snd (cb_close b) | CbQuery \<Rightarrow> b)"

fun cb_run :: "breaker \<Rightarrow> cb_op list \<Rightarrow> breaker" where
  "cb_run b [] = b"
| "cb_run b (p # ps) = cb_run (cb_step b p) ps"

text \<open>What the operations keep: no failure is ever recorded and the half-open state is not entered.\<close>

definition cb_inv :: "breaker \<Rightarrow> bool" where
  "cb_inv b \<longleftrightarrow> cb_state b \<noteq> HALF_OPEN \<and> cb_failures b = Map.empty
     \<and> cb_last_failure_time b = Map.empty \<and> cb_half_open_until b = Map.empty"

lemma cb_init_inv [inv_intros]: "cb_inv (cb_init ft ht t rt)"
  by (simp add: cb_inv_def cb_init_def)

lemma cb_step_inv [inv_intros]: "cb_inv b \<Longrightarrow> cb_inv (cb_step b p)"
  by (cases p) (simp_all add: cb_inv_def cb_step_def cb_open_def cb_close_def)

lemma cb_run_inv [inv_intros]: "cb_inv b \<Longrightarrow> cb_inv (cb_run b ps)"
  by (induction ps arbitrary: b) (auto intro: cb_step_inv)

text \<open>The state after a run is the last of its opening and closing steps, if there is one.\<close>

definition cb_last :: "circuit_state \<Rightarrow> cb_op list \<Rightarrow> circuit_state" where
  "cb_last s ps = foldl (\<lambda>s p. case p of CbOpen \<Rightarrow> OPEN | CbClose \<Rightarrow> CLOSED | CbQuery \<Rightarrow> s) s ps"

lemma cb_run_state: "cb_state (cb_run b ps) = cb_last (cb_state b) ps"
proof (induction ps arbitrary: b)
  case (Cons p ps)
  then show ?case
    by (cases p) (simp_all add: cb_last_def cb_step_def cb_open_def cb_close_def)
qed (simp add: cb_last_def)

lemma cb_last_snoc:
  "cb_last s (ps @ [p]) = (case p of CbOpen \<Rightarrow> OPEN | CbClose \<Rightarrow> CLOSED | CbQuery \<Rightarrow> cb_last s ps)"
  by (simp add: cb_last_def split: cb_op.splits)

lemma cb_last_open_iff:
  "cb_last CLOSED ps \<noteq> CLOSED \<longleftrightarrow> (\<exists>xs ys. ps = xs @ CbOpen # ys \<and> CbClose \<notin> set ys)"
proof (induction ps rule: rev_induct)
  case Nil
  then show ?case by (simp add: cb_last_def)
next
  case (snoc p ps)
  have split_snoc: "(\<exists>xs ys. ps @ [p] = xs @ CbOpen # ys \<and> CbClose \<notin> set ys) \<longleftrightarrow>
      p = CbOpen \<or> p \<noteq> CbClose \<and> (\<exists>xs ys. ps = xs @ CbOpen # ys \<and> CbClose \<notin> set ys)" (is "?l \<longleftrightarrow> ?r")
  proof
    assume ?l
    then obtain xs ys where eq: "ps @ [p] = xs @ CbOpen # ys" and ys: "CbClose \<notin> set ys"
      by blast
    show ?r
    proof (cases ys rule: rev_cases)
      case Nil
      with eq show ?thesis by simp
    next
      case (snoc zs z)
      with eq ys show ?thesis by auto
    qed
  next
    assume ?r
    then show ?l
    proof
      assume "p = CbOpen"
      then have "ps @ [p] = ps @ CbOpen # []" by simp
      then show ?l by fastforce
    next
      assume "p \<noteq> CbClose \<and> (\<exists>xs ys. ps = xs @ CbOpen # ys \<and> CbClose \<notin> set ys)"
      then obtain xs ys where "ps @ [p] = xs @ CbOpen # (ys @ [p])" "CbClose \<notin> set (ys @ [p])"
        by auto
      then show ?l by blast
    qed
  qed
  show ?case
    using split_snoc by (cases p) (simp_all add: cb_last_snoc snoc.IH)
qed

text \<open>Over any sequence of its operations, and whatever its thresholds and timeouts, the breaker
  never enters \<open>HALF_OPEN\<close> and never records a failure or a time stamp; it is open exactly when
  some explicit \<open>open\<close> call was not followed by a \<open>close\<close>, so a breaker that nobody opens by hand
  stays \<open>CLOSED\<close>.\<close>

theorem breaker_manual_only:
  "cb_inv (cb_run (cb_init ft ht t rt) ps)
   \<and> (cb_is_open (cb_run (cb_init ft ht t rt) ps) \<longleftrightarrow>
        (\<exists>xs ys. ps = xs @ CbOpen # ys \<and> CbClose \<notin> set ys))"
proof -
  have "cb_state (cb_init ft ht t rt) = CLOSED"
    by (simp add: cb_init_def)
  then show ?thesis
    by (simp add: cb_is_open_def cb_run_state cb_last_open_iff cb_run_inv cb_init_inv)
qed

end
