(* ===== verification/Accounts.thy ===== *)
theory Accounts
  imports Prelude
begin

text \<open>
  The contract of a token account, shared by the two token buckets of the program
  (\<open>llm/rate_limiter.py\<close> and \<open>llm/provider_limits.py\<close>): a state with a balance of tokens and the
  time of its last refill, and a request that is granted or refused. The law of a provider says
  that one request never creates more tokens than its rate allows for the time that passed. The
  client's lemma, proved once, bounds what any sequence of requests is granted.
\<close>

fun serve :: "('q \<Rightarrow> 's \<Rightarrow> bool \<times> 's) \<Rightarrow> 's \<Rightarrow> 'q list \<Rightarrow> bool list \<times> 's" where
  "serve step s [] = ([], s)"
| "serve step s (q # qs) =
     (let (g, s') = step q s; (gs, s'') = serve step s' qs in (g # gs, s''))"

text \<open>The cost of the granted requests.\<close>

fun granted :: "('q \<Rightarrow> rat) \<Rightarrow> 'q list \<Rightarrow> bool list \<Rightarrow> rat" where
  "granted cost (q # qs) (g # gs) = (if g then cost q else 0) + granted cost qs gs"
| "granted cost _ _ = 0"

text \<open>Requests in the order of their clock readings, none of a negative cost.\<close>

fun timed :: "('q \<Rightarrow> rat) \<Rightarrow> ('q \<Rightarrow> rat) \<Rightarrow> rat \<Rightarrow> 'q list \<Rightarrow> bool" where
  "timed time cost t [] = True"
| "timed time cost t (q # qs) = (t \<le> time q \<and> 0 \<le> cost q \<and> timed time cost (time q) qs)"

definition last_time :: "('q \<Rightarrow> rat) \<Rightarrow> rat \<Rightarrow> 'q list \<Rightarrow> rat" where
  "last_time time t qs = (if qs = [] then t else time (last qs))"

lemma length_serve: "length (fst (serve step s qs)) = length qs"
  by (induction qs arbitrary: s) (auto simp: split_beta Let_def)

locale token_account =
  fixes step :: "'q \<Rightarrow> 's \<Rightarrow> bool \<times> 's"
    and cost :: "'q \<Rightarrow> rat"
    and time :: "'q \<Rightarrow> rat"
    and balance :: "'s \<Rightarrow> rat"
    and stamp :: "'s \<Rightarrow> rat"
    and rate :: "'s \<Rightarrow> rat"
    and inv :: "'s \<Rightarrow> bool"
  assumes inv_step: "inv s \<Longrightarrow> stamp s \<le> time q \<Longrightarrow> 0 \<le> cost q \<Longrightarrow> inv (snd (step q s))"
    and stamp_step: "inv s \<Longrightarrow> stamp s \<le> time q \<Longrightarrow> 0 \<le> cost q \<Longrightarrow>
          stamp s \<le> stamp (snd (step q s)) \<and> stamp (snd (step q s)) \<le> time q"
    and rate_step: "rate (snd (step q s)) = rate s"
    and rate_nonneg: "inv s \<Longrightarrow> 0 \<le> rate s"
    and balance_nonneg: "inv s \<Longrightarrow> 0 \<le> balance s"
    and balance_step: "inv s \<Longrightarrow> stamp s \<le> time q \<Longrightarrow> 0 \<le> cost q \<Longrightarrow>
          (if fst (step q s) then cost q else 0) + balance (snd (step q s))
            \<le> balance s + rate s * (stamp (snd (step q s)) - stamp s)"
begin

lemma inv_serve:
  "inv s \<Longrightarrow> stamp s \<le> t \<Longrightarrow> timed time cost t qs \<Longrightarrow> inv (snd (serve step s qs))"
proof (induction qs arbitrary: s t)
  case (Cons q qs)
  then have "stamp s \<le> time q" "0 \<le> cost q" "timed time cost (time q) qs" by auto
  with Cons.IH [of "snd (step q s)" "time q"] inv_step [of s q] stamp_step [of s q] Cons.prems(1)
  show ?case by (simp add: split_beta Let_def)
qed simp

lemma account:
  "inv s \<Longrightarrow> stamp s \<le> t \<Longrightarrow> timed time cost t qs \<Longrightarrow>
   granted cost qs (fst (serve step s qs)) + balance (snd (serve step s qs))
     \<le> balance s + rate s * (stamp (snd (serve step s qs)) - stamp s)
   \<and> stamp (snd (serve step s qs)) \<le> last_time time t qs"
proof (induction qs arbitrary: s t)
  case Nil
  then show ?case by (simp add: last_time_def)
next
  case (Cons q qs)
  let ?s = "snd (step q s)"
  from Cons.prems have q: "stamp s \<le> time q" "0 \<le> cost q" "timed time cost (time q) qs" by auto
  note one = inv_step [OF Cons.prems(1) q(1,2)] stamp_step [OF Cons.prems(1) q(1,2)]
    balance_step [OF Cons.prems(1) q(1,2)]
  from Cons.IH [of ?s "time q"] one q(3)
  have IH: "granted cost qs (fst (serve step ?s qs)) + balance (snd (serve step ?s qs))
      \<le> balance ?s + rate s * (stamp (snd (serve step ?s qs)) - stamp ?s)"
    and st: "stamp (snd (serve step ?s qs)) \<le> last_time time (time q) qs"
    by (simp_all add: rate_step)
  have "last_time time (time q) qs = last_time time t (q # qs)"
    by (simp add: last_time_def)
  with IH st one show ?case
    by (simp add: split_beta Let_def algebra_simps)
qed

text \<open>What is granted is at most the balance at the start and the refill of the time that passed.\<close>

lemma granted_bound:
  assumes "inv s" "timed time cost (stamp s) qs"
  shows "granted cost qs (fst (serve step s qs))
    \<le> balance s + rate s * (last_time time (stamp s) qs - stamp s)"
proof -
  note acc = account [OF assms(1) order_refl assms(2)]
  have "0 \<le> balance (snd (serve step s qs))"
    using inv_serve [OF assms(1) order_refl assms(2)] by (rule balance_nonneg)
  moreover have "rate s * (stamp (snd (serve step s qs)) - stamp s)
      \<le> rate s * (last_time time (stamp s) qs - stamp s)"
    using acc rate_nonneg [OF assms(1)] by (intro mult_left_mono) auto
  ultimately show ?thesis using acc by linarith
qed

end

end
