(* ===== verification/Limiter.thy ===== *)
theory Limiter
  imports Results Accounts
begin

text \<open>
  The token bucket rate limiter of \<open>llm/rate_limiter.py\<close>: \<open>TokenBucket\<close> and \<open>RateLimiterImpl\<close>.
  Every \<open>datetime.now()\<close> of an operation is an argument, in the order the code reads the clock.
\<close>

record token_bucket =
  tb_capacity :: int
  tb_refill_rate :: rat
  tb_window_seconds :: rat
  tb_tokens :: int
  tb_last_refill :: rat
  tb_request_times :: "rat list"
  tb_refills :: "rat list"

definition tb_init :: "int \<Rightarrow> rat \<Rightarrow> rat \<Rightarrow> rat \<Rightarrow> token_bucket" where
  "tb_init capacity rate window now =
     \<lparr>tb_capacity = capacity, tb_refill_rate = rate, tb_window_seconds = window,
      tb_tokens = capacity, tb_last_refill = now, tb_request_times = [], tb_refills = []\<rparr>"

definition drop_expired :: "rat \<Rightarrow> token_bucket \<Rightarrow> token_bucket" where
  "drop_expired now b =
     b\<lparr>tb_request_times := filter (\<lambda>t. now - t < tb_window_seconds b) (tb_request_times b)\<rparr>"

definition refill_tokens :: "rat \<Rightarrow> token_bucket \<Rightarrow> token_bucket" where
  "refill_tokens now b =
     (let elapsed = now - tb_last_refill b;
          tokens_to_add = trunc (elapsed * tb_refill_rate b)
      in drop_expired now
           (b\<lparr>tb_tokens := min (tb_tokens b + tokens_to_add) (tb_capacity b),
              tb_last_refill := now, tb_refills := tb_refills b @ [now]\<rparr>))"

definition take_tokens :: "rat \<Rightarrow> int \<Rightarrow> token_bucket \<Rightarrow> token_bucket" where
  "take_tokens now tokens b =
     b\<lparr>tb_request_times := tb_request_times b @ [now], tb_tokens := tb_tokens b - tokens\<rparr>"

definition not_enough :: "string \<Rightarrow> int \<Rightarrow> int \<Rightarrow> string" where
  "not_enough resource tokens have =
     ''Not enough tokens for '' @ resource @ '': need '' @ str_int tokens @ '', have '' @ str_int have"

text \<open>\<open>try_acquire\<close> reads the clock once when the tokens suffice (\<open>t1\<close>), and twice, for the refill and
  for the record of the request, when they only suffice after the refill (\<open>t1\<close>, \<open>t2\<close>).\<close>

definition tb_try_acquire ::
  "rat \<Rightarrow> rat \<Rightarrow> string \<Rightarrow> int \<Rightarrow> token_bucket \<Rightarrow> bool result \<times> token_bucket" where
  "tb_try_acquire t1 t2 resource tokens b =
     (if tokens \<le> tb_tokens b then (Ok True, take_tokens t1 tokens b)
      else (let b' = refill_tokens t1 b
            in if tokens \<le> tb_tokens b' then (Ok True, take_tokens t2 tokens b')
               else (Err (not_enough resource tokens (tb_tokens b'))
                         (Some ''RATE_LIMIT_EXCEEDED'') False, b')))"

definition tb_release :: "token_bucket \<Rightarrow> unit result \<times> token_bucket" where
  "tb_release b = (Ok (), b)"

definition tb_get_available :: "rat \<Rightarrow> token_bucket \<Rightarrow> nat result \<times> token_bucket" where
  "tb_get_available now b =
     (let b' = drop_expired now b in (Ok (length (tb_request_times b')), b'))"

subsection \<open>The limiter: a bucket per resource\<close>

record limiter =
  rl_buckets :: "string \<Rightarrow> token_bucket option"
  rl_default_capacity :: int
  rl_default_refill_rate :: rat
  rl_default_window :: rat

definition rl_init :: "int \<Rightarrow> rat \<Rightarrow> rat \<Rightarrow> limiter" where
  "rl_init c r w = \<lparr>rl_buckets = Map.empty, rl_default_capacity = c, rl_default_refill_rate = r,
                    rl_default_window = w\<rparr>"

definition rl_put :: "string \<Rightarrow> token_bucket \<Rightarrow> limiter \<Rightarrow> limiter" where
  "rl_put resource b l = l\<lparr>rl_buckets := (rl_buckets l)(resource \<mapsto> b)\<rparr>"

definition rl_set_limit :: "rat \<Rightarrow> string \<Rightarrow> int \<Rightarrow> rat \<Rightarrow> rat \<Rightarrow> limiter \<Rightarrow> limiter" where
  "rl_set_limit now resource capacity rate window l =
     rl_put resource (tb_init capacity rate window now) l"

definition rl_default_bucket :: "rat \<Rightarrow> limiter \<Rightarrow> token_bucket" where
  "rl_default_bucket now l =
     tb_init (rl_default_capacity l) (rl_default_refill_rate l) (rl_default_window l) now"

definition rl_bucket :: "rat \<Rightarrow> string \<Rightarrow> limiter \<Rightarrow> token_bucket" where
  "rl_bucket now resource l =
     (case rl_buckets l resource of Some b \<Rightarrow> b | None \<Rightarrow> rl_default_bucket now l)"

text \<open>The bucket is an object shared with the dictionary: what the bucket's method changes is stored
  back. \<open>t0\<close> is the clock of a bucket created on the way.\<close>

definition rl_try_acquire ::
  "rat \<Rightarrow> rat \<Rightarrow> rat \<Rightarrow> string \<Rightarrow> int \<Rightarrow> limiter \<Rightarrow> bool result \<times> limiter" where
  "rl_try_acquire t0 t1 t2 resource tokens l =
     (let (r, b) = tb_try_acquire t1 t2 resource tokens (rl_bucket t0 resource l)
      in (r, rl_put resource b l))"

definition rl_release :: "rat \<Rightarrow> string \<Rightarrow> limiter \<Rightarrow> unit result \<times> limiter" where
  "rl_release t0 resource l =
     (let (r, b) = tb_release (rl_bucket t0 resource l) in (r, rl_put resource b l))"

definition rl_get_available :: "rat \<Rightarrow> rat \<Rightarrow> string \<Rightarrow> limiter \<Rightarrow> nat result \<times> limiter" where
  "rl_get_available t0 t1 resource l =
     (let (r, b) = tb_get_available t1 (rl_bucket t0 resource l) in (r, rl_put resource b l))"

definition rl_reset :: "rat \<Rightarrow> string \<Rightarrow> limiter \<Rightarrow> unit result \<times> limiter" where
  "rl_reset now resource l = (Ok (), rl_put resource (rl_default_bucket now l) l)"

subsection \<open>The bucket as a token account\<close>

text \<open>A request: its two clock readings and the tokens it needs.\<close>

type_synonym request = "rat \<times> rat \<times> int"

abbreviation req_time :: "request \<Rightarrow> rat" where
  "req_time q \<equiv> fst q"

abbreviation req_cost :: "request \<Rightarrow> rat" where
  "req_cost q \<equiv> of_int (snd (snd q))"

definition tb_request :: "string \<Rightarrow> request \<Rightarrow> token_bucket \<Rightarrow> bool \<times> token_bucket" where
  "tb_request resource q b =
     (let (r, b') = tb_try_acquire (fst q) (fst (snd q)) resource (snd (snd q)) b in (is_ok r, b'))"

definition tb_inv :: "token_bucket \<Rightarrow> bool" where
  "tb_inv b \<longleftrightarrow> 0 \<le> tb_refill_rate b \<and> 0 \<le> tb_tokens b \<and> tb_tokens b \<le> tb_capacity b"

lemma tb_init_inv [inv_intros]: "0 \<le> c \<Longrightarrow> 0 \<le> r \<Longrightarrow> tb_inv (tb_init c r w t)"
  by (simp add: tb_inv_def tb_init_def)

lemma refill_fields [simp]:
  "tb_capacity (refill_tokens t b) = tb_capacity b"
  "tb_refill_rate (refill_tokens t b) = tb_refill_rate b"
  "tb_window_seconds (refill_tokens t b) = tb_window_seconds b"
  "tb_last_refill (refill_tokens t b) = t"
  "tb_tokens (refill_tokens t b) =
     min (tb_tokens b + trunc ((t - tb_last_refill b) * tb_refill_rate b)) (tb_capacity b)"
  by (simp_all add: refill_tokens_def drop_expired_def Let_def)

lemma take_fields [simp]:
  "tb_capacity (take_tokens t n b) = tb_capacity b"
  "tb_refill_rate (take_tokens t n b) = tb_refill_rate b"
  "tb_last_refill (take_tokens t n b) = tb_last_refill b"
  "tb_tokens (take_tokens t n b) = tb_tokens b - n"
  by (simp_all add: take_tokens_def)

lemma refill_nonneg:
  assumes "tb_inv b" "tb_last_refill b \<le> t"
  shows "0 \<le> (t - tb_last_refill b) * tb_refill_rate b"
  using assms by (simp add: tb_inv_def)

lemma refill_inv [inv_intros]:
  assumes "tb_inv b" "tb_last_refill b \<le> t"
  shows "tb_inv (refill_tokens t b)"
  using assms trunc_nonneg [OF refill_nonneg [OF assms]] by (simp add: tb_inv_def)

lemma refill_gain:
  assumes "tb_inv b" "tb_last_refill b \<le> t"
  shows "of_int (tb_tokens (refill_tokens t b))
    \<le> of_int (tb_tokens b) + tb_refill_rate b * (t - tb_last_refill b)"
proof -
  have "of_int (trunc ((t - tb_last_refill b) * tb_refill_rate b))
      \<le> (t - tb_last_refill b) * tb_refill_rate b"
    by (rule trunc_le [OF refill_nonneg [OF assms]])
  moreover have "tb_tokens (refill_tokens t b)
      \<le> tb_tokens b + trunc ((t - tb_last_refill b) * tb_refill_rate b)" by simp
  then have "of_int (tb_tokens (refill_tokens t b))
      \<le> (of_int (tb_tokens b + trunc ((t - tb_last_refill b) * tb_refill_rate b)) :: rat)"
    by (simp only: of_int_le_iff)
  ultimately show ?thesis by (simp add: mult.commute)
qed

lemma tb_request_cases:
  "(n \<le> tb_tokens b \<and> tb_request r (t1, t2, n) b = (True, take_tokens t1 n b))
   \<or> (tb_tokens b < n \<and> n \<le> tb_tokens (refill_tokens t1 b)
       \<and> tb_request r (t1, t2, n) b = (True, take_tokens t2 n (refill_tokens t1 b)))
   \<or> (tb_tokens b < n \<and> tb_tokens (refill_tokens t1 b) < n
       \<and> tb_request r (t1, t2, n) b = (False, refill_tokens t1 b))"
  by (auto simp: tb_request_def tb_try_acquire_def Let_def)

interpretation tb: token_account "tb_request r" req_cost req_time
    "\<lambda>b. of_int (tb_tokens b)" tb_last_refill tb_refill_rate tb_inv for r
proof (unfold_locales, goal_cases)
  case (1 b q)
  obtain t1 t2 n where q: "q = (t1, t2, n)" by (cases q)
  have "tb_inv (refill_tokens t1 b)"
    using 1 q by (auto intro: refill_inv)
  with 1 tb_request_cases [of n b r t1 t2] show ?case
    unfolding q by (auto simp: tb_inv_def)
next
  case (2 b q)
  obtain t1 t2 n where q: "q = (t1, t2, n)" by (cases q)
  with 2 tb_request_cases [of n b r t1 t2] show ?case unfolding q by auto
next
  case (3 q b)
  obtain t1 t2 n where q: "q = (t1, t2, n)" by (cases q)
  with tb_request_cases [of n b r t1 t2] show ?case unfolding q by auto
next
  case (4 b)
  then show ?case by (simp add: tb_inv_def)
next
  case (5 b)
  then show ?case by (simp add: tb_inv_def)
next
  case (6 b q)
  obtain t1 t2 n where q: "q = (t1, t2, n)" by (cases q)
  with 6 refill_gain [of b t1] tb_request_cases [of n b r t1 t2] show ?case
    unfolding q by auto
qed

subsection \<open>Properties\<close>

text \<open>C14. The rate limit: for any sequence of requests with clock readings in order, the tokens a fresh
  bucket grants are at most its capacity plus its refill rate times the time that passed, and at
  the end its token count is still between 0 and the capacity.\<close>

theorem bucket_rate_bound:
  assumes "0 \<le> c" "0 \<le> rate" "timed req_time req_cost t0 qs"
  shows "granted req_cost qs (fst (serve (tb_request res) (tb_init c rate w t0) qs))
           \<le> of_int c + rate * (last_time req_time t0 qs - t0)
         \<and> tb_inv (snd (serve (tb_request res) (tb_init c rate w t0) qs))"
proof
  let ?b = "tb_init c rate w t0"
  have b: "tb_inv ?b" "tb_tokens ?b = c" "tb_refill_rate ?b = rate" "tb_last_refill ?b = t0"
    using assms(1,2) by (auto intro: tb_init_inv) (simp_all add: tb_init_def)
  show "granted req_cost qs (fst (serve (tb_request res) ?b qs))
      \<le> of_int c + rate * (last_time req_time t0 qs - t0)"
    using tb.granted_bound [of ?b qs res] assms(3) b by simp
  show "tb_inv (snd (serve (tb_request res) ?b qs))"
    using tb.inv_serve [of ?b t0 qs res] assms(3) b by simp
qed

theorem bucket_rate_bound_witness:
  "granted req_cost [(0, 0, 2), (1, 1, 1), (1, 1, 1)]
     (fst (serve (tb_request ''api'') (tb_init 2 1 60 0) [(0, 0, 2), (1, 1, 1), (1, 1, 1)])) = 3
   \<and> (3::rat) \<le> of_int 2 + 1 * (last_time req_time 0 [(0, 0, 2), (1, 1, 1), (1, 1, 1::int)] - 0)"
proof -
  have "granted req_cost [(0, 0, 2), (1, 1, 1), (1, 1, 1)]
     (fst (serve (tb_request ''api'') (tb_init 2 1 60 0) [(0, 0, 2), (1, 1, 1), (1, 1, 1)])) = 3"
    by (simp add: tb_request_def tb_try_acquire_def tb_init_def take_tokens_def refill_tokens_def
        drop_expired_def trunc_def)
  moreover note bucket_rate_bound [of 2 1 0 "[(0, 0, 2), (1, 1, 1), (1, 1, 1)]" "''api''" 60]
  ultimately show ?thesis by simp
qed

text \<open>Requests that poll faster than a token refills: between one reading of the clock and the next
  less than one token accrues.\<close>

fun fast_polls :: "rat \<Rightarrow> rat \<Rightarrow> request list \<Rightarrow> bool" where
  "fast_polls rate t [] = True"
| "fast_polls rate t ((t1, t2, n) # qs) =
     (t \<le> t1 \<and> (t1 - t) * rate < 1 \<and> fast_polls rate t1 qs)"

lemma fast_poll_refill:
  assumes "tb_inv b" "tb_last_refill b \<le> t" "(t - tb_last_refill b) * tb_refill_rate b < 1"
  shows "tb_tokens (refill_tokens t b) = tb_tokens b"
proof -
  have "trunc ((t - tb_last_refill b) * tb_refill_rate b) = 0"
    using refill_nonneg [OF assms(1,2)] assms(3) by (simp add: trunc_def floor_eq_iff)
  with assms(1) show ?thesis by (simp add: tb_inv_def)
qed

text \<open>Starvation: every refused request restarts the refill clock and drops the fraction of a token
  that had accrued, so requests that poll faster than one token per refill interval are all
  refused, for as long as they go on, and the token count never grows.\<close>

theorem bucket_starves:
  assumes "tb_inv b" "\<forall>q \<in> set qs. tb_tokens b < snd (snd q)"
    and "fast_polls (tb_refill_rate b) (tb_last_refill b) qs"
  shows "fst (serve (tb_request res) b qs) = replicate (length qs) False
    \<and> tb_tokens (snd (serve (tb_request res) b qs)) = tb_tokens b"
  using assms
proof (induction qs arbitrary: b)
  case (Cons q qs)
  obtain t1 t2 n where q: "q = (t1, t2, n)" by (cases q)
  define b' where "b' = refill_tokens t1 b"
  from Cons.prems q have poll: "tb_last_refill b \<le> t1" "(t1 - tb_last_refill b) * tb_refill_rate b < 1"
    and low: "tb_tokens b < n" by auto
  have same: "tb_tokens b' = tb_tokens b"
    unfolding b'_def by (rule fast_poll_refill [OF Cons.prems(1) poll])
  have b': "tb_inv b'" "tb_refill_rate b' = tb_refill_rate b" "tb_last_refill b' = t1"
    unfolding b'_def using Cons.prems(1) poll(1) by (auto intro: refill_inv)
  with Cons.IH [of b'] Cons.prems q same
  have "fst (serve (tb_request res) b' qs) = replicate (length qs) False
      \<and> tb_tokens (snd (serve (tb_request res) b' qs)) = tb_tokens b" by simp
  moreover have "tb_request res q b = (False, b')"
    using tb_request_cases [of n b res t1 t2] same low unfolding q b'_def by auto
  ultimately show ?case by (simp add: split_beta Let_def)
qed simp

theorem bucket_starves_witness:
  "fst (serve (tb_request ''api'') (tb_init 0 (1/6) 60 0)
     [(5, 5, 1), (10, 10, 1), (15, 15, 1), (20, 20, 1)]) = replicate 4 False"
  using bucket_starves [of "tb_init 0 (1/6) 60 0" "[(5, 5, 1), (10, 10, 1), (15, 15, 1), (20, 20, 1)]" "''api''"]
  by (simp add: tb_inv_def tb_init_def eval_nat_numeral)

text \<open>The limiter isolates resources: an operation on one resource answers as that resource's own
  bucket does (a default bucket when it has none yet) and leaves every other resource's bucket and
  the defaults as they were.\<close>

theorem limiter_isolates:
  "fst (rl_try_acquire t0 t1 t2 r n l) = fst (tb_try_acquire t1 t2 r n (rl_bucket t0 r l))
   \<and> fst (rl_get_available t0 t1 r l) = fst (tb_get_available t1 (rl_bucket t0 r l))
   \<and> rl_buckets (snd (rl_try_acquire t0 t1 t2 r n l)) r
        = Some (snd (tb_try_acquire t1 t2 r n (rl_bucket t0 r l)))
   \<and> (\<forall>r' \<in> - {r}.
        rl_buckets (snd (rl_try_acquire t0 t1 t2 r n l)) r' = rl_buckets l r'
        \<and> rl_buckets (snd (rl_get_available t0 t1 r l)) r' = rl_buckets l r'
        \<and> rl_buckets (snd (rl_release t0 r l)) r' = rl_buckets l r'
        \<and> rl_buckets (snd (rl_reset t0 r l)) r' = rl_buckets l r'
        \<and> rl_buckets (rl_set_limit t0 r c rate w l) r' = rl_buckets l r')
   \<and> rl_bucket t1 r (snd (rl_reset t0 r l)) = rl_default_bucket t0 l"
  by (auto simp: rl_try_acquire_def rl_get_available_def rl_release_def rl_reset_def
      rl_set_limit_def rl_put_def rl_bucket_def split_beta Let_def)

theorem limiter_isolates_witness:
  "rl_buckets (snd (rl_try_acquire 0 0 0 ''a'' 1 (rl_init 5 1 60))) ''b'' = None"
  using limiter_isolates [of 0 0 0 "''a''" 1 "rl_init 5 1 60" 5 1 60] by (auto simp: rl_init_def)

end
