(* ===== verification/Retry.thy ===== *)
theory Retry
  imports Circuit
begin

text \<open>
  The backoff strategies and the retry executor of \<open>llm/retry.py\<close>. The operation that is retried is a
  callback of the world \<open>'w\<close>; the delays slept between attempts are part of the result.
\<close>

subsection \<open>Backoff strategies\<close>

datatype backoff =
    ExponentialBackoff (bo_base: rat) (bo_max: rat) (bo_exp_base: rat) (bo_jitter: bool)
  | LinearBackoff (bo_base: rat) (bo_max: rat)
  | FixedBackoff (bo_delay: rat)

text \<open>\<open>random.uniform(a, b)\<close> for the draw \<open>u\<close> of \<open>random()\<close>, which lies in \<open>[0, 1)\<close>.\<close>

definition uniform :: "rat \<Rightarrow> rat \<Rightarrow> rat \<Rightarrow> rat" where
  "uniform u a b = a + (b - a) * u"

lemma uniform_bounds: "0 \<le> u \<Longrightarrow> u \<le> 1 \<Longrightarrow> a \<le> b \<Longrightarrow> a \<le> uniform u a b \<and> uniform u a b \<le> b"
proof -
  assume u: "0 \<le> u" "u \<le> 1" and ab: "a \<le> b"
  from u ab have "0 \<le> (b - a) * u" by simp
  moreover from u ab have "(b - a) * u \<le> (b - a) * 1" by (intro mult_left_mono) auto
  ultimately show ?thesis by (simp add: uniform_def)
qed

fun calculate_delay :: "backoff \<Rightarrow> rat \<Rightarrow> nat \<Rightarrow> rat \<Rightarrow> rat \<Rightarrow> rat" where
  "calculate_delay (ExponentialBackoff b m e jitter) u attempt base_delay max_delay =
     (let delay = min (base_delay * e ^ attempt) max_delay
      in if jitter then delay + uniform u (- (delay * (1/10))) (delay * (1/10)) else delay)"
| "calculate_delay (LinearBackoff b m) u attempt base_delay max_delay =
     min (base_delay * of_nat (attempt + 1)) max_delay"
| "calculate_delay (FixedBackoff d) u attempt base_delay max_delay = d"

text \<open>The parameters \<open>execute\<close> reads with \<open>getattr\<close>: a \<open>FixedBackoff\<close> has no such attributes.\<close>

fun base_delay_of :: "backoff \<Rightarrow> rat" where
  "base_delay_of (ExponentialBackoff b m e j) = b"
| "base_delay_of (LinearBackoff b m) = b"
| "base_delay_of (FixedBackoff d) = 100"

fun max_delay_of :: "backoff \<Rightarrow> rat" where
  "max_delay_of (ExponentialBackoff b m e j) = m"
| "max_delay_of (LinearBackoff b m) = m"
| "max_delay_of (FixedBackoff d) = 5000"

text \<open>The seconds slept after a failed attempt.\<close>

definition sleep_time :: "backoff \<Rightarrow> rat \<Rightarrow> nat \<Rightarrow> rat" where
  "sleep_time bo u attempt = calculate_delay bo u attempt (base_delay_of bo) (max_delay_of bo) / 1000"

subsection \<open>The executor\<close>

text \<open>What one call of the operation does: it returns a \<open>Result\<close>, returns another value, raises
  \<open>ProviderRateLimitError\<close>, or raises another exception.\<close>

datatype 'a outcome = Returned "'a result" | Value 'a | RaisedRateLimit exn | Raised exn

record retry_stats =
  rs_total_calls :: nat
  rs_successful_calls :: nat
  rs_failed_calls :: nat
  rs_total_attempts :: nat
  rs_last_attempt_count :: nat
  rs_retry_count :: nat
  rs_errors_by_type :: "string option \<Rightarrow> nat option"

record executor =
  rx_max_attempts :: int
  rx_backoff :: backoff
  rx_transient_errors :: "string set"
  rx_breaker :: "breaker option"
  rx_stats :: retry_stats

definition rs_init :: retry_stats where
  "rs_init = \<lparr>rs_total_calls = 0, rs_successful_calls = 0, rs_failed_calls = 0,
     rs_total_attempts = 0, rs_last_attempt_count = 0, rs_retry_count = 0,
     rs_errors_by_type = Map.empty\<rparr>"

definition rx_init ::
  "int \<Rightarrow> backoff option \<Rightarrow> string set \<Rightarrow> breaker option \<Rightarrow> executor" where
  "rx_init m bo te cb = \<lparr>rx_max_attempts = m,
     rx_backoff = (case bo of None \<Rightarrow> ExponentialBackoff 100 5000 2 False | Some b \<Rightarrow> b),
     rx_transient_errors = te, rx_breaker = cb, rx_stats = rs_init\<rparr>"

text \<open>\<open>getattr(last_error, "code", "unknown")\<close>: an \<open>Err\<close> has a code (maybe \<open>None\<close>), a \<open>Pass\<close> has not.\<close>

definition code_of :: "'a result \<Rightarrow> string option" where
  "code_of r = (case r of Err _ c _ \<Rightarrow> c | _ \<Rightarrow> Some ''unknown'')"

definition count_success :: "retry_stats \<Rightarrow> retry_stats" where
  "count_success s = s\<lparr>rs_successful_calls := Suc (rs_successful_calls s)\<rparr>"

definition count_failure :: "retry_stats \<Rightarrow> retry_stats" where
  "count_failure s = s\<lparr>rs_failed_calls := Suc (rs_failed_calls s)\<rparr>"

text \<open>What an attempt means for the loop: leave with a result or an exception, or try again and
  remember the error.\<close>

datatype 'a verdict = Leave "'a result raising" | Again "'a result"

definition judge :: "string set \<Rightarrow> 'a outcome \<Rightarrow> 'a verdict" where
  "judge transient out = (case out of
     Returned r \<Rightarrow> (case r of
         Ok _ \<Rightarrow> Leave (Inr r)
       | Err _ _ retryable \<Rightarrow> if \<not> retryable then Leave (Inr r) else Again r
       | Pass _ \<Rightarrow> Again r)
   | Value v \<Rightarrow> Leave (Inr (Ok v))
   | RaisedRateLimit e \<Rightarrow> Leave (Inl e)
   | Raised e \<Rightarrow>
       if exn_type e \<in> transient then Again (Err (exn_msg e) (Some ''EXECUTION_ERROR'') True)
       else Leave (Inr (Err (exn_msg e) (Some ''PERMANENT_ERROR'') False)))"

text \<open>The counters of a verdict that leaves: success for an \<open>Ok\<close>, failure for an \<open>Err\<close>; the re-raise of
  a rate limit error counts as neither.\<close>

definition tally :: "'a result raising \<Rightarrow> retry_stats \<Rightarrow> retry_stats" where
  "tally r s = (case r of Inl _ \<Rightarrow> s | Inr x \<Rightarrow> if is_ok x then count_success s else count_failure s)"

definition count_attempt :: "nat \<Rightarrow> retry_stats \<Rightarrow> retry_stats" where
  "count_attempt attempt s = s\<lparr>rs_total_attempts := Suc (rs_total_attempts s),
                               rs_last_attempt_count := Suc attempt\<rparr>"

definition count_retry :: "retry_stats \<Rightarrow> retry_stats" where
  "count_retry s = s\<lparr>rs_retry_count := Suc (rs_retry_count s)\<rparr>"

definition max_retries_exceeded :: "'a result" where
  "max_retries_exceeded = Err ''MAX_RETRIES_EXCEEDED'' (Some ''MAX_RETRIES_EXCEEDED'') False"

definition exhausted :: "'a result option \<Rightarrow> retry_stats \<Rightarrow> retry_stats" where
  "exhausted last_error s = (let s = count_failure s in case last_error of
     None \<Rightarrow> s
   | Some r \<Rightarrow> s\<lparr>rs_errors_by_type := bump (code_of r) (rs_errors_by_type s)\<rparr>)"

text \<open>The loop \<open>for attempt in range(max_attempts)\<close>: \<open>attempt\<close> counts up while \<open>left\<close> attempts are left.
  After a failed attempt that is not the last one the code sleeps.\<close>

fun retry_loop ::
  "(nat \<Rightarrow> rat) \<Rightarrow> backoff \<Rightarrow> string set \<Rightarrow> ('w \<Rightarrow> 'a outcome \<times> 'w) \<Rightarrow> nat \<Rightarrow> nat
     \<Rightarrow> 'a result option \<Rightarrow> retry_stats \<Rightarrow> 'w \<Rightarrow> 'a result raising \<times> retry_stats \<times> rat list \<times> 'w" where
  "retry_loop draw bo transient oper attempt 0 last_error s w =
     (Inr max_retries_exceeded, exhausted last_error s, [], w)"
| "retry_loop draw bo transient oper attempt (Suc left) last_error s w =
     (let (out, w') = oper w; s' = count_attempt attempt s
      in case judge transient out of
           Leave r \<Rightarrow> (r, tally r s', [], w')
         | Again r \<Rightarrow>
             (if left > 0 then
                (let (res, s'', sleeps, w'') =
                   retry_loop draw bo transient oper (Suc attempt) left (Some r) (count_retry s') w'
                 in (res, s'', sleep_time bo (draw attempt) attempt # sleeps, w''))
              else retry_loop draw bo transient oper (Suc attempt) 0 (Some r) (count_retry s') w'))"

text \<open>\<open>max_attempts or self._max_attempts\<close>: \<open>None\<close> and 0 both select the instance's own bound.\<close>

definition effective_attempts :: "executor \<Rightarrow> int option \<Rightarrow> int" where
  "effective_attempts rx m = (case m of None \<Rightarrow> rx_max_attempts rx
     | Some n \<Rightarrow> if n = 0 then rx_max_attempts rx else n)"

text \<open>\<open>self._circuit_breaker and await self._circuit_breaker.is_closed()\<close>: the guard as the code has it.\<close>

definition rx_rejects :: "executor \<Rightarrow> bool" where
  "rx_rejects rx = (case rx_breaker rx of Some b \<Rightarrow> cb_is_closed b | None \<Rightarrow> False)"

definition rx_execute ::
  "(nat \<Rightarrow> rat) \<Rightarrow> ('w \<Rightarrow> 'a outcome \<times> 'w) \<Rightarrow> int option \<Rightarrow> backoff option \<Rightarrow> executor \<Rightarrow> 'w
     \<Rightarrow> 'a result raising \<times> executor \<times> rat list \<times> 'w" where
  "rx_execute draw oper max_attempts bo rx w =
     (if rx_rejects rx then (Inr (Err ''CIRCUIT_OPEN'' (Some ''CIRCUIT_OPEN'') False), rx, [], w)
     else (let s = (rx_stats rx)\<lparr>rs_total_calls := Suc (rs_total_calls (rx_stats rx)),
                                  rs_last_attempt_count := 0, rs_retry_count := 0\<rparr>;
               (res, s', sleeps, w') =
                 retry_loop draw (case bo of None \<Rightarrow> rx_backoff rx | Some b \<Rightarrow> b)
                   (rx_transient_errors rx) oper 0 (nat (effective_attempts rx max_attempts)) None s w
           in (res, rx\<lparr>rx_stats := s'\<rparr>, sleeps, w')))"

definition rx_attempt_count :: "executor \<Rightarrow> nat" where
  "rx_attempt_count rx = rs_last_attempt_count (rx_stats rx)"

subsection \<open>The calls of the operation\<close>

text \<open>The world after \<open>i\<close> calls of the operation, and the outcome of call \<open>i\<close>.\<close>

definition iter_world :: "('w \<Rightarrow> 'b \<times> 'w) \<Rightarrow> nat \<Rightarrow> 'w \<Rightarrow> 'w" where
  "iter_world oper i w = ((\<lambda>w. snd (oper w)) ^^ i) w"

definition nth_outcome :: "('w \<Rightarrow> 'b \<times> 'w) \<Rightarrow> 'w \<Rightarrow> nat \<Rightarrow> 'b" where
  "nth_outcome oper w i = fst (oper (iter_world oper i w))"

lemma iter_world_0 [simp]: "iter_world oper 0 w = w"
  by (simp add: iter_world_def)

lemma iter_world_Suc: "iter_world oper (Suc i) w = iter_world oper i (snd (oper w))"
  by (simp only: iter_world_def funpow_Suc_right comp_apply)

lemma nth_outcome_0 [simp]: "nth_outcome oper w 0 = fst (oper w)"
  by (simp add: nth_outcome_def)

lemma nth_outcome_Suc: "nth_outcome oper w (Suc i) = nth_outcome oper (snd (oper w)) i"
  by (simp add: nth_outcome_def iter_world_Suc)

text \<open>The specification of the loop: \<open>n\<close> calls are made, all but the last are retried, and the last
  one either leaves or is the last allowed.\<close>

definition loop_spec ::
  "(nat \<Rightarrow> rat) \<Rightarrow> backoff \<Rightarrow> string set \<Rightarrow> ('w \<Rightarrow> 'a outcome \<times> 'w) \<Rightarrow> nat \<Rightarrow> nat \<Rightarrow> 'w
     \<Rightarrow> nat \<Rightarrow> 'a result raising \<Rightarrow> rat list \<Rightarrow> 'w \<Rightarrow> bool" where
  "loop_spec draw bo transient oper a left w n res sleeps w' \<longleftrightarrow>
     n \<le> left \<and> w' = iter_world oper n w
     \<and> sleeps = map (\<lambda>i. sleep_time bo (draw i) i) [a..<a + n - 1]
     \<and> (\<forall>i. Suc i < n \<longrightarrow> (\<exists>r. judge transient (nth_outcome oper w i) = Again r))
     \<and> (if n = 0 then left = 0 \<and> res = Inr max_retries_exceeded
        else (case judge transient (nth_outcome oper w (n - 1)) of
            Leave r \<Rightarrow> res = r
          | Again r \<Rightarrow> n = left \<and> res = Inr max_retries_exceeded))"

lemma loop_spec_Suc:
  assumes "judge transient (fst (oper w)) = Again r" "0 < left"
    and "loop_spec draw bo transient oper (Suc a) left (snd (oper w)) n res sleeps w'"
  shows "loop_spec draw bo transient oper a (Suc left) w (Suc n) res
           (sleep_time bo (draw a) a # sleeps) w'"
proof -
  from assms(2,3) have n: "0 < n" by (cases "n = 0") (simp_all add: loop_spec_def)
  then have "[a..<a + Suc n - 1] = a # [Suc a..<Suc a + n - 1]"
    by (simp add: upt_conv_Cons)
  moreover have "(\<exists>r. judge transient (nth_outcome oper w i) = Again r)" if "Suc i < Suc n" for i
    using assms that by (cases i) (auto simp: loop_spec_def nth_outcome_Suc)
  moreover have "nth_outcome oper w n = nth_outcome oper (snd (oper w)) (n - 1)"
    using n by (cases n) (simp_all add: nth_outcome_Suc)
  ultimately show ?thesis
    using assms(3) n by (auto simp: loop_spec_def iter_world_Suc split: verdict.splits)
qed

lemma retry_loop_spec:
  "retry_loop draw bo transient oper a left le s w = (res, s', sleeps, w') \<Longrightarrow>
   \<exists>n. loop_spec draw bo transient oper a left w n res sleeps w'
     \<and> rs_total_attempts s' = rs_total_attempts s + n
     \<and> rs_last_attempt_count s' = (if n = 0 then rs_last_attempt_count s else a + n)"
proof (induction left arbitrary: a le s w res s' sleeps w')
  case 0
  then show ?case
    by (auto simp: loop_spec_def exhausted_def count_failure_def Let_def split: option.splits)
next
  case (Suc left)
  show ?case
  proof (cases "judge transient (fst (oper w))")
    case (Leave r)
    with Suc.prems have "res = r" "sleeps = []" "w' = snd (oper w)" "s' = tally r (count_attempt a s)"
      by (auto simp: split_beta Let_def)
    with Leave have "loop_spec draw bo transient oper a (Suc left) w 1 res sleeps w'"
      "rs_total_attempts s' = rs_total_attempts s + 1" "rs_last_attempt_count s' = a + 1"
      by (auto simp: loop_spec_def iter_world_def tally_def count_attempt_def count_success_def
          count_failure_def split: sum.splits)
    then show ?thesis by (metis One_nat_def zero_neq_one)
  next
    case (Again r)
    show ?thesis
    proof (cases "left = 0")
      case True
      with Again Suc.prems have "res = Inr max_retries_exceeded" "sleeps = []" "w' = snd (oper w)"
        "s' = exhausted (Some r) (count_retry (count_attempt a s))"
        by (simp_all add: split_beta Let_def)
      with Again True have "loop_spec draw bo transient oper a (Suc left) w 1 res sleeps w'"
        "rs_total_attempts s' = rs_total_attempts s + 1" "rs_last_attempt_count s' = a + 1"
        by (auto simp: loop_spec_def iter_world_def exhausted_def count_attempt_def count_retry_def
            count_failure_def Let_def)
      then show ?thesis by (metis One_nat_def zero_neq_one)
    next
      case False
      obtain res0 s0 sl0 w0 where rec: "retry_loop draw bo transient oper (Suc a) left (Some r)
          (count_retry (count_attempt a s)) (snd (oper w)) = (res0, s0, sl0, w0)"
        by (metis prod_cases4)
      with Again False Suc.prems
      have eqs: "res = res0" "s' = s0" "sleeps = sleep_time bo (draw a) a # sl0" "w' = w0"
        by (simp_all add: split_beta Let_def)
      from Suc.IH [OF rec] obtain n where
        n: "loop_spec draw bo transient oper (Suc a) left (snd (oper w)) n res0 sl0 w0"
        "rs_total_attempts s0 = rs_total_attempts s + Suc n"
        "rs_last_attempt_count s0 = (if n = 0 then Suc a else Suc a + n)"
        by (auto simp: count_retry_def count_attempt_def)
      then have "loop_spec draw bo transient oper a (Suc left) w (Suc n) res sleeps w'"
        using loop_spec_Suc [OF Again _ n(1)] False eqs by simp
      with n eqs show ?thesis by (intro exI [of _ "Suc n"]) auto
    qed
  qed
qed

subsection \<open>Properties\<close>

text \<open>The attempts a run is allowed.\<close>

abbreviation allowed :: "executor \<Rightarrow> int option \<Rightarrow> nat" where
  "allowed rx m \<equiv> nat (effective_attempts rx m)"

abbreviation chosen_backoff :: "executor \<Rightarrow> backoff option \<Rightarrow> backoff" where
  "chosen_backoff rx bo \<equiv> (case bo of None \<Rightarrow> rx_backoff rx | Some b \<Rightarrow> b)"

lemma rx_execute_run:
  assumes "\<not> rx_rejects rx" "rx_execute draw oper m bo rx w = (res, rx', sleeps, w')"
  shows "\<exists>s'. rx' = rx\<lparr>rx_stats := s'\<rparr> \<and>
    retry_loop draw (chosen_backoff rx bo) (rx_transient_errors rx) oper 0 (allowed rx m) None
      ((rx_stats rx)\<lparr>rs_total_calls := Suc (rs_total_calls (rx_stats rx)),
         rs_last_attempt_count := 0, rs_retry_count := 0\<rparr>) w = (res, s', sleeps, w')"
  using assms by (simp add: rx_execute_def Let_def split: prod.splits)

text \<open>C4. A run that the breaker admits makes \<open>n\<close> calls of the operation, no more than the attempts it
  is allowed, where \<open>n\<close> is the attempt count the executor reports. Every call but the last was
  retryable; the result is the verdict on the last call, or \<open>MAX_RETRIES_EXCEEDED\<close> when that one was
  retryable too and the attempts are used up. Between the calls the executor sleeps the backoff
  delay of each attempt, and it never sleeps after the last.\<close>

theorem retry_run_spec:
  assumes "\<not> rx_rejects rx" "rx_execute draw oper m bo rx w = (res, rx', sleeps, w')"
  shows "loop_spec draw (chosen_backoff rx bo) (rx_transient_errors rx) oper 0 (allowed rx m) w
           (rx_attempt_count rx') res sleeps w'
       \<and> rs_total_attempts (rx_stats rx') = rs_total_attempts (rx_stats rx) + rx_attempt_count rx'
       \<and> rx_attempt_count rx' \<le> allowed rx m"
proof -
  from rx_execute_run [OF assms] obtain s' where s': "rx' = rx\<lparr>rx_stats := s'\<rparr>"
    and loop: "retry_loop draw (chosen_backoff rx bo) (rx_transient_errors rx) oper 0 (allowed rx m) None
      ((rx_stats rx)\<lparr>rs_total_calls := Suc (rs_total_calls (rx_stats rx)),
         rs_last_attempt_count := 0, rs_retry_count := 0\<rparr>) w = (res, s', sleeps, w')"
    by blast
  from retry_loop_spec [OF loop] obtain n where
    n: "loop_spec draw (chosen_backoff rx bo) (rx_transient_errors rx) oper 0 (allowed rx m) w n res sleeps w'"
    and "rs_total_attempts s' = rs_total_attempts (rx_stats rx) + n" "rs_last_attempt_count s' = n"
    by (auto split: if_splits)
  moreover from n have "n \<le> allowed rx m" by (simp add: loop_spec_def)
  ultimately show ?thesis by (simp add: s' rx_attempt_count_def)
qed

text \<open>An operation that plays a script of outcomes.\<close>

fun play :: "'a outcome list \<Rightarrow> 'a outcome \<times> 'a outcome list" where
  "play [] = (Raised (Exn ''IndexError'' ''script''), [])"
| "play (x # xs) = (x, xs)"

definition demo_executor :: executor where
  "demo_executor = rx_init 3 None {''TimeoutError''} None"

theorem retry_run_spec_witness:
  "\<exists>rx'. rx_execute (\<lambda>_. 0) play None None demo_executor
     [Raised (Exn ''TimeoutError'' ''t''), Returned (Err ''e'' None True), Value (7::nat)]
       = (Inr (Ok 7), rx', [1/10, 1/5], []) \<and> rx_attempt_count rx' \<le> 3"
proof -
  let ?script = "[Raised (Exn ''TimeoutError'' ''t''), Returned (Err ''e'' None True), Value (7::nat)]"
  obtain res rx' sl w' where run: "rx_execute (\<lambda>_. 0) play None None demo_executor ?script = (res, rx', sl, w')"
    by (metis prod_cases4)
  then have "res = Inr (Ok 7)" "sl = [1/10, 1/5]" "w' = []"
    by (auto simp: rx_execute_def rx_rejects_def demo_executor_def rx_init_def effective_attempts_def
        judge_def sleep_time_def Let_def eval_nat_numeral)
  moreover have "\<not> rx_rejects demo_executor" "allowed demo_executor None = 3"
    by (simp_all add: demo_executor_def rx_rejects_def rx_init_def effective_attempts_def)
  ultimately show ?thesis
    using retry_run_spec [OF _ run] run by auto
qed

lemma tally_sum:
  "rs_successful_calls (tally r s) + rs_failed_calls (tally r s) + (if raises r then 1 else 0)
     = rs_successful_calls s + rs_failed_calls s + 1"
  by (auto simp: tally_def count_success_def count_failure_def split: sum.splits)

lemma retry_loop_sum:
  "retry_loop draw bo transient oper a left le s w = (res, s', sleeps, w') \<Longrightarrow>
   rs_successful_calls s' + rs_failed_calls s' + (if raises res then 1 else 0)
     = rs_successful_calls s + rs_failed_calls s + 1
   \<and> rs_total_calls s' = rs_total_calls s"
proof (induction left arbitrary: a le s w res s' sleeps w')
  case 0
  then show ?case
    by (auto simp: exhausted_def count_failure_def max_retries_exceeded_def Let_def split: option.splits)
next
  case (Suc left)
  show ?case
  proof (cases "judge transient (fst (oper w))")
    case (Leave r)
    with Suc.prems have "res = r" "s' = tally r (count_attempt a s)"
      by (auto simp: split_beta Let_def)
    with tally_sum [of r "count_attempt a s"] show ?thesis
      by (auto simp: tally_def count_attempt_def count_failure_def count_success_def split: sum.splits)
  next
    case (Again r)
    obtain res0 s0 sl0 w0 where rec: "retry_loop draw bo transient oper (Suc a) left (Some r)
          (count_retry (count_attempt a s)) (snd (oper w)) = (res0, s0, sl0, w0)"
      by (metis prod_cases4)
    with Again Suc.prems have "res = res0" "s' = s0"
      by (auto simp: split_beta Let_def split: if_splits)
    with Suc.IH [OF rec] show ?thesis
      by (simp add: count_attempt_def count_retry_def)
  qed
qed

text \<open>The call statistics add up: each admitted call is counted once, as a success or as a failure,
  except that a call left by a re-raised \<open>ProviderRateLimitError\<close> is counted as neither.\<close>

theorem retry_accounting:
  assumes "\<not> rx_rejects rx" "rx_execute draw oper m bo rx w = (res, rx', sleeps, w')"
  shows "rs_total_calls (rx_stats rx') = Suc (rs_total_calls (rx_stats rx))
    \<and> rs_successful_calls (rx_stats rx') + rs_failed_calls (rx_stats rx') + (if raises res then 1 else 0)
        = rs_successful_calls (rx_stats rx) + rs_failed_calls (rx_stats rx) + 1"
proof -
  from rx_execute_run [OF assms] obtain s' where "rx' = rx\<lparr>rx_stats := s'\<rparr>"
    and "retry_loop draw (chosen_backoff rx bo) (rx_transient_errors rx) oper 0 (allowed rx m) None
      ((rx_stats rx)\<lparr>rs_total_calls := Suc (rs_total_calls (rx_stats rx)),
         rs_last_attempt_count := 0, rs_retry_count := 0\<rparr>) w = (res, s', sleeps, w')"
    by blast
  then show ?thesis using retry_loop_sum by force
qed

theorem retry_accounting_witness:
  "\<exists>rx' w'. rx_execute (\<lambda>_. 0) play None None demo_executor [Value (7::nat)] = (Inr (Ok 7), rx', [], w')
     \<and> rs_total_calls (rx_stats rx') = 1 \<and> rs_successful_calls (rx_stats rx') + rs_failed_calls (rx_stats rx') = 1"
proof -
  obtain res rx' sl w' where run: "rx_execute (\<lambda>_. 0) play None None demo_executor [Value (7::nat)] = (res, rx', sl, w')"
    by (metis prod_cases4)
  then have "res = Inr (Ok 7)" "sl = []"
    by (auto simp: rx_execute_def rx_rejects_def demo_executor_def rx_init_def effective_attempts_def
        judge_def Let_def eval_nat_numeral)
  moreover have "\<not> rx_rejects demo_executor" "rs_total_calls (rx_stats demo_executor) = 0"
    "rs_successful_calls (rx_stats demo_executor) = 0" "rs_failed_calls (rx_stats demo_executor) = 0"
    by (simp_all add: demo_executor_def rx_rejects_def rx_init_def rs_init_def)
  ultimately show ?thesis
    using retry_accounting [OF _ run] run by auto
qed

text \<open>The breaker guard is inverted: with a breaker in its initial state, or in any state that its
  operations reach without an explicit \<open>open\<close>, every execution is rejected as \<open>CIRCUIT_OPEN\<close> without
  calling the operation and without touching the statistics; only after \<open>open\<close> are calls let
  through.\<close>

theorem retry_rejects_closed_circuit:
  assumes "rx_breaker rx = Some (cb_run (cb_init ft ht t rt) ps)" "CbOpen \<notin> set ps"
  shows "rx_execute draw oper m bo rx w = (Inr (Err ''CIRCUIT_OPEN'' (Some ''CIRCUIT_OPEN'') False), rx, [], w)
    \<and> \<not> rx_rejects (rx\<lparr>rx_breaker := Some (cb_run (cb_init ft ht t rt) (ps @ [CbOpen]))\<rparr>)"
proof -
  have init: "cb_state (cb_init ft ht t rt) = CLOSED" by (simp add: cb_init_def)
  have "\<not> (\<exists>xs ys. ps = xs @ CbOpen # ys \<and> CbClose \<notin> set ys)" using assms(2) by auto
  then have "cb_last CLOSED ps = CLOSED" using cb_last_open_iff by blast
  then have "cb_is_closed (cb_run (cb_init ft ht t rt) ps)"
    by (simp add: cb_is_closed_def cb_run_state init)
  moreover have "\<not> cb_is_closed (cb_run (cb_init ft ht t rt) (ps @ [CbOpen]))"
    by (simp add: cb_is_closed_def cb_run_state init cb_last_snoc)
  ultimately show ?thesis
    using assms(1) by (simp add: rx_execute_def rx_rejects_def)
qed

theorem retry_rejects_closed_circuit_witness:
  "rx_execute (\<lambda>_. 0) play None None (rx_init 3 None {} (Some (cb_init 5 3 300 600))) [Value (7::nat)]
     = (Inr (Err ''CIRCUIT_OPEN'' (Some ''CIRCUIT_OPEN'') False),
        rx_init 3 None {} (Some (cb_init 5 3 300 600)), [], [Value 7])"
  using retry_rejects_closed_circuit [of "rx_init 3 None {} (Some (cb_init 5 3 300 600))" 5 3 300 600 "[]"
      "\<lambda>_. 0" play None None "[Value (7::nat)]"]
  by (simp add: rx_init_def)

subsection \<open>Bounds of the delays\<close>

lemma exp_delay_mono:
  assumes "0 \<le> b" "1 \<le> e" "i \<le> j"
  shows "min (b * e ^ i) m \<le> min (b * e ^ j) (m::rat)"
proof -
  have "b * e ^ i \<le> b * e ^ j"
    using assms by (intro mult_left_mono power_increasing) auto
  then show ?thesis by auto
qed

text \<open>Delays are bounded and never shrink: without jitter the exponential and the linear strategy
  stay between 0 and the maximal delay and grow with the attempt; with jitter the delay stays
  within a tenth of the one without jitter, so it may pass the maximal delay by a tenth.\<close>

theorem backoff_bounds:
  assumes "0 \<le> b" "0 \<le> m" "1 \<le> e" "i \<le> j" "0 \<le> u" "u \<le> 1"
  defines "plain \<equiv> calculate_delay (ExponentialBackoff b m e False) u"
    and "jittered \<equiv> calculate_delay (ExponentialBackoff b m e True) u"
    and "lindelay \<equiv> calculate_delay (LinearBackoff b m) u"
  shows "0 \<le> plain i b m \<and> plain i b m \<le> plain j b m \<and> plain j b m \<le> m
    \<and> 0 \<le> lindelay i b m \<and> lindelay i b m \<le> lindelay j b m \<and> lindelay j b m \<le> m
    \<and> plain i b m * (9/10) \<le> jittered i b m \<and> jittered i b m \<le> plain i b m * (11/10)"
proof -
  have pos: "0 \<le> b * e ^ i" using assms(1,3) by simp
  have lin: "b * of_nat (i + 1) \<le> b * of_nat (j + 1)"
    using assms(1,4) by (intro mult_left_mono) auto
  have lin0: "0 \<le> b * of_nat (i + 1)" using assms(1) by simp
  let ?d = "min (b * e ^ i) m"
  have d: "0 \<le> ?d" using pos assms(2) by simp
  have jit: "jittered i b m = ?d + uniform u (- (?d * (1/10))) (?d * (1/10))"
    by (simp add: jittered_def Let_def)
  have "- (?d * (1/10)) \<le> uniform u (- (?d * (1/10))) (?d * (1/10))
      \<and> uniform u (- (?d * (1/10))) (?d * (1/10)) \<le> ?d * (1/10)"
    by (rule uniform_bounds [OF assms(5,6)]) (use d in linarith)
  moreover have "plain i b m = ?d" by (simp add: plain_def)
  ultimately have j: "plain i b m * (9/10) \<le> jittered i b m" "jittered i b m \<le> plain i b m * (11/10)"
    unfolding jit by linarith+
  have p: "plain i b m \<le> plain j b m"
    using exp_delay_mono [OF assms(1,3,4)] by (simp add: plain_def)
  have l: "0 \<le> lindelay i b m" "lindelay i b m \<le> lindelay j b m" "lindelay j b m \<le> m"
    using lin lin0 assms(2) by (auto simp: lindelay_def)
  show ?thesis using d j p l by (simp add: plain_def)
qed

theorem backoff_bounds_witness:
  "calculate_delay (ExponentialBackoff 100 5000 2 False) 1 3 100 5000 = 800
   \<and> (800::rat) * (9/10) \<le> calculate_delay (ExponentialBackoff 100 5000 2 True) 1 3 100 5000
   \<and> calculate_delay (ExponentialBackoff 100 5000 2 True) 1 6 100 5000 = 5500"
  using backoff_bounds [of 100 5000 2 3 6 1] by (simp add: uniform_def Let_def)

end
