(* ===== verification/Reliability.thy ===== *)
theory Reliability
  imports Retry Limiter
begin

text \<open>
  The resilience wrapper of \<open>llm/reliability.py\<close>: a provider call behind the rate limiter, the circuit
  breaker and the retry executor, in this order, with its statistics. The provider is a callback
  of the world \<open>'w\<close>.
\<close>

record lr_stats =
  ls_total :: nat
  ls_successful :: nat
  ls_failed :: nat
  ls_rate_limit_rejections :: nat
  ls_circuit_rejections :: nat
  ls_retry_attempts :: nat
  ls_errors_by_type :: "string option \<Rightarrow> nat option"

record reliability =
  lr_limiter :: "limiter option"
  lr_breaker :: "breaker option"
  lr_retry :: "executor option"
  lr_stats :: lr_stats

definition lr_init :: "limiter option \<Rightarrow> breaker option \<Rightarrow> executor option \<Rightarrow> reliability" where
  "lr_init l b r = \<lparr>lr_limiter = l, lr_breaker = b, lr_retry = r,
     lr_stats = \<lparr>ls_total = 0, ls_successful = 0, ls_failed = 0, ls_rate_limit_rejections = 0,
       ls_circuit_rejections = 0, ls_retry_attempts = 0, ls_errors_by_type = Map.empty\<rparr>\<rparr>"

text \<open>\<open>set_rate_limiter\<close> calls the limiter it is given: \<open>rate_limiter() if rate_limiter else None\<close>. A
  \<open>RateLimiterImpl\<close> is not callable, so storing one raises.\<close>

definition lr_set_rate_limiter :: "limiter option \<Rightarrow> reliability \<Rightarrow> reliability raising" where
  "lr_set_rate_limiter l lr = (case l of
     Some _ \<Rightarrow> Inl (Exn ''TypeError'' ''RateLimiterImpl object is not callable'')
   | None \<Rightarrow> Inr (lr\<lparr>lr_limiter := None\<rparr>))"

definition lr_set_circuit_breaker :: "breaker option \<Rightarrow> reliability \<Rightarrow> reliability" where
  "lr_set_circuit_breaker b lr = lr\<lparr>lr_breaker := b\<rparr>"

definition lr_set_retry_executor :: "executor option \<Rightarrow> reliability \<Rightarrow> reliability" where
  "lr_set_retry_executor r lr = lr\<lparr>lr_retry := r\<rparr>"

text \<open>\<open>_get_provider_name\<close>: an adapter without the method, and one whose method raises, are unknown.\<close>

definition lr_provider_name :: "string raising option \<Rightarrow> string" where
  "lr_provider_name adapter = (case adapter of
     Some (Inr n) \<Rightarrow> n
   | Some (Inl _) \<Rightarrow> ''unknown''
   | None \<Rightarrow> ''unknown'')"

subsection \<open>The layers\<close>

definition ls_count_total :: "lr_stats \<Rightarrow> lr_stats" where
  "ls_count_total s = s\<lparr>ls_total := Suc (ls_total s)\<rparr>"

definition ls_reject :: "(lr_stats \<Rightarrow> lr_stats) \<Rightarrow> string \<Rightarrow> lr_stats \<Rightarrow> lr_stats" where
  "ls_reject count kind s = (let s = count s in
     s\<lparr>ls_failed := Suc (ls_failed s), ls_errors_by_type := bump (Some kind) (ls_errors_by_type s)\<rparr>)"

definition ls_count_rate :: "lr_stats \<Rightarrow> lr_stats" where
  "ls_count_rate s = s\<lparr>ls_rate_limit_rejections := Suc (ls_rate_limit_rejections s)\<rparr>"

definition ls_count_circuit :: "lr_stats \<Rightarrow> lr_stats" where
  "ls_count_circuit s = s\<lparr>ls_circuit_rejections := Suc (ls_circuit_rejections s)\<rparr>"

definition ls_finish :: "'a result \<Rightarrow> lr_stats \<Rightarrow> lr_stats" where
  "ls_finish r s =
     (if is_ok r then s\<lparr>ls_successful := Suc (ls_successful s)\<rparr>
      else s\<lparr>ls_failed := Suc (ls_failed s),
             ls_errors_by_type := bump (code_of r) (ls_errors_by_type s)\<rparr>)"

text \<open>\<open>_call_provider\<close> asks the provider's answer \<open>is_err()\<close>: a value that is not a \<open>Result\<close> raises.\<close>

definition call_provider :: "('w \<Rightarrow> 'a outcome \<times> 'w) \<Rightarrow> 'w \<Rightarrow> 'a outcome \<times> 'w" where
  "call_provider provider w = (case provider w of
     (Value v, w') \<Rightarrow> (Raised (Exn ''AttributeError'' ''is_err''), w')
   | (out, w') \<Rightarrow> (out, w'))"

definition outcome_result :: "'a outcome \<Rightarrow> 'a result raising" where
  "outcome_result out = (case out of Returned r \<Rightarrow> Inr r | Value v \<Rightarrow> Inr (Ok v)
     | RaisedRateLimit e \<Rightarrow> Inl e | Raised e \<Rightarrow> Inl e)"

definition rate_rejected :: "string \<Rightarrow> string \<Rightarrow> 'a result" where
  "rate_rejected name resource =
     Err (''Rate limit exceeded for '' @ name @ ''/'' @ resource) (Some ''RATE_LIMIT_EXCEEDED'') False"

definition circuit_rejected :: "string \<Rightarrow> 'a result" where
  "circuit_rejected name = Err (''Circuit is closed for '' @ name) (Some ''CIRCUIT_CLOSED'') False"

text \<open>The third layer: the call through the retry executor, or directly.\<close>

definition lr_call ::
  "(nat \<Rightarrow> rat) \<Rightarrow> ('w \<Rightarrow> 'a outcome \<times> 'w) \<Rightarrow> reliability \<Rightarrow> 'w
     \<Rightarrow> 'a result raising \<times> reliability \<times> rat list \<times> 'w" where
  "lr_call draw provider lr w = (case lr_retry lr of
     Some rx \<Rightarrow>
       (let (res, rx', sleeps, w') = rx_execute draw (call_provider provider) None None rx w;
            n = rx_attempt_count rx';
            lr' = lr\<lparr>lr_retry := Some rx'\<rparr>
        in (res,
            (case res of
               Inl _ \<Rightarrow> lr'
             | Inr _ \<Rightarrow> if 1 < n then lr'\<lparr>lr_stats := (lr_stats lr')
                 \<lparr>ls_retry_attempts := ls_retry_attempts (lr_stats lr') + (n - 1)\<rparr>\<rparr> else lr'),
            sleeps, w'))
   | None \<Rightarrow>
       (let (out, w') = call_provider provider w in (outcome_result out, lr, [], w')))"

text \<open>The first layer: the count of the call, and the token. \<open>(t0, t1, t2)\<close> are the clock readings of
  the limiter.\<close>

definition lr_admit :: "rat \<times> rat \<times> rat \<Rightarrow> string \<Rightarrow> reliability \<Rightarrow> bool \<times> reliability" where
  "lr_admit clock resource lr0 =
     (let lr = lr0\<lparr>lr_stats := ls_count_total (lr_stats lr0)\<rparr>; (t0, t1, t2) = clock
      in case lr_limiter lr of
           None \<Rightarrow> (True, lr)
         | Some l \<Rightarrow> (let (r, l') = rl_try_acquire t0 t1 t2 resource 1 l
                      in (\<not> is_err r, lr\<lparr>lr_limiter := Some l'\<rparr>)))"

definition lr_blocked :: "reliability \<Rightarrow> bool" where
  "lr_blocked lr = (case lr_breaker lr of Some b \<Rightarrow> cb_is_closed b | None \<Rightarrow> False)"

text \<open>\<open>generate_with_resilience\<close>. An exception of the provider leaves the method before the final
  statistics.\<close>

definition lr_generate ::
  "rat \<times> rat \<times> rat \<Rightarrow> (nat \<Rightarrow> rat) \<Rightarrow> string raising option \<Rightarrow> string
     \<Rightarrow> ('w \<Rightarrow> 'a outcome \<times> 'w) \<Rightarrow> reliability \<Rightarrow> 'w
     \<Rightarrow> 'a result raising \<times> reliability \<times> rat list \<times> 'w" where
  "lr_generate clock draw adapter resource provider lr0 w =
     (let name = lr_provider_name adapter;
          (admitted, lr) = lr_admit clock resource lr0
      in if \<not> admitted then
           (Inr (rate_rejected name resource),
            lr\<lparr>lr_stats := ls_reject ls_count_rate ''rate_limit'' (lr_stats lr)\<rparr>, [], w)
         else if lr_blocked lr then
           (Inr (circuit_rejected name),
            lr\<lparr>lr_stats := ls_reject ls_count_circuit ''circuit_breaker'' (lr_stats lr)\<rparr>, [], w)
         else
           (let (res, lr', sleeps, w') = lr_call draw provider lr w
            in (res,
                (case res of Inl _ \<Rightarrow> lr' | Inr r \<Rightarrow> lr'\<lparr>lr_stats := ls_finish r (lr_stats lr')\<rparr>),
                sleeps, w')))"

subsection \<open>Properties\<close>

text \<open>The counters as one sum: every call ends as a success, a failure or a raised exception.\<close>

definition ls_sum :: "lr_stats \<Rightarrow> nat" where
  "ls_sum s = ls_successful s + ls_failed s"

lemma lr_call_stats:
  "lr_call draw provider lr w = (res, lr', sleeps, w') \<Longrightarrow>
   ls_total (lr_stats lr') = ls_total (lr_stats lr) \<and> ls_sum (lr_stats lr') = ls_sum (lr_stats lr)
   \<and> ls_rate_limit_rejections (lr_stats lr') = ls_rate_limit_rejections (lr_stats lr)
   \<and> ls_circuit_rejections (lr_stats lr') = ls_circuit_rejections (lr_stats lr)
   \<and> lr_limiter lr' = lr_limiter lr \<and> lr_breaker lr' = lr_breaker lr"
  by (auto simp: lr_call_def ls_sum_def Let_def split: option.splits prod.splits sum.splits if_splits)

lemma ls_finish_sum [simp]:
  "ls_sum (ls_finish r s) = Suc (ls_sum s)" "ls_total (ls_finish r s) = ls_total s"
  by (simp_all add: ls_finish_def ls_sum_def)

lemma lr_admit_stats:
  "ls_sum (lr_stats (snd (lr_admit clock resource lr))) = ls_sum (lr_stats lr)
   \<and> ls_total (lr_stats (snd (lr_admit clock resource lr))) = Suc (ls_total (lr_stats lr))
   \<and> lr_breaker (snd (lr_admit clock resource lr)) = lr_breaker lr"
  by (auto simp: lr_admit_def ls_count_total_def ls_sum_def Let_def split: option.splits prod.splits)

lemma ls_reject_sum [simp]:
  "ls_sum (ls_reject ls_count_rate k s) = Suc (ls_sum s)"
  "ls_sum (ls_reject ls_count_circuit k s) = Suc (ls_sum s)"
  "ls_total (ls_reject ls_count_rate k s) = ls_total s"
  "ls_total (ls_reject ls_count_circuit k s) = ls_total s"
  by (simp_all add: ls_reject_def ls_count_rate_def ls_count_circuit_def ls_sum_def Let_def)

text \<open>The three layers are applied in order and fail fast. A refused token ends the call with
  \<open>RATE_LIMIT_EXCEEDED\<close>, a \<open>CLOSED\<close> breaker ends it with \<open>CIRCUIT_CLOSED\<close> although the token is already
  spent; in both cases the provider is not called and nothing is slept. Otherwise the result, the
  delays and the world are those of the call through the retry executor. In every case the call is
  counted in the total, and once more as a success or a failure unless it raised.\<close>

theorem layers_in_order:
  assumes "lr_generate clock draw adapter resource provider lr w = (res, lr', sleeps, w')"
    and "lr_admit clock resource lr = (admitted, lra)"
  shows "(if \<not> admitted then res = Inr (rate_rejected (lr_provider_name adapter) resource) \<and> w' = w \<and> sleeps = []
          else if lr_blocked lr then res = Inr (circuit_rejected (lr_provider_name adapter)) \<and> w' = w \<and> sleeps = []
               \<and> lr_limiter lr' = lr_limiter lra
          else \<exists>lr''. lr_call draw provider lra w = (res, lr'', sleeps, w'))
    \<and> ls_total (lr_stats lr') = Suc (ls_total (lr_stats lr))
    \<and> ls_sum (lr_stats lr') + (if raises res then 1 else 0) = Suc (ls_sum (lr_stats lr))"
proof -
  from lr_admit_stats [of clock resource lr] assms(2)
  have adm: "ls_sum (lr_stats lra) = ls_sum (lr_stats lr)"
    "ls_total (lr_stats lra) = Suc (ls_total (lr_stats lr))" "lr_blocked lra = lr_blocked lr"
    by (simp_all add: lr_blocked_def)
  obtain res1 lr1 sl1 w1 where call: "lr_call draw provider lra w = (res1, lr1, sl1, w1)"
    by (metis prod_cases4)
  note stats = lr_call_stats [OF call] adm
  show ?thesis
    using assms call stats
    by (auto simp: lr_generate_def Let_def split: if_splits sum.splits)
qed

theorem layers_in_order_witness:
  "let lr = lr_init (Some (rl_init 1 1 60)) (Some (cb_init 5 3 300 600)) None in
   fst (lr_generate (0, 0, 0) (\<lambda>_. 0) None ''openai'' play lr [Value (7::nat)])
     = Inr (circuit_rejected ''unknown'')"
proof -
  let ?lr = "lr_init (Some (rl_init 1 1 60)) (Some (cb_init 5 3 300 600)) None"
  obtain res lr' sl w' where run:
    "lr_generate (0, 0, 0) (\<lambda>_. 0) None ''openai'' play ?lr [Value (7::nat)] = (res, lr', sl, w')"
    by (metis prod_cases4)
  obtain ad lra where adm: "lr_admit (0, 0, 0) ''openai'' ?lr = (ad, lra)" by (metis surj_pair)
  moreover from adm have ad
    by (auto simp: lr_admit_def lr_init_def rl_init_def rl_try_acquire_def rl_bucket_def
        rl_default_bucket_def tb_init_def tb_try_acquire_def Let_def)
  moreover have "lr_blocked ?lr"
    by (simp add: lr_blocked_def lr_init_def cb_init_def cb_is_closed_def)
  ultimately show ?thesis
    using layers_in_order [OF run adm] run by (simp add: lr_provider_name_def)
qed

end
