(* ===== verification/Bulkheads.thy ===== *)
theory Bulkheads
  imports Results
begin

text \<open>
  The bulkhead of \<open>llm/bulkhead.py\<close>: one semaphore per resource, made on first use with the limit the
  resource has then. Semaphores are objects with an identity, kept in a store of permit counts;
  the dictionary of active counts is an association list because \<open>release\<close> walks it in order.
\<close>

type_synonym sem = nat

record bulkhead =
  bh_semaphores :: "string \<Rightarrow> sem option"
  bh_store :: "sem \<Rightarrow> int option"
  bh_next :: sem
  bh_limits :: "string \<Rightarrow> int option"
  bh_active :: "(string \<times> int) list"
  bh_timeouts :: "string \<Rightarrow> rat option"
  bh_managed :: "sem set"

definition bh_init :: bulkhead where
  "bh_init = \<lparr>bh_semaphores = Map.empty, bh_store = Map.empty, bh_next = 0, bh_limits = Map.empty,
     bh_active = [], bh_timeouts = Map.empty, bh_managed = {}\<rparr>"

definition bh_set_limit :: "string \<Rightarrow> int \<Rightarrow> bulkhead \<Rightarrow> bulkhead" where
  "bh_set_limit r n b = b\<lparr>bh_limits := (bh_limits b)(r \<mapsto> n)\<rparr>"

definition bh_set_timeout :: "string \<Rightarrow> rat \<Rightarrow> bulkhead \<Rightarrow> bulkhead" where
  "bh_set_timeout r t b = b\<lparr>bh_timeouts := (bh_timeouts b)(r \<mapsto> t)\<rparr>"

definition bh_get_limit :: "string \<Rightarrow> bulkhead \<Rightarrow> int" where
  "bh_get_limit r b = (case bh_limits b r of Some n \<Rightarrow> n | None \<Rightarrow> 1)"

definition bh_get_timeout :: "string \<Rightarrow> bulkhead \<Rightarrow> rat" where
  "bh_get_timeout r b = (case bh_timeouts b r of Some t \<Rightarrow> t | None \<Rightarrow> 30)"

text \<open>\<open>asyncio.Semaphore(limit)\<close> raises \<open>ValueError\<close> for a negative limit.\<close>

definition bh_get_semaphore :: "string \<Rightarrow> bulkhead \<Rightarrow> (sem \<times> bulkhead) raising" where
  "bh_get_semaphore r b = (case bh_semaphores b r of
     Some i \<Rightarrow> Inr (i, b)
   | None \<Rightarrow>
       if bh_get_limit r b < 0 then Inl (Exn ''ValueError'' ''Semaphore initial value must be >= 0'')
       else Inr (bh_next b, b\<lparr>bh_semaphores := (bh_semaphores b)(r \<mapsto> bh_next b),
                              bh_store := (bh_store b)(bh_next b \<mapsto> bh_get_limit r b),
                              bh_next := Suc (bh_next b)\<rparr>))"

text \<open>The permits a semaphore has left.\<close>

definition bh_permits :: "sem \<Rightarrow> bulkhead \<Rightarrow> int" where
  "bh_permits i b = (case bh_store b i of Some n \<Rightarrow> n | None \<Rightarrow> 0)"

definition bh_add_permit :: "sem \<Rightarrow> int \<Rightarrow> bulkhead \<Rightarrow> bulkhead" where
  "bh_add_permit i d b = b\<lparr>bh_store := (bh_store b)(i \<mapsto> bh_permits i b + d)\<rparr>"

definition active_of :: "string \<Rightarrow> (string \<times> int) list \<Rightarrow> int" where
  "active_of r a = (case map_of a r of Some n \<Rightarrow> n | None \<Rightarrow> 0)"

text \<open>\<open>try_acquire\<close> seen at the moment it is decided: the semaphore has a permit and is taken, or no
  permit came within the timeout (which is positive). \<open>fmt\<close> is the text of a float.\<close>

definition bh_try_acquire :: "(rat \<Rightarrow> string) \<Rightarrow> string \<Rightarrow> bulkhead \<Rightarrow> sem result \<times> bulkhead" where
  "bh_try_acquire fmt r b = (case bh_get_semaphore r b of
     Inl e \<Rightarrow> (Err (''Failed to acquire semaphore for '' @ r @ '': '' @ exn_msg e)
                (Some ''BULKHEAD_ERROR'') False, b)
   | Inr (i, b) \<Rightarrow>
       if 0 < bh_permits i b then
         (Ok i, (bh_add_permit i (- 1) b)
            \<lparr>bh_managed := insert i (bh_managed b),
             bh_active := AList.update r (active_of r (bh_active b) + 1) (bh_active b)\<rparr>)
       else (Err (''Failed to acquire semaphore for '' @ r @ '' after '' @ fmt (bh_get_timeout r b) @ ''s'')
               (Some ''ACQUISITION_TIMEOUT'') False, b))"

text \<open>The loop of \<open>release\<close> over the active counts: the first positive count, of whichever resource,
  is lowered.\<close>

fun lower_first :: "(string \<times> int) list \<Rightarrow> (string \<times> int) list" where
  "lower_first [] = []"
| "lower_first ((r, n) # a) = (if 0 < n then (r, max 0 (n - 1)) # a else (r, n) # lower_first a)"

definition bh_release :: "sem \<Rightarrow> bulkhead \<Rightarrow> unit result \<times> bulkhead" where
  "bh_release i b =
     (if i \<notin> bh_managed b then
        (Err ''Semaphore was not acquired via try_acquire'' (Some ''BULKHEAD_ERROR'') False, b)
      else (Ok (), (bh_add_permit i 1 b)\<lparr>bh_managed := bh_managed b - {i},
                                          bh_active := lower_first (bh_active b)\<rparr>))"

text \<open>\<open>try_execute\<close> when no other task runs in between. The function called ends with a value, times
  out, or raises; the release and the reset of the limit happen on every path.\<close>

datatype 'a exec_outcome = ExecValue 'a | ExecTimeout | ExecRaised exn

definition bh_try_execute ::
  "(rat \<Rightarrow> string) \<Rightarrow> string \<Rightarrow> ('w \<Rightarrow> 'a exec_outcome \<times> 'w) \<Rightarrow> int option \<Rightarrow> bulkhead \<Rightarrow> 'w
     \<Rightarrow> 'a result \<times> bulkhead \<times> 'w" where
  "bh_try_execute fmt r func max_concurrent b0 w =
     (let original_limit = bh_get_limit r b0;
          b = (case max_concurrent of Some n \<Rightarrow> bh_set_limit r n b0 | None \<Rightarrow> b0);
          restore = (\<lambda>b. case max_concurrent of Some _ \<Rightarrow> bh_set_limit r original_limit b | None \<Rightarrow> b)
      in case bh_try_acquire fmt r b of
           (Ok i, b) \<Rightarrow>
             (let (out, w') = func w;
                  res = (case out of
                      ExecValue v \<Rightarrow> Ok v
                    | ExecTimeout \<Rightarrow> Err (''Execution timeout for '' @ r) (Some ''EXECUTION_TIMEOUT'') False
                    | ExecRaised e \<Rightarrow> Err (''Function execution error: '' @ exn_msg e)
                                       (Some ''EXECUTION_ERROR'') False)
              in (res, restore (snd (bh_release i b)), w'))
         | (r', b) \<Rightarrow> (recast r', restore b, w))"

subsection \<open>Interleaved use\<close>

text \<open>What the tasks of a process do with one bulkhead, in the order in which it happens, and what the
  successful calls did: a permit taken from a semaphore, or given back to it.\<close>

datatype bh_op = Set_limit string int | Set_timeout string rat | Acquire string | Release sem

definition bh_do :: "(rat \<Rightarrow> string) \<Rightarrow> bh_op \<Rightarrow> bulkhead \<Rightarrow> (sem \<times> int) list \<times> bulkhead" where
  "bh_do fmt op b = (case op of
     Set_limit r n \<Rightarrow> ([], bh_set_limit r n b)
   | Set_timeout r t \<Rightarrow> ([], bh_set_timeout r t b)
   | Acquire r \<Rightarrow> (case bh_try_acquire fmt r b of (Ok i, b') \<Rightarrow> ([(i, 1)], b') | (_, b') \<Rightarrow> ([], b'))
   | Release i \<Rightarrow> (case bh_release i b of (Ok _, b') \<Rightarrow> ([(i, - 1)], b') | (_, b') \<Rightarrow> ([], b')))"

fun bh_run :: "(rat \<Rightarrow> string) \<Rightarrow> bh_op list \<Rightarrow> bulkhead \<Rightarrow> (sem \<times> int) list \<times> bulkhead" where
  "bh_run fmt [] b = ([], b)"
| "bh_run fmt (op # ops) b =
     (let (ev, b') = bh_do fmt op b; (evs, b'') = bh_run fmt ops b' in (ev @ evs, b''))"

text \<open>The permits of a semaphore that are held after the events.\<close>

definition held :: "sem \<Rightarrow> (sem \<times> int) list \<Rightarrow> int" where
  "held i evs = (\<Sum>(j, d)\<leftarrow>evs. if j = i then d else 0)"

lemma held_simps [simp]:
  "held i [] = 0" "held i ((j, d) # evs) = (if j = i then d else 0) + held i evs"
  "held i (evs @ evs') = held i evs + held i evs'"
  by (simp_all add: held_def)

text \<open>The invariant: the semaphores made so far are those below \<open>bh_next\<close>, each with a permit count
  that is not negative, and no two resources share one.\<close>

definition bh_inv :: "bulkhead \<Rightarrow> bool" where
  "bh_inv b \<longleftrightarrow> (\<forall>i. bh_store b i \<noteq> None \<longleftrightarrow> i < bh_next b) \<and> (\<forall>i. 0 \<le> bh_permits i b)
     \<and> (\<forall>r i. bh_semaphores b r = Some i \<longrightarrow> i < bh_next b)
     \<and> (\<forall>r r' i. bh_semaphores b r = Some i \<longrightarrow> bh_semaphores b r' = Some i \<longrightarrow> r = r')
     \<and> (\<forall>i \<in> bh_managed b. i < bh_next b)"

lemma bh_inv_init [inv_intros]: "bh_inv bh_init"
  by (simp add: bh_inv_def bh_init_def bh_permits_def)

lemma bh_get_semaphore_inv:
  "bh_inv b \<Longrightarrow> bh_get_semaphore r b = Inr (i, b') \<Longrightarrow>
   bh_inv b' \<and> bh_semaphores b' r = Some i \<and> bh_managed b' = bh_managed b
   \<and> bh_limits b' = bh_limits b \<and> bh_timeouts b' = bh_timeouts b \<and> bh_active b' = bh_active b
   \<and> bh_next b \<le> bh_next b' \<and> (\<forall>j < bh_next b. bh_permits j b' = bh_permits j b)
   \<and> i < bh_next b' \<and> (bh_next b \<le> i \<longrightarrow> bh_permits i b' = bh_get_limit r b)"
proof (cases "bh_semaphores b r")
  case (Some j)
  assume "bh_inv b" "bh_get_semaphore r b = Inr (i, b')"
  with Some have "b' = b" "i = j" by (simp_all add: bh_get_semaphore_def)
  moreover from \<open>bh_inv b\<close> Some have "j < bh_next b" by (simp add: bh_inv_def)
  ultimately show ?thesis using \<open>bh_inv b\<close> Some by simp
next
  case None
  assume inv: "bh_inv b" and "bh_get_semaphore r b = Inr (i, b')"
  with None have *: "0 \<le> bh_get_limit r b" "i = bh_next b"
    "b' = b\<lparr>bh_semaphores := (bh_semaphores b)(r \<mapsto> bh_next b),
        bh_store := (bh_store b)(bh_next b \<mapsto> bh_get_limit r b), bh_next := Suc (bh_next b)\<rparr>"
    by (auto simp: bh_get_semaphore_def split: if_splits)
  have permits: "bh_permits j b' = (if j = bh_next b then bh_get_limit r b else bh_permits j b)" for j
    by (simp add: * bh_permits_def)
  have "bh_inv b'"
    unfolding bh_inv_def permits
  proof (intro conjI allI impI ballI)
    fix s1 s2 j assume "bh_semaphores b' s1 = Some j" "bh_semaphores b' s2 = Some j"
    with inv show "s1 = s2" by (auto simp: * bh_inv_def split: if_splits)
  next
    fix s1 j assume "bh_semaphores b' s1 = Some j"
    with inv show "j < bh_next b'" by (auto simp: * bh_inv_def less_SucI split: if_splits)
  qed (use inv * in \<open>auto simp: bh_inv_def less_SucI less_Suc_eq\<close>)
  with * permits show ?thesis by simp
qed

lemma bh_add_permit_inv:
  "bh_inv b \<Longrightarrow> i < bh_next b \<Longrightarrow> 0 \<le> bh_permits i b + d \<Longrightarrow> bh_inv (bh_add_permit i d b)"
  unfolding bh_inv_def by (simp add: bh_add_permit_def bh_permits_def)

lemma bh_add_permit_sel [simp]:
  "bh_permits j (bh_add_permit i d b) = bh_permits j b + (if j = i then d else 0)"
  "bh_semaphores (bh_add_permit i d b) = bh_semaphores b"
  "bh_managed (bh_add_permit i d b) = bh_managed b" "bh_active (bh_add_permit i d b) = bh_active b"
  "bh_limits (bh_add_permit i d b) = bh_limits b" "bh_next (bh_add_permit i d b) = bh_next b"
  "bh_timeouts (bh_add_permit i d b) = bh_timeouts b"
  by (auto simp: bh_add_permit_def bh_permits_def)

lemma bh_permits_frame [simp]:
  "bh_permits i (b\<lparr>bh_managed := m, bh_active := a\<rparr>) = bh_permits i b"
  "bh_permits i (b\<lparr>bh_limits := l\<rparr>) = bh_permits i b"
  "bh_permits i (b\<lparr>bh_timeouts := t\<rparr>) = bh_permits i b"
  by (simp_all add: bh_permits_def)

lemma bh_inv_frame [inv_intros]:
  "bh_inv b \<Longrightarrow> \<forall>i \<in> m. i < bh_next b \<Longrightarrow> bh_inv (b\<lparr>bh_managed := m, bh_active := a\<rparr>)"
  "bh_inv b \<Longrightarrow> bh_inv (b\<lparr>bh_limits := l\<rparr>)"
  "bh_inv b \<Longrightarrow> bh_inv (b\<lparr>bh_timeouts := t\<rparr>)"
  by (simp_all add: bh_inv_def bh_permits_def)

lemma bh_inv_managed: "bh_inv b \<Longrightarrow> i \<in> bh_managed b \<Longrightarrow> i < bh_next b"
  by (simp add: bh_inv_def)

lemma bh_inv_sem: "bh_inv b \<Longrightarrow> bh_semaphores b r = Some i \<Longrightarrow> i < bh_next b"
  by (simp add: bh_inv_def)

text \<open>What each operation does to the permits.\<close>

lemma bh_try_acquire_cases:
  assumes "bh_inv b" "bh_try_acquire fmt r b = (res, b')"
  obtains (got) i where "res = Ok i" "bh_inv b'" "bh_semaphores b' r = Some i" "i \<in> bh_managed b'"
      "bh_next b \<le> bh_next b'" "bh_limits b' = bh_limits b" "i < bh_next b'"
      "bh_managed b' = insert i (bh_managed b)" "bh_timeouts b' = bh_timeouts b"
      "\<And>j. j < bh_next b \<Longrightarrow> bh_permits j b' = bh_permits j b - (if j = i then 1 else 0)"
  | (refused) "is_err res" "bh_inv b'" "bh_next b \<le> bh_next b'" "bh_limits b' = bh_limits b"
      "bh_managed b' = bh_managed b" "bh_timeouts b' = bh_timeouts b"
      "\<And>j. j < bh_next b \<Longrightarrow> bh_permits j b' = bh_permits j b"
proof (cases "bh_get_semaphore r b")
  case (Inl e)
  with assms refused show ?thesis by (auto simp: bh_try_acquire_def)
next
  case (Inr p)
  obtain i b1 where p: "p = (i, b1)" by (cases p)
  note sem = bh_get_semaphore_inv [OF assms(1) Inr [unfolded p]]
  show ?thesis
  proof (cases "0 < bh_permits i b1")
    case True
    let ?a = "AList.update r (active_of r (bh_active b1) + 1) (bh_active b1)"
    from True Inr p assms(2) have b': "res = Ok i"
      "b' = (bh_add_permit i (- 1) b1)\<lparr>bh_managed := insert i (bh_managed b1), bh_active := ?a\<rparr>"
      by (auto simp: bh_try_acquire_def)
    have "bh_inv (bh_add_permit i (- 1) b1)"
      using sem True by (auto intro!: bh_add_permit_inv)
    then have "bh_inv b'"
      unfolding b' by (rule bh_inv_frame) (use sem in \<open>auto dest: bh_inv_managed\<close>)
    then show ?thesis using b' sem by (intro got [of i]) simp_all
  next
    case False
    with Inr p assms(2) sem show ?thesis by (intro refused) (auto simp: bh_try_acquire_def)
  qed
qed

lemma bh_release_ok:
  assumes "bh_inv b" "i \<in> bh_managed b"
  obtains b' where "bh_release i b = (Ok (), b')" "bh_inv b'" "bh_managed b' = bh_managed b - {i}"
    "bh_next b' = bh_next b" "bh_limits b' = bh_limits b" "bh_semaphores b' = bh_semaphores b"
    "bh_timeouts b' = bh_timeouts b"
    "\<And>j. bh_permits j b' = bh_permits j b + (if j = i then 1 else 0)"
proof -
  from assms have "0 \<le> bh_permits i b" "i < bh_next b" by (auto simp: bh_inv_def)
  then have "bh_inv (bh_add_permit i 1 b)" using assms(1) by (intro bh_add_permit_inv) auto
  then have inv: "bh_inv ((bh_add_permit i 1 b)\<lparr>bh_managed := bh_managed b - {i},
      bh_active := lower_first (bh_active b)\<rparr>)" (is "bh_inv ?b")
    by (rule bh_inv_frame) (use assms in \<open>auto dest: bh_inv_managed\<close>)
  from assms(2) have "bh_release i b = (Ok (), ?b)" by (simp add: bh_release_def)
  from that [OF this inv] show ?thesis by simp
qed

lemma bh_do_conserves:
  assumes "bh_inv b" "bh_do fmt op b = (evs, b')"
  shows "bh_inv b' \<and> bh_next b \<le> bh_next b'
    \<and> (\<forall>j < bh_next b. bh_permits j b' + held j evs = bh_permits j b)"
proof (cases op)
  case (Acquire r)
  obtain res b1 where t: "bh_try_acquire fmt r b = (res, b1)" by (metis surj_pair)
  from assms(1) t show ?thesis
  proof (cases rule: bh_try_acquire_cases)
    case (got i)
    with assms(2) Acquire t have "evs = [(i, 1)]" "b' = b1" by (simp_all add: bh_do_def)
    with got show ?thesis by simp
  next
    case refused
    with assms(2) Acquire t have "evs = []" "b' = b1" by (auto simp: bh_do_def is_err_iff)
    with refused show ?thesis by simp
  qed
next
  case (Release i)
  show ?thesis
  proof (cases "i \<in> bh_managed b")
    case True
    obtain b2 where b2: "bh_release i b = (Ok (), b2)" "bh_inv b2" "bh_next b2 = bh_next b"
        "\<And>j. bh_permits j b2 = bh_permits j b + (if j = i then 1 else 0)"
      using bh_release_ok [OF assms(1) True] by metis
    with assms(2) Release have "evs = [(i, - 1)]" "b' = b2" by (simp_all add: bh_do_def)
    with b2 show ?thesis by simp
  next
    case False
    with assms Release show ?thesis by (auto simp: bh_do_def bh_release_def)
  qed
qed (use assms in \<open>auto simp: bh_do_def bh_set_limit_def bh_set_timeout_def bh_inv_frame\<close>)



text \<open>\<open>_managed_semaphores\<close> is a set of semaphores, not of holders: the first release takes the semaphore
  out of it, and every later one is refused.\<close>

lemma bh_run_append:
  "bh_run fmt (ops @ ops') b =
     (let (e, b') = bh_run fmt ops b; (e', b'') = bh_run fmt ops' b' in (e @ e', b''))"
  by (induction ops arbitrary: b) (auto simp: Let_def split: prod.splits)

lemma acquire_many:
  "bh_inv b \<Longrightarrow> bh_semaphores b r = Some i \<Longrightarrow> int n \<le> bh_permits i b \<Longrightarrow>
   \<exists>b'. bh_run fmt (replicate n (Acquire r)) b = (replicate n (i, 1), b') \<and> bh_inv b'
     \<and> bh_semaphores b' r = Some i \<and> bh_permits i b' = bh_permits i b - int n
     \<and> (0 < n \<longrightarrow> i \<in> bh_managed b')"
proof (induction n arbitrary: b)
  case (Suc n)
  then have pos: "0 < bh_permits i b" by simp
  obtain res b1 where t: "bh_try_acquire fmt r b = (res, b1)" by (metis surj_pair)
  with Suc.prems pos have res: "res = Ok i" "i \<in> bh_managed b1" "bh_semaphores b1 r = Some i"
    by (auto simp: bh_try_acquire_def bh_get_semaphore_def)
  from Suc.prems(1) t have b1: "bh_inv b1" "bh_permits i b1 = bh_permits i b - 1"
    using res pos Suc.prems(2) by (auto simp: bh_try_acquire_def bh_get_semaphore_def
        intro!: bh_inv_frame bh_add_permit_inv dest: bh_inv_managed bh_inv_sem)
  with Suc.IH [of b1] res Suc.prems(3) obtain b' where
    "bh_run fmt (replicate n (Acquire r)) b1 = (replicate n (i, 1), b')" "bh_inv b'"
    "bh_semaphores b' r = Some i" "bh_permits i b' = bh_permits i b1 - int n"
    "0 < n \<longrightarrow> i \<in> bh_managed b'" by auto
  with t res b1 show ?case by (cases n) (auto simp: bh_do_def Let_def)
qed simp

lemma release_again:
  "i \<notin> bh_managed b \<Longrightarrow> bh_run fmt (replicate m (Release i)) b = ([], b)"
  by (induction m) (simp_all add: bh_do_def bh_release_def)

text \<open>Permits leak. When \<open>n\<close> tasks hold the semaphore of one resource at once and each gives it back,
  only the first gets its permit back into the semaphore: \<open>n - 1\<close> permits are lost for good, so a
  bulkhead that was once full lets one task in at a time from then on.\<close>

theorem bulkhead_leaks_permits:
  assumes "bh_inv b" "bh_semaphores b r = Some i" "0 < n" "int n \<le> bh_permits i b" "0 < m"
    and "bh_run fmt (replicate n (Acquire r) @ replicate m (Release i)) b = (evs, b')"
  shows "bh_permits i b' = bh_permits i b - int n + 1 \<and> evs = replicate n (i, 1) @ [(i, - 1)]"
proof -
  obtain b1 where b1: "bh_run fmt (replicate n (Acquire r)) b = (replicate n (i, 1), b1)" "bh_inv b1"
    "bh_permits i b1 = bh_permits i b - int n" "i \<in> bh_managed b1"
    using acquire_many [OF assms(1,2,4)] assms(3) by blast
  obtain b2 where b2: "bh_release i b1 = (Ok (), b2)" "bh_managed b2 = bh_managed b1 - {i}"
    "bh_permits i b2 = bh_permits i b1 + 1"
    using bh_release_ok [OF b1(2,4)] by metis
  obtain k where m: "m = Suc k" using assms(5) by (cases m) auto
  have "bh_run fmt (replicate m (Release i)) b1 = ([(i, - 1)], b2)"
    using b2 release_again [of i b2 fmt k] by (simp add: m bh_do_def)
  with assms(6) b1 b2 show ?thesis by (simp add: bh_run_append)
qed

theorem bulkhead_leaks_permits_witness:
  "\<exists>b b'. bh_run (\<lambda>_. []) [Set_limit ''a'' 2, Acquire ''a'', Release 0] bh_init = ([(0, 1), (0, - 1)], b)
     \<and> bh_run (\<lambda>_. []) (replicate 2 (Acquire ''a'') @ replicate 2 (Release 0)) b
        = (replicate 2 (0, 1) @ [(0, - 1)], b') \<and> bh_permits 0 b = 2 \<and> bh_permits 0 b' = 1"
proof -
  obtain evs b where one: "bh_run (\<lambda>_. []) [Set_limit ''a'' 2, Acquire ''a'', Release 0] bh_init = (evs, b)"
    by (metis surj_pair)
  then have b: "bh_inv b" "bh_semaphores b ''a'' = Some 0" "bh_permits 0 b = 2"
    "evs = [(0, 1), (0, - 1)]"
    by (auto simp: bh_do_def bh_init_def bh_set_limit_def bh_try_acquire_def bh_get_semaphore_def
        bh_get_limit_def bh_permits_def bh_add_permit_def bh_release_def bh_inv_def Let_def
        split: if_splits)
  obtain evs2 b' where two: "bh_run (\<lambda>_. []) (replicate 2 (Acquire ''a'') @ replicate 2 (Release 0)) b = (evs2, b')"
    by (metis surj_pair)
  from bulkhead_leaks_permits [OF b(1,2) _ _ _ two] b one two show ?thesis by simp
qed

text \<open>\<open>try_execute\<close> answers with what the function does, and leaves the permits, the set of acquired
  semaphores and the limits the way they were, whether the function returns, raises or times out.
  The limit it is passed changes nothing once the semaphore of the resource exists.\<close>

theorem try_execute_restores:
  assumes "bh_inv b" "bh_semaphores b r = Some i" "0 < bh_permits i b" "i \<notin> bh_managed b"
    and "bh_try_execute fmt r func max_concurrent b w = (res, b', w')"
  shows "res = (case fst (func w) of
           ExecValue v \<Rightarrow> Ok v
         | ExecTimeout \<Rightarrow> Err (''Execution timeout for '' @ r) (Some ''EXECUTION_TIMEOUT'') False
         | ExecRaised e \<Rightarrow> Err (''Function execution error: '' @ exn_msg e) (Some ''EXECUTION_ERROR'') False)
    \<and> w' = snd (func w) \<and> bh_inv b'
    \<and> bh_permits j b' = bh_permits j b \<and> bh_managed b' = bh_managed b
    \<and> bh_get_limit r' b' = bh_get_limit r' b"
proof -
  define b1 where "b1 = (case max_concurrent of Some n \<Rightarrow> bh_set_limit r n b | None \<Rightarrow> b)"
  have b1: "bh_inv b1" "bh_semaphores b1 r = Some i" "bh_permits i b1 = bh_permits i b"
    "bh_managed b1 = bh_managed b" "bh_permits j b1 = bh_permits j b"
    using assms(1,2) by (auto simp: b1_def bh_set_limit_def bh_inv_frame split: option.splits)
  obtain res1 b2 where t: "bh_try_acquire fmt r b1 = (res1, b2)" by (metis surj_pair)
  with b1 assms(3) have res1: "res1 = Ok i" "bh_managed b2 = insert i (bh_managed b1)"
    "bh_permits k b2 = bh_permits k b1 - (if k = i then 1 else 0)" "bh_limits b2 = bh_limits b1" for k
    by (auto simp: bh_try_acquire_def bh_get_semaphore_def)
  from b1(1) t have "bh_inv b2" by (auto elim: bh_try_acquire_cases)
  then obtain b3 where b3: "bh_release i b2 = (Ok (), b3)" "bh_inv b3"
    "bh_managed b3 = bh_managed b2 - {i}" "bh_limits b3 = bh_limits b2"
    "\<And>j. bh_permits j b3 = bh_permits j b2 + (if j = i then 1 else 0)"
    using bh_release_ok [of b2 i] res1(2) by (metis insertI1)
  show ?thesis
    using assms(4,5) t res1 b3 b1
    by (cases max_concurrent; cases "func w"; cases "fst (func w)")
       (auto simp: bh_try_execute_def Let_def b1_def bh_set_limit_def bh_get_limit_def bh_inv_frame)
qed

theorem try_execute_restores_witness:
  "\<exists>b b'. bh_run (\<lambda>_. []) [Set_limit ''a'' 2, Acquire ''a'', Release 0] bh_init = ([(0, 1), (0, - 1)], b)
     \<and> bh_try_execute (\<lambda>_. []) ''a'' (\<lambda>n. (ExecValue n, n + 1)) (Some 1) b (7::nat) = (Ok 7, b', 8)
     \<and> bh_permits 0 b' = 2 \<and> bh_get_limit ''a'' b' = 2"
proof -
  obtain evs b where one: "bh_run (\<lambda>_. []) [Set_limit ''a'' 2, Acquire ''a'', Release 0] bh_init = (evs, b)"
    by (metis surj_pair)
  then have b: "bh_inv b" "bh_semaphores b ''a'' = Some 0" "bh_permits 0 b = 2" "0 \<notin> bh_managed b"
    "bh_get_limit ''a'' b = 2" "evs = [(0, 1), (0, - 1)]"
    by (auto simp: bh_do_def bh_init_def bh_set_limit_def bh_try_acquire_def bh_get_semaphore_def
        bh_get_limit_def bh_permits_def bh_add_permit_def bh_release_def bh_inv_def Let_def
        split: if_splits)
  obtain res b' w' where two:
    "bh_try_execute (\<lambda>_. []) ''a'' (\<lambda>n. (ExecValue n, n + 1)) (Some 1) b (7::nat) = (res, b', w')"
    by (metis prod_cases3)
  from try_execute_restores [OF b(1,2) _ b(4) two, of 0 "''a''"] b one two show ?thesis by simp
qed

end
