(* ===== verification/Mediators.thy ===== *)
theory Mediators
  imports Results
begin

text \<open>
  The ways in which components tell each other of events: the mediator of \<open>core/mediator.py\<close>, the
  event bus of \<open>core/event_bus.py\<close> and the observers of \<open>core/observer.py\<close>. A handler, a callback or
  an observer is known by its identity (type \<open>'h\<close>); what it does when it is called is a function \<open>call\<close>
  of the event and of the world \<open>'w\<close> that says whether it raised. Handlers act on the world only: one
  that subscribes or publishes while it is called is not modelled.
\<close>

subsection \<open>Events\<close>

datatype event_type = DOMAIN | APPLICATION | SYSTEM | LLM

record event =
  ev_type :: event_type
  ev_source :: string
  ev_target :: "string option"
  ev_data :: "(string \<times> json) list"

text \<open>\<open>__post_init__\<close>: no data is the empty dictionary.\<close>

definition mk_event :: "event_type \<Rightarrow> string \<Rightarrow> string option \<Rightarrow> (string \<times> json) list option \<Rightarrow> event" where
  "mk_event t src tgt d = \<lparr>ev_type = t, ev_source = src, ev_target = tgt,
     ev_data = (case d of None \<Rightarrow> [] | Some d \<Rightarrow> d)\<rparr>"

subsection \<open>The mediator\<close>

text \<open>\<open>_handlers\<close>: for each type of event the handlers in the order of their subscription, each with
  its source filter.\<close>

type_synonym 'h mediator = "event_type \<Rightarrow> ('h \<times> string option) list"

definition med_init :: "'h mediator" where
  "med_init = (\<lambda>_. [])"

text \<open>An event with a target goes to the handlers whose filter is the target; an event without one (an
  empty target counts as none) goes to those without a filter or with the source as filter.\<close>

definition med_matches :: "event \<Rightarrow> string option \<Rightarrow> bool" where
  "med_matches ev src =
     (case ev_target ev of
        Some (c # t) \<Rightarrow> src = Some (c # t)
      | _ \<Rightarrow> src = None \<or> src = Some (ev_source ev))"

text \<open>The loop of \<open>publish\<close>: it ends at the first handler that raises.\<close>

fun med_deliver ::
  "('h \<Rightarrow> event \<Rightarrow> 'w \<Rightarrow> exn option \<times> 'w) \<Rightarrow> event \<Rightarrow> ('h \<times> string option) list \<Rightarrow> 'w
     \<Rightarrow> exn option \<times> 'w" where
  "med_deliver call ev [] w = (None, w)"
| "med_deliver call ev ((h, src) # hs) w =
     (if med_matches ev src then
        (case call h ev w of (None, w') \<Rightarrow> med_deliver call ev hs w' | (Some e, w') \<Rightarrow> (Some e, w'))
      else med_deliver call ev hs w)"

definition med_publish ::
  "('h \<Rightarrow> event \<Rightarrow> 'w \<Rightarrow> exn option \<times> 'w) \<Rightarrow> event \<Rightarrow> 'h mediator \<Rightarrow> 'w \<Rightarrow> unit result \<times> 'w" where
  "med_publish call ev m w = (case med_deliver call ev (m (ev_type ev)) w of
     (None, w') \<Rightarrow> (Ok (), w')
   | (Some e, w') \<Rightarrow> (Err (''Failed to publish event: '' @ exn_msg e) (Some ''MEDIATOR_ERROR'') False, w'))"

definition med_subscribe :: "event_type \<Rightarrow> 'h \<Rightarrow> string option \<Rightarrow> 'h mediator \<Rightarrow> unit result \<times> 'h mediator" where
  "med_subscribe t h src m = (Ok (), m(t := m t @ [(h, src)]))"

text \<open>The first entry of the handler is removed.\<close>

fun remove_handler :: "'h \<Rightarrow> ('h \<times> 's) list \<Rightarrow> ('h \<times> 's) list option" where
  "remove_handler h [] = None"
| "remove_handler h ((g, src) # hs) =
     (if g = h then Some hs else map_option ((#) (g, src)) (remove_handler h hs))"

definition med_unsubscribe :: "event_type \<Rightarrow> 'h \<Rightarrow> 'h mediator \<Rightarrow> unit result \<times> 'h mediator" where
  "med_unsubscribe t h m = (case remove_handler h (m t) of
     Some hs \<Rightarrow> (Ok (), m(t := hs))
   | None \<Rightarrow> (Err ''Handler not found for unsubscribe'' (Some ''HANDLER_NOT_FOUND'') False, m))"

definition med_get_handler_count :: "event_type \<Rightarrow> 'h mediator \<Rightarrow> nat result" where
  "med_get_handler_count t m = Ok (length (m t))"

subsection \<open>The event bus\<close>

record 'h subscription =
  sub_event :: string
  sub_callback :: 'h
  sub_once :: bool

record bus_event =
  be_name :: string
  be_data :: "(string \<times> json) list"

type_synonym 'h bus = "string \<Rightarrow> 'h subscription list"

text \<open>\<open>subscribe\<close> returns a closure that removes the subscription it made.\<close>

definition bus_subscribe :: "string \<Rightarrow> 'h \<Rightarrow> bool \<Rightarrow> 'h bus \<Rightarrow> 'h subscription \<times> 'h bus" where
  "bus_subscribe name cb once b =
     (let s = \<lparr>sub_event = name, sub_callback = cb, sub_once = once\<rparr> in (s, b(name := b name @ [s])))"

definition bus_unsubscribe :: "'h subscription \<Rightarrow> 'h bus \<Rightarrow> 'h bus" where
  "bus_unsubscribe s b = b(sub_event s := remove1 s (b (sub_event s)))"

text \<open>The calls of \<open>publish\<close>: what a callback raises is logged.\<close>

fun bus_call_all ::
  "('h \<Rightarrow> bus_event \<Rightarrow> 'w \<Rightarrow> exn option \<times> 'w) \<Rightarrow> bus_event \<Rightarrow> 'h subscription list \<Rightarrow> 'w \<Rightarrow> 'w" where
  "bus_call_all call ev [] w = w"
| "bus_call_all call ev (s # ss) w = bus_call_all call ev ss (snd (call (sub_callback s) ev w))"

text \<open>\<open>redact\<close> stands for \<open>redact_dict\<close> of \<open>agents/review/utils/redaction.py\<close>.\<close>

definition bus_publish ::
  "((string \<times> json) list \<Rightarrow> (string \<times> json) list) \<Rightarrow> ('h \<Rightarrow> bus_event \<Rightarrow> 'w \<Rightarrow> exn option \<times> 'w)
     \<Rightarrow> string \<Rightarrow> (string \<times> json) list option \<Rightarrow> 'h bus \<Rightarrow> 'w \<Rightarrow> 'h bus \<times> 'w" where
  "bus_publish redact call name data b w =
     (let payload = (case data of Some (p # d) \<Rightarrow> redact (p # d) | _ \<Rightarrow> []);
          ev = \<lparr>be_name = name, be_data = payload\<rparr>;
          subs = b name;
          to_remove = filter sub_once subs;
          w' = bus_call_all call ev subs w
      in (b(name := fold remove1 to_remove (b name)), w'))"

definition bus_clear :: "string option \<Rightarrow> 'h bus \<Rightarrow> 'h bus" where
  "bus_clear name b = (case name of Some (c # n) \<Rightarrow> b(c # n := []) | _ \<Rightarrow> (\<lambda>_. []))"

subsection \<open>Observers\<close>

text \<open>A set of observers is a list without duplicates, in an order of iteration.\<close>

definition ob_register :: "'o \<Rightarrow> 'o list \<Rightarrow> 'o list" where
  "ob_register x xs = (if x \<in> set xs then xs else xs @ [x])"

definition ob_unregister :: "'o \<Rightarrow> 'o list \<Rightarrow> 'o list" where
  "ob_unregister x xs = (if x \<in> set xs then remove1 x xs else xs)"

fun ob_notify_all :: "('o \<Rightarrow> 'e \<Rightarrow> 'w \<Rightarrow> exn option \<times> 'w) \<Rightarrow> 'e \<Rightarrow> 'o list \<Rightarrow> 'w \<Rightarrow> 'w" where
  "ob_notify_all notify ev [] w = w"
| "ob_notify_all notify ev (x # xs) w = ob_notify_all notify ev xs (snd (notify x ev w))"

text \<open>\<open>ObservableImpl\<close> with its mediator, whose \<open>publish\<close> never raises and whose answer is dropped.\<close>

record 'o observable =
  oi_name :: string
  oi_observers :: "'o list"

definition oi_count :: "'o observable \<Rightarrow> nat" where
  "oi_count ob = length (oi_observers ob)"

definition oi_event :: "string \<Rightarrow> 'o observable \<Rightarrow> event" where
  "oi_event action ob = mk_event DOMAIN (oi_name ob) None
     (Some [(''action'', JStr action), (''observer_count'', JNum (of_nat (length (oi_observers ob))))])"

definition oi_register ::
  "(event \<Rightarrow> 'w \<Rightarrow> unit result \<times> 'w) option \<Rightarrow> 'o \<Rightarrow> 'o observable \<Rightarrow> 'w \<Rightarrow> 'o observable \<times> 'w" where
  "oi_register mediator x ob w =
     (let ob' = ob\<lparr>oi_observers := ob_register x (oi_observers ob)\<rparr>
      in (ob', case mediator of None \<Rightarrow> w | Some publish \<Rightarrow> snd (publish (oi_event ''observer_registered'' ob') w)))"

definition oi_unregister ::
  "(event \<Rightarrow> 'w \<Rightarrow> unit result \<times> 'w) option \<Rightarrow> 'o \<Rightarrow> 'o observable \<Rightarrow> 'w \<Rightarrow> 'o observable \<times> 'w" where
  "oi_unregister mediator x ob w =
     (let ob' = ob\<lparr>oi_observers := ob_unregister x (oi_observers ob)\<rparr>
      in (ob', case mediator of None \<Rightarrow> w | Some publish \<Rightarrow> snd (publish (oi_event ''observer_unregistered'' ob') w)))"

definition oi_notify ::
  "('o \<Rightarrow> (string \<times> json) list \<Rightarrow> 'w \<Rightarrow> exn option \<times> 'w) \<Rightarrow> (string \<times> json) list \<Rightarrow> 'o observable \<Rightarrow> 'w \<Rightarrow> 'w" where
  "oi_notify notify ev ob w = ob_notify_all notify ev (oi_observers ob) w"

text \<open>The two observers of the file: one records what it is told, the other adds up counts by name.
  A name or a count of another type than the code expects is not modelled.\<close>

record notification =
  nt_observer :: string
  nt_observable :: string
  nt_event :: "(string \<times> json) list"
  nt_timestamp :: json

definition sco_on_notify :: "string \<Rightarrow> string \<Rightarrow> (string \<times> json) list \<Rightarrow> notification list \<Rightarrow> notification list" where
  "sco_on_notify name observable ev ns = ns @ [\<lparr>nt_observer = name, nt_observable = observable, nt_event = ev,
     nt_timestamp = (case map_of ev ''timestamp'' of Some t \<Rightarrow> t | None \<Rightarrow> JStr [])\<rparr>]"

definition mo_on_notify :: "string option \<Rightarrow> int option \<Rightarrow> (string \<Rightarrow> int option) \<Rightarrow> (string \<Rightarrow> int option)" where
  "mo_on_notify metric_name cnt m =
     (let k = (case metric_name of Some k \<Rightarrow> k | None \<Rightarrow> ''unknown'');
          n = (case cnt of Some n \<Rightarrow> n | None \<Rightarrow> 0)
      in m(k \<mapsto> (case m k of Some i \<Rightarrow> i + n | None \<Rightarrow> n)))"

subsection \<open>Properties\<close>

lemma med_deliver_filter:
  "med_deliver call ev hs w = med_deliver call ev (filter (\<lambda>(h, src). med_matches ev src) hs) w"
  by (induction hs arbitrary: w) (auto split: prod.splits option.splits)

lemma med_deliver_append:
  "med_deliver call ev (xs @ ys) w =
     (case med_deliver call ev xs w of (None, w') \<Rightarrow> med_deliver call ev ys w' | r \<Rightarrow> r)"
  by (induction xs arbitrary: w) (auto split: prod.splits option.splits)

text \<open>Calls of handlers one after the other, as far as none raises.\<close>

fun call_seq :: "('h \<Rightarrow> event \<Rightarrow> 'w \<Rightarrow> exn option \<times> 'w) \<Rightarrow> event \<Rightarrow> 'h list \<Rightarrow> 'w \<Rightarrow> 'w option" where
  "call_seq call ev [] w = Some w"
| "call_seq call ev (h # hs) w =
     (case call h ev w of (None, w') \<Rightarrow> call_seq call ev hs w' | (Some _, _) \<Rightarrow> None)"

lemma med_deliver_seq:
  "\<forall>(h, src) \<in> set hs. med_matches ev src \<Longrightarrow>
   (case med_deliver call ev hs w of
      (None, w') \<Rightarrow> call_seq call ev (map fst hs) w = Some w'
    | (Some e, w') \<Rightarrow> \<exists>pre h src post w1. hs = pre @ (h, src) # post
        \<and> call_seq call ev (map fst pre) w = Some w1 \<and> call h ev w1 = (Some e, w'))"
proof (induction hs arbitrary: w)
  case (Cons p hs)
  obtain h src where p: "p = (h, src)" by (cases p)
  obtain r w1 where c: "call h ev w = (r, w1)" by (metis surj_pair)
  show ?case
  proof (cases r)
    case None
    obtain r2 w2 where d: "med_deliver call ev hs w1 = (r2, w2)" by (metis surj_pair)
    have IH: "case med_deliver call ev hs w1 of
      (None, w') \<Rightarrow> call_seq call ev (map fst hs) w1 = Some w'
    | (Some e, w') \<Rightarrow> \<exists>pre h src post w2. hs = pre @ (h, src) # post
        \<and> call_seq call ev (map fst pre) w1 = Some w2 \<and> call h ev w2 = (Some e, w')"
      using Cons by auto
    show ?thesis
    proof (cases r2)
      case None
      with IH d c \<open>r = None\<close> Cons.prems show ?thesis by (auto simp: p)
    next
      case (Some e)
      with IH d obtain pre h' src' post w3 where
        "hs = pre @ (h', src') # post" "call_seq call ev (map fst pre) w1 = Some w3"
        "call h' ev w3 = (Some e, w2)" by auto
      then have "p # hs = (p # pre) @ (h', src') # post"
        "call_seq call ev (map fst (p # pre)) w = Some w3" "call h' ev w3 = (Some e, w2)"
        using c \<open>r = None\<close> by (simp_all add: p)
      moreover have "med_deliver call ev (p # hs) w = (Some e, w2)"
        using c d \<open>r = None\<close> Some Cons.prems by (simp add: p)
      ultimately show ?thesis by (simp only: prod.case option.case) blast
    qed
  next
    case (Some e)
    then have "p # hs = [] @ (h, src) # hs" "call_seq call ev (map fst []) w = Some w"
      by (simp_all add: p)
    with Some c Cons.prems show ?thesis by (fastforce simp: p)
  qed
qed simp

definition addressees :: "event \<Rightarrow> 'h mediator \<Rightarrow> 'h list" where
  "addressees ev m = map fst (filter (\<lambda>(h, src). med_matches ev src) (m (ev_type ev)))"

lemma remove_handler_snoc:
  "remove_handler h (hs @ [(h, src)]) =
     (case remove_handler h hs of Some hs' \<Rightarrow> Some (hs' @ [(h, src)]) | None \<Rightarrow> Some hs)"
  by (induction hs) (auto split: option.splits)

lemma remove_handler_None: "remove_handler h hs = None \<longleftrightarrow> h \<notin> set (map fst hs)"
proof (induction hs)
  case (Cons p hs)
  then show ?case by (cases p) (simp split: if_splits)
qed simp

text \<open>The mediator calls exactly the handlers of the event's type whose filter matches, in the
  order of their subscription. If one raises, the handlers after it are not called and the answer is
  \<open>MEDIATOR_ERROR\<close>; the publication itself never raises. A handler is among the addressees after its
  subscription (last) and one fewer time after it was unsubscribed.\<close>

theorem mediator_routes:
  "(case med_publish call ev m w of
      (Ok _, w') \<Rightarrow> call_seq call ev (addressees ev m) w = Some w'
    | (Err e c _, w') \<Rightarrow> c = Some ''MEDIATOR_ERROR'' \<and> (\<exists>pre h post w1 x. addressees ev m = pre @ h # post
        \<and> call_seq call ev pre w = Some w1 \<and> call h ev w1 = (Some x, w'))
    | (Pass _, _) \<Rightarrow> False)
   \<and> addressees ev (snd (med_subscribe t h src m)) =
       addressees ev m @ (if t = ev_type ev \<and> med_matches ev src then [h] else [])
   \<and> snd (med_unsubscribe t h (snd (med_subscribe t h src m)))
       = (if h \<in> set (map fst (m t)) then (snd (med_unsubscribe t h m))(t := snd (med_unsubscribe t h m) t @ [(h, src)]) else m)"
proof -
  let ?hs = "filter (\<lambda>(h, src). med_matches ev src) (m (ev_type ev))"
  have d: "med_deliver call ev (m (ev_type ev)) w = med_deliver call ev ?hs w"
    by (rule med_deliver_filter)
  obtain r w' where r: "med_deliver call ev ?hs w = (r, w')" by (metis surj_pair)
  have "\<forall>(h, src) \<in> set ?hs. med_matches ev src" by auto
  from med_deliver_seq [OF this, of call w] r
  have 1: "case r of None \<Rightarrow> call_seq call ev (map fst ?hs) w = Some w'
    | Some e \<Rightarrow> (\<exists>pre h src post w1. ?hs = pre @ (h, src) # post
        \<and> call_seq call ev (map fst pre) w = Some w1 \<and> call h ev w1 = (Some e, w'))"
    by (simp split: option.splits)
  have pub: "case med_publish call ev m w of
      (Ok _, w') \<Rightarrow> call_seq call ev (addressees ev m) w = Some w'
    | (Err e c _, w') \<Rightarrow> c = Some ''MEDIATOR_ERROR'' \<and> (\<exists>pre h post w1 x. addressees ev m = pre @ h # post
        \<and> call_seq call ev pre w = Some w1 \<and> call h ev w1 = (Some x, w'))
    | (Pass _, _) \<Rightarrow> False"
  proof (cases r)
    case None
    with 1 r d show ?thesis by (simp add: med_publish_def addressees_def)
  next
    case (Some e)
    with 1 obtain pre h src post w1 where "?hs = pre @ (h, src) # post"
      "call_seq call ev (map fst pre) w = Some w1" "call h ev w1 = (Some e, w')" by auto
    then have "addressees ev m = map fst pre @ h # map fst post" by (simp add: addressees_def)
    with Some r d \<open>call_seq call ev (map fst pre) w = Some w1\<close> \<open>call h ev w1 = (Some e, w')\<close>
    show ?thesis by (auto simp: med_publish_def)
  qed
  have sub: "addressees ev (snd (med_subscribe t h src m)) =
      addressees ev m @ (if t = ev_type ev \<and> med_matches ev src then [h] else [])"
    by (simp add: med_subscribe_def addressees_def)
  have un: "snd (med_unsubscribe t h (snd (med_subscribe t h src m)))
      = (if h \<in> set (map fst (m t)) then (snd (med_unsubscribe t h m))(t := snd (med_unsubscribe t h m) t @ [(h, src)]) else m)"
  proof (cases "remove_handler h (m t)")
    case None
    moreover from None have "h \<notin> set (map fst (m t))" unfolding remove_handler_None .
    ultimately show ?thesis
      by (simp add: med_subscribe_def med_unsubscribe_def remove_handler_snoc fun_upd_idem)
  next
    case (Some hs)
    then have "remove_handler h (m t) \<noteq> None" by simp
    then have "h \<in> set (map fst (m t))" unfolding remove_handler_None by blast
    with Some show ?thesis
      by (simp add: med_subscribe_def med_unsubscribe_def remove_handler_snoc)
  qed
  from pub sub un show ?thesis by blast
qed

lemma fold_remove1_filter: "fold remove1 (filter P xs) xs = filter (\<lambda>x. \<not> P x) xs"
proof -
  have skip: "fold remove1 ys (x # xs) = x # fold remove1 ys xs" if "x \<notin> set ys" for x :: 'a and ys xs
    using that by (induction ys arbitrary: xs) auto
  show ?thesis by (induction xs) (auto simp: skip)
qed

text \<open>The event bus calls every subscriber of the name, in order, whatever the others raise; the
  subscribers for one event are gone afterwards and nobody else is.\<close>

theorem bus_delivers_to_all:
  assumes "bus_publish redact call name data b w = (b', w')"
  shows "b' = b(name := filter (\<lambda>s. \<not> sub_once s) (b name))
    \<and> w' = fold (\<lambda>s w. snd (call (sub_callback s)
                 \<lparr>be_name = name, be_data = (case data of Some (p # d) \<Rightarrow> redact (p # d) | _ \<Rightarrow> [])\<rparr> w)) (b name) w"
proof -
  have calls: "bus_call_all call ev ss w = fold (\<lambda>s w. snd (call (sub_callback s) ev w)) ss w" for ev ss w
    by (induction ss arbitrary: w) simp_all
  from assms show ?thesis
    by (auto simp: bus_publish_def Let_def calls fold_remove1_filter)
qed

theorem bus_delivers_to_all_witness:
  "let b = (\<lambda>_. [])(''a'' := [\<lparr>sub_event = ''a'', sub_callback = 1, sub_once = True\<rparr>,
                              \<lparr>sub_event = ''a'', sub_callback = (2::nat), sub_once = False\<rparr>]);
       call = (\<lambda>h ev w. (if h = 1 then Some (Exn ''E'' '''') else None, w @ [h]))
   in snd (bus_publish id call ''a'' None b []) = [1, 2]
      \<and> length (fst (bus_publish id call ''a'' None b []) ''a'') = 1"
proof -
  define b where "b = (\<lambda>_. [])(''a'' := [\<lparr>sub_event = ''a'', sub_callback = 1, sub_once = True\<rparr>,
                              \<lparr>sub_event = ''a'', sub_callback = (2::nat), sub_once = False\<rparr>])"
  define call where "call = (\<lambda>h (ev::bus_event) w. (if h = 1 then Some (Exn ''E'' '''') else None, w @ [h::nat]))"
  obtain b' w' where p: "bus_publish id call ''a'' None b [] = (b', w')" by (metis surj_pair)
  from bus_delivers_to_all [OF p] p
  show ?thesis by (simp add: Let_def flip: b_def call_def) (simp add: b_def call_def)
qed

subsection \<open>The contract of a publisher\<close>

text \<open>Components that publish (\<open>core/commands.py\<close>, \<open>core/fsm.py\<close>) are given any object with a \<open>publish\<close>
  method. What they rely on is that it does not raise.\<close>

locale event_channel =
  fixes publish :: "event \<Rightarrow> 'w \<Rightarrow> unit result raising \<times> 'w"
  assumes publish_safe: "\<not> raises (fst (publish ev w))"
begin

lemma published: obtains r w' where "publish ev w = (Inr r, w')"
  using publish_safe [of ev w] by (cases "publish ev w"; cases "fst (publish ev w)") auto

end

definition med_channel ::
  "('h \<Rightarrow> event \<Rightarrow> 'w \<Rightarrow> exn option \<times> 'w) \<Rightarrow> 'h mediator \<Rightarrow> event \<Rightarrow> 'w \<Rightarrow> unit result raising \<times> 'w" where
  "med_channel call m ev w = map_prod Inr id (med_publish call ev m w)"

interpretation med: event_channel "med_channel call m" for call and m
  by unfold_locales (simp add: med_channel_def)

end
