(* ===== verification/Storage.thy ===== *)
theory Storage
  imports Results "HOL-Library.List_Lexorder" "HOL-Library.Char_ord" "HOL-Library.Sublist"
begin

text \<open>
  The JSON store of \<open>storage/store.py\<close>. The directory it keeps is a set of directories and a dictionary
  from paths (lists of names below \<open>storage/\<close>) to the JSON object of the file; reading and writing text
  is the identity on JSON objects, as in \<open>Results\<close>. There are no symbolic links, so the check of the
  resolved path always succeeds, and no file that is not valid JSON.
\<close>

declare map_of_eq_Some_iff [simp del] Some_eq_map_of_iff [simp del]

type_synonym path = "string list"
type_synonym dict = "(string \<times> json) list"

record store =
  st_files :: "(path \<times> dict) list"
  st_dirs :: "path set"

definition st_init :: store where
  "st_init = \<lparr>st_files = [], st_dirs = {}\<rparr>"

subsection \<open>Paths\<close>

text \<open>\<open>".." in key\<close>.\<close>

fun has_dotdot :: "string \<Rightarrow> bool" where
  "has_dotdot (c # d # s) = (c = CHR ''.'' \<and> d = CHR ''.'' \<or> has_dotdot (d # s))"
| "has_dotdot _ = False"

definition bad_key :: "string \<Rightarrow> bool" where
  "bad_key k \<longleftrightarrow> k = [] \<or> has_dotdot k \<or> CHR ''/'' \<in> set k \<or> CHR 0x5C \<in> set k \<or> CHR 0x00 \<in> set k"

text \<open>\<open>_get_path\<close>: the first bad key raises; the path library drops components that are a single dot.\<close>

definition get_path :: "string list \<Rightarrow> path raising" where
  "get_path ks = (case filter bad_key ks of
     k # _ \<Rightarrow> Inl (Exn ''SecurityError'' (''Invalid storage key: '' @ k))
   | [] \<Rightarrow> Inr (filter (\<lambda>k. k \<noteq> ''.'') ks))"

definition with_json :: "string \<Rightarrow> string" where
  "with_json k = (if suffix ''.json'' k then k else k @ ''.json'')"

text \<open>\<open>key_with_ext\<close>: the extension is put on the last key; an empty list of keys has no last one.\<close>

definition key_path :: "string list \<Rightarrow> path raising" where
  "key_path ks =
     (if ks = [] then Inl (Exn ''IndexError'' ''list index out of range'')
      else get_path (butlast ks @ [with_json (last ks)]))"

subsection \<open>Operations\<close>

text \<open>\<open>open(path)\<close> for reading: the file, \<open>FileNotFoundError\<close>, or one of the other errors of the
  operating system, which \<open>read\<close> does not catch.\<close>

definition below_file :: "path \<Rightarrow> store \<Rightarrow> bool" where
  "below_file p st \<longleftrightarrow> (\<exists>q \<in> set (prefixes p). q \<noteq> p \<and> map_of (st_files st) q \<noteq> None)"

definition st_read :: "string list \<Rightarrow> store \<Rightarrow> dict option raising" where
  "st_read ks st = (case key_path ks of
     Inl e \<Rightarrow> Inl e
   | Inr p \<Rightarrow>
       (case map_of (st_files st) p of
          Some d \<Rightarrow> Inr (Some d)
        | None \<Rightarrow>
            if p \<in> st_dirs st then Inl (Exn ''IsADirectoryError'' ''Is a directory'')
            else if below_file p st then Inl (Exn ''NotADirectoryError'' ''Not a directory'')
            else Inr None))"

text \<open>\<open>write\<close>: the parents are made, then the file is truncated and written.\<close>

definition st_write :: "string list \<Rightarrow> dict \<Rightarrow> store \<Rightarrow> unit raising \<times> store" where
  "st_write ks d st = (case key_path ks of
     Inl e \<Rightarrow> (Inl e, st)
   | Inr p \<Rightarrow>
       if below_file p st then (Inl (Exn ''FileExistsError'' ''File exists''), st)
       else
         (let st' = st\<lparr>st_dirs := st_dirs st \<union> set (prefixes (butlast p))\<rparr>
          in if p \<in> st_dirs st' then (Inl (Exn ''IsADirectoryError'' ''Is a directory''), st')
             else (Inr (), st'\<lparr>st_files := AList.update p d (st_files st')\<rparr>)))"

text \<open>\<open>update\<close>: an empty object counts as none.\<close>

definition st_update :: "string list \<Rightarrow> (dict \<Rightarrow> dict) \<Rightarrow> store \<Rightarrow> dict raising \<times> store" where
  "st_update ks fn st = (case st_read ks st of
     Inl e \<Rightarrow> (Inl e, st)
   | Inr r \<Rightarrow>
       (let d = fn (case r of Some d \<Rightarrow> d | None \<Rightarrow> [])
        in case st_write ks d st of (Inl e, st') \<Rightarrow> (Inl e, st') | (Inr _, st') \<Rightarrow> (Inr d, st')))"

definition st_remove :: "string list \<Rightarrow> store \<Rightarrow> bool raising \<times> store" where
  "st_remove ks st = (case key_path ks of
     Inl e \<Rightarrow> (Inl e, st)
   | Inr p \<Rightarrow>
       if map_of (st_files st) p \<noteq> None
       then (Inr True, st\<lparr>st_files := AList.delete p (st_files st)\<rparr>)
       else if p \<in> st_dirs st then (Inl (Exn ''IsADirectoryError'' ''Is a directory''), st)
       else if below_file p st then (Inl (Exn ''NotADirectoryError'' ''Not a directory''), st)
       else (Inr False, st))"

text \<open>\<open>list\<close>: the files below the prefix, in the order of their paths.\<close>

definition st_list :: "string list \<Rightarrow> store \<Rightarrow> path list raising" where
  "st_list ks st = (case get_path ks of
     Inl e \<Rightarrow> Inl e
   | Inr p \<Rightarrow> Inr (sort (filter (\<lambda>q. strict_prefix p q) (keys (st_files st)))))"

subsection \<open>Paths and keys\<close>

text \<open>The keys that are usable and the file they name.\<close>

definition good_keys :: "string list \<Rightarrow> bool" where
  "good_keys ks \<longleftrightarrow> ks \<noteq> [] \<and> (\<forall>k \<in> set ks. \<not> bad_key k)"

lemma has_dotdot_append_json: "has_dotdot (k @ ''.json'') \<longleftrightarrow> has_dotdot k \<or> suffix ''.'' k"
proof (induction k rule: has_dotdot.induct)
  case (1 c d s)
  then show ?case by (cases s rule: rev_cases) (auto simp: suffix_def Cons_eq_append_conv)
next
  case "2_2"
  fix v show "has_dotdot ([v] @ ''.json'') \<longleftrightarrow> has_dotdot [v] \<or> suffix ''.'' [v]"
    by (auto simp: suffix_def Cons_eq_append_conv)
qed (auto simp: suffix_def)

lemma bad_key_with_json:
  "\<not> bad_key k \<Longrightarrow> \<not> suffix ''.'' k \<Longrightarrow> \<not> bad_key (with_json k)"
  by (auto simp: bad_key_def with_json_def has_dotdot_append_json)

lemma with_json_idem [simp]: "with_json (with_json k) = with_json k"
  by (auto simp: with_json_def suffix_def)

lemma key_path_cases:
  "(\<exists>e. key_path ks = Inl e) \<or> (\<exists>p. key_path ks = Inr p \<and> p \<noteq> [] \<and> suffix ''.json'' (last p))"
proof (cases "\<exists>e. key_path ks = Inl e")
  case False
  then have ks: "ks \<noteq> []" by (auto simp: key_path_def)
  let ?k = "with_json (last ks)"
  have "?k \<noteq> ''.''" "suffix ''.json'' ?k"
    by (auto simp: with_json_def suffix_def append_eq_Cons_conv)
  with False ks show ?thesis
    by (auto simp: key_path_def get_path_def split: list.splits)
qed simp

subsection \<open>The invariant\<close>

definition good_path :: "path \<Rightarrow> bool" where
  "good_path p \<longleftrightarrow> (\<forall>k \<in> set p. \<not> bad_key k \<and> k \<noteq> ''.'')"

text \<open>What the operations keep of a store: one file per path, every file a \<open>.json\<close> file whose path stays
  below the root, all directories above a file, and no path both a file and a directory.\<close>

definition st_inv :: "store \<Rightarrow> bool" where
  "st_inv st \<longleftrightarrow> wf_dict (st_files st)
     \<and> (\<forall>p d. map_of (st_files st) p = Some d \<longrightarrow> p \<noteq> [] \<and> good_path p \<and> suffix ''.json'' (last p) \<and> p \<notin> st_dirs st
          \<and> (\<forall>q. prefix q (butlast p) \<longrightarrow> q \<in> st_dirs st))
     \<and> (\<forall>p \<in> st_dirs st. good_path p)"

lemma st_inv_init [inv_intros]: "st_inv st_init"
  by (simp add: st_inv_def st_init_def)

lemma get_path_good: "get_path ks = Inr p \<Longrightarrow> good_path p"
  by (auto simp: get_path_def good_path_def filter_empty_conv split: list.splits)

lemma get_path_of_good: "good_path p \<Longrightarrow> get_path p = Inr p"
proof -
  assume g: "good_path p"
  then have "filter bad_key p = []" by (auto simp: good_path_def filter_empty_conv)
  moreover from g have "filter (\<lambda>k. k \<noteq> ''.'') p = p" by (auto simp: good_path_def filter_id_conv)
  ultimately show ?thesis by (simp add: get_path_def)
qed

lemma key_path_good: "key_path ks = Inr p \<Longrightarrow> p \<noteq> [] \<and> good_path p \<and> suffix ''.json'' (last p)"
  using key_path_cases [of ks] get_path_good by (auto simp: key_path_def split: if_splits)

lemma key_path_of_good: "p \<noteq> [] \<Longrightarrow> good_path p \<Longrightarrow> suffix ''.json'' (last p) \<Longrightarrow> key_path p = Inr p"
  by (simp add: key_path_def with_json_def get_path_of_good)

lemma prefix_proper_butlast: "prefix q p \<Longrightarrow> q \<noteq> p \<Longrightarrow> prefix q (butlast p)"
  by (cases p rule: rev_cases) auto

lemma prefix_of_butlast: "p \<noteq> [] \<Longrightarrow> prefix q (butlast p) \<Longrightarrow> prefix q p \<and> q \<noteq> p"
  by (cases p rule: rev_cases) (auto simp: prefix_def)

text \<open>A path below a file is not a file, and a directory is not below a file.\<close>

lemma inv_no_file_below:
  assumes "st_inv st" "map_of (st_files st) p \<noteq> None"
  shows "\<not> below_file p st" "p \<notin> st_dirs st"
proof -
  from assms(2) assms(1) have dirs: "\<And>q. prefix q (butlast p) \<Longrightarrow> q \<in> st_dirs st" and nd: "p \<notin> st_dirs st"
    by (auto simp: st_inv_def)
  show "p \<notin> st_dirs st" by (fact nd)
  show "\<not> below_file p st"
  proof
    assume "below_file p st"
    then obtain q where q: "prefix q p" "q \<noteq> p" "map_of (st_files st) q \<noteq> None"
      by (auto simp: below_file_def)
    then have "prefix q (butlast p)" by (intro prefix_proper_butlast)
    with dirs have "q \<in> st_dirs st" by auto
    with assms(1) q(3) show False by (auto simp: st_inv_def)
  qed
qed

lemma st_write_cases:
  assumes "st_write ks d st = (r, st')"
  obtains (failed) e where "r = Inl e" "st_files st' = st_files st"
      "st_dirs st' = st_dirs st \<or> (\<exists>p. key_path ks = Inr p \<and> \<not> below_file p st
         \<and> st_dirs st' = st_dirs st \<union> set (prefixes (butlast p)))"
  | (wrote) p where "r = Inr ()" "key_path ks = Inr p" "\<not> below_file p st" "p \<notin> st_dirs st'"
      "st_files st' = AList.update p d (st_files st)"
      "st_dirs st' = st_dirs st \<union> set (prefixes (butlast p))"
proof (cases "key_path ks")
  case (Inl e)
  with assms have "r = Inl e" "st' = st" by (simp_all add: st_write_def)
  then show ?thesis by (intro failed) simp_all
next
  case (Inr p)
  let ?dirs = "st_dirs st \<union> set (prefixes (butlast p))"
  consider "below_file p st" | "\<not> below_file p st" "p \<in> ?dirs" | "\<not> below_file p st" "p \<notin> ?dirs"
    by blast
  then show ?thesis
  proof cases
    case 1
    with assms Inr have "r = Inl (Exn ''FileExistsError'' ''File exists'')" "st' = st"
      by (simp_all add: st_write_def)
    then show ?thesis by (intro failed) simp_all
  next
    case 2
    with assms Inr have "r = Inl (Exn ''IsADirectoryError'' ''Is a directory'')" "st' = st\<lparr>st_dirs := ?dirs\<rparr>"
      by (auto simp: st_write_def Let_def)
    with 2 Inr show ?thesis by (intro failed) auto
  next
    case 3
    with assms Inr have "r = Inr ()" "st' = st\<lparr>st_dirs := ?dirs, st_files := AList.update p d (st_files st)\<rparr>"
      by (simp_all add: st_write_def Let_def)
    with 3 Inr show ?thesis by (intro wrote [of p]) auto
  qed
qed

lemma st_read_iff:
  "st_read ks st = Inr (Some d) \<longleftrightarrow> (\<exists>p. key_path ks = Inr p \<and> map_of (st_files st) p = Some d)"
  by (auto simp: st_read_def split: sum.splits option.splits)

lemma prefixes_good: "good_path p \<Longrightarrow> q \<in> set (prefixes p) \<Longrightarrow> good_path q"
  by (auto simp: good_path_def dest: set_mono_prefix)

lemma below_parents:
  "\<not> below_file p st \<Longrightarrow> p \<noteq> [] \<Longrightarrow> q \<in> set (prefixes (butlast p)) \<Longrightarrow> map_of (st_files st) q = None"
  using prefix_of_butlast [of p q] by (auto simp: below_file_def)

lemma st_inv_mkdirs:
  assumes "st_inv st" "key_path ks = Inr p" "\<not> below_file p st"
  shows "st_inv (st\<lparr>st_dirs := st_dirs st \<union> set (prefixes (butlast p))\<rparr>)"
proof -
  have p: "p \<noteq> []" "good_path p" using key_path_good [OF assms(2)] by auto
  then have "good_path (butlast p)" by (auto simp: good_path_def dest: in_set_butlastD)
  moreover have "q \<notin> set (prefixes (butlast p))" if "map_of (st_files st) q = Some d" for q d
    using below_parents [OF assms(3) p(1), of q] that by auto
  ultimately show ?thesis
    using assms(1) prefixes_good [of "butlast p"] unfolding st_inv_def by (auto 4 3)
qed

lemma st_write_inv [inv_intros]:
  assumes "st_inv st" "st_write ks d st = (r, st')"
  shows "st_inv st'"
  using assms(2)
proof (cases rule: st_write_cases)
  case (failed e)
  show ?thesis
  proof (cases "st_dirs st' = st_dirs st")
    case True
    with failed have "st' = st" by simp
    with assms(1) show ?thesis by simp
  next
    case False
    with failed obtain p where p: "key_path ks = Inr p" "\<not> below_file p st"
      "st_dirs st' = st_dirs st \<union> set (prefixes (butlast p))" by auto
    then have "st' = st\<lparr>st_dirs := st_dirs st \<union> set (prefixes (butlast p))\<rparr>"
      using failed(2) by simp
    with st_inv_mkdirs [OF assms(1) p(1,2)] show ?thesis by simp
  qed
next
  case (wrote p)
  from st_inv_mkdirs [OF assms(1) wrote(2,3)]
  have inv: "st_inv (st\<lparr>st_dirs := st_dirs st'\<rparr>)" by (simp add: wrote)
  from key_path_good [OF wrote(2)] have p: "p \<noteq> []" "good_path p" "suffix ''.json'' (last p)" by auto
  show ?thesis
    unfolding st_inv_def wrote(5) map_of_update
  proof (intro conjI ballI allI impI)
    show "wf_dict (AList.update p d (st_files st))"
      using assms(1) by (simp add: st_inv_def wf_update)
  next
    fix q d' assume "((map_of (st_files st))(p \<mapsto> d)) q = Some d'"
    then have "q = p \<or> map_of (st_files st) q = Some d'" by (simp split: if_splits)
    with inv p wrote(4,6)
    show "q \<noteq> []" "good_path q" "suffix ''.json'' (last q)" "q \<notin> st_dirs st'"
      by (auto simp: st_inv_def)
    fix q' assume "prefix q' (butlast q)"
    with inv wrote(6) \<open>q = p \<or> map_of (st_files st) q = Some d'\<close> show "q' \<in> st_dirs st'"
      by (auto simp: st_inv_def)
  next
    fix q assume "q \<in> st_dirs st'"
    with inv show "good_path q" by (simp add: st_inv_def)
  qed
qed

lemma st_update_inv [inv_intros]:
  "st_inv st \<Longrightarrow> st_update ks fn st = (r, st') \<Longrightarrow> st_inv st'"
  by (auto simp: st_update_def Let_def split: sum.splits prod.splits intro: st_write_inv)

lemma st_remove_inv [inv_intros]:
  assumes "st_inv st" "st_remove ks st = (r, st')"
  shows "st_inv st'"
proof -
  have "st_inv (st\<lparr>st_files := AList.delete p (st_files st)\<rparr>)" for p
    using assms(1) unfolding st_inv_def by (simp add: wf_delete)
  with assms show ?thesis by (auto simp: st_remove_def split: sum.splits if_splits)
qed

subsection \<open>Properties\<close>

lemma st_write_file:
  assumes "st_write ks d st = (Inr (), st')"
  obtains p where "key_path ks = Inr p" "st_files st' = AList.update p d (st_files st)"
  using assms by (auto elim: st_write_cases)

lemma st_write_read:
  assumes "st_inv st" "st_write ks d st = (Inr (), st')"
  shows "st_read ks st' = Inr (Some d)"
    and "st_read ks' st = Inr (Some d') \<Longrightarrow> key_path ks' \<noteq> key_path ks \<Longrightarrow> st_read ks' st' = Inr (Some d')"
  using assms(2) by (auto elim!: st_write_cases simp: st_read_iff)

text \<open>C6. What was written is read back, until it is written again or removed: a successful write is
  read under every key that names the same file, is listed under the prefix, leaves all other stored
  objects readable, and a removal forgets it. The store stays well formed.\<close>

theorem storage_roundtrip:
  assumes "st_inv st" "st_write ks d st = (Inr (), st')"
  shows "st_inv st' \<and> st_read ks st' = Inr (Some d)
    \<and> (\<forall>ks' d'. key_path ks' \<noteq> key_path ks \<longrightarrow> st_read ks' st = Inr (Some d') \<longrightarrow> st_read ks' st' = Inr (Some d'))
    \<and> (\<forall>pre q qs. get_path pre = Inr q \<longrightarrow> key_path ks = Inr (q @ qs) \<longrightarrow> qs \<noteq> [] \<longrightarrow>
         (\<exists>ps. st_list pre st' = Inr ps \<and> q @ qs \<in> set ps))
    \<and> (\<exists>st''. st_remove ks st' = (Inr True, st'') \<and> st_read ks st'' = Inr None \<and> st_inv st'')"
proof (intro conjI allI impI)
  show inv: "st_inv st'" using assms by (rule st_write_inv)
  show "st_read ks st' = Inr (Some d)" using assms by (rule st_write_read)
  from assms(2) obtain p where p: "key_path ks = Inr p" "st_files st' = AList.update p d (st_files st)"
    by (rule st_write_file)
  fix ks' d' assume "key_path ks' \<noteq> key_path ks" "st_read ks' st = Inr (Some d')"
  then show "st_read ks' st' = Inr (Some d')" by (rule st_write_read(2) [OF assms, rotated])
next
  fix pre q qs assume list: "get_path pre = Inr q" "key_path ks = Inr (q @ qs)" "qs \<noteq> []"
  from assms(2) obtain p where "key_path ks = Inr p" "st_files st' = AList.update p d (st_files st)"
    by (rule st_write_file)
  with list(2) have "map_of (st_files st') (q @ qs) = Some d" by simp
  then have "q @ qs \<in> set (keys (st_files st'))" by (rule map_of_in_keys)
  with list show "\<exists>ps. st_list pre st' = Inr ps \<and> q @ qs \<in> set ps"
    by (simp add: st_list_def strict_prefix_def)
next
  have inv: "st_inv st'" using assms by (rule st_write_inv)
  from assms(2) obtain p where p: "key_path ks = Inr p" "st_files st' = AList.update p d (st_files st)"
    by (rule st_write_file)
  then have f: "map_of (st_files st') p \<noteq> None" by simp
  obtain r st'' where rem: "st_remove ks st' = (r, st'')" by (metis surj_pair)
  with p(1) f have "r = Inr True" "st_files st'' = AList.delete p (st_files st')" "st_dirs st'' = st_dirs st'"
    by (auto simp: st_remove_def)
  moreover from this inv_no_file_below(1) [OF inv f] have "\<not> below_file p st''"
    by (auto simp: below_file_def)
  with calculation p(1) inv_no_file_below(2) [OF inv f] have "st_read ks st'' = Inr None"
    by (simp add: st_read_def)
  ultimately show "\<exists>st''. st_remove ks st' = (Inr True, st'') \<and> st_read ks st'' = Inr None \<and> st_inv st''"
    using rem st_remove_inv [OF inv rem] by (intro exI [of _ st'']) simp
qed

theorem storage_roundtrip_witness:
  "st_read [''session'', ''p'', ''s1.json''] (snd (st_write [''session'', ''p'', ''s1''] [(''id'', JStr ''s1'')] st_init))
     = Inr (Some [(''id'', JStr ''s1'')])"
proof -
  let ?w = "st_write [''session'', ''p'', ''s1''] [(''id'', JStr ''s1'')] st_init"
  obtain r st' where w: "?w = (r, st')" by (metis surj_pair)
  have kp: "key_path [''session'', ''p'', ''s1''] = Inr [''session'', ''p'', ''s1.json'']"
    by (simp add: key_path_def get_path_def bad_key_def with_json_def suffix_def append_eq_Cons_conv Cons_eq_append_conv)
  then have "r = Inr ()"
    using w by (auto simp: st_write_def st_init_def below_file_def Let_def)
  with w have "st_read [''session'', ''p'', ''s1''] st' = Inr (Some [(''id'', JStr ''s1'')])"
    using storage_roundtrip [OF st_inv_init, of "[''session'', ''p'', ''s1'']" _ st'] by simp
  moreover have "key_path [''session'', ''p'', ''s1.json''] = Inr [''session'', ''p'', ''s1.json'']"
    by (simp add: key_path_def get_path_def bad_key_def with_json_def suffix_def append_eq_Cons_conv Cons_eq_append_conv)
  ultimately show ?thesis using w kp by (simp add: st_read_def)
qed

text \<open>The calls that change a store.\<close>

datatype store_op = Write "string list" dict | Update "string list" "dict \<Rightarrow> dict" | Remove "string list"

definition st_do :: "store_op \<Rightarrow> store \<Rightarrow> store" where
  "st_do op st = (case op of
     Write ks d \<Rightarrow> snd (st_write ks d st)
   | Update ks fn \<Rightarrow> snd (st_update ks fn st)
   | Remove ks \<Rightarrow> snd (st_remove ks st))"

lemma st_do_inv [inv_intros]: "st_inv st \<Longrightarrow> st_inv (st_do op st)"
  unfolding st_do_def
  by (cases op; simp; metis surj_pair snd_conv st_write_inv st_update_inv st_remove_inv)

definition op_keys :: "store_op \<Rightarrow> string list" where
  "op_keys op = (case op of Write ks _ \<Rightarrow> ks | Update ks _ \<Rightarrow> ks | Remove ks \<Rightarrow> ks)"

lemma bad_key_path: "\<exists>k \<in> set (butlast ks). bad_key k \<Longrightarrow> \<exists>e. key_path ks = Inl (Exn ''SecurityError'' e)"
  by (auto simp: key_path_def get_path_def filter_empty_conv split: list.splits)

lemma bad_last_path:
  assumes "ks \<noteq> []" "has_dotdot (last ks) \<or> CHR ''/'' \<in> set (last ks) \<or> CHR 0x5C \<in> set (last ks) \<or> CHR 0x00 \<in> set (last ks)"
  shows "\<exists>e. key_path ks = Inl (Exn ''SecurityError'' e)"
proof -
  from assms(2) have "bad_key (with_json (last ks))"
    by (auto simp: with_json_def bad_key_def has_dotdot_append_json)
  with assms(1) show ?thesis
    by (auto simp: key_path_def get_path_def filter_empty_conv split: list.splits)
qed

text \<open>Keys with a component that leaves its directory: two dots, a separator or a null character.\<close>

definition escaping :: "string list \<Rightarrow> bool" where
  "escaping ks \<longleftrightarrow> (\<exists>k \<in> set ks. has_dotdot k \<or> CHR ''/'' \<in> set k \<or> CHR 0x5C \<in> set k \<or> CHR 0x00 \<in> set k)"

lemma escaping_path: "escaping ks \<Longrightarrow> \<exists>e. key_path ks = Inl (Exn ''SecurityError'' e)"
proof (cases ks rule: rev_cases)
  case (snoc xs x)
  assume "escaping ks"
  then consider "\<exists>k \<in> set (butlast ks). bad_key k" | "escaping [last ks]"
    using snoc by (auto simp: escaping_def bad_key_def)
  then show ?thesis
    using bad_key_path bad_last_path [of ks] snoc by cases (auto simp: escaping_def)
qed (simp add: escaping_def)

text \<open>C9. No path leaves the store. Whatever is written, updated and removed, with whatever keys, every
  file and directory of the store has a path without separators, without two dots and without empty
  or dot components, and files are \<open>.json\<close> files. A call whose keys would leave the store raises a
  \<open>SecurityError\<close> and changes nothing.\<close>

theorem storage_confined:
  "(\<forall>p. map_of (st_files (fold st_do ops st_init)) p \<noteq> None \<longrightarrow> good_path p \<and> \<not> escaping p \<and> suffix ''.json'' (last p))
   \<and> (\<forall>p \<in> st_dirs (fold st_do ops st_init). good_path p \<and> \<not> escaping p)
   \<and> (escaping (op_keys op) \<longrightarrow> st_do op st = st \<and>
        (\<exists>e. st_read (op_keys op) st = Inl (Exn ''SecurityError'' e)
           \<and> st_write (op_keys op) d st = (Inl (Exn ''SecurityError'' e), st)
           \<and> st_remove (op_keys op) st = (Inl (Exn ''SecurityError'' e), st)))"
proof -
  have "st_inv (fold st_do ops st)" if "st_inv st" for st
    using that by (induction ops arbitrary: st) (simp_all add: st_do_inv)
  then have inv: "st_inv (fold st_do ops st_init)" by (simp add: st_inv_init)
  have good: "good_path p \<Longrightarrow> \<not> escaping p" for p
    by (auto simp: good_path_def escaping_def bad_key_def)
  have "st_do op st = st \<and> (\<exists>e. st_read (op_keys op) st = Inl (Exn ''SecurityError'' e)
           \<and> st_write (op_keys op) d st = (Inl (Exn ''SecurityError'' e), st)
           \<and> st_remove (op_keys op) st = (Inl (Exn ''SecurityError'' e), st))" if "escaping (op_keys op)"
    using escaping_path [OF that]
    by (cases op) (auto simp: st_do_def op_keys_def st_read_def st_write_def st_remove_def st_update_def)
  with inv good show ?thesis by (simp add: st_inv_def)
qed

theorem storage_confined_witness:
  "st_do (Write [''session'', ''..'', ''x''] []) st_init = st_init"
  using storage_confined [of "[]" "Write [''session'', ''..'', ''x''] []" st_init "[]"]
  by (simp add: op_keys_def escaping_def)

end
