(* ===== verification/Repositories.thy ===== *)
theory Repositories
  imports Storage
begin

text \<open>
  The typed access to the store: \<open>SessionStorage\<close>, \<open>MessageStorage\<close> and \<open>PartStorage\<close> of
  \<open>storage/store.py\<close>, the repositories of \<open>core/repositories.py\<close> that turn exceptions into results, and
  the state repository of \<open>core/fsm_state_repository.py\<close>.
\<close>

subsection \<open>Sessions as JSON\<close>

text \<open>\<open>Session\<close> of \<open>core/models.py\<close>. The optional fields that no modelled code reads are kept together as
  they are dumped; the validation of their contents is not modelled.\<close>

record session =
  s_id :: string
  s_slug :: string
  s_project_id :: string
  s_directory :: string
  s_parent_id :: "string option"
  s_title :: string
  s_version :: string
  s_time_created :: rat
  s_time_updated :: rat
  s_rest :: dict

definition session_fields :: "string list" where
  "session_fields = [''id'', ''slug'', ''project_id'', ''directory'', ''parent_id'', ''title'', ''version'',
     ''time_created'', ''time_updated'']"

definition session_rest_fields :: "string list" where
  "session_rest_fields = [''summary'', ''share'', ''permission'', ''revert'', ''time_compacting'',
     ''time_archived'', ''message_counter'', ''message_count'', ''total_cost'', ''metadata'']"

definition session_dump :: "session \<Rightarrow> dict" where
  "session_dump s = [(''id'', JStr (s_id s)), (''slug'', JStr (s_slug s)), (''project_id'', JStr (s_project_id s)),
     (''directory'', JStr (s_directory s)), (''parent_id'', opt_str (s_parent_id s)), (''title'', JStr (s_title s)),
     (''version'', JStr (s_version s)), (''time_created'', JNum (s_time_created s)),
     (''time_updated'', JNum (s_time_updated s))] @ s_rest s"

definition known_fields :: "dict \<Rightarrow> bool" where
  "known_fields d \<longleftrightarrow> set (keys d) \<subseteq> set session_fields \<union> set session_rest_fields"

definition invalid_session :: "'a raising" where
  "invalid_session = Inl (Exn ''ValidationError'' ''Session'')"

definition num_or :: "rat \<Rightarrow> json option \<Rightarrow> rat option" where
  "num_or d j = (case j of None \<Rightarrow> Some d | Some (JNum x) \<Rightarrow> Some x | Some _ \<Rightarrow> None)"

text \<open>\<open>Session(**data)\<close>: a required field that is missing or not a string, and a name that is not a field,
  raise.\<close>

definition session_load :: "rat \<Rightarrow> dict \<Rightarrow> session raising" where
  "session_load now d =
     (if \<not> known_fields d then invalid_session
      else if jget d ''parent_id'' \<noteq> JNull \<and> str_opt (jget d ''parent_id'') = None then invalid_session
      else case (map (\<lambda>k. str_opt (jget d k)) [''id'', ''slug'', ''project_id'', ''directory'', ''title'', ''version''],
                 num_or now (map_of d ''time_created''), num_or now (map_of d ''time_updated'')) of
        ([Some i, Some sl, Some p, Some dir, Some t, Some v], Some tc, Some tu) \<Rightarrow>
          Inr \<lparr>s_id = i, s_slug = sl, s_project_id = p, s_directory = dir,
               s_parent_id = str_opt (jget d ''parent_id''), s_title = t, s_version = v,
               s_time_created = tc, s_time_updated = tu,
               s_rest = filter (\<lambda>(k, _). k \<in> set session_rest_fields) d\<rparr>
      | _ \<Rightarrow> invalid_session)"

text \<open>The rest of a session is a dictionary of its own fields.\<close>

definition wf_session :: "session \<Rightarrow> bool" where
  "wf_session s \<longleftrightarrow> set (keys (s_rest s)) \<subseteq> set session_rest_fields"

lemma map_of_rest: "wf_session s \<Longrightarrow> k \<notin> set session_rest_fields \<Longrightarrow> map_of (s_rest s) k = None"
  by (auto simp: wf_session_def map_of_eq_None_iff)

lemma session_load_dump: "wf_session s \<Longrightarrow> session_load now (session_dump s) = Inr s"
proof -
  assume wf: "wf_session s"
  then have "filter (\<lambda>(k, _). k \<in> set session_rest_fields) (s_rest s) = s_rest s"
    by (auto simp: wf_session_def filter_id_conv)
  moreover have "filter (\<lambda>(k, _). k \<in> set session_rest_fields) (session_dump s)
      = filter (\<lambda>(k, _). k \<in> set session_rest_fields) (s_rest s)"
    by (simp add: session_dump_def session_rest_fields_def)
  moreover have "known_fields (session_dump s)"
    using wf by (auto simp: wf_session_def known_fields_def session_dump_def session_fields_def)
  moreover have "jget (session_dump s) ''parent_id'' = opt_str (s_parent_id s)"
    by (simp add: jget_def session_dump_def)
  moreover have "map (\<lambda>k. str_opt (jget (session_dump s) k)) [''id'', ''slug'', ''project_id'', ''directory'', ''title'', ''version'']
      = [Some (s_id s), Some (s_slug s), Some (s_project_id s), Some (s_directory s), Some (s_title s), Some (s_version s)]"
    by (simp add: jget_def session_dump_def str_opt_JStr)
  moreover have "num_or now (map_of (session_dump s) ''time_created'') = Some (s_time_created s)"
    "num_or now (map_of (session_dump s) ''time_updated'') = Some (s_time_updated s)"
    by (simp_all add: session_dump_def num_or_def)
  ultimately show ?thesis
    unfolding session_load_def by (cases "s_parent_id s") (simp_all add: opt_str_def str_opt_def)
qed

subsection \<open>SessionStorage\<close>

text \<open>The loop of \<open>get_session\<close> over the listed keys.\<close>

fun find_session :: "rat \<Rightarrow> string \<Rightarrow> path list \<Rightarrow> store \<Rightarrow> session option raising" where
  "find_session now sid [] st = Inr None"
| "find_session now sid (k # ks) st = (case st_read k st of
     Inl e \<Rightarrow> Inl e
   | Inr (Some (x # d)) \<Rightarrow>
       if jget (x # d) ''id'' = JStr sid
       then (case session_load now (x # d) of Inl e \<Rightarrow> Inl e | Inr s \<Rightarrow> Inr (Some s))
       else find_session now sid ks st
   | Inr _ \<Rightarrow> find_session now sid ks st)"

definition get_session :: "rat \<Rightarrow> string \<Rightarrow> string \<Rightarrow> store \<Rightarrow> session option raising" where
  "get_session now sid project st = (case st_list [''session'', project] st of
     Inl e \<Rightarrow> Inl e
   | Inr ks \<Rightarrow> find_session now sid ks st)"

fun load_sessions :: "rat \<Rightarrow> path list \<Rightarrow> store \<Rightarrow> session list raising" where
  "load_sessions now [] st = Inr []"
| "load_sessions now (k # ks) st = (case st_read k st of
     Inl e \<Rightarrow> Inl e
   | Inr (Some (x # d)) \<Rightarrow>
       (case session_load now (x # d) of
          Inl e \<Rightarrow> Inl e
        | Inr s \<Rightarrow> (case load_sessions now ks st of Inl e \<Rightarrow> Inl e | Inr ss \<Rightarrow> Inr (s # ss)))
   | Inr _ \<Rightarrow> load_sessions now ks st)"

text \<open>The newest update first; \<open>list.sort(reverse=True)\<close> keeps the order of equal keys.\<close>

definition list_sessions :: "rat \<Rightarrow> string \<Rightarrow> store \<Rightarrow> session list raising" where
  "list_sessions now project st = (case st_list [''session'', project] st of
     Inl e \<Rightarrow> Inl e
   | Inr ks \<Rightarrow> map_sum id (sort_key (\<lambda>s. - s_time_updated s)) (load_sessions now ks st))"

definition session_keys :: "session \<Rightarrow> string list" where
  "session_keys s = [''session'', s_project_id s, s_id s]"

definition create_session :: "session \<Rightarrow> store \<Rightarrow> session raising \<times> store" where
  "create_session s st = (case st_write (session_keys s) (session_dump s) st of
     (Inl e, st') \<Rightarrow> (Inl e, st') | (Inr _, st') \<Rightarrow> (Inr s, st'))"

definition update_session :: "rat \<Rightarrow> session \<Rightarrow> store \<Rightarrow> session raising \<times> store" where
  "update_session now s st = create_session (s\<lparr>s_time_updated := now\<rparr>) st"

definition delete_session :: "string \<Rightarrow> string \<Rightarrow> store \<Rightarrow> bool raising \<times> store" where
  "delete_session sid project st = st_remove [''session'', project, sid @ ''.json''] st"

subsection \<open>MessageStorage and PartStorage\<close>

text \<open>Messages and parts with the JSON object they are dumped to.\<close>

record message =
  msg_id :: string
  msg_session_id :: string
  msg_dump :: dict

record part =
  pt_id :: string
  pt_dump :: dict

definition create_message :: "string \<Rightarrow> message \<Rightarrow> store \<Rightarrow> message raising \<times> store" where
  "create_message sid m st = (case st_write [''message'', sid, msg_id m] (msg_dump m) st of
     (Inl e, st') \<Rightarrow> (Inl e, st') | (Inr _, st') \<Rightarrow> (Inr m, st'))"

definition get_message :: "string \<Rightarrow> string \<Rightarrow> store \<Rightarrow> dict option raising" where
  "get_message sid mid st = (case st_read [''message'', sid, mid] st of
     Inr (Some (x # d)) \<Rightarrow> Inr (Some (x # d)) | Inr _ \<Rightarrow> Inr None | Inl e \<Rightarrow> Inl e)"

definition create_part :: "string \<Rightarrow> part \<Rightarrow> store \<Rightarrow> part raising \<times> store" where
  "create_part mid p st = (case st_write [''part'', mid, pt_id p] (pt_dump p) st of
     (Inl e, st') \<Rightarrow> (Inl e, st') | (Inr _, st') \<Rightarrow> (Inr p, st'))"

definition get_part :: "string \<Rightarrow> string \<Rightarrow> store \<Rightarrow> dict option raising" where
  "get_part mid pid st = (case st_read [''part'', mid, pid] st of
     Inr (Some (x # d)) \<Rightarrow> Inr (Some (x # d)) | Inr _ \<Rightarrow> Inr None | Inl e \<Rightarrow> Inl e)"

subsection \<open>Repositories\<close>

text \<open>Every method of a repository turns an exception into an \<open>Err\<close> with the code \<open>STORAGE_ERROR\<close>.\<close>

definition stored_result :: "string \<Rightarrow> 'a raising \<Rightarrow> 'a result" where
  "stored_result what r = (case r of
     Inl e \<Rightarrow> Err (what @ exn_msg e) (Some ''STORAGE_ERROR'') False | Inr x \<Rightarrow> Ok x)"

definition sr_get_by_id :: "rat \<Rightarrow> string \<Rightarrow> string \<Rightarrow> store \<Rightarrow> session result" where
  "sr_get_by_id now project sid st = (case get_session now sid project st of
     Inr None \<Rightarrow> Err (''Session not found: '' @ sid) (Some ''NOT_FOUND'') False
   | Inr (Some s) \<Rightarrow> Ok s
   | Inl e \<Rightarrow> stored_result ''Failed to get session: '' (Inl e))"

definition sr_create :: "session \<Rightarrow> store \<Rightarrow> session result \<times> store" where
  "sr_create s st = map_prod (stored_result ''Failed to create session: '') id (create_session s st)"

definition sr_update :: "rat \<Rightarrow> session \<Rightarrow> store \<Rightarrow> session result \<times> store" where
  "sr_update now s st = map_prod (stored_result ''Failed to update session: '') id (update_session now s st)"

definition sr_delete :: "string \<Rightarrow> string \<Rightarrow> store \<Rightarrow> bool result \<times> store" where
  "sr_delete project sid st = map_prod (stored_result ''Failed to delete session: '') id (delete_session sid project st)"

definition sr_list_by_project :: "rat \<Rightarrow> string \<Rightarrow> store \<Rightarrow> session list result" where
  "sr_list_by_project now project st = stored_result ''Failed to list sessions: '' (list_sessions now project st)"

definition mr_create :: "message \<Rightarrow> store \<Rightarrow> message result \<times> store" where
  "mr_create m st = map_prod (stored_result ''Failed to create message: '') id (create_message (msg_session_id m) m st)"

definition pr_create :: "string \<Rightarrow> part \<Rightarrow> store \<Rightarrow> part result \<times> store" where
  "pr_create mid p st = map_prod (stored_result ''Failed to create part: '') id (create_part mid p st)"

text \<open>\<open>FSMStateRepositoryImpl\<close>.\<close>

definition fr_get_state :: "string \<Rightarrow> store \<Rightarrow> string result" where
  "fr_get_state fsm_id st = (case st_read [''fsm_state'', fsm_id] st of
     Inl e \<Rightarrow> stored_result ''Failed to get FSM state: '' (Inl e)
   | Inr None \<Rightarrow> Err (''FSM state not found: '' @ fsm_id) (Some ''NOT_FOUND'') False
   | Inr (Some d) \<Rightarrow>
       (case str_opt (jget d ''state'') of
          None \<Rightarrow> Err (''Invalid FSM state data: '' @ fsm_id) (Some ''INVALID_DATA'') False
        | Some s \<Rightarrow> Ok s))"

definition fr_set_state :: "string \<Rightarrow> string \<Rightarrow> store \<Rightarrow> unit result \<times> store" where
  "fr_set_state fsm_id s st =
     map_prod (stored_result ''Failed to persist FSM state: '') id
       (st_write [''fsm_state'', fsm_id] [(''state'', JStr s)] st)"

subsection \<open>Properties\<close>

lemma stored_result_Ok [simp]: "stored_result w r = Ok x \<longleftrightarrow> r = Inr x"
  by (cases r) (simp_all add: stored_result_def)

lemma listed_reads:
  assumes "st_inv st" "st_list pre st = Inr ks" "k \<in> set ks"
  obtains d where "map_of (st_files st) k = Some d" "st_read k st = Inr (Some d)"
    "get_path pre = Inr p \<Longrightarrow> strict_prefix p k"
proof -
  from assms(2,3) have k: "k \<in> set (keys (st_files st))" "get_path pre = Inr p \<Longrightarrow> strict_prefix p k" for p
    by (auto simp: st_list_def split: sum.splits)
  then obtain d where d: "map_of (st_files st) k = Some d"
    by (metis map_of_eq_None_keys not_None_eq)
  with assms(1) have "key_path k = Inr k" by (intro key_path_of_good) (auto simp: st_inv_def)
  with d have "st_read k st = Inr (Some d)" by (simp add: st_read_iff)
  with d k(2) that show thesis by blast
qed

text \<open>A session is found when its file is the only listed one with its identifier.\<close>

lemma find_session_only:
  assumes "\<forall>k \<in> set ks. \<exists>d. st_read k st = Inr (Some d) \<and> (k \<noteq> p \<longrightarrow> jget d ''id'' \<noteq> JStr (s_id s))"
    and "wf_session s" "p \<in> set ks \<Longrightarrow> st_read p st = Inr (Some (session_dump s))"
  shows "find_session now (s_id s) ks st = Inr (if p \<in> set ks then Some s else None)"
  using assms(1,3)
proof (induction ks)
  case (Cons k ks)
  show ?case
  proof (cases "k = p")
    case True
    obtain x d where xd: "session_dump s = x # d" by (simp add: session_dump_def)
    have "jget (session_dump s) ''id'' = JStr (s_id s)" by (simp add: session_dump_def jget_def)
    with True Cons.prems(2) session_load_dump [OF assms(2)] xd show ?thesis by simp
  next
    case False
    with Cons.prems(1) obtain d where "st_read k st = Inr (Some d)" "jget d ''id'' \<noteq> JStr (s_id s)" by auto
    with Cons False show ?thesis by (cases d) auto
  qed
qed simp

lemma session_path:
  assumes "key_path (session_keys s) = Inr p"
  obtains b where "get_path [''session'', s_project_id s] = Inr b" "p = b @ [with_json (s_id s)]"
proof -
  have "with_json k \<noteq> ''.''" for k by (auto simp: with_json_def suffix_def append_eq_Cons_conv)
  with assms that show thesis
    by (auto simp: key_path_def session_keys_def get_path_def split: list.splits if_splits)
qed

text \<open>A session that was created is found again: \<open>create\<close> answers with the session, \<open>get_by_id\<close> then
  returns it field by field, and after \<open>delete\<close> it is not found. This needs that no other file of the
  project claims the identifier, and for the deletion that the identifier does not end in \<open>.json\<close>,
  since \<open>delete\<close> always adds the extension.\<close>

theorem session_repository_roundtrip:
  assumes "st_inv st" "wf_session s" "sr_create s st = (Ok s', st')"
    and "\<forall>p d. map_of (st_files st) p = Some d \<longrightarrow> jget d ''id'' = JStr (s_id s) \<longrightarrow> key_path (session_keys s) = Inr p"
  shows "s' = s \<and> st_inv st' \<and> sr_get_by_id now (s_project_id s) (s_id s) st' = Ok s
    \<and> (\<not> suffix ''.json'' (s_id s) \<longrightarrow> (\<exists>st'' e. sr_delete (s_project_id s) (s_id s) st' = (Ok True, st'')
         \<and> sr_get_by_id now (s_project_id s) (s_id s) st'' = Err e (Some ''NOT_FOUND'') False))"
proof -
  from assms(3) have w: "st_write (session_keys s) (session_dump s) st = (Inr (), st')" and s': "s' = s"
    by (auto simp: sr_create_def create_session_def split: prod.splits sum.splits)
  have inv: "st_inv st'" using assms(1) w by (rule st_write_inv)
  from w obtain p where p: "key_path (session_keys s) = Inr p" "st_files st' = AList.update p (session_dump s) (st_files st)"
    by (auto elim: st_write_cases)
  from p(1) obtain b where b: "get_path [''session'', s_project_id s] = Inr b" "p = b @ [with_json (s_id s)]"
    by (rule session_path)
  have read: "st_read p st' = Inr (Some (session_dump s))"
  proof -
    have "key_path p = Inr p" using key_path_good [OF p(1)] by (intro key_path_of_good) auto
    with p(2) show ?thesis by (simp add: st_read_iff)
  qed
  have get: "get_session now (s_id s) (s_project_id s) st1
      = Inr (if map_of (st_files st1) p = None then None else Some s)"
    if "st_inv st1" "st_files st1 = st_files st' \<or> st_files st1 = AList.delete p (st_files st')" for st1
  proof -
    obtain ks where ks: "st_list [''session'', s_project_id s] st1 = Inr ks"
      and mem: "p \<in> set ks \<longleftrightarrow> map_of (st_files st1) p \<noteq> None"
      using b by (auto simp: st_list_def map_of_eq_None_iff strict_prefix_def)
    have only: "\<exists>d. st_read k st1 = Inr (Some d) \<and> (k \<noteq> p \<longrightarrow> jget d ''id'' \<noteq> JStr (s_id s))"
      if "k \<in> set ks" for k
    proof -
      obtain d where d: "map_of (st_files st1) k = Some d" "st_read k st1 = Inr (Some d)"
        using listed_reads [OF \<open>st_inv st1\<close> ks \<open>k \<in> set ks\<close>] by metis
      have "map_of (st_files st) k = Some d" if "k \<noteq> p"
        using d(1) that p(2) \<open>st_files st1 = _ \<or> _\<close> by auto
      with assms(4) p(1) d(2) show ?thesis by auto
    qed
    have "st_read p st1 = Inr (Some (session_dump s))" if "p \<in> set ks"
    proof -
      from that mem \<open>st_files st1 = _ \<or> _\<close> have "st_files st1 = st_files st'" by auto
      with read show ?thesis by (simp add: st_read_iff)
    qed
    with find_session_only [of ks st1 p s now] only assms(2) ks mem show ?thesis
      by (auto simp: get_session_def)
  qed
  from get [OF inv] p(2) have 1: "sr_get_by_id now (s_project_id s) (s_id s) st' = Ok s"
    by (simp add: sr_get_by_id_def)
  have 2: "\<exists>st'' e. sr_delete (s_project_id s) (s_id s) st' = (Ok True, st'')
         \<and> sr_get_by_id now (s_project_id s) (s_id s) st'' = Err e (Some ''NOT_FOUND'') False"
    if "\<not> suffix ''.json'' (s_id s)"
  proof -
    have "suffix ''.json'' (s_id s @ ''.json'')" by (simp add: suffix_def)
    then have "key_path [''session'', s_project_id s, s_id s @ ''.json''] = key_path (session_keys s)"
      using that by (simp add: key_path_def session_keys_def with_json_def)
    then obtain st'' where st'': "st_remove [''session'', s_project_id s, s_id s @ ''.json''] st' = (Inr True, st'')"
      "st_files st'' = AList.delete p (st_files st')"
      using p by (simp add: st_remove_def)
    with get [of st''] st_remove_inv [OF inv] show ?thesis
      by (auto simp: sr_delete_def delete_session_def sr_get_by_id_def)
  qed
  from s' inv 1 2 show ?thesis by blast
qed

theorem session_repository_roundtrip_witness:
  "let s = \<lparr>s_id = ''s1'', s_slug = ''x'', s_project_id = ''p'', s_directory = ''d'', s_parent_id = None,
            s_title = ''t'', s_version = ''1'', s_time_created = 0, s_time_updated = 0, s_rest = []\<rparr>
   in sr_get_by_id 5 ''p'' ''s1'' (snd (sr_create s st_init)) = Ok s"
proof -
  define s where "s = \<lparr>s_id = ''s1'', s_slug = ''x'', s_project_id = ''p'', s_directory = ''d'', s_parent_id = None,
            s_title = ''t'', s_version = ''1'', s_time_created = 0, s_time_updated = 0, s_rest = []\<rparr>"
  have sel: "s_id s = ''s1''" "s_project_id s = ''p''" "wf_session s" by (simp_all add: s_def wf_session_def)
  obtain r st' where w: "sr_create s st_init = (r, st')" by (metis surj_pair)
  have "key_path (session_keys s) = Inr [''session'', ''p'', ''s1.json'']"
    by (simp add: session_keys_def sel key_path_def get_path_def bad_key_def with_json_def suffix_def
        append_eq_Cons_conv Cons_eq_append_conv)
  then have "r = Ok s"
    using w by (auto simp: sr_create_def create_session_def st_write_def st_init_def below_file_def
        Let_def split: prod.splits)
  with w session_repository_roundtrip [OF st_inv_init sel(3), of s st' 5]
  have "sr_get_by_id 5 ''p'' ''s1'' (snd (sr_create s st_init)) = Ok s"
    by (simp add: sel st_init_def)
  then show ?thesis by (simp add: Let_def s_def)
qed

text \<open>The state repository: what is set is read, and other machines keep their states.\<close>

lemma fr_set_get:
  assumes "st_inv st" "fr_set_state i s st = (Ok (), st')"
  shows "fr_get_state i st' = Ok s" "st_inv st'"
proof -
  from assms(2) have w: "st_write [''fsm_state'', i] [(''state'', JStr s)] st = (Inr (), st')"
    by (cases "st_write [''fsm_state'', i] [(''state'', JStr s)] st") (simp add: fr_set_state_def)
  from st_write_read(1) [OF assms(1) w] show "fr_get_state i st' = Ok s"
    by (simp add: fr_get_state_def jget_def str_opt_JStr)
  from assms(1) w show "st_inv st'" by (rule st_write_inv)
qed

end
