(* ===== verification/UnitOfWork.thy ===== *)
theory UnitOfWork
  imports Repositories
begin

text \<open>
  The unit of work of \<open>core/unit_of_work.py\<close>: entities are registered in a transaction and created by
  \<open>commit\<close> through the repositories. The contract \<open>commit\<close> relies on is the locale \<open>entity_store\<close>; the
  repositories of \<open>Repositories\<close> over one JSON store meet it.
\<close>

record uow =
  uw_in_transaction :: bool
  uw_sessions :: "session list"
  uw_messages :: "message list"
  uw_parts :: "(string \<times> part) list"

definition uw_init :: uow where
  "uw_init = \<lparr>uw_in_transaction = False, uw_sessions = [], uw_messages = [], uw_parts = []\<rparr>"

definition no_transaction :: "'a result" where
  "no_transaction = Err ''No transaction in progress'' (Some ''TRANSACTION_ERROR'') False"

definition uw_begin :: "uow \<Rightarrow> unit result \<times> uow" where
  "uw_begin u =
     (if uw_in_transaction u then (Err ''Transaction already in progress'' (Some ''TRANSACTION_ERROR'') False, u)
      else (Ok (), u\<lparr>uw_in_transaction := True, uw_sessions := [], uw_messages := [], uw_parts := []\<rparr>))"

definition uw_register_session :: "session \<Rightarrow> uow \<Rightarrow> session result \<times> uow" where
  "uw_register_session s u =
     (if \<not> uw_in_transaction u then (no_transaction, u)
      else (Ok s, u\<lparr>uw_sessions := uw_sessions u @ [s]\<rparr>))"

definition uw_register_message :: "message \<Rightarrow> uow \<Rightarrow> message result \<times> uow" where
  "uw_register_message m u =
     (if \<not> uw_in_transaction u then (no_transaction, u)
      else (Ok m, u\<lparr>uw_messages := uw_messages u @ [m]\<rparr>))"

definition uw_register_part :: "string \<Rightarrow> part \<Rightarrow> uow \<Rightarrow> part result \<times> uow" where
  "uw_register_part mid p u =
     (if \<not> uw_in_transaction u then (no_transaction, u)
      else (Ok p, u\<lparr>uw_parts := uw_parts u @ [(mid, p)]\<rparr>))"

definition uw_rollback :: "uow \<Rightarrow> unit result \<times> uow" where
  "uw_rollback u =
     (if \<not> uw_in_transaction u then (no_transaction, u)
      else (Ok (), u\<lparr>uw_in_transaction := False, uw_sessions := [], uw_messages := [], uw_parts := []\<rparr>))"

text \<open>One loop of \<open>commit\<close>: it ends at the first \<open>Err\<close>, which is the answer.\<close>

fun create_all :: "('e \<Rightarrow> 'w \<Rightarrow> 'r result \<times> 'w) \<Rightarrow> 'e list \<Rightarrow> 'w \<Rightarrow> unit result \<times> 'w" where
  "create_all create [] w = (Ok (), w)"
| "create_all create (e # es) w =
     (case create e w of (r, w') \<Rightarrow> if is_err r then (recast r, w') else create_all create es w')"

text \<open>\<open>commit\<close>: the three loops, then the pending lists are cleared.\<close>

definition uw_commit ::
  "(session \<Rightarrow> 'w \<Rightarrow> session result \<times> 'w) \<Rightarrow> (message \<Rightarrow> 'w \<Rightarrow> message result \<times> 'w)
     \<Rightarrow> (string \<times> part \<Rightarrow> 'w \<Rightarrow> part result \<times> 'w) \<Rightarrow> uow \<Rightarrow> 'w \<Rightarrow> unit result \<times> uow \<times> 'w" where
  "uw_commit session_create message_create part_create u w =
     (if \<not> uw_in_transaction u then (no_transaction, u, w)
      else case create_all session_create (uw_sessions u) w of
        (r, w) \<Rightarrow> if is_err r then (r, u, w)
          else case create_all message_create (uw_messages u) w of
            (r, w) \<Rightarrow> if is_err r then (r, u, w)
              else case create_all part_create (uw_parts u) w of
                (r, w) \<Rightarrow> if is_err r then (r, u, w)
                  else (Ok (), u\<lparr>uw_in_transaction := False, uw_sessions := [], uw_messages := [], uw_parts := []\<rparr>, w))"

subsection \<open>The contract of the repositories\<close>

locale entity_store =
  fixes create :: "'e \<Rightarrow> 'w \<Rightarrow> 'r result \<times> 'w"
    and has :: "'e \<Rightarrow> 'w \<Rightarrow> bool"
    and place :: "'e \<Rightarrow> 'k"
    and good :: "'w \<Rightarrow> bool"
  assumes good_create: "good w \<Longrightarrow> create e w = (r, w') \<Longrightarrow> good w'"
    and create_has: "good w \<Longrightarrow> create e w = (r, w') \<Longrightarrow> \<not> is_err r \<Longrightarrow> has e w'"
    and create_keeps: "good w \<Longrightarrow> create e w = (r, w') \<Longrightarrow> has e' w \<Longrightarrow> place e' \<noteq> place e \<Longrightarrow> has e' w'"
begin

lemma create_all_keeps:
  "good w \<Longrightarrow> create_all create es w = (r, w') \<Longrightarrow> good w' \<and> (has e w \<longrightarrow> place e \<notin> place ` set es \<longrightarrow> has e w')"
proof (induction es arbitrary: w)
  case (Cons x es)
  obtain r1 w1 where c: "create x w = (r1, w1)" by (metis surj_pair)
  with Cons.prems have "good w1" "has e w \<Longrightarrow> place e \<noteq> place x \<Longrightarrow> has e w1"
    by (auto intro: good_create create_keeps)
  with Cons c show ?case by (auto split: if_splits)
qed simp

text \<open>All entities are stored, or those before the first that fails.\<close>

lemma create_all_prefix:
  assumes "good w" "distinct (map place es)" "create_all create es w = (r, w')"
  shows "(if is_err r then \<exists>pre e post. es = pre @ e # post \<and> (\<forall>x \<in> set pre. has x w')
          else \<forall>x \<in> set es. has x w')"
  using assms
proof (induction es arbitrary: w)
  case Nil
  then show ?case by auto
next
  case (Cons x es)
  obtain r1 w1 where c: "create x w = (r1, w1)" by (metis surj_pair)
  show ?case
  proof (cases "is_err r1")
    case True
    with c Cons.prems(3) have "is_err r" by (auto simp: is_err_iff)
    then show ?thesis by (auto intro: exI [of _ "[]"])
  next
    case False
    with c Cons.prems(3) have rest: "create_all create es w1 = (r, w')" by simp
    have g: "good w1" "has x w1" using Cons.prems(1) c False by (auto intro: good_create create_has)
    have x: "has x w'" using create_all_keeps [OF g(1) rest, of x] g(2) Cons.prems(2) by auto
    from Cons.IH [OF g(1) _ rest] Cons.prems(2)
    have IH: "if is_err r then \<exists>pre e post. es = pre @ e # post \<and> (\<forall>x \<in> set pre. has x w')
              else \<forall>x \<in> set es. has x w'" by simp
    show ?thesis
    proof (cases "is_err r")
      case True
      with IH obtain pre e post where "es = pre @ e # post" "\<forall>x \<in> set pre. has x w'" by auto
      with x have "x # es = (x # pre) @ e # post \<and> (\<forall>x \<in> set (x # pre). has x w')" by simp
      with True show ?thesis by (simp only: if_True) blast
    qed (use IH x in simp)
  qed
qed

end

subsection \<open>The repositories over one store\<close>

text \<open>The entities of all three kinds, with the keys and the object they are stored under.\<close>

datatype entity = Session session | Message message | Part string part

definition ent_keys :: "entity \<Rightarrow> string list" where
  "ent_keys e = (case e of
     Session s \<Rightarrow> session_keys s
   | Message m \<Rightarrow> [''message'', msg_session_id m, msg_id m]
   | Part mid p \<Rightarrow> [''part'', mid, pt_id p])"

definition ent_dump :: "entity \<Rightarrow> dict" where
  "ent_dump e = (case e of Session s \<Rightarrow> session_dump s | Message m \<Rightarrow> msg_dump m | Part mid p \<Rightarrow> pt_dump p)"

definition forget :: "'a result \<Rightarrow> unit result" where
  "forget r = map_result r (\<lambda>_. ())"

lemma is_err_forget [simp]: "is_err (forget r) = is_err r"
  by (cases r) (simp_all add: forget_def map_result_def)

definition ent_create :: "entity \<Rightarrow> store \<Rightarrow> unit result \<times> store" where
  "ent_create e st = (case e of
     Session s \<Rightarrow> map_prod forget id (sr_create s st)
   | Message m \<Rightarrow> map_prod forget id (mr_create m st)
   | Part mid p \<Rightarrow> map_prod forget id (pr_create mid p st))"

definition ent_stored :: "entity \<Rightarrow> store \<Rightarrow> bool" where
  "ent_stored e st \<longleftrightarrow> st_read (ent_keys e) st = Inr (Some (ent_dump e))"

lemma ent_create_write:
  assumes "ent_create e st = (r, st')"
  obtains x where "st_write (ent_keys e) (ent_dump e) st = (x, st')" "is_err r \<longleftrightarrow> raises x"
  using assms
  by (cases e; cases "st_write (ent_keys e) (ent_dump e) st"; cases "fst (st_write (ent_keys e) (ent_dump e) st)")
     (auto simp: ent_create_def ent_keys_def ent_dump_def sr_create_def mr_create_def pr_create_def
       create_session_def create_message_def create_part_def stored_result_def)

lemma st_write_keeps:
  assumes "st_inv st" "st_write ks d st = (x, st')" "st_read ks' st = Inr (Some d')" "key_path ks' \<noteq> key_path ks"
  shows "st_read ks' st' = Inr (Some d')"
  using assms(2) by (cases rule: st_write_cases) (use assms in \<open>auto simp: st_read_iff\<close>)

interpretation repo: entity_store ent_create ent_stored "\<lambda>e. key_path (ent_keys e)" st_inv
proof unfold_locales
  fix w e r w' assume w: "st_inv w" "ent_create e w = (r, w')"
  then obtain x where x: "st_write (ent_keys e) (ent_dump e) w = (x, w')" "is_err r \<longleftrightarrow> raises x"
    by (metis ent_create_write)
  with w show "st_inv w'" by (blast intro: st_write_inv)
  show "\<not> is_err r \<Longrightarrow> ent_stored e w'"
    using x w st_write_read(1) [OF w(1)] by (cases x) (auto simp: ent_stored_def)
  fix e' assume "ent_stored e' w" "key_path (ent_keys e') \<noteq> key_path (ent_keys e)"
  with st_write_keeps [OF w(1) x(1)] show "ent_stored e' w'" by (simp add: ent_stored_def)
qed

subsection \<open>Properties\<close>

definition pending :: "uow \<Rightarrow> entity list" where
  "pending u = map Session (uw_sessions u) @ map Message (uw_messages u) @ map (\<lambda>(mid, p). Part mid p) (uw_parts u)"

definition pr_create_pair :: "string \<times> part \<Rightarrow> store \<Rightarrow> part result \<times> store" where
  "pr_create_pair mp st = pr_create (fst mp) (snd mp) st"

lemma create_all_append:
  "create_all c (xs @ ys) w = (case create_all c xs w of (r, w') \<Rightarrow> if is_err r then (r, w') else create_all c ys w')"
proof (induction xs arbitrary: w)
  case (Cons x xs)
  obtain r w1 where "c x w = (r, w1)" by (metis surj_pair)
  with Cons show ?case by (auto simp: is_err_iff)
qed simp

lemma create_all_map:
  "(\<And>x w. x \<in> set xs \<Longrightarrow> c (f x) w = map_prod forget id (d x w)) \<Longrightarrow> create_all c (map f xs) w = create_all d xs w"
proof (induction xs arbitrary: w)
  case (Cons x xs)
  obtain r w1 where d: "d x w = (r, w1)" by (metis surj_pair)
  from Cons.prems [of x w] d have "c (f x) w = (forget r, w1)" by simp
  with Cons d show ?case
    by (cases r) (auto simp: forget_def map_result_def)
qed simp

lemma create_all_not_err: "create_all c xs w = (r, w') \<Longrightarrow> \<not> is_err r \<Longrightarrow> r = Ok ()"
  by (induction xs arbitrary: w) (auto split: prod.splits if_splits simp: is_err_iff)

lemma uw_commit_pending:
  assumes "uw_in_transaction u"
  shows "uw_commit sr_create mr_create pr_create_pair u st =
    (case create_all ent_create (pending u) st of (r, st') \<Rightarrow>
       (r, if is_err r then u else snd (uw_rollback u), st'))"
proof -
  have "create_all ent_create (map Session (uw_sessions u)) w = create_all sr_create (uw_sessions u) w"
    "create_all ent_create (map Message (uw_messages u)) w = create_all mr_create (uw_messages u) w"
    "create_all ent_create (map (\<lambda>(mid, p). Part mid p) (uw_parts u)) w = create_all pr_create_pair (uw_parts u) w" for w
    by (rule create_all_map; simp add: ent_create_def pr_create_pair_def split: prod.splits)+
  with assms show ?thesis
    by (auto simp: uw_commit_def pending_def create_all_append uw_rollback_def is_err_iff
        split: prod.splits dest!: create_all_not_err)
qed

text \<open>\<open>commit\<close> creates what was registered, sessions before messages before parts. If it answers \<open>Ok\<close>,
  everything is stored and the transaction is closed and empty. If it fails, the entities before the
  one that failed stay stored, and the transaction is still open with everything pending: the commit is
  not atomic, and a rollback of the unit of work leaves the store as it is.\<close>

theorem uow_commit_not_atomic:
  assumes "st_inv st" "uw_in_transaction u" "distinct (map (\<lambda>e. key_path (ent_keys e)) (pending u))"
    and "uw_commit sr_create mr_create pr_create_pair u st = (r, u', st')"
  shows "if is_err r then u' = u \<and> (\<exists>pre e post. pending u = pre @ e # post \<and> (\<forall>x \<in> set pre. ent_stored x st'))
         else r = Ok () \<and> \<not> uw_in_transaction u' \<and> pending u' = [] \<and> (\<forall>x \<in> set (pending u). ent_stored x st')"
proof -
  obtain r1 st1 where c: "create_all ent_create (pending u) st = (r1, st1)" by (metis surj_pair)
  with assms(4) uw_commit_pending [OF assms(2), of st]
  have r: "r = r1" "st' = st1" "u' = (if is_err r then u else snd (uw_rollback u))" by auto
  from repo.create_all_prefix [OF assms(1,3) c] create_all_not_err [OF c] assms(2) r
  show ?thesis
    by (auto simp: uw_rollback_def pending_def)
qed

text \<open>A message whose identifier is no usable key: the message before it stays.\<close>

theorem uow_commit_not_atomic_witness:
  "\<exists>u e st'. pending u = [Message \<lparr>msg_id = ''m'', msg_session_id = ''a'', msg_dump = []\<rparr>,
        Message \<lparr>msg_id = ''../m'', msg_session_id = ''a'', msg_dump = []\<rparr>]
     \<and> uw_commit sr_create mr_create pr_create_pair u st_init = (Err e (Some ''STORAGE_ERROR'') False, u, st')
     \<and> st_read [''message'', ''a'', ''m''] st' = Inr (Some [])"
proof -
  define u where "u = snd (uw_register_message \<lparr>msg_id = ''../m'', msg_session_id = ''a'', msg_dump = []\<rparr>
        (snd (uw_register_message \<lparr>msg_id = ''m'', msg_session_id = ''a'', msg_dump = []\<rparr> (snd (uw_begin uw_init)))))"
  have u: "uw_in_transaction u" "pending u = [Message \<lparr>msg_id = ''m'', msg_session_id = ''a'', msg_dump = []\<rparr>,
      Message \<lparr>msg_id = ''../m'', msg_session_id = ''a'', msg_dump = []\<rparr>]"
    by (simp_all add: u_def uw_register_message_def uw_begin_def uw_init_def pending_def)
  have kp: "key_path [''message'', ''a'', ''m''] = Inr [''message'', ''a'', ''m.json'']"
    "\<exists>e. key_path [''message'', ''a'', ''../m''] = Inl e"
    by (simp_all add: key_path_def get_path_def bad_key_def with_json_def suffix_def append_eq_Cons_conv
        Cons_eq_append_conv)
  then obtain e where e: "key_path [''message'', ''a'', ''../m''] = Inl e" by blast
  obtain r u' st' where c: "uw_commit sr_create mr_create pr_create_pair u st_init = (r, u', st')"
    by (metis prod_cases3)
  have r: "\<exists>e. r = Err e (Some ''STORAGE_ERROR'') False" and read: "st_read [''message'', ''a'', ''m''] st' = Inr (Some [])"
    using c u kp(1) e
    by (auto simp: uw_commit_pending ent_create_def mr_create_def create_message_def st_write_def
        st_init_def below_file_def Let_def stored_result_def forget_def map_result_def st_read_iff)
  have "distinct (map (\<lambda>e. key_path (ent_keys e)) (pending u))"
    by (simp add: u(2) ent_keys_def kp(1) e)
  from uow_commit_not_atomic [OF st_inv_init u(1) this c] r c u(2) read show ?thesis
    by auto
qed

end
