(* ===== verification/Commands.thy ===== *)
theory Commands
  imports Mediators Repositories
begin

text \<open>
  The commands and the command queue of \<open>core/commands.py\<close>. The three command classes are one datatype;
  \<open>context.metadata\<close> is a record of the four entries that commands read. The session repository and
  the tool adapter are callbacks of the world \<open>'w\<close>, the mediator is any publisher. The value of a
  command is a JSON value, and \<open>str_of\<close> is the \<open>str\<close> of its result.
\<close>

datatype command =
    CreateSessionCommand (cmd_session_id: string) (cmd_title: string)
  | ExecuteToolCommand (cmd_tool: string) (cmd_arguments: dict)
  | TransitionCommand (cmd_fsm_id: string) (cmd_from: string) (cmd_to: string)

fun cmd_name :: "command \<Rightarrow> string" where
  "cmd_name (CreateSessionCommand i t) = ''create_session''"
| "cmd_name (ExecuteToolCommand t a) = ''execute_tool''"
| "cmd_name (TransitionCommand i f t) = ''transition''"

fun cmd_description :: "command \<Rightarrow> string" where
  "cmd_description (CreateSessionCommand i t) = ''Create session: '' @ t"
| "cmd_description (ExecuteToolCommand t a) = ''Execute tool: '' @ t"
| "cmd_description (TransitionCommand i f t) = ''Transition FSM '' @ i @ '': '' @ f @ '' -> '' @ t"

record 'w cmd_metadata =
  cx_session_repo :: "(session \<Rightarrow> 'w \<Rightarrow> session result raising \<times> 'w) option"
  cx_tool_adapter :: "(dict \<Rightarrow> 'w \<Rightarrow> json result raising \<times> 'w) option"
  cx_project_id :: string
  cx_project_dir :: string

text \<open>The metadata of \<open>CommandContext(timestamp=...)\<close>.\<close>

definition no_metadata :: "'w cmd_metadata" where
  "no_metadata = \<lparr>cx_session_repo = None, cx_tool_adapter = None, cx_project_id = [], cx_project_dir = []\<rparr>"

definition command_error :: "string \<Rightarrow> string \<Rightarrow> json result" where
  "command_error what e = Err (what @ e) (Some ''COMMAND_ERROR'') False"

definition missing :: "string \<Rightarrow> json result" where
  "missing what = Err (what @ '' not in context'') (Some ''MISSING_DEPENDENCY'') False"

fun cmd_execute :: "rat \<Rightarrow> 'w cmd_metadata \<Rightarrow> command \<Rightarrow> 'w \<Rightarrow> json result \<times> 'w" where
  "cmd_execute now cx (CreateSessionCommand i t) w = (case cx_session_repo cx of
     None \<Rightarrow> (missing ''session_repo'', w)
   | Some create \<Rightarrow>
       (case create \<lparr>s_id = i, s_slug = ''session'', s_project_id = cx_project_id cx, s_directory = cx_project_dir cx,
                     s_parent_id = None, s_title = t, s_version = ''1.0.0'', s_time_created = now,
                     s_time_updated = now, s_rest = []\<rparr> w of
          (Inr (Ok _), w') \<Rightarrow> (Ok (JStr i), w')
        | (Inr (Err e _ _), w') \<Rightarrow> (command_error ''Failed to create session: '' e, w')
        | (Inr (Pass _), w') \<Rightarrow>
            (command_error ''Failed to create session: '' ''Pass object has no attribute error'', w')
        | (Inl e, w') \<Rightarrow> (command_error ''Failed to create session: '' (exn_msg e), w')))"
| "cmd_execute now cx (ExecuteToolCommand t args) w = (case cx_tool_adapter cx of
     None \<Rightarrow> (missing ''tool_adapter'', w)
   | Some execute \<Rightarrow>
       (case execute args w of
          (Inr r, w') \<Rightarrow> (r, w')
        | (Inl e, w') \<Rightarrow> (command_error ''Failed to execute tool: '' (exn_msg e), w')))"
| "cmd_execute now cx (TransitionCommand i f t) w = (Ok (JStr t), w)"

definition cmd_can_undo :: "command \<Rightarrow> bool" where
  "cmd_can_undo c = False"

definition cmd_undo :: "command \<Rightarrow> unit result" where
  "cmd_undo c = Err (''Command '' @ cmd_name c @ '' does not support undo'') (Some ''UNDO_NOT_SUPPORTED'') False"

text \<open>\<open>get_provenance\<close>; \<open>created\<close> is the text of the creation time.\<close>

definition cmd_provenance :: "string \<Rightarrow> command \<Rightarrow> dict result" where
  "cmd_provenance created c = Ok ([(''command'', JStr (cmd_name c)), (''description'', JStr (cmd_description c)),
     (''created_at'', JStr created), (''can_undo'', JBool (cmd_can_undo c))]
     @ (case c of TransitionCommand i f t \<Rightarrow>
          [(''fsm_id'', JStr i), (''from_state'', JStr f), (''to_state'', JStr t)] | _ \<Rightarrow> []))"

subsection \<open>The queue\<close>

record cmd_queue =
  cq_queue :: "command list"
  cq_history :: "command list"

definition cq_init :: cmd_queue where
  "cq_init = \<lparr>cq_queue = [], cq_history = []\<rparr>"

definition cq_event :: "string \<Rightarrow> command \<Rightarrow> dict \<Rightarrow> event" where
  "cq_event action c extra = mk_event APPLICATION ''command_queue'' None
     (Some ([(''action'', JStr action), (''command'', JStr (cmd_name c))] @ extra))"

text \<open>\<open>enqueue\<close>: the answer of the mediator is dropped; if it raises, the command is in the queue all the
  same.\<close>

definition cq_enqueue ::
  "(event \<Rightarrow> 'w \<Rightarrow> unit result raising \<times> 'w) \<Rightarrow> command \<Rightarrow> cmd_queue \<Rightarrow> 'w \<Rightarrow> unit result \<times> cmd_queue \<times> 'w" where
  "cq_enqueue publish c q w =
     (let q' = q\<lparr>cq_queue := cq_queue q @ [c], cq_history := cq_history q @ [c]\<rparr>
      in case publish (cq_event ''command_enqueued'' c []) w of
           (Inr _, w') \<Rightarrow> (Ok (), q', w')
         | (Inl e, w') \<Rightarrow> (Err (''Failed to enqueue command: '' @ exn_msg e) (Some ''QUEUE_ERROR'') False, q', w'))"

text \<open>\<open>process_next\<close> runs the command with a context of its own, whose metadata is empty.\<close>

definition cq_process_next ::
  "(json result \<Rightarrow> string) \<Rightarrow> (event \<Rightarrow> 'w \<Rightarrow> unit result raising \<times> 'w) \<Rightarrow> rat \<Rightarrow> cmd_queue \<Rightarrow> 'w
     \<Rightarrow> json result raising \<times> cmd_queue \<times> 'w" where
  "cq_process_next str_of publish now q w = (case cq_queue q of
     [] \<Rightarrow> (Inr (Err ''No commands in queue'' (Some ''QUEUE_EMPTY'') False), q, w)
   | c # cs \<Rightarrow>
       (let q' = q\<lparr>cq_queue := cs\<rparr>
        in case publish (cq_event ''command_started'' c []) w of
             (Inl e, w1) \<Rightarrow> (Inl e, q', w1)
           | (Inr _, w1) \<Rightarrow>
               (let (r, w2) = cmd_execute now no_metadata c w1
                in case publish (if is_ok r then cq_event ''command_completed'' c []
                                 else cq_event ''command_failed'' c [(''error'', JStr (str_of r))]) w2 of
                     (Inl e, w3) \<Rightarrow> (Inl e, q', w3)
                   | (Inr _, w3) \<Rightarrow> (Inr r, q', w3))))"

subsection \<open>Properties\<close>

fun cq_enqueue_all ::
  "(event \<Rightarrow> 'w \<Rightarrow> unit result raising \<times> 'w) \<Rightarrow> command list \<Rightarrow> cmd_queue \<Rightarrow> 'w \<Rightarrow> cmd_queue \<times> 'w" where
  "cq_enqueue_all publish [] q w = (q, w)"
| "cq_enqueue_all publish (c # cs) q w =
     (case cq_enqueue publish c q w of (_, q', w') \<Rightarrow> cq_enqueue_all publish cs q' w')"

fun cq_drain ::
  "(json result \<Rightarrow> string) \<Rightarrow> (event \<Rightarrow> 'w \<Rightarrow> unit result raising \<times> 'w) \<Rightarrow> rat \<Rightarrow> nat \<Rightarrow> cmd_queue \<Rightarrow> 'w
     \<Rightarrow> json result raising list \<times> cmd_queue \<times> 'w" where
  "cq_drain str_of publish now 0 q w = ([], q, w)"
| "cq_drain str_of publish now (Suc n) q w =
     (case cq_process_next str_of publish now q w of
        (r, q', w') \<Rightarrow> (case cq_drain str_of publish now n q' w' of (rs, q'', w'') \<Rightarrow> (r # rs, q'', w'')))"

text \<open>What a command answers when it runs without metadata.\<close>

fun queued_answer :: "command \<Rightarrow> json result" where
  "queued_answer (CreateSessionCommand i t) = missing ''session_repo''"
| "queued_answer (ExecuteToolCommand t a) = missing ''tool_adapter''"
| "queued_answer (TransitionCommand i f t) = Ok (JStr t)"

lemma execute_no_metadata: "cmd_execute now no_metadata c w = (queued_answer c, w)"
  by (cases c) (simp_all add: no_metadata_def)

context event_channel
begin

lemma enqueue_ok:
  "\<exists>w'. cq_enqueue publish c q w = (Ok (), q\<lparr>cq_queue := cq_queue q @ [c], cq_history := cq_history q @ [c]\<rparr>, w')"
proof -
  obtain r w' where "publish (cq_event ''command_enqueued'' c []) w = (Inr r, w')" by (rule published)
  then show ?thesis by (simp add: cq_enqueue_def Let_def)
qed

lemma enqueue_all:
  "\<exists>w'. cq_enqueue_all publish cs q w = (q\<lparr>cq_queue := cq_queue q @ cs, cq_history := cq_history q @ cs\<rparr>, w')"
proof (induction cs arbitrary: q w)
  case (Cons c cs)
  obtain w1 where "cq_enqueue publish c q w = (Ok (), q\<lparr>cq_queue := cq_queue q @ [c], cq_history := cq_history q @ [c]\<rparr>, w1)"
    using enqueue_ok by blast
  with Cons.IH [of "q\<lparr>cq_queue := cq_queue q @ [c], cq_history := cq_history q @ [c]\<rparr>" w1]
  show ?case by auto
qed simp

lemma process_next_cons:
  assumes "cq_queue q = c # cs"
  shows "\<exists>w'. cq_process_next str_of publish now q w = (Inr (queued_answer c), q\<lparr>cq_queue := cs\<rparr>, w')"
proof -
  obtain r1 w1 where 1: "publish (cq_event ''command_started'' c []) w = (Inr r1, w1)" by (rule published)
  obtain r2 w2 where 2: "publish (if is_ok (queued_answer c) then cq_event ''command_completed'' c []
      else cq_event ''command_failed'' c [(''error'', JStr (str_of (queued_answer c)))]) w1 = (Inr r2, w2)"
    by (rule published)
  from 1 2 assms show ?thesis by (simp add: cq_process_next_def execute_no_metadata Let_def)
qed

lemma drain_all:
  "cq_queue q = cs @ ds \<Longrightarrow>
   \<exists>w'. cq_drain str_of publish now (length cs) q w = (map (\<lambda>c. Inr (queued_answer c)) cs, q\<lparr>cq_queue := ds\<rparr>, w')"
proof (induction cs arbitrary: q w)
  case Nil
  then show ?case by simp
next
  case (Cons c cs)
  then obtain w1 where 1: "cq_process_next str_of publish now q w = (Inr (queued_answer c), q\<lparr>cq_queue := cs @ ds\<rparr>, w1)"
    using process_next_cons [of q c "cs @ ds" str_of now w] by auto
  from Cons.IH [of "q\<lparr>cq_queue := cs @ ds\<rparr>" w1] obtain w2 where
    "cq_drain str_of publish now (length cs) (q\<lparr>cq_queue := cs @ ds\<rparr>) w1
       = (map (\<lambda>c. Inr (queued_answer c)) cs, q\<lparr>cq_queue := ds\<rparr>, w2)" by auto
  with 1 show ?case by simp
qed

end

text \<open>The command queue is first in, first out: draining it answers, in order, what each command
  answers when it runs without metadata. So a session creation or a tool execution that goes through
  the queue always fails with \<open>MISSING_DEPENDENCY\<close>, whatever repository and tools the application has;
  only transitions succeed. The history keeps every command that was enqueued.\<close>

theorem queue_runs_without_dependencies:
  assumes "cq_enqueue_all (med_channel call m) cs cq_init w = (q, w1)"
    and "cq_drain str_of (med_channel call m) now (length cs) q w1 = (rs, q', w2)"
  shows "rs = map (\<lambda>c. Inr (queued_answer c)) cs \<and> cq_queue q' = [] \<and> cq_history q' = cs
    \<and> (\<forall>i < length cs. case cs ! i of
         TransitionCommand _ _ t \<Rightarrow> rs ! i = Inr (Ok (JStr t))
       | _ \<Rightarrow> (\<exists>e. rs ! i = Inr (Err e (Some ''MISSING_DEPENDENCY'') False)))"
proof -
  have q: "q = \<lparr>cq_queue = cs, cq_history = cs\<rparr>"
    using assms(1) med.enqueue_all [of call m cs cq_init w] by (auto simp: cq_init_def)
  with assms(2) med.drain_all [of q cs "[]" str_of call m now w1]
  have rs: "rs = map (\<lambda>c. Inr (queued_answer c)) cs" "q' = \<lparr>cq_queue = [], cq_history = cs\<rparr>" by auto
  then show ?thesis by (auto simp: missing_def split: command.splits)
qed

theorem queue_runs_without_dependencies_witness:
  "\<exists>q w1 q' w2. cq_enqueue_all (med_channel (\<lambda>(h::nat) ev w. (None, Suc w)) med_init)
       [CreateSessionCommand ''s'' ''t'', TransitionCommand ''f'' ''a'' ''b''] cq_init 0 = (q, w1)
     \<and> cq_drain (\<lambda>_. []) (med_channel (\<lambda>(h::nat) ev w. (None, Suc w)) med_init) 0 (Suc (Suc 0)) q w1
        = ([Inr (missing ''session_repo''), Inr (Ok (JStr ''b''))], q', w2)"
proof -
  define ch where "ch = med_channel (\<lambda>(h::nat) ev w. (None, Suc w)) med_init"
  obtain q w1 where q: "cq_enqueue_all ch [CreateSessionCommand ''s'' ''t'', TransitionCommand ''f'' ''a'' ''b''] cq_init 0 = (q, w1)"
    by (metis surj_pair)
  obtain rs q' w2 where "cq_drain (\<lambda>_. []) ch 0 (length [CreateSessionCommand ''s'' ''t'', TransitionCommand ''f'' ''a'' ''b'']) q w1 = (rs, q', w2)"
    by (metis prod_cases3)
  note drain = this
  from queue_runs_without_dependencies [OF q [unfolded ch_def] this [unfolded ch_def]]
  have rs: "rs = [Inr (missing ''session_repo''), Inr (Ok (JStr ''b''))]" by simp
  have len: "length [CreateSessionCommand ''s'' ''t'', TransitionCommand ''f'' ''a'' ''b''] = Suc (Suc 0)" by simp
  show ?thesis
    by (intro exI conjI, rule q [unfolded ch_def], rule drain [unfolded len rs ch_def])
qed

end
