(* ===== verification/Fsm.thy ===== *)
theory Fsm
  imports Commands Retry Limiter Bulkheads
begin

text \<open>
  The state machine of \<open>core/fsm.py\<close>: \<open>FSMImpl\<close> with its hooks, repository, mediator and observers, the
  builder and the builder of workflow machines. Hooks are callbacks of the world \<open>'w\<close> and answer with an
  \<open>outcome\<close> (see \<open>Retry\<close>); a hook that calls its own machine is not modelled. Observers are known by a
  number. The machine made by \<open>build\<close> has a copy of the sets of its builder; the code shares them, which
  makes no difference as long as the builder is not used again.
\<close>

record fsm_context =
  fc_source :: string
  fc_metadata :: dict
  fc_user_data :: dict

type_synonym 'w hook = "fsm_context \<Rightarrow> 'w \<Rightarrow> unit outcome \<times> 'w"

record fsm_reliability =
  frc_breaker :: "breaker option"
  frc_retry :: "executor option"
  frc_limiter :: "limiter option"
  frc_bulkhead :: "bulkhead option"
  frc_enabled :: bool

record 'w fsm =
  fm_state :: string
  fm_states :: "string set"
  fm_transitions :: "(string \<times> string set) list"
  fm_id :: string
  fm_history :: "command list"
  fm_repo :: "(string \<Rightarrow> string \<Rightarrow> 'w \<Rightarrow> unit result raising \<times> 'w) option"
  fm_mediator :: "(event \<Rightarrow> 'w \<Rightarrow> unit result raising \<times> 'w) option"
  fm_observers :: "nat list"
  fm_entry :: "string \<Rightarrow> 'w hook option"
  fm_exit :: "string \<Rightarrow> 'w hook option"
  fm_reliability :: "fsm_reliability option"

text \<open>The text of a sorted list of names without quotes in them.\<close>

definition py_names :: "string set \<Rightarrow> string" where
  "py_names s = ''['' @ concat (map (\<lambda>(i, n). (if i = 0 then '''' else '', '') @ [CHR 0x27] @ n @ [CHR 0x27])
     (enumerate 0 (sorted_list_of_set s))) @ '']''"

text \<open>\<open>FSMImpl.__init__\<close>; \<open>auto_id\<close> is the identifier made from the address of the object.\<close>

definition fm_make ::
  "string \<Rightarrow> string \<Rightarrow> string set \<Rightarrow> (string \<times> string set) list \<Rightarrow> string option
     \<Rightarrow> (string \<Rightarrow> string \<Rightarrow> 'w \<Rightarrow> unit result raising \<times> 'w) option
     \<Rightarrow> (event \<Rightarrow> 'w \<Rightarrow> unit result raising \<times> 'w) option \<Rightarrow> nat list
     \<Rightarrow> (string \<Rightarrow> 'w hook option) \<Rightarrow> (string \<Rightarrow> 'w hook option) \<Rightarrow> fsm_reliability option \<Rightarrow> 'w fsm raising" where
  "fm_make auto_id initial states transitions fid repo mediator observers entry exit_hooks rel =
     (if initial \<notin> states then
        Inl (Exn ''ValueError'' (''Invalid initial state: '' @ initial @ ''. Valid states are: '' @ py_names states))
      else Inr \<lparr>fm_state = initial, fm_states = states, fm_transitions = transitions,
        fm_id = (case fid of Some (c # i) \<Rightarrow> c # i | _ \<Rightarrow> auto_id), fm_history = [], fm_repo = repo,
        fm_mediator = mediator, fm_observers = remdups observers, fm_entry = entry, fm_exit = exit_hooks,
        fm_reliability = rel\<rparr>)"

definition fm_targets :: "string \<Rightarrow> 'w fsm \<Rightarrow> string set" where
  "fm_targets s f = (case map_of (fm_transitions f) s of None \<Rightarrow> {} | Some ts \<Rightarrow> ts)"

definition fm_valid :: "string \<Rightarrow> string \<Rightarrow> 'w fsm \<Rightarrow> bool" where
  "fm_valid s t f = (case map_of (fm_transitions f) s of None \<Rightarrow> False | Some ts \<Rightarrow> t \<in> ts)"

definition fm_register_observer :: "nat \<Rightarrow> 'w fsm \<Rightarrow> 'w fsm" where
  "fm_register_observer x f = f\<lparr>fm_observers := ob_register x (fm_observers f)\<rparr>"

definition fm_unregister_observer :: "nat \<Rightarrow> 'w fsm \<Rightarrow> 'w fsm" where
  "fm_unregister_observer x f = f\<lparr>fm_observers := ob_unregister x (fm_observers f)\<rparr>"

definition fm_get_history :: "'w fsm \<Rightarrow> command list" where
  "fm_get_history f = fm_history f"

subsection \<open>Hooks\<close>

definition hook_error :: "exn \<Rightarrow> unit result" where
  "hook_error e = Err (''Hook execution error: '' @ exn_msg e) (Some ''HOOK_ERROR'') False"

definition hook_direct :: "'w hook \<Rightarrow> fsm_context \<Rightarrow> 'w \<Rightarrow> unit outcome \<times> 'w" where
  "hook_direct hook ctx w = (case hook ctx w of
     (Raised e, w') \<Rightarrow> (Returned (hook_error e), w')
   | (RaisedRateLimit e, w') \<Rightarrow> (Returned (hook_error e), w')
   | (out, w') \<Rightarrow> (out, w'))"

text \<open>\<open>_execute_with_reliability\<close>: the limiter, then the retry executor. The breaker and the bulkhead of the
  configuration are not consulted.\<close>

definition run_hook ::
  "rat \<times> rat \<times> rat \<Rightarrow> (nat \<Rightarrow> rat) \<Rightarrow> 'w hook \<Rightarrow> fsm_context \<Rightarrow> string \<Rightarrow> fsm_reliability option \<Rightarrow> 'w
     \<Rightarrow> unit outcome \<times> fsm_reliability option \<times> 'w" where
  "run_hook clock draw hook ctx resource cfg w =
     (let direct = (\<lambda>cfg. case hook_direct hook ctx w of (out, w') \<Rightarrow> (out, cfg, w'))
      in case cfg of
           None \<Rightarrow> direct None
         | Some rel \<Rightarrow>
             if \<not> frc_enabled rel then direct (Some rel)
             else
               (let (t0, t1, t2) = clock;
                    (acquired, rel) = (case frc_limiter rel of
                        None \<Rightarrow> (Ok True, rel)
                      | Some l \<Rightarrow> (case rl_try_acquire t0 t1 t2 resource 1 l of
                          (r, l') \<Rightarrow> (r, rel\<lparr>frc_limiter := Some l'\<rparr>)))
                in if is_err acquired then
                     (Returned (Err (''Rate limit exceeded: '' @ err_error acquired) (Some ''RATE_LIMIT_EXCEEDED'') False),
                      Some rel, w)
                   else (case frc_retry rel of
                       Some rx \<Rightarrow>
                         (case rx_execute draw (hook ctx) None None rx w of
                            (res, rx', _, w') \<Rightarrow>
                              (case res of Inl e \<Rightarrow> Raised e | Inr r \<Rightarrow> Returned r,
                               Some (rel\<lparr>frc_retry := Some rx'\<rparr>), w'))
                     | None \<Rightarrow> direct (Some rel))))"

definition hook_context :: "string \<Rightarrow> fsm_context option \<Rightarrow> 'w fsm \<Rightarrow> fsm_context" where
  "hook_context s ctx f =
     (let base = [(''state'', JStr s), (''fsm_id'', JStr (fm_id f))]
      in \<lparr>fc_source = ''fsm.'' @ fm_id f,
          fc_metadata = (case ctx of None \<Rightarrow> base
                         | Some c \<Rightarrow> fold (\<lambda>(k, v). AList.update k v) (fc_metadata c) base),
          fc_user_data = (case ctx of None \<Rightarrow> [] | Some c \<Rightarrow> fc_user_data c)\<rparr>)"

text \<open>The hook of a state, if it has one. Its result is only asked whether it is an \<open>Err\<close>, which is logged;
  a value that is not a \<open>Result\<close> cannot be asked.\<close>

definition hook_step ::
  "rat \<times> rat \<times> rat \<Rightarrow> (nat \<Rightarrow> rat) \<Rightarrow> 'w hook option \<Rightarrow> string \<Rightarrow> fsm_context option \<Rightarrow> 'w fsm \<Rightarrow> 'w
     \<Rightarrow> unit raising \<times> 'w fsm \<times> 'w" where
  "hook_step clock draw hook s ctx f w = (case hook of
     None \<Rightarrow> (Inr (), f, w)
   | Some h \<Rightarrow>
       (case run_hook clock draw h (hook_context s ctx f) s (fm_reliability f) w of
          (out, rel, w') \<Rightarrow>
            (case out of
               Returned _ \<Rightarrow> Inr ()
             | Value _ \<Rightarrow> Inl (Exn ''AttributeError'' ''is_err'')
             | Raised e \<Rightarrow> Inl e
             | RaisedRateLimit e \<Rightarrow> Inl e,
             f\<lparr>fm_reliability := rel\<rparr>, w')))"

subsection \<open>Transitions\<close>

text \<open>What one call reads from the outside: the clock of the limiter and the random numbers of the retries
  for both hooks, and the times written into the event and into the notification.\<close>

record fsm_inputs =
  fi_exit_clock :: "rat \<times> rat \<times> rat"
  fi_entry_clock :: "rat \<times> rat \<times> rat"
  fi_exit_draw :: "nat \<Rightarrow> rat"
  fi_entry_draw :: "nat \<Rightarrow> rat"
  fi_published :: string
  fi_notified :: string

definition change_data :: "string \<Rightarrow> string \<Rightarrow> string \<Rightarrow> string \<Rightarrow> dict" where
  "change_data fid s t time =
     [(''fsm_id'', JStr fid), (''from_state'', JStr s), (''to_state'', JStr t), (''timestamp'', JStr time)]"

definition invalid_transition :: "string \<Rightarrow> 'w fsm \<Rightarrow> command result" where
  "invalid_transition new f =
     Err (''Invalid state transition: '' @ fm_state f @ '' -> '' @ new @ ''. Valid transitions from ''
          @ fm_state f @ '': '' @ py_names (fm_targets (fm_state f) f)) (Some ''INVALID_TRANSITION'') False"

text \<open>The part of \<open>transition_to\<close> after the hooks: persist, publish, notify, and record the command.\<close>

definition fm_finish ::
  "fsm_inputs \<Rightarrow> (nat \<Rightarrow> dict \<Rightarrow> 'w \<Rightarrow> exn option \<times> 'w) \<Rightarrow> string \<Rightarrow> string \<Rightarrow> 'w fsm \<Rightarrow> 'w
     \<Rightarrow> command result raising \<times> 'w fsm \<times> 'w" where
  "fm_finish inp notify s new f w =
     (case (case fm_repo f of None \<Rightarrow> (Inr (Ok ()), w) | Some set_state \<Rightarrow> set_state (fm_id f) new w) of
        (Inl e, w) \<Rightarrow> (Inl e, f, w)
      | (Inr persisted, w) \<Rightarrow>
          if is_err persisted then
            (Inr (Err (''Failed to persist state: '' @ err_error persisted) (Some ''PERSISTENCE_ERROR'') False), f, w)
          else
            (case (case fm_mediator f of
                     None \<Rightarrow> (Inr (Ok ()), w)
                   | Some publish \<Rightarrow>
                       publish (mk_event DOMAIN (fm_id f) None
                         (Some (change_data (fm_id f) s new (fi_published inp)))) w) of
               (Inl e, w) \<Rightarrow> (Inl e, f, w)
             | (Inr _, w) \<Rightarrow>
                 (let w = ob_notify_all notify (change_data (fm_id f) s new (fi_notified inp)) (fm_observers f) w;
                      c = TransitionCommand (fm_id f) s new
                  in (Inr (Ok c), f\<lparr>fm_history := fm_history f @ [c]\<rparr>, w))))"

definition fm_transition ::
  "fsm_inputs \<Rightarrow> (nat \<Rightarrow> dict \<Rightarrow> 'w \<Rightarrow> exn option \<times> 'w) \<Rightarrow> string \<Rightarrow> fsm_context option \<Rightarrow> 'w fsm \<Rightarrow> 'w
     \<Rightarrow> command result raising \<times> 'w fsm \<times> 'w" where
  "fm_transition inp notify new ctx f w =
     (if \<not> fm_valid (fm_state f) new f then (Inr (invalid_transition new f), f, w)
      else
        (let s = fm_state f
         in case hook_step (fi_exit_clock inp) (fi_exit_draw inp) (fm_exit f s) s ctx f w of
              (Inl e, f, w) \<Rightarrow> (Inl e, f, w)
            | (Inr _, f, w) \<Rightarrow>
                (let f = f\<lparr>fm_state := new\<rparr>
                 in case hook_step (fi_entry_clock inp) (fi_entry_draw inp) (fm_entry f new) new ctx f w of
                      (Inl e, f, w) \<Rightarrow> (Inl e, f, w)
                    | (Inr _, f, w) \<Rightarrow> fm_finish inp notify s new f w)))"

subsection \<open>The builder\<close>

record 'w builder =
  fb_states :: "string set"
  fb_transitions :: "(string \<times> string set) list"
  fb_entry :: "string \<Rightarrow> 'w hook option"
  fb_exit :: "string \<Rightarrow> 'w hook option"
  fb_guards :: "string \<times> string \<Rightarrow> (fsm_context \<Rightarrow> bool result) option"
  fb_repo :: "(string \<Rightarrow> string \<Rightarrow> 'w \<Rightarrow> unit result raising \<times> 'w) option"
  fb_mediator :: "(event \<Rightarrow> 'w \<Rightarrow> unit result raising \<times> 'w) option"
  fb_observers :: "nat list"
  fb_reliability :: "fsm_reliability option"
  fb_initial :: string

definition fb_init :: "'w builder" where
  "fb_init = \<lparr>fb_states = {}, fb_transitions = [], fb_entry = Map.empty, fb_exit = Map.empty,
     fb_guards = Map.empty, fb_repo = None, fb_mediator = None, fb_observers = [], fb_reliability = None,
     fb_initial = ''idle''\<rparr>"

definition with_initial_state :: "string \<Rightarrow> ('w, 'z) builder_scheme \<Rightarrow> ('w, 'z) builder_scheme" where
  "with_initial_state s b = b\<lparr>fb_initial := s\<rparr>"

definition with_state :: "string \<Rightarrow> ('w, 'z) builder_scheme \<Rightarrow> ('w, 'z) builder_scheme" where
  "with_state s b = b\<lparr>fb_states := insert s (fb_states b)\<rparr>"

definition with_transition :: "string \<Rightarrow> string \<Rightarrow> ('w, 'z) builder_scheme \<Rightarrow> ('w, 'z) builder_scheme" where
  "with_transition s t b =
     b\<lparr>fb_transitions := AList.update s
         (insert t (case map_of (fb_transitions b) s of None \<Rightarrow> {} | Some ts \<Rightarrow> ts)) (fb_transitions b),
       fb_states := insert t (insert s (fb_states b))\<rparr>"

definition with_entry_hook :: "string \<Rightarrow> 'w hook \<Rightarrow> ('w, 'z) builder_scheme \<Rightarrow> ('w, 'z) builder_scheme" where
  "with_entry_hook s h b = b\<lparr>fb_entry := (fb_entry b)(s \<mapsto> h)\<rparr>"

definition with_exit_hook :: "string \<Rightarrow> 'w hook \<Rightarrow> ('w, 'z) builder_scheme \<Rightarrow> ('w, 'z) builder_scheme" where
  "with_exit_hook s h b = b\<lparr>fb_exit := (fb_exit b)(s \<mapsto> h)\<rparr>"

definition with_guard ::
  "string \<Rightarrow> string \<Rightarrow> (fsm_context \<Rightarrow> bool result) \<Rightarrow> ('w, 'z) builder_scheme \<Rightarrow> ('w, 'z) builder_scheme" where
  "with_guard s t g b = b\<lparr>fb_guards := (fb_guards b)((s, t) \<mapsto> g)\<rparr>"

definition with_persistence ::
  "(string \<Rightarrow> string \<Rightarrow> 'w \<Rightarrow> unit result raising \<times> 'w) \<Rightarrow> ('w, 'z) builder_scheme \<Rightarrow> ('w, 'z) builder_scheme" where
  "with_persistence r b = b\<lparr>fb_repo := Some r\<rparr>"

definition with_mediator ::
  "(event \<Rightarrow> 'w \<Rightarrow> unit result raising \<times> 'w) \<Rightarrow> ('w, 'z) builder_scheme \<Rightarrow> ('w, 'z) builder_scheme" where
  "with_mediator m b = b\<lparr>fb_mediator := Some m\<rparr>"

definition with_observer :: "nat \<Rightarrow> ('w, 'z) builder_scheme \<Rightarrow> ('w, 'z) builder_scheme" where
  "with_observer x b = b\<lparr>fb_observers := fb_observers b @ [x]\<rparr>"

definition with_reliability :: "fsm_reliability \<Rightarrow> ('w, 'z) builder_scheme \<Rightarrow> ('w, 'z) builder_scheme" where
  "with_reliability c b = b\<lparr>fb_reliability := Some c\<rparr>"

text \<open>\<open>build\<close>. A machine without states passes both checks, and the constructor raises.\<close>

definition undefined_states :: "('w, 'z) builder_scheme \<Rightarrow> string set" where
  "undefined_states b =
     (set (keys (fb_transitions b)) \<union> \<Union> (set (map snd (fb_transitions b)))) - fb_states b"

definition fb_build :: "string \<Rightarrow> string option \<Rightarrow> ('w, 'z) builder_scheme \<Rightarrow> 'w fsm result raising" where
  "fb_build auto_id initial_state b =
     (let initial = (case initial_state of Some s \<Rightarrow> s | None \<Rightarrow> fb_initial b)
      in if undefined_states b \<noteq> {} then
           Inr (Err (''Undefined states in transitions: '' @ py_names (undefined_states b)
             @ ''. Define states using with_state() before using them in transitions.'')
             (Some ''UNDEFINED_STATE_IN_TRANSITION'') False)
         else if fb_states b \<noteq> {} \<and> initial \<notin> fb_states b then
           Inr (Err (''Invalid initial state: '' @ initial @ ''. Valid states are: '' @ py_names (fb_states b))
             (Some ''INVALID_INITIAL_STATE'') False)
         else (case fm_make auto_id initial (fb_states b) (fb_transitions b) None (fb_repo b) (fb_mediator b)
                 (fb_observers b) (fb_entry b) (fb_exit b) (fb_reliability b) of
             Inl e \<Rightarrow> Inl e
           | Inr f \<Rightarrow> Inr (Ok f)))"

subsection \<open>The builder of workflow machines\<close>

definition workflow_states :: "string list" where
  "workflow_states = [''intake'', ''plan'', ''reason'', ''act'', ''synthesize'', ''check'', ''done'']"

definition workflow_transitions :: "(string \<times> string list) list" where
  "workflow_transitions =
     [(''intake'', [''plan'', ''reason'']),
      (''plan'', [''act'', ''reason'']),
      (''reason'', [''act'', ''synthesize'', ''check'', ''done'']),
      (''act'', [''synthesize'']),
      (''synthesize'', [''check'']),
      (''check'', [''plan'', ''reason'', ''act'', ''done'']),
      (''done'', [])]"

record fsm_budget =
  bg_max_iterations :: int
  bg_max_tool_calls :: int
  bg_max_wall_time :: rat
  bg_max_subagent_calls :: int

definition default_budget :: fsm_budget where
  "default_budget = \<lparr>bg_max_iterations = 100, bg_max_tool_calls = 1000, bg_max_wall_time = 3600,
     bg_max_subagent_calls = 50\<rparr>"

record budget_consumed =
  bc_iterations :: int
  bc_tool_calls :: int
  bc_wall_time :: rat
  bc_subagent_calls :: int

definition no_consumption :: budget_consumed where
  "no_consumption = \<lparr>bc_iterations = 0, bc_tool_calls = 0, bc_wall_time = 0, bc_subagent_calls = 0\<rparr>"

record react_step =
  rs_reasoning :: string
  rs_action :: string
  rs_observation :: string
  rs_tools_used :: "string list"
  rs_evidence :: "string list"

record 'w workflow_builder = "'w builder" +
  wb_budget :: fsm_budget
  wb_stagnation_threshold :: nat
  wb_signatures :: "string set"
  wb_react_cycles :: "react_step list"
  wb_consumed :: budget_consumed

text \<open>\<open>__init__\<close>. The reasoning strategy and the executor are only stored and are left out.\<close>

definition wb_init :: "'w workflow_builder" where
  "wb_init = with_initial_state ''intake''
     (fold (\<lambda>(s, ts) b. fold (with_transition s) ts b) workflow_transitions
       (fold with_state workflow_states
         (builder.extend fb_init \<lparr>wb_budget = default_budget, wb_stagnation_threshold = 3,
            wb_signatures = {}, wb_react_cycles = [], wb_consumed = no_consumption\<rparr>)))"

definition wb_with_budget :: "fsm_budget \<Rightarrow> 'w workflow_builder \<Rightarrow> 'w workflow_builder" where
  "wb_with_budget bg b = b\<lparr>wb_budget := bg\<rparr>"

definition wb_with_threshold :: "nat \<Rightarrow> 'w workflow_builder \<Rightarrow> 'w workflow_builder" where
  "wb_with_threshold n b = b\<lparr>wb_stagnation_threshold := n\<rparr>"

text \<open>The signature: the first sixteen digits of the digest (a parameter) of the JSON text (a parameter).\<close>

definition novelty_signature :: "(dict \<Rightarrow> string) \<Rightarrow> (string \<Rightarrow> string) \<Rightarrow> dict \<Rightarrow> string" where
  "novelty_signature dumps sha256 d = take 16 (sha256 (dumps d))"

definition wb_check_novelty :: "(dict \<Rightarrow> string) \<Rightarrow> dict \<Rightarrow> 'w workflow_builder \<Rightarrow> bool \<times> 'w workflow_builder" where
  "wb_check_novelty sig d b =
     (if sig d \<in> wb_signatures b then (False, b)
      else (True, b\<lparr>wb_signatures := insert (sig d) (wb_signatures b)\<rparr>))"

definition wb_stagnation_detected :: "'w workflow_builder \<Rightarrow> bool" where
  "wb_stagnation_detected b \<longleftrightarrow> wb_stagnation_threshold b \<le> card (wb_signatures b)"

definition wb_budget_exceeded :: "'w workflow_builder \<Rightarrow> bool" where
  "wb_budget_exceeded b \<longleftrightarrow>
     bg_max_iterations (wb_budget b) \<le> bc_iterations (wb_consumed b)
   \<or> bg_max_tool_calls (wb_budget b) \<le> bc_tool_calls (wb_consumed b)
   \<or> bg_max_wall_time (wb_budget b) \<le> bc_wall_time (wb_consumed b)
   \<or> bg_max_subagent_calls (wb_budget b) \<le> bc_subagent_calls (wb_consumed b)"

definition wb_add_react_cycle :: "react_step \<Rightarrow> 'w workflow_builder \<Rightarrow> 'w workflow_builder" where
  "wb_add_react_cycle st b = b\<lparr>wb_react_cycles := wb_react_cycles b @ [st]\<rparr>"

definition wb_track_consumed :: "int \<Rightarrow> int \<Rightarrow> rat \<Rightarrow> int \<Rightarrow> 'w workflow_builder \<Rightarrow> 'w workflow_builder" where
  "wb_track_consumed i t wall sub b = (let c = wb_consumed b in
     b\<lparr>wb_consumed := \<lparr>bc_iterations = bc_iterations c + i, bc_tool_calls = bc_tool_calls c + t,
        bc_wall_time = bc_wall_time c + wall, bc_subagent_calls = bc_subagent_calls c + sub\<rparr>\<rparr>)"

definition wb_budget_status :: "'w workflow_builder \<Rightarrow> budget_consumed \<times> fsm_budget" where
  "wb_budget_status b = (wb_consumed b, wb_budget b)"

subsection \<open>Lemmas on transitions\<close>

lemma hook_step_frame: "hook_step clock draw hook s ctx f w = (r, f', w') \<Longrightarrow> \<exists>rel. f' = f\<lparr>fm_reliability := rel\<rparr>"
proof (cases hook)
  case None
  assume "hook_step clock draw hook s ctx f w = (r, f', w')"
  with None have "f' = f\<lparr>fm_reliability := fm_reliability f\<rparr>" by (simp add: hook_step_def)
  then show ?thesis by blast
qed (auto simp: hook_step_def split: prod.splits)

lemma fm_finish_cases:
  assumes "fm_finish inp notify s new f w = (r, f', w')"
  obtains (raised) e where "r = Inl e" "f' = f"
  | (unsaved) m where "r = Inr (Err m (Some ''PERSISTENCE_ERROR'') False)" "f' = f" "fm_repo f \<noteq> None"
  | (finished) "r = Inr (Ok (TransitionCommand (fm_id f) s new))"
      "f' = f\<lparr>fm_history := fm_history f @ [TransitionCommand (fm_id f) s new]\<rparr>"
proof -
  define sv where "sv = (case fm_repo f of None \<Rightarrow> (Inr (Ok ()), w) | Some set_state \<Rightarrow> set_state (fm_id f) new w)"
  obtain p w1 where p: "sv = (p, w1)" by (cases sv)
  define pub where "pub = (case fm_mediator f of None \<Rightarrow> (Inr (Ok ()), w1)
      | Some publish \<Rightarrow> publish (mk_event DOMAIN (fm_id f) None
          (Some (change_data (fm_id f) s new (fi_published inp)))) w1)"
  obtain q w2 where q: "pub = (q, w2)" by (cases pub)
  note run = assms [unfolded fm_finish_def, folded sv_def, unfolded p prod.case]
  consider e where "p = Inl e" | x where "p = Inr x" "is_err x" | x e where "p = Inr x" "\<not> is_err x" "q = Inl e"
    | x y where "p = Inr x" "\<not> is_err x" "q = Inr y"
    by (cases p; cases q) auto
  then show ?thesis
  proof cases
    case (1 e)
    with run show ?thesis by (intro raised [of e]) simp_all
  next
    case (2 x)
    then have "fm_repo f \<noteq> None" using p by (cases "fm_repo f") (auto simp: sv_def)
    with 2 run show ?thesis by (intro unsaved [of "''Failed to persist state: '' @ err_error x"]) simp_all
  next
    case (3 x e)
    with run q show ?thesis by (intro raised [of e]) (simp_all add: pub_def)
  next
    case (4 x y)
    with run q show ?thesis by (intro finished) (simp_all add: pub_def Let_def)
  qed
qed

lemma fm_transition_cases:
  assumes "fm_transition inp notify new ctx f w = (r, f', w')"
  obtains (invalid) "\<not> fm_valid (fm_state f) new f" "r = Inr (invalid_transition new f)" "f' = f" "w' = w"
  | (raised) e s rel where "fm_valid (fm_state f) new f" "r = Inl e" "s = fm_state f \<or> s = new"
      "f' = f\<lparr>fm_reliability := rel, fm_state := s\<rparr>"
  | (unsaved) m rel where "fm_valid (fm_state f) new f" "r = Inr (Err m (Some ''PERSISTENCE_ERROR'') False)"
      "f' = f\<lparr>fm_reliability := rel, fm_state := new\<rparr>" "fm_repo f \<noteq> None"
  | (finished) rel where "fm_valid (fm_state f) new f" "r = Inr (Ok (TransitionCommand (fm_id f) (fm_state f) new))"
      "f' = f\<lparr>fm_reliability := rel, fm_state := new,
               fm_history := fm_history f @ [TransitionCommand (fm_id f) (fm_state f) new]\<rparr>"
proof (cases "fm_valid (fm_state f) new f")
  case False
  with assms have "r = Inr (invalid_transition new f)" "f' = f" "w' = w"
    by (auto simp: fm_transition_def)
  with False show ?thesis by (rule invalid)
next
  case True
  obtain r1 f1 w1 where 1: "hook_step (fi_exit_clock inp) (fi_exit_draw inp) (fm_exit f (fm_state f)) (fm_state f) ctx f w
      = (r1, f1, w1)" by (metis prod_cases3)
  from hook_step_frame [OF 1] obtain rel1 where f1: "f1 = f\<lparr>fm_reliability := rel1\<rparr>" by blast
  show ?thesis
  proof (cases r1)
    case (Inl e)
    with assms True 1 have "r = Inl e" "f' = f1" by (auto simp: fm_transition_def Let_def)
    moreover from f1 have "f1 = f\<lparr>fm_reliability := rel1, fm_state := fm_state f\<rparr>" by simp
    ultimately show ?thesis using raised [OF True] by blast
  next
    case (Inr u)
    let ?f = "f1\<lparr>fm_state := new\<rparr>"
    obtain r2 f2 w2 where 2: "hook_step (fi_entry_clock inp) (fi_entry_draw inp) (fm_entry ?f new) new ctx ?f w1
        = (r2, f2, w2)" by (metis prod_cases3)
    from hook_step_frame [OF 2] obtain rel2 where f2: "f2 = ?f\<lparr>fm_reliability := rel2\<rparr>" by blast
    then have f2': "f2 = f\<lparr>fm_reliability := rel2, fm_state := new\<rparr>" by (simp add: f1)
    show ?thesis
    proof (cases r2)
      case (Inl e)
      with assms True 1 Inr 2 have "r = Inl e" "f' = f2" by (auto simp: fm_transition_def Let_def)
      with f2' show ?thesis using raised [OF True] by blast
    next
      case Inr2: (Inr u2)
      with assms True 1 Inr 2 have "fm_finish inp notify (fm_state f) new f2 w2 = (r, f', w')"
        by (simp add: fm_transition_def Let_def)
      then show ?thesis
      proof (cases rule: fm_finish_cases)
        case (raised e)
        with f2' True show ?thesis by (intro that(2) [of e new rel2]) simp_all
      next
        case (unsaved m)
        with f2' True show ?thesis by (intro that(3) [of m rel2]) simp_all
      next
        case finished
        with f2' True show ?thesis by (intro that(4) [of rel2]) simp_all
      qed
    qed
  qed
qed

subsection \<open>Properties\<close>



subsubsection \<open>Histories\<close>

text \<open>What happens to a machine in its life.\<close>

datatype fsm_call = Transition fsm_inputs string "fsm_context option" | Register nat | Unregister nat

fun fm_run ::
  "(nat \<Rightarrow> dict \<Rightarrow> 'w \<Rightarrow> exn option \<times> 'w) \<Rightarrow> fsm_call list \<Rightarrow> 'w fsm \<Rightarrow> 'w
     \<Rightarrow> command result raising list \<times> 'w fsm \<times> 'w" where
  "fm_run notify [] f w = ([], f, w)"
| "fm_run notify (Transition inp new ctx # cs) f w =
     (let (r, f, w) = fm_transition inp notify new ctx f w; (rs, f, w) = fm_run notify cs f w in (r # rs, f, w))"
| "fm_run notify (Register x # cs) f w = fm_run notify cs (fm_register_observer x f) w"
| "fm_run notify (Unregister x # cs) f w = fm_run notify cs (fm_unregister_observer x f) w"

text \<open>A history that leads from one state to another along allowed transitions.\<close>

fun chain :: "(string \<Rightarrow> string \<Rightarrow> bool) \<Rightarrow> string \<Rightarrow> command list \<Rightarrow> string \<Rightarrow> bool" where
  "chain may s [] t \<longleftrightarrow> s = t"
| "chain may s (TransitionCommand i a b # cs) t \<longleftrightarrow> a = s \<and> may a b \<and> chain may b cs t"
| "chain may s (_ # cs) t \<longleftrightarrow> False"

lemma chain_snoc: "chain may s cs t \<Longrightarrow> may t u \<Longrightarrow> chain may s (cs @ [TransitionCommand i t u]) u"
  by (induction may s cs t rule: chain.induct) auto

definition clean :: "command result raising \<Rightarrow> bool" where
  "clean r = (case r of Inl _ \<Rightarrow> False | Inr (Err _ c _) \<Rightarrow> c \<noteq> Some ''PERSISTENCE_ERROR'' | Inr _ \<Rightarrow> True)"

definition allowed_in :: "(string \<times> string set) list \<Rightarrow> string \<Rightarrow> string \<Rightarrow> bool" where
  "allowed_in tr s t = (case map_of tr s of None \<Rightarrow> False | Some ts \<Rightarrow> t \<in> ts)"

lemma fm_valid_allowed: "fm_valid s t f = allowed_in (fm_transitions f) s t"
  by (simp add: fm_valid_def allowed_in_def)

definition fm_recorded :: "string \<Rightarrow> (string \<times> string set) list \<Rightarrow> 'w fsm \<Rightarrow> bool" where
  "fm_recorded s0 tr f \<longleftrightarrow> fm_transitions f = tr \<and> chain (allowed_in tr) s0 (fm_history f) (fm_state f)"

lemma fm_transition_recorded:
  assumes "fm_transition inp notify new ctx f w = (r, f', w')" "clean r" "fm_recorded s0 tr f"
  shows "fm_recorded s0 tr f'"
  using assms(1)
  by (cases rule: fm_transition_cases)
     (use assms(2,3) in \<open>auto simp: clean_def fm_recorded_def fm_valid_allowed intro: chain_snoc\<close>)

lemma fm_run_recorded:
  "fm_run notify cs f w = (rs, f', w') \<Longrightarrow> \<forall>r \<in> set rs. clean r \<Longrightarrow> fm_recorded s0 tr f \<Longrightarrow> fm_recorded s0 tr f'"
proof (induction notify cs f w arbitrary: rs rule: fm_run.induct)
  case (2 notify inp new ctx cs f w)
  obtain r f1 w1 where t: "fm_transition inp notify new ctx f w = (r, f1, w1)" by (metis prod_cases3)
  obtain rs1 f2 w2 where u: "fm_run notify cs f1 w1 = (rs1, f2, w2)" by (metis prod_cases3)
  from 2 t u have rs: "rs = r # rs1" "f2 = f'" "w2 = w'" by auto
  with 2(3) have "clean r" "\<forall>r \<in> set rs1. clean r" by auto
  from 2(1) [OF t [symmetric] _ refl] u rs this(2) fm_transition_recorded [OF t this(1) 2(4)]
  show ?case by auto
qed (auto simp: fm_recorded_def fm_register_observer_def fm_unregister_observer_def)

definition fm_inside :: "string set \<Rightarrow> (string \<times> string set) list \<Rightarrow> 'w fsm \<Rightarrow> bool" where
  "fm_inside ss tr f \<longleftrightarrow> fm_transitions f = tr \<and> fm_state f \<in> ss"

lemma fm_run_inside:
  assumes "\<And>s t. allowed_in tr s t \<Longrightarrow> t \<in> ss"
  shows "fm_run notify cs f w = (rs, f', w') \<Longrightarrow> fm_inside ss tr f \<Longrightarrow> fm_inside ss tr f'"
proof (induction notify cs f w arbitrary: rs rule: fm_run.induct)
  case (2 notify inp new ctx cs f w)
  obtain r f1 w1 where t: "fm_transition inp notify new ctx f w = (r, f1, w1)" by (metis prod_cases3)
  then have "fm_inside ss tr f1"
    by (cases rule: fm_transition_cases)
       (use 2(3) in \<open>auto simp: fm_inside_def fm_valid_allowed intro: assms\<close>)
  with 2 t show ?case by (fastforce split: prod.splits)
qed (auto simp: fm_inside_def fm_register_observer_def fm_unregister_observer_def)

lemma fb_build_Ok:
  "fb_build auto_id init b = Inr (Ok f) \<longleftrightarrow>
     undefined_states b = {}
     \<and> (case init of Some s \<Rightarrow> s | None \<Rightarrow> fb_initial b) \<in> fb_states b
     \<and> fm_make auto_id (case init of Some s \<Rightarrow> s | None \<Rightarrow> fb_initial b) (fb_states b) (fb_transitions b) None
          (fb_repo b) (fb_mediator b) (fb_observers b) (fb_entry b) (fb_exit b) (fb_reliability b) = Inr f"
  by (auto simp: fb_build_def Let_def fm_make_def split: sum.splits if_splits)



subsubsection \<open>The builder\<close>

text \<open>The builders that calls of the fluent interface can make. Every method returns the builder itself,
  so the methods compose in any order.\<close>

inductive built :: "('w, 'z) builder_scheme \<Rightarrow> bool" where
  "fb_transitions b = [] \<Longrightarrow> built b"
| "built b \<Longrightarrow> built (with_initial_state s b)"
| "built b \<Longrightarrow> built (with_state s b)"
| "built b \<Longrightarrow> built (with_transition s t b)"
| "built b \<Longrightarrow> built (with_entry_hook s h b)"
| "built b \<Longrightarrow> built (with_exit_hook s h b)"
| "built b \<Longrightarrow> built (with_guard s t g b)"
| "built b \<Longrightarrow> built (with_persistence r b)"
| "built b \<Longrightarrow> built (with_mediator m b)"
| "built b \<Longrightarrow> built (with_observer x b)"
| "built b \<Longrightarrow> built (with_reliability c b)"

lemma set_map_snd_update:
  "\<Union> (set (map snd (AList.update k v d))) \<subseteq> v \<union> \<Union> (set (map snd d))"
  by (induction d) auto

lemma set_keys_update: "set (keys (AList.update k v d)) = insert k (set (keys d))"
  by (induction d) auto

lemma built_defined: "built b \<Longrightarrow> undefined_states b = {}"
proof (induction rule: built.induct)
  case (4 b s t)
  let ?ts = "case map_of (fb_transitions b) s of None \<Rightarrow> {} | Some ts \<Rightarrow> ts"
  have ts: "?ts \<subseteq> \<Union> (set (map snd (fb_transitions b)))"
    by (force split: option.splits dest: map_of_SomeD)
  have old: "\<Union> (set (map snd (fb_transitions b))) \<subseteq> fb_states b"
    using 4 by (auto simp: undefined_states_def)
  have "\<Union> (set (map snd (AList.update s (insert t ?ts) (fb_transitions b)))) \<subseteq> insert t (fb_states b)"
    using set_map_snd_update [of s "insert t ?ts" "fb_transitions b"] ts old
    by (meson Un_least insert_mono order_trans insert_subsetI subset_insertI2 insertI1)
  moreover have "set (keys (AList.update s (insert t ?ts) (fb_transitions b))) \<subseteq> insert s (fb_states b)"
    using 4 by (auto simp: undefined_states_def set_keys_update simp del: set_map)
  ultimately show ?case
    unfolding undefined_states_def with_transition_def by (auto simp del: set_map)
qed (auto simp: undefined_states_def with_initial_state_def with_state_def with_entry_hook_def
    with_exit_hook_def with_guard_def with_persistence_def with_mediator_def with_observer_def
    with_reliability_def)

lemma with_guard_sel:
  "fb_states (with_guard s t g b) = fb_states b" "fb_transitions (with_guard s t g b) = fb_transitions b"
  "fb_entry (with_guard s t g b) = fb_entry b" "fb_exit (with_guard s t g b) = fb_exit b"
  "fb_repo (with_guard s t g b) = fb_repo b" "fb_mediator (with_guard s t g b) = fb_mediator b"
  "fb_observers (with_guard s t g b) = fb_observers b" "fb_initial (with_guard s t g b) = fb_initial b"
  "fb_reliability (with_guard s t g b) = fb_reliability b"
  by (simp_all add: with_guard_def)

text \<open>\<open>build\<close> on any builder: the check for undefined states never fires, since \<open>with_transition\<close> adds
  its states. It answers with a machine exactly when the initial state is one of the states, refuses with
  \<open>INVALID_INITIAL_STATE\<close> otherwise, and raises instead of returning a result when there are no states.
  The guards that were added make no difference to the machine.\<close>

theorem fsm_build_spec:
  assumes "built b" "initial = (case init of Some s \<Rightarrow> s | None \<Rightarrow> fb_initial b)"
  shows "(case fb_build auto_id init b of
        Inl e \<Rightarrow> fb_states b = {} \<and> exn_type e = ''ValueError''
      | Inr (Ok f) \<Rightarrow> initial \<in> fb_states b \<and> fm_state f = initial \<and> fm_states f = fb_states b
          \<and> fm_transitions f = fb_transitions b \<and> fm_history f = []
      | Inr (Err m c _) \<Rightarrow> c = Some ''INVALID_INITIAL_STATE'' \<and> initial \<notin> fb_states b \<and> fb_states b \<noteq> {}
      | Inr (Pass _) \<Rightarrow> False)
    \<and> fb_build auto_id init (with_guard s t g b) = fb_build auto_id init b"
proof -
  have "undefined_states (with_guard s t g b) = undefined_states b"
    by (simp add: undefined_states_def with_guard_sel)
  then have "fb_build auto_id init (with_guard s t g b) = fb_build auto_id init b"
    by (simp only: fb_build_def with_guard_sel)
  with built_defined [OF assms(1)] assms(2) show ?thesis
    by (auto simp: fb_build_def fm_make_def Let_def)
qed

theorem fsm_build_spec_witness:
  "\<exists>f :: nat fsm. fb_build ''id'' (Some ''a'') (with_transition ''a'' ''b'' fb_init) = Inr (Ok f) \<and> fm_state f = ''a''"
proof -
  have b: "built (with_transition ''a'' ''b'' (fb_init :: nat builder))"
    by (intro built.intros) (simp add: fb_init_def)
  have a: "''a'' \<in> fb_states (with_transition ''a'' ''b'' (fb_init :: nat builder))"
    by (simp add: with_transition_def)
  note spec = fsm_build_spec [OF b, of "''a''" "Some ''a''" "''id''" "''a''" "''b''" "\<lambda>_. Ok True"]
  show ?thesis
  proof (cases "fb_build ''id'' (Some ''a'') (with_transition ''a'' ''b'' (fb_init :: nat builder))")
    case (Inl e)
    with spec a show ?thesis by auto
  next
    case (Inr r)
    with spec a show ?thesis by (cases r) auto
  qed
qed

subsubsection \<open>Workflow machines\<close>

fun walk :: "(string \<Rightarrow> string \<Rightarrow> bool) \<Rightarrow> string \<Rightarrow> string list \<Rightarrow> bool" where
  "walk may s [] \<longleftrightarrow> True"
| "walk may s (t # ts) \<longleftrightarrow> may s t \<and> walk may t ts"

definition workflow_table :: "(string \<times> string set) list" where
  "workflow_table =
     [(''intake'', {''reason'', ''plan''}), (''plan'', {''reason'', ''act''}),
      (''reason'', {''done'', ''check'', ''synthesize'', ''act''}), (''act'', {''synthesize''}),
      (''synthesize'', {''check''}), (''check'', {''done'', ''act'', ''reason'', ''plan''})]"

lemma wb_init_table:
  "fb_transitions wb_init = workflow_table" "fb_states wb_init = set workflow_states"
  "fb_initial wb_init = ''intake''"
  by (simp_all add: wb_init_def workflow_table_def workflow_transitions_def workflow_states_def
      with_initial_state_def with_transition_def with_state_def fb_init_def builder.defs insert_commute)

text \<open>The workflow builder makes a machine that starts in \<open>intake\<close>, in which nothing leaves \<open>done\<close>,
  every other state has a way out, and \<open>done\<close> can be reached from every state in at most three steps.\<close>

theorem workflow_machine_reaches_done:
  "\<exists>f :: 'w fsm. fb_build auto_id None (wb_init :: 'w workflow_builder) = Inr (Ok f) \<and> fm_state f = ''intake''
    \<and> (\<forall>t. \<not> fm_valid ''done'' t f)
    \<and> (\<forall>s \<in> set workflow_states. \<exists>ts. walk (\<lambda>s t. fm_valid s t f) s ts \<and> length ts \<le> 3 \<and> last (s # ts) = ''done'')"
proof -
  let ?b = "wb_init :: 'w workflow_builder"
  have "undefined_states ?b = {}"
    by (auto simp: undefined_states_def wb_init_table workflow_table_def workflow_states_def)
  then obtain f :: "'w fsm" where f: "fb_build auto_id None ?b = Inr (Ok f)" "fm_state f = ''intake''"
    "fm_transitions f = workflow_table"
    by (auto simp: fb_build_Ok fm_make_def wb_init_table workflow_states_def)
  let ?v = "\<lambda>s t. fm_valid s t f"
  have v: "?v s t = allowed_in workflow_table s t" for s t by (simp add: fm_valid_allowed f)
  have "walk ?v ''intake'' [''reason'', ''done'']" "walk ?v ''plan'' [''reason'', ''done'']"
    "walk ?v ''reason'' [''done'']" "walk ?v ''act'' [''synthesize'', ''check'', ''done'']"
    "walk ?v ''synthesize'' [''check'', ''done'']" "walk ?v ''check'' [''done'']" "walk ?v ''done'' []"
    by (simp_all add: v allowed_in_def workflow_table_def)
  note walks = this
  have "\<forall>s \<in> set workflow_states. \<exists>ts. walk ?v s ts \<and> length ts \<le> 3 \<and> last (s # ts) = ''done''"
    unfolding workflow_states_def list.set ball_simps
    by (intro conjI TrueI; rule exI, intro conjI, rule walks, simp, simp)
  moreover have "\<not> ?v ''done'' t" for t by (simp add: v allowed_in_def workflow_table_def)
  ultimately show ?thesis using f by blast
qed

theorem workflow_machine_reaches_done_witness:
  "\<exists>f ts. fb_build ''id'' None (wb_init :: nat workflow_builder) = Inr (Ok f)
     \<and> walk (\<lambda>s t. fm_valid s t f) ''act'' ts \<and> last (''act'' # ts) = ''done''"
proof -
  have "''act'' \<in> set workflow_states" by (simp add: workflow_states_def)
  with workflow_machine_reaches_done [where 'w = nat, of "''id''"] show ?thesis by blast
qed

fun wb_check_all :: "(dict \<Rightarrow> string) \<Rightarrow> dict list \<Rightarrow> 'w workflow_builder \<Rightarrow> bool list \<times> 'w workflow_builder" where
  "wb_check_all sig [] b = ([], b)"
| "wb_check_all sig (d # ds) b =
     (let (r, b) = wb_check_novelty sig d b; (rs, b) = wb_check_all sig ds b in (r # rs, b))"

lemma wb_check_all_signatures:
  "wb_check_all sig ds b = (rs, b') \<Longrightarrow>
   wb_signatures b' = wb_signatures b \<union> sig ` set ds \<and> wb_stagnation_threshold b' = wb_stagnation_threshold b
   \<and> length rs = length ds"
proof (induction ds arbitrary: b rs)
  case (Cons d ds)
  then show ?case
    by (auto simp: wb_check_novelty_def Let_def split: prod.splits if_splits)
qed simp

text \<open>Stagnation detection counts novelty. After any checks on a fresh workflow builder, stagnation is
  reported exactly when at least \<open>threshold\<close> different signatures were seen: a run that keeps making
  progress is reported, and one that repeats the same step forever is not, for every threshold above 1.\<close>

theorem stagnation_counts_novelty:
  assumes "wb_check_all sig ds (wb_with_threshold n wb_init) = (rs, b)"
  shows "(wb_stagnation_detected b \<longleftrightarrow> n \<le> card (sig ` set ds))
    \<and> (distinct (map sig ds) \<and> n \<le> length ds \<longrightarrow> wb_stagnation_detected b)
    \<and> (1 < n \<and> set ds \<subseteq> {d} \<longrightarrow> \<not> wb_stagnation_detected b)"
proof -
  have init: "wb_signatures (wb_with_threshold n b) = wb_signatures b" "wb_stagnation_threshold (wb_with_threshold n b) = n"
    for b :: "'a workflow_builder"
    by (simp_all add: wb_with_threshold_def)
  have "wb_signatures (wb_init :: 'a workflow_builder) = {}"
    by (simp add: wb_init_def with_initial_state_def workflow_transitions_def
        workflow_states_def with_transition_def with_state_def builder.defs)
  with wb_check_all_signatures [OF assms] init
  have *: "wb_stagnation_detected b \<longleftrightarrow> n \<le> card (sig ` set ds)"
    by (simp add: wb_stagnation_detected_def)
  have "distinct (map sig ds) \<Longrightarrow> card (sig ` set ds) = length ds"
    by (metis distinct_card length_map list.set_map)
  moreover have "set ds \<subseteq> {d} \<Longrightarrow> card (sig ` set ds) \<le> 1"
    using card_mono [of "{sig d}" "sig ` set ds"] by fastforce
  ultimately show ?thesis using * by auto
qed

theorem stagnation_counts_novelty_witness:
  "\<exists>rs b. wb_check_all (\<lambda>d. map (\<lambda>p. hd (fst p)) d) [[(''a'', JNull)], [(''b'', JNull)]]
       (wb_with_threshold 2 (wb_init :: nat workflow_builder)) = (rs, b) \<and> wb_stagnation_detected b"
proof -
  let ?sig = "\<lambda>d. map (\<lambda>p. hd (fst p)) d" and ?ds = "[[(''a'', JNull)], [(''b'', JNull)]]"
  obtain rs b where r: "wb_check_all ?sig ?ds (wb_with_threshold 2 (wb_init :: nat workflow_builder)) = (rs, b)"
    by (metis surj_pair)
  from stagnation_counts_novelty [OF r] have "wb_stagnation_detected b" by simp
  with r show ?thesis by blast
qed

subsubsection \<open>Saved states\<close>

text \<open>What a machine needs of its services so that no call of it raises: the repository and the mediator
  answer with a result. Both repositories of the program do.\<close>

locale fsm_services = event_channel publish for publish :: "event \<Rightarrow> 'w \<Rightarrow> unit result raising \<times> 'w" +
  fixes set_state :: "string \<Rightarrow> string \<Rightarrow> 'w \<Rightarrow> unit result raising \<times> 'w"
    and get_state :: "string \<Rightarrow> 'w \<Rightarrow> string result"
    and sound :: "'w \<Rightarrow> bool"
  assumes set_state_safe: "\<not> raises (fst (set_state i s w))"
    and set_get: "sound w \<Longrightarrow> set_state i s w = (Inr (Ok u), w') \<Longrightarrow> get_state i w' = Ok s"
    and set_sound: "sound w \<Longrightarrow> sound (snd (set_state i s w))"
    and no_pass: "fst (set_state i s w) \<noteq> Inr (Pass m)"
begin

text \<open>A machine without hooks that is only saved.\<close>

lemma saved_transition:
  assumes "sound w" "fm_repo f = Some set_state" "fm_mediator f = None \<or> fm_mediator f = Some publish"
    "fm_entry f = Map.empty" "fm_exit f = Map.empty"
    and "fm_transition inp notify new ctx f w = (r, f', w')"
  shows "\<exists>x. r = Inr x"
    and "fm_mediator f = None \<Longrightarrow> fm_observers f = [] \<Longrightarrow> sound w'"
    and "fm_mediator f = None \<Longrightarrow> fm_observers f = [] \<Longrightarrow> r = Inr (Ok c) \<Longrightarrow> get_state (fm_id f) w' = Ok (fm_state f')"
proof -
  obtain p w1 where p: "set_state (fm_id f) new w = (Inr p, w1)"
    using set_state_safe [of "fm_id f" new w] by (cases "set_state (fm_id f) new w"; cases "fst (set_state (fm_id f) new w)") auto
  have steps: "fm_valid (fm_state f) new f \<Longrightarrow> fm_finish inp notify (fm_state f) new (f\<lparr>fm_state := new\<rparr>) w = (r, f', w')"
    using assms(4-6) by (simp add: fm_transition_def hook_step_def Let_def)
  have pub: "\<exists>y. publish ev w = (Inr y, snd (publish ev w))" for ev w
    using publish_safe [of ev w] by (cases "publish ev w"; cases "fst (publish ev w)") auto
  show "\<exists>x. r = Inr x"
  proof (cases "fm_valid (fm_state f) new f")
    case True
    from pub [of "mk_event DOMAIN (fm_id f) None (Some (change_data (fm_id f) (fm_state f) new (fi_published inp)))" w1]
    obtain y w2 where "publish (mk_event DOMAIN (fm_id f) None
        (Some (change_data (fm_id f) (fm_state f) new (fi_published inp)))) w1 = (Inr y, w2)" by blast
    with steps [OF True] p assms(2,3) show ?thesis
      by (auto simp: fm_finish_def Let_def split: if_splits)
  next
    case False
    with assms(6) show ?thesis by (auto simp: fm_transition_def)
  qed
  have notify_none: "fm_observers f = [] \<Longrightarrow> ob_notify_all notify ev (fm_observers f) w = w" for ev w by simp
  from set_sound [OF assms(1), of "fm_id f" new] p have w1: "sound w1" by simp
  show "sound w'" if "fm_mediator f = None" "fm_observers f = []"
  proof (cases "fm_valid (fm_state f) new f")
    case True
    with steps [OF True] p assms(2) that w1 show ?thesis
      by (auto simp: fm_finish_def Let_def split: if_splits)
  next
    case False
    with assms(1,6) show ?thesis by (auto simp: fm_transition_def)
  qed
  show "get_state (fm_id f) w' = Ok (fm_state f')" if "fm_mediator f = None" "fm_observers f = []" "r = Inr (Ok c)"
  proof -
    from that(3) assms(6) have v: "fm_valid (fm_state f) new f"
      by (auto simp: fm_transition_def invalid_transition_def split: if_splits)
    from no_pass [of "fm_id f" new w] p have "\<not> is_err p \<Longrightarrow> \<exists>u. p = Ok u" by (cases p) auto
    with steps [OF v] p assms(2) that set_get [OF assms(1), of "fm_id f" new _ w1]
    show ?thesis by (auto simp: fm_finish_def Let_def split: if_splits)
  qed
qed

end

definition fr_service :: "string \<Rightarrow> string \<Rightarrow> store \<Rightarrow> unit result raising \<times> store" where
  "fr_service i s st = map_prod Inr id (fr_set_state i s st)"

interpretation saved: fsm_services "med_channel call m" fr_service fr_get_state st_inv for call and m
proof unfold_locales
  fix i s w show "\<not> raises (fst (fr_service i s w))" by (simp add: fr_service_def)
  fix u w' assume "st_inv w" "fr_service i s w = (Inr (Ok u), w')"
  then show "fr_get_state i w' = Ok s"
    using fr_set_get(1) by (cases "fr_set_state i s w") (auto simp: fr_service_def)
next
  fix i s w assume "st_inv w"
  then show "st_inv (snd (fr_service i s w))"
    by (cases "st_write [''fsm_state'', i] [(''state'', JStr s)] w")
       (simp add: fr_service_def fr_set_state_def st_write_inv)
next
  fix i s w m show "fst (fr_service i s w) \<noteq> Inr (Pass m)"
    by (cases "fst (st_write [''fsm_state'', i] [(''state'', JStr s)] w)")
       (simp_all add: fr_service_def fr_set_state_def stored_result_def)
qed

text \<open>A machine over the JSON store can be resumed: after every sequence of transitions of which the
  last answered \<open>Ok\<close>, the repository holds the state the machine is in.\<close>

theorem fsm_resumes:
  assumes "st_inv st" "fm_repo f = Some fr_service" "fm_mediator f = None" "fm_observers f = []"
    "fm_entry f = Map.empty" "fm_exit f = Map.empty"
    and "fm_run notify (map (\<lambda>(inp, new). Transition inp new None) ts @ [Transition inp new ctx]) f st = (rs, f', st')"
    and "last rs = Inr (Ok c)"
  shows "fr_get_state (fm_id f) st' = Ok (fm_state f') \<and> st_inv st'"
  using assms
proof (induction ts arbitrary: f st rs)
  case Nil
  then obtain r where r: "fm_transition inp notify new ctx f st = (r, f', st')" "rs = [r]"
    by (auto simp: Let_def split: prod.splits)
  from Nil saved.saved_transition(2,3) [OF Nil(1,2) _ Nil(5,6) r(1)] r(2) show ?case by auto
next
  case (Cons t ts)
  obtain i n where t: "t = (i, n)" by (cases t)
  obtain r f1 st1 where 1: "fm_transition i notify n None f st = (r, f1, st1)" by (metis prod_cases3)
  obtain rs1 f2 st2 where 2: "fm_run notify (map (\<lambda>(inp, new). Transition inp new None) ts @ [Transition inp new ctx]) f1 st1
      = (rs1, f2, st2)" by (metis prod_cases3)
  from Cons.prems(7) t 1 2 have rs: "rs = r # rs1" "f2 = f'" "st2 = st'" by (auto simp: Let_def)
  have "rs1 \<noteq> []" using 2 by (cases ts) (auto simp: Let_def split: prod.splits)
  then have last: "last rs1 = Inr (Ok c)" using Cons.prems(8) rs by simp
  have st1: "st_inv st1" using saved.saved_transition(2) [OF Cons.prems(1,2) _ Cons.prems(5,6) 1] Cons.prems(3,4) by auto
  from 1 have "fm_repo f1 = fm_repo f \<and> fm_mediator f1 = fm_mediator f \<and> fm_observers f1 = fm_observers f
      \<and> fm_entry f1 = fm_entry f \<and> fm_exit f1 = fm_exit f \<and> fm_id f1 = fm_id f"
    by (cases rule: fm_transition_cases) auto
  with Cons.IH [OF st1, of f1 rs1] Cons.prems 2 rs last show ?case by simp
qed

theorem fsm_resumes_witness:
  "\<exists>f r f' st'. fb_build ''m1'' (Some ''a'') (with_persistence fr_service (with_transition ''a'' ''b'' fb_init)) = Inr (Ok f)
     \<and> fm_run (\<lambda>_ _ w. (None, w)) [Transition \<lparr>fi_exit_clock = (0, 0, 0), fi_entry_clock = (0, 0, 0),
          fi_exit_draw = (\<lambda>_. 0), fi_entry_draw = (\<lambda>_. 0), fi_published = [], fi_notified = []\<rparr> ''b'' None] f st_init
        = ([Inr (Ok r)], f', st') \<and> fr_get_state ''m1'' st' = Ok ''b''"
proof -
  let ?inp = "\<lparr>fi_exit_clock = (0, 0, 0), fi_entry_clock = (0, 0, 0),
          fi_exit_draw = (\<lambda>_. 0), fi_entry_draw = (\<lambda>_. 0), fi_published = [], fi_notified = []\<rparr>"
  obtain f where f: "fb_build ''m1'' (Some ''a'') (with_persistence fr_service (with_transition ''a'' ''b'' fb_init)) = Inr (Ok f)"
    and sel: "fm_repo f = Some fr_service" "fm_mediator f = None" "fm_observers f = []" "fm_entry f = Map.empty"
      "fm_exit f = Map.empty" "fm_id f = ''m1''" "fm_state f = ''a''" "fm_valid ''a'' ''b'' f" "fm_transitions f = [(''a'', {''b''})]"
    by (simp add: fb_build_Ok fm_make_def with_transition_def with_persistence_def fb_init_def undefined_states_def
        fm_valid_def)
  have kp: "key_path [''fsm_state'', ''m1''] = Inr [''fsm_state'', ''m1.json'']"
    by (simp add: key_path_def get_path_def bad_key_def with_json_def suffix_def append_eq_Cons_conv Cons_eq_append_conv)
  obtain rs f' st' where r: "fm_run (\<lambda>_ _ w. (None, w)) (map (\<lambda>(inp, new). Transition inp new None) [] @ [Transition ?inp ''b'' None]) f st_init = (rs, f', st')"
    by (metis prod_cases3)
  then have rs: "rs = [Inr (Ok (TransitionCommand ''m1'' ''a'' ''b''))]" "fm_state f' = ''b''"
    using sel kp by (auto simp: fm_transition_def hook_step_def fm_finish_def fr_service_def fr_set_state_def st_write_def
        st_init_def below_file_def stored_result_def Let_def)
  from fsm_resumes [OF st_inv_init sel(1-5) r] rs sel have "fr_get_state ''m1'' st' = Ok ''b''" by simp
  with f r rs show ?thesis by auto
qed

end
