(* ===== verification/Convergence.thy ===== *)
theory Convergence
  imports Storage "HOL-Library.Multiset"
begin

text \<open>
  The convergence tracker of \<open>delegation/convergence.py\<close>. What the code takes from the standard library
  is a parameter: the text of a value, the digest, and the order of a list of lists.
\<close>

text \<open>A result of an agent: an object with a \<open>metadata\<close> dictionary (and maybe a \<open>response\<close>), a dictionary, or
  anything else. Objects come with their text.\<close>

datatype agent_result =
    Agent_object (ar_metadata: dict) (ar_response: "string option") (ar_text: string)
  | Dict_result dict
  | Other_result string

record hash_env =
  he_str :: "json \<Rightarrow> string"
  he_sha256 :: "string \<Rightarrow> string"
  he_sort_lists :: "json list \<Rightarrow> json list raising"

subsection \<open>Sorted lists of values\<close>

definition is_number :: "json \<Rightarrow> bool" where
  "is_number j = (case j of JNum _ \<Rightarrow> True | JBool _ \<Rightarrow> True | _ \<Rightarrow> False)"

definition number_of :: "json \<Rightarrow> rat" where
  "number_of j = (case j of JNum x \<Rightarrow> x | JBool b \<Rightarrow> (if b then 1 else 0) | _ \<Rightarrow> 0)"

definition string_of :: "json \<Rightarrow> string" where
  "string_of j = (case j of JStr s \<Rightarrow> s | _ \<Rightarrow> [])"

text \<open>\<open>sorted(value)\<close>: numbers and strings have an order, dictionaries, nulls and mixtures raise.\<close>

definition py_sorted :: "hash_env \<Rightarrow> json list \<Rightarrow> json list raising" where
  "py_sorted he xs =
     (if length xs \<le> 1 then Inr xs
      else if \<forall>x \<in> set xs. is_number x then Inr (sort_key number_of xs)
      else if \<forall>x \<in> set xs. (case x of JStr _ \<Rightarrow> True | _ \<Rightarrow> False) then Inr (sort_key string_of xs)
      else if \<forall>x \<in> set xs. (case x of JArr _ \<Rightarrow> True | _ \<Rightarrow> False) then he_sort_lists he xs
      else Inl (Exn ''TypeError'' ''not supported between instances''))"

definition value_to_str :: "hash_env \<Rightarrow> json \<Rightarrow> string raising" where
  "value_to_str he j = (case j of
     JArr xs \<Rightarrow> (case py_sorted he xs of Inl e \<Rightarrow> Inl e | Inr ys \<Rightarrow> Inr (he_str he (JArr ys)))
   | _ \<Rightarrow> Inr (he_str he j))"

subsection \<open>Signatures\<close>

text \<open>Calls in a row, up to the first that raises.\<close>

fun collect :: "('a \<Rightarrow> 'b list raising) \<Rightarrow> 'a list \<Rightarrow> 'b list raising" where
  "collect f [] = Inr []"
| "collect f (x # xs) = (case f x of Inl e \<Rightarrow> Inl e
     | Inr ys \<Rightarrow> (case collect f xs of Inl e \<Rightarrow> Inl e | Inr zs \<Rightarrow> Inr (ys @ zs)))"

text \<open>The values of the evidence keys that a dictionary has.\<close>

definition evidence_values :: "hash_env \<Rightarrow> string list \<Rightarrow> dict \<Rightarrow> string list raising" where
  "evidence_values he ks d = collect (\<lambda>k. case map_of d k of
      None \<Rightarrow> Inr []
    | Some v \<Rightarrow> (case value_to_str he v of Inl e \<Rightarrow> Inl e | Inr s \<Rightarrow> Inr [s])) ks"

definition evidence_of :: "hash_env \<Rightarrow> string list \<Rightarrow> agent_result \<Rightarrow> string list raising" where
  "evidence_of he ks r = (case r of
     Agent_object m resp t \<Rightarrow>
       if \<exists>k \<in> set ks. map_of m k \<noteq> None then evidence_values he ks m
       else Inr [case resp of Some s \<Rightarrow> s | None \<Rightarrow> t]
   | Dict_result d \<Rightarrow> evidence_values he ks d
   | Other_result t \<Rightarrow> Inr [t])"

fun join_bar :: "string list \<Rightarrow> string" where
  "join_bar [] = []"
| "join_bar [s] = s"
| "join_bar (s # t # ss) = s @ ''|'' @ join_bar (t # ss)"

definition compute_signature :: "hash_env \<Rightarrow> string list \<Rightarrow> agent_result list \<Rightarrow> string raising" where
  "compute_signature he ks rs = (case collect (evidence_of he ks) rs of
     Inl e \<Rightarrow> Inl e
   | Inr parts \<Rightarrow> Inr (he_sha256 he (join_bar (sort parts))))"

subsection \<open>The tracker\<close>

record tracker =
  ct_keys :: "string list"
  ct_signatures :: "string list"
  ct_stagnation :: nat

definition ct_init :: "string list \<Rightarrow> tracker" where
  "ct_init ks = \<lparr>ct_keys = ks, ct_signatures = [], ct_stagnation = 0\<rparr>"

definition ct_check_novelty :: "hash_env \<Rightarrow> agent_result list \<Rightarrow> tracker \<Rightarrow> bool raising \<times> tracker" where
  "ct_check_novelty he rs t =
     (if rs = [] then (Inr False, t)
      else case compute_signature he (ct_keys t) rs of
        Inl e \<Rightarrow> (Inl e, t)
      | Inr s \<Rightarrow>
          if ct_signatures t \<noteq> [] \<and> s = last (ct_signatures t)
          then (Inr False, t\<lparr>ct_stagnation := Suc (ct_stagnation t)\<rparr>)
          else (Inr True, t\<lparr>ct_signatures := ct_signatures t @ [s], ct_stagnation := 0\<rparr>))"

definition ct_is_converged :: "int \<Rightarrow> tracker \<Rightarrow> bool" where
  "ct_is_converged threshold t \<longleftrightarrow> threshold \<le> int (ct_stagnation t)"

subsection \<open>Properties\<close>

lemma collect_append:
  "collect f (xs @ ys) = (case collect f xs of Inl e \<Rightarrow> Inl e
     | Inr a \<Rightarrow> (case collect f ys of Inl e \<Rightarrow> Inl e | Inr b \<Rightarrow> Inr (a @ b)))"
  by (induction xs) (auto split: sum.splits)

lemma collect_mset:
  "mset xs = mset ys \<Longrightarrow> collect f xs = Inr a \<Longrightarrow> \<exists>b. collect f ys = Inr b \<and> mset b = mset a"
proof (induction xs arbitrary: ys a)
  case (Cons x xs)
  from Cons.prems(1) have "x \<in> set ys" by (metis list.set_intros(1) mset_eq_setD)
  then obtain us vs where us: "ys = us @ x # vs" by (meson split_list)
  with Cons.prems(1) have ys: "ys = us @ x # vs" "mset xs = mset (us @ vs)" by simp_all
  from Cons.prems(2) obtain a1 a2 where a: "f x = Inr a1" "collect f xs = Inr a2" "a = a1 @ a2"
    by (auto split: sum.splits)
  from Cons.IH [OF ys(2) a(2)] obtain b where "collect f (us @ vs) = Inr b" "mset b = mset a2" by blast
  then have "\<exists>c. collect f ys = Inr c \<and> mset c = mset a1 + mset b"
    using a(1) by (auto simp: ys(1) collect_append split: sum.splits)
  then show ?case using a(3) \<open>mset b = mset a2\<close> by auto
qed simp

text \<open>The order of the results does not matter.\<close>

lemma compute_signature_mset:
  assumes "mset rs = mset rs'" "compute_signature he ks rs = Inr s"
  shows "compute_signature he ks rs' = Inr s"
proof -
  from assms(2) obtain a where a: "collect (evidence_of he ks) rs = Inr a" "s = he_sha256 he (join_bar (sort a))"
    by (auto simp: compute_signature_def split: sum.splits)
  from collect_mset [OF assms(1) a(1)] obtain b where b: "collect (evidence_of he ks) rs' = Inr b" "mset b = mset a"
    by blast
  then have "sort b = sort a" by (intro properties_for_sort) simp_all
  with a b show ?thesis by (simp add: compute_signature_def)
qed

fun ct_check_all :: "hash_env \<Rightarrow> agent_result list list \<Rightarrow> tracker \<Rightarrow> tracker" where
  "ct_check_all he [] t = t"
| "ct_check_all he (rs # rss) t = ct_check_all he rss (snd (ct_check_novelty he rs t))"

text \<open>How often the last signature was repeated at the end of a list of signatures.\<close>

fun trailing :: "string list \<Rightarrow> nat" where
  "trailing ss = length (takeWhile (\<lambda>s. s = last ss) (rev ss)) - 1"

declare trailing.simps [simp del]

lemma trailing_snoc: "ss \<noteq> [] \<Longrightarrow> trailing (ss @ [s]) = (if s = last ss then Suc (trailing ss) else 0)"
  by (cases ss rule: rev_cases) (auto simp: trailing.simps takeWhile_eq_Nil_iff split: if_splits)

lemma last_remdups_adj: "last (remdups_adj xs) = last xs"
  by (induction xs rule: remdups_adj.induct) auto

lemma remdups_adj_snoc:
  "remdups_adj (xs @ [x]) = (if xs \<noteq> [] \<and> last xs = x then remdups_adj xs else remdups_adj xs @ [x])"
  by (induction xs rule: remdups_adj.induct) auto

lemma ct_check_all_signatures:
  assumes "list_all2 (\<lambda>rs s. rs \<noteq> [] \<and> compute_signature he ks rs = Inr s) rss ss"
    and "ct_keys t = ks" "ct_signatures t = remdups_adj old" "ct_stagnation t = trailing old"
  shows "ct_signatures (ct_check_all he rss t) = remdups_adj (old @ ss)
    \<and> ct_stagnation (ct_check_all he rss t) = trailing (old @ ss)"
  using assms
proof (induction rss ss arbitrary: t old rule: list_all2_induct)
  case (Cons rs rss s ss)
  let ?t = "snd (ct_check_novelty he rs t)"
  have "ct_keys ?t = ks" using Cons by (simp add: ct_check_novelty_def)
  moreover have "ct_signatures ?t = remdups_adj (old @ [s]) \<and> ct_stagnation ?t = trailing (old @ [s])"
  proof (cases "old = []")
    case True
    with Cons show ?thesis by (simp add: ct_check_novelty_def trailing.simps)
  next
    case False
    with Cons show ?thesis
      by (auto simp: ct_check_novelty_def remdups_adj_snoc trailing_snoc last_remdups_adj)
  qed
  ultimately show ?case using Cons.IH [of ?t "old @ [s]"] by simp
qed simp

lemma trailing_ge:
  "ss \<noteq> [] \<Longrightarrow> n \<le> trailing ss \<longleftrightarrow> Suc n \<le> length ss \<and> (\<forall>s \<in> set (drop (length ss - Suc n) ss). s = last ss)"
proof (induction ss arbitrary: n rule: rev_induct)
  case (snoc x xs)
  show ?case
  proof (cases "xs = []")
    case True
    then show ?thesis by (cases n) (auto simp: trailing.simps)
  next
    case False
    show ?thesis
    proof (cases n)
      case 0
      then show ?thesis by simp
    next
      case (Suc m)
      let ?D = "set (drop (length xs - Suc m) xs)"
      have "drop (length (xs @ [x]) - Suc n) (xs @ [x]) = drop (length xs - Suc m) xs @ [x]"
        by (simp add: Suc)
      then have rhs: "(Suc n \<le> length (xs @ [x]) \<and> (\<forall>s \<in> set (drop (length (xs @ [x]) - Suc n) (xs @ [x])). s = last (xs @ [x])))
          \<longleftrightarrow> Suc m \<le> length xs \<and> (\<forall>s \<in> ?D. s = x)"
        by (simp add: Suc)
      have in_D: "last xs \<in> ?D" if "Suc m \<le> length xs"
      proof -
        from that have "last (drop (length xs - Suc m) xs) = last xs" "drop (length xs - Suc m) xs \<noteq> []"
          by (simp_all add: last_drop)
        then show ?thesis using last_in_set [of "drop (length xs - Suc m) xs"] by simp
      qed
      show ?thesis
      proof (cases "x = last xs")
        case True
        have "n \<le> trailing (xs @ [x]) \<longleftrightarrow> m \<le> trailing xs"
          using True trailing_snoc [OF False, of x] by (simp add: Suc)
        also have "\<dots> \<longleftrightarrow> Suc m \<le> length xs \<and> (\<forall>s \<in> ?D. s = x)"
          using snoc.IH [OF False, of m] True by simp
        finally show ?thesis by (simp only: rhs)
      next
        case neq: False
        have "\<not> n \<le> trailing (xs @ [x])" using neq trailing_snoc [OF False, of x] by (simp add: Suc)
        moreover have "\<not> (Suc m \<le> length xs \<and> (\<forall>s \<in> ?D. s = x))" using in_D neq by (metis (lifting))
        ultimately show ?thesis by (simp only: rhs)
      qed
    qed
  qed
qed simp

text \<open>The tracker converges exactly when the last \<open>threshold + 1\<close> checked results have the same
  signature. After any checks on a fresh tracker, none of which was empty or raised, \<open>signatures\<close> is the
  sequence of the signatures without immediate repetitions, and \<open>stagnation_count\<close> is the number of
  repetitions at its end. The signature does not depend on the order of the results.\<close>

theorem convergence_spec:
  assumes "list_all2 (\<lambda>rs s. rs \<noteq> [] \<and> compute_signature he ks rs = Inr s) rss ss"
    and "ss \<noteq> []" "t = ct_check_all he rss (ct_init ks)"
  shows "ct_signatures t = remdups_adj ss
    \<and> (ct_is_converged (int n) t \<longleftrightarrow> Suc n \<le> length ss \<and> (\<forall>s \<in> set (drop (length ss - Suc n) ss). s = last ss))
    \<and> (\<forall>rs rs' s. mset rs = mset rs' \<longrightarrow> compute_signature he ks rs = Inr s \<longrightarrow> compute_signature he ks rs' = Inr s)"
proof -
  from ct_check_all_signatures [OF assms(1), of "ct_init ks" "[]"] assms(3)
  have "ct_signatures t = remdups_adj ss" "ct_stagnation t = trailing ss"
    by (simp_all add: ct_init_def trailing.simps)
  note t = this
  have "ct_is_converged (int n) t \<longleftrightarrow> n \<le> trailing ss" by (simp add: ct_is_converged_def t)
  with t(1) trailing_ge [OF assms(2), of n] compute_signature_mset show ?thesis by blast
qed

theorem convergence_spec_witness:
  "let he = \<lparr>he_str = (\<lambda>_. []), he_sha256 = (\<lambda>s. s), he_sort_lists = Inr\<rparr>
   in ct_is_converged 1 (ct_check_all he [[Other_result ''a''], [Other_result ''b''], [Other_result ''b'']] (ct_init []))"
proof -
  define he where "he = \<lparr>he_str = (\<lambda>_. []), he_sha256 = (\<lambda>s. s), he_sort_lists = (Inr :: json list \<Rightarrow> json list raising)\<rparr>"
  have "list_all2 (\<lambda>rs s. rs \<noteq> [] \<and> compute_signature he [] rs = Inr s)
      [[Other_result ''a''], [Other_result ''b''], [Other_result ''b'']] [''a'', ''b'', ''b'']"
    by (simp add: compute_signature_def evidence_of_def he_def)
  from convergence_spec [OF this _ refl, of 1] show ?thesis by (simp add: he_def)
qed

end
