(* ===== verification/Delegation.thy ===== *)
theory Delegation
  imports Convergence
begin

text \<open>
  The delegation engine of \<open>delegation/engine.py\<close> with the types of \<open>delegation/types.py\<close>: trees of
  agents run breadth first or depth first under a budget. The runtime, the callbacks and the clock are
  functions of the world \<open>'w\<close>. The children of a breadth first run work at the same time: their
  execution is a list of events in the order in which they happen.
\<close>

subsection \<open>Types\<close>

datatype traversal_mode = BFS | DFS | ADAPTIVE

datatype stop_reason = COMPLETED | CONVERGED | BUDGET_EXHAUSTED | STAGNATION | DEPTH_LIMIT | BREADTH_LIMIT
  | TIMEOUT | ERROR

record deleg_budget =
  db_max_depth :: int
  db_max_breadth :: int
  db_max_total_agents :: int
  db_max_wall_time :: rat
  db_max_iterations :: int
  db_stagnation_threshold :: int
  db_max_concurrent :: int

text \<open>\<open>__post_init__\<close>: the first limit that is not positive; \<open>fmt\<close> is the text of a float.\<close>

definition budget_check :: "(rat \<Rightarrow> string) \<Rightarrow> deleg_budget \<Rightarrow> deleg_budget raising" where
  "budget_check fmt b =
     (let bad = (\<lambda>name v. Inl (Exn ''ValueError'' (name @ '' must be > 0, got '' @ v)))
      in if db_max_depth b \<le> 0 then bad ''max_depth'' (str_int (db_max_depth b))
         else if db_max_breadth b \<le> 0 then bad ''max_breadth'' (str_int (db_max_breadth b))
         else if db_max_total_agents b \<le> 0 then bad ''max_total_agents'' (str_int (db_max_total_agents b))
         else if db_max_wall_time b \<le> 0 then bad ''max_wall_time_seconds'' (fmt (db_max_wall_time b))
         else if db_max_iterations b \<le> 0 then bad ''max_iterations'' (str_int (db_max_iterations b))
         else if db_stagnation_threshold b \<le> 0 then bad ''stagnation_threshold'' (str_int (db_stagnation_threshold b))
         else if db_max_concurrent b \<le> 0 then bad ''max_concurrent'' (str_int (db_max_concurrent b))
         else Inr b)"

definition budget_ok :: "deleg_budget \<Rightarrow> bool" where
  "budget_ok b \<longleftrightarrow> 0 < db_max_depth b \<and> 0 < db_max_breadth b \<and> 0 < db_max_total_agents b \<and> 0 < db_max_wall_time b
     \<and> 0 < db_max_iterations b \<and> 0 < db_stagnation_threshold b \<and> 0 < db_max_concurrent b"

lemma budget_check_ok: "budget_check fmt b = Inr b' \<longleftrightarrow> b' = b \<and> budget_ok b"
  by (auto simp: budget_check_def budget_ok_def Let_def)

record deleg_config =
  dg_mode :: traversal_mode
  dg_budget :: deleg_budget
  dg_check_convergence :: bool
  dg_evidence_keys :: "string list"

text \<open>What the engine calls: the runtime (agent and prompt), the two callbacks, the clock and the
  identifier of an agent, and the environment of the tracker.\<close>

record 'w deleg_env =
  dv_run :: "string \<Rightarrow> string \<Rightarrow> 'w \<Rightarrow> agent_result raising \<times> 'w"
  dv_spawn :: "(string \<Rightarrow> int \<Rightarrow> 'w \<Rightarrow> exn option \<times> 'w) option"
  dv_complete :: "(string \<Rightarrow> agent_result \<Rightarrow> 'w \<Rightarrow> exn option \<times> 'w) option"
  dv_now :: "'w \<Rightarrow> rat"
  dv_id :: "string \<Rightarrow> nat \<Rightarrow> 'w \<Rightarrow> string"
  dv_hash :: hash_env

record deleg_ctx =
  dc_depth :: int
  dc_spawned :: nat
  dc_active :: int
  dc_completed :: nat
  dc_results :: "agent_result list"
  dc_errors :: "exn list"
  dc_start :: rat
  dc_iterations :: nat

definition dc_init :: "rat \<Rightarrow> deleg_ctx" where
  "dc_init now = \<lparr>dc_depth = 0, dc_spawned = 0, dc_active = 0, dc_completed = 0, dc_results = [],
     dc_errors = [], dc_start = now, dc_iterations = 0\<rparr>"

record deleg_result =
  dr_success :: bool
  dr_stop_reason :: stop_reason
  dr_results :: "agent_result list"
  dr_errors :: "exn list"
  dr_total_agents :: nat
  dr_max_depth_reached :: int
  dr_elapsed :: rat
  dr_iterations :: nat
  dr_converged :: bool
  dr_stagnation_detected :: bool
  dr_final_signature :: "string option"

text \<open>The specification of a child: \<open>{"agent": ..., "prompt": ..., "children": [...]}\<close>.\<close>

datatype child_spec = Child (ch_agent: "string option") (ch_prompt: "string option") (ch_children: "child_spec list")

definition child_name :: "string option \<Rightarrow> string" where
  "child_name a = (case a of Some n \<Rightarrow> n | None \<Rightarrow> ''general'')"

definition child_prompt :: "string option \<Rightarrow> string" where
  "child_prompt p = (case p of Some t \<Rightarrow> t | None \<Rightarrow> [])"

text \<open>The engine: its context and its tracker.\<close>

type_synonym engine = "deleg_ctx \<times> tracker"

subsection \<open>One agent\<close>

definition dc_enter :: "deleg_ctx \<Rightarrow> deleg_ctx" where
  "dc_enter c = c\<lparr>dc_spawned := Suc (dc_spawned c), dc_active := dc_active c + 1\<rparr>"

definition dc_leave :: "deleg_ctx \<Rightarrow> deleg_ctx" where
  "dc_leave c = c\<lparr>dc_active := dc_active c - 1, dc_completed := Suc (dc_completed c)\<rparr>"

text \<open>The part of \<open>_execute_agent\<close> before the \<open>try\<close>: the counts, the identifier and the spawn callback.
  If the callback raises, the agent stays counted as active.\<close>

definition agent_start ::
  "'w deleg_env \<Rightarrow> string \<Rightarrow> deleg_ctx \<Rightarrow> 'w \<Rightarrow> string raising \<times> deleg_ctx \<times> 'w" where
  "agent_start env name c w =
     (let c = dc_enter c; i = dv_id env name (dc_spawned c) w
      in case dv_spawn env of
           None \<Rightarrow> (Inr i, c, w)
         | Some f \<Rightarrow> (case f i (dc_depth c) w of (None, w) \<Rightarrow> (Inr i, c, w) | (Some e, w) \<Rightarrow> (Inl e, c, w)))"

text \<open>The \<open>try\<close>: the answer of the agent, or the exception that it or the completion callback raised,
  returned as a value.\<close>

definition agent_finish ::
  "'w deleg_env \<Rightarrow> string \<Rightarrow> string \<Rightarrow> string \<Rightarrow> deleg_ctx \<Rightarrow> 'w \<Rightarrow> agent_result raising \<times> deleg_ctx \<times> 'w" where
  "agent_finish env i name prompt c w =
     (case dv_run env name prompt w of
        (Inl e, w) \<Rightarrow> (Inl e, dc_leave c, w)
      | (Inr r, w) \<Rightarrow>
          (case dv_complete env of
             None \<Rightarrow> (Inr r, dc_leave c, w)
           | Some f \<Rightarrow> (case f i r w of (None, w) \<Rightarrow> (Inr r, dc_leave c, w) | (Some e, w) \<Rightarrow> (Inl e, dc_leave c, w))))"

definition execute_agent ::
  "'w deleg_env \<Rightarrow> string \<Rightarrow> string \<Rightarrow> deleg_ctx \<Rightarrow> 'w \<Rightarrow> agent_result raising raising \<times> deleg_ctx \<times> 'w" where
  "execute_agent env name prompt c w = (case agent_start env name c w of
     (Inl e, c, w) \<Rightarrow> (Inl e, c, w)
   | (Inr i, c, w) \<Rightarrow> (case agent_finish env i name prompt c w of (r, c, w) \<Rightarrow> (Inr r, c, w)))"

text \<open>What both traversals do with an answer: record it, and show a result to the tracker, which may raise.\<close>

definition add_error :: "exn \<Rightarrow> engine \<Rightarrow> engine" where
  "add_error e s = ((fst s)\<lparr>dc_errors := dc_errors (fst s) @ [e]\<rparr>, snd s)"

definition record_answer ::
  "'w deleg_env \<Rightarrow> deleg_config \<Rightarrow> agent_result raising \<Rightarrow> engine \<Rightarrow> unit raising \<times> engine" where
  "record_answer env cfg r s = (case r of
     Inl e \<Rightarrow> (Inr (), add_error e s)
   | Inr x \<Rightarrow>
       (let c = (fst s)\<lparr>dc_results := dc_results (fst s) @ [x]\<rparr>
        in if dg_check_convergence cfg then
             (case ct_check_novelty (dv_hash env) [x] (snd s) of
                (Inl e, t) \<Rightarrow> (Inl e, (c, t)) | (Inr _, t) \<Rightarrow> (Inr (), (c, t)))
           else (Inr (), (c, snd s))))"

definition visit ::
  "'w deleg_env \<Rightarrow> deleg_config \<Rightarrow> string \<Rightarrow> string \<Rightarrow> engine \<Rightarrow> 'w \<Rightarrow> unit raising \<times> engine \<times> 'w" where
  "visit env cfg name prompt s w = (case execute_agent env name prompt (fst s) w of
     (Inl e, c, w) \<Rightarrow> (Inl e, (c, snd s), w)
   | (Inr r, c, w) \<Rightarrow> (case record_answer env cfg r (c, snd s) of (x, s) \<Rightarrow> (x, s, w)))"

definition check_boundaries :: "deleg_config \<Rightarrow> rat \<Rightarrow> engine \<Rightarrow> stop_reason option" where
  "check_boundaries cfg now s =
     (let b = dg_budget cfg; c = fst s
      in if db_max_iterations b \<le> int (dc_iterations c) then Some BUDGET_EXHAUSTED
         else if db_max_wall_time b \<le> now - dc_start c then Some TIMEOUT
         else if db_max_depth b \<le> dc_depth c then Some DEPTH_LIMIT
         else if db_max_total_agents b \<le> int (dc_spawned c) then Some BREADTH_LIMIT
         else if ct_is_converged (db_stagnation_threshold b) (snd s) then Some CONVERGED
         else None)"

definition shift_depth :: "int \<Rightarrow> engine \<Rightarrow> engine" where
  "shift_depth d s = ((fst s)\<lparr>dc_depth := dc_depth (fst s) + d\<rparr>, snd s)"

subsection \<open>Depth first\<close>

text \<open>The loop of \<open>_execute_dfs\<close> over the children. A child is executed; if it has children of its own,
  \<open>_execute_dfs\<close> is called on it, which executes it again (see \<open>execute_dfs\<close> and \<open>dfs_children_Cons\<close>).
  What a child raises is recorded, so the loop itself does not raise.\<close>

fun dfs_children :: "'w deleg_env \<Rightarrow> deleg_config \<Rightarrow> child_spec list \<Rightarrow> engine \<Rightarrow> 'w \<Rightarrow> engine \<times> 'w" where
  "dfs_children env cfg [] s w = (s, w)"
| "dfs_children env cfg (Child a p cs # rest) s w =
     (if db_max_total_agents (dg_budget cfg) \<le> int (dc_spawned (fst s)) then (s, w)
      else if check_boundaries cfg (dv_now env w) s \<noteq> None then (s, w)
      else case visit env cfg (child_name a) (child_prompt p) s w of
        (Inl e, s, w) \<Rightarrow> dfs_children env cfg rest (add_error e s) w
      | (Inr _, s, w) \<Rightarrow>
          (case (if cs = [] then (Inr (), s, w)
                 else (case visit env cfg (child_name a) (child_prompt p) s w of
                     (Inl e, s, w) \<Rightarrow> (Inl e, s, w)
                   | (Inr _, s, w) \<Rightarrow>
                       if check_boundaries cfg (dv_now env w) s \<noteq> None then (Inr (), s, w)
                       else if db_max_depth (dg_budget cfg) \<le> dc_depth (fst s) + 1 then (Inr (), s, w)
                       else (case dfs_children env cfg cs (shift_depth 1 s) w of
                           (s, w) \<Rightarrow> (Inr (), shift_depth (- 1) s, w)))) of
             (Inl e, s, w) \<Rightarrow> dfs_children env cfg rest (add_error e s) w
           | (Inr _, s, w) \<Rightarrow>
               if dg_check_convergence cfg \<and> ct_is_converged (db_stagnation_threshold (dg_budget cfg)) (snd s)
               then (s, w) else dfs_children env cfg rest s w))"

definition execute_dfs ::
  "'w deleg_env \<Rightarrow> deleg_config \<Rightarrow> string \<Rightarrow> string \<Rightarrow> child_spec list \<Rightarrow> engine \<Rightarrow> 'w \<Rightarrow> unit raising \<times> engine \<times> 'w" where
  "execute_dfs env cfg name prompt cs s w = (case visit env cfg name prompt s w of
     (Inl e, s, w) \<Rightarrow> (Inl e, s, w)
   | (Inr _, s, w) \<Rightarrow>
       if check_boundaries cfg (dv_now env w) s \<noteq> None then (Inr (), s, w)
       else if cs = [] then (Inr (), s, w)
       else if db_max_depth (dg_budget cfg) \<le> dc_depth (fst s) + 1 then (Inr (), s, w)
       else (case dfs_children env cfg cs (shift_depth 1 s) w of (s, w) \<Rightarrow> (Inr (), shift_depth (- 1) s, w)))"

lemma dfs_children_Cons:
  "dfs_children env cfg (Child a p cs # rest) s w =
     (if db_max_total_agents (dg_budget cfg) \<le> int (dc_spawned (fst s)) then (s, w)
      else if check_boundaries cfg (dv_now env w) s \<noteq> None then (s, w)
      else case visit env cfg (child_name a) (child_prompt p) s w of
        (Inl e, s, w) \<Rightarrow> dfs_children env cfg rest (add_error e s) w
      | (Inr _, s, w) \<Rightarrow>
          (case (if cs = [] then (Inr (), s, w)
                 else execute_dfs env cfg (child_name a) (child_prompt p) cs s w) of
             (Inl e, s, w) \<Rightarrow> dfs_children env cfg rest (add_error e s) w
           | (Inr _, s, w) \<Rightarrow>
               if dg_check_convergence cfg \<and> ct_is_converged (db_stagnation_threshold (dg_budget cfg)) (snd s)
               then (s, w) else dfs_children env cfg rest s w))"
  by (cases "cs = []") (simp_all only: dfs_children.simps(2) execute_dfs_def if_True if_False refl
      cong: sum.case_cong prod.case_cong if_cong)

subsection \<open>Breadth first\<close>

text \<open>What happens to the children in the worker pool: a worker takes one and starts its agent, the agent
  ends, or it is cancelled because the pool is stopped after the timeout. Which events happen, and
  when, is decided by the pool (see \<open>TaskQueue\<close>).\<close>

datatype child_event = Start nat | Finish nat | Cancel nat

record bfs_state =
  bf_waiting :: "nat list"
  bf_running :: "(nat \<times> string) list"
  bf_done :: "agent_result raising list"

definition bfs_event ::
  "'w deleg_env \<Rightarrow> child_spec list \<Rightarrow> child_event \<Rightarrow> bfs_state \<Rightarrow> deleg_ctx \<Rightarrow> 'w \<Rightarrow> bfs_state \<times> deleg_ctx \<times> 'w" where
  "bfs_event env cs ev q c w = (case ev of
     Start i \<Rightarrow>
       if i \<notin> set (bf_waiting q) then (q, c, w)
       else (let q = q\<lparr>bf_waiting := remove1 i (bf_waiting q)\<rparr>
             in case agent_start env (child_name (ch_agent (cs ! i))) c w of
                  (Inl e, c, w) \<Rightarrow> (q, c, w)
                | (Inr a, c, w) \<Rightarrow> (q\<lparr>bf_running := bf_running q @ [(i, a)]\<rparr>, c, w))
   | Finish i \<Rightarrow>
       (case map_of (bf_running q) i of
          None \<Rightarrow> (q, c, w)
        | Some a \<Rightarrow>
            (case agent_finish env a (child_name (ch_agent (cs ! i))) (child_prompt (ch_prompt (cs ! i))) c w of
               (r, c, w) \<Rightarrow> (q\<lparr>bf_running := remove1 (i, a) (bf_running q), bf_done := bf_done q @ [r]\<rparr>, c, w)))
   | Cancel i \<Rightarrow>
       (case map_of (bf_running q) i of
          None \<Rightarrow> (q, c, w)
        | Some a \<Rightarrow> (q\<lparr>bf_running := remove1 (i, a) (bf_running q)\<rparr>, dc_leave c, w)))"

fun bfs_events ::
  "'w deleg_env \<Rightarrow> child_spec list \<Rightarrow> child_event list \<Rightarrow> bfs_state \<Rightarrow> deleg_ctx \<Rightarrow> 'w \<Rightarrow> bfs_state \<times> deleg_ctx \<times> 'w" where
  "bfs_events env cs [] q c w = (q, c, w)"
| "bfs_events env cs (ev # evs) q c w =
     (case bfs_event env cs ev q c w of (q, c, w) \<Rightarrow> bfs_events env cs evs q c w)"

text \<open>The results are collected in the order in which the agents ended.\<close>

fun record_all :: "'w deleg_env \<Rightarrow> deleg_config \<Rightarrow> agent_result raising list \<Rightarrow> engine \<Rightarrow> unit raising \<times> engine" where
  "record_all env cfg [] s = (Inr (), s)"
| "record_all env cfg (r # rs) s = (case record_answer env cfg r s of
     (Inl e, s) \<Rightarrow> (Inl e, s) | (Inr _, s) \<Rightarrow> record_all env cfg rs s)"

definition execute_children_queued ::
  "'w deleg_env \<Rightarrow> deleg_config \<Rightarrow> child_event list \<Rightarrow> child_spec list \<Rightarrow> engine \<Rightarrow> 'w \<Rightarrow> unit raising \<times> engine \<times> 'w" where
  "execute_children_queued env cfg evs cs s w =
     (case bfs_events env cs evs \<lparr>bf_waiting = [0..<length cs], bf_running = [], bf_done = []\<rparr> (fst s) w of
        (q, c, w) \<Rightarrow> (case record_all env cfg (bf_done q) (c, snd s) of (r, s) \<Rightarrow> (r, s, w)))"

definition execute_bfs ::
  "'w deleg_env \<Rightarrow> deleg_config \<Rightarrow> child_event list \<Rightarrow> string \<Rightarrow> string \<Rightarrow> child_spec list \<Rightarrow> engine \<Rightarrow> 'w
     \<Rightarrow> unit raising \<times> engine \<times> 'w" where
  "execute_bfs env cfg evs name prompt cs s w = (case visit env cfg name prompt s w of
     (Inl e, s, w) \<Rightarrow> (Inl e, s, w)
   | (Inr _, s, w) \<Rightarrow>
       (let b = dg_budget cfg
        in if check_boundaries cfg (dv_now env w) s \<noteq> None then (Inr (), s, w)
           else if cs = [] then (Inr (), s, w)
           else
             (let cs = (if db_max_breadth b < int (length cs) then slice_to (db_max_breadth b) cs else cs)
              in if db_max_depth b \<le> dc_depth (fst s) + 1 then (Inr (), s, w)
                 else
                   (let s = shift_depth 1 s;
                        remaining = db_max_total_agents b - int (dc_spawned (fst s))
                    in if remaining \<le> 0 then (Inr (), s, w)
                       else execute_children_queued env cfg evs (slice_to remaining cs) s w))))"

definition execute_adaptive ::
  "'w deleg_env \<Rightarrow> deleg_config \<Rightarrow> child_event list \<Rightarrow> string \<Rightarrow> string \<Rightarrow> child_spec list \<Rightarrow> engine \<Rightarrow> 'w
     \<Rightarrow> unit raising \<times> engine \<times> 'w" where
  "execute_adaptive env cfg evs name prompt cs s w =
     (if dc_depth (fst s) < 2 then execute_bfs env cfg evs name prompt cs s w
      else execute_dfs env cfg name prompt cs s w)"

subsection \<open>The whole delegation\<close>

definition build_result :: "deleg_config \<Rightarrow> stop_reason \<Rightarrow> rat \<Rightarrow> engine \<Rightarrow> deleg_result" where
  "build_result cfg why now s =
     \<lparr>dr_success = (dc_errors (fst s) = []), dr_stop_reason = why, dr_results = dc_results (fst s),
      dr_errors = dc_errors (fst s), dr_total_agents = dc_spawned (fst s), dr_max_depth_reached = dc_depth (fst s),
      dr_elapsed = now - dc_start (fst s), dr_iterations = dc_iterations (fst s),
      dr_converged = ct_is_converged (db_stagnation_threshold (dg_budget cfg)) (snd s),
      dr_stagnation_detected = (0 < ct_stagnation (snd s)),
      dr_final_signature = (if ct_signatures (snd s) = [] then None else Some (last (ct_signatures (snd s))))\<rparr>"

text \<open>\<open>delegate\<close>: a new context, the tracker of the engine as it was left by earlier delegations.\<close>

definition delegate ::
  "'w deleg_env \<Rightarrow> deleg_config \<Rightarrow> child_event list \<Rightarrow> string \<Rightarrow> string \<Rightarrow> child_spec list \<Rightarrow> tracker \<Rightarrow> 'w
     \<Rightarrow> deleg_result result \<times> engine \<times> 'w" where
  "delegate env cfg evs name prompt cs t w =
     (let s = (dc_init (dv_now env w), t)
      in case (case dg_mode cfg of
                 BFS \<Rightarrow> execute_bfs env cfg evs name prompt cs s w
               | DFS \<Rightarrow> execute_dfs env cfg name prompt cs s w
               | ADAPTIVE \<Rightarrow> execute_adaptive env cfg evs name prompt cs s w) of
           (Inl e, s, w) \<Rightarrow> (Err (exn_msg e) (Some ''DELEGATION_ERROR'') False, s, w)
         | (Inr _, s, w) \<Rightarrow> (Ok (build_result cfg COMPLETED (dv_now env w) s), s, w))"

subsection \<open>Lemmas on runs\<close>

text \<open>Induction over forests: the children of the first tree, and the rest.\<close>

lemma forest_induct [case_names Nil Cons]:
  assumes "P []" "\<And>a p cs rest. P cs \<Longrightarrow> P rest \<Longrightarrow> P (Child a p cs # rest)"
  shows "P css"
proof (induction css rule: measure_induct_rule [where f = "size_list size"])
  case (less css)
  show ?case
  proof (cases css)
    case (Cons c rest)
    moreover obtain a p cs where "c = Child a p cs" by (cases c)
    ultimately show ?thesis using less assms(2) by simp
  qed (simp add: assms(1))
qed

lemma agent_start_ctx:
  "agent_start env name c w = (r, c', w') \<Longrightarrow> c' = dc_enter c"
  by (auto simp: agent_start_def Let_def split: option.splits prod.splits)

lemma agent_finish_ctx:
  "agent_finish env i name prompt c w = (r, c', w') \<Longrightarrow> c' = dc_leave c"
  by (auto simp: agent_finish_def split: option.splits prod.splits sum.splits)

lemma execute_agent_ctx:
  assumes "execute_agent env name prompt c w = (r, c', w')"
  shows "c' = (if raises r then dc_enter c else dc_leave (dc_enter c))"
proof -
  obtain i c1 w1 where 1: "agent_start env name c w = (i, c1, w1)" by (metis prod_cases3)
  with assms agent_start_ctx [OF 1] show ?thesis
    by (cases i) (auto simp: execute_agent_def split: prod.splits dest: agent_finish_ctx)
qed

text \<open>A spawn callback that never raises.\<close>

definition spawn_safe :: "'w deleg_env \<Rightarrow> bool" where
  "spawn_safe env \<longleftrightarrow> (\<forall>f i d w. dv_spawn env = Some f \<longrightarrow> fst (f i d w) = None)"

text \<open>The context after a visit: one more agent, and its answer, unless the spawn callback raised.\<close>

lemma visit_cases:
  assumes "visit env cfg name prompt s w = (r, s', w')"
  obtains (spawn_raised) e where "r = Inl e" "fst s' = dc_enter (fst s)" "\<not> spawn_safe env"
  | (failed) e where "r = Inr ()"
      "fst s' = (dc_leave (dc_enter (fst s)))\<lparr>dc_errors := dc_errors (fst s) @ [e]\<rparr>"
  | (answered) x where "fst s' = (dc_leave (dc_enter (fst s)))\<lparr>dc_results := dc_results (fst s) @ [x]\<rparr>"
      "raises r \<Longrightarrow> raises (compute_signature (dv_hash env) (ct_keys (snd s)) [x])"
      "\<exists>w. fst (dv_run env name prompt w) = Inr x"
proof -
  obtain i c1 w1 where 1: "agent_start env name (fst s) w = (i, c1, w1)" by (metis prod_cases3)
  note c1 = agent_start_ctx [OF 1]
  show ?thesis
  proof (cases i)
    case (Inl e)
    with 1 have "\<not> spawn_safe env"
      by (auto simp: agent_start_def spawn_safe_def Let_def split: option.splits prod.splits) (metis fst_conv option.distinct(1))
    with assms 1 Inl c1 show ?thesis
      by (intro spawn_raised [of e]) (auto simp: visit_def execute_agent_def)
  next
    case (Inr a)
    obtain o2 c2 w2 where 2: "agent_finish env a name prompt c1 w1 = (o2, c2, w2)" by (metis prod_cases3)
    note c2 = agent_finish_ctx [OF 2]
    from assms 1 Inr 2 have rec: "record_answer env cfg o2 (c2, snd s) = (r, s')"
      by (auto simp: visit_def execute_agent_def split: prod.splits)
    show ?thesis
    proof (cases o2)
      case (Inl e)
      with rec c1 c2 show ?thesis
        by (intro failed [of e]) (auto simp: record_answer_def add_error_def dc_leave_def dc_enter_def)
    next
      case (Inr x)
      with 2 have "fst (dv_run env name prompt w1) = Inr x"
        by (auto simp: agent_finish_def split: prod.splits sum.splits option.splits)
      then have run: "\<exists>w. fst (dv_run env name prompt w) = Inr x" ..
      obtain n t where n: "ct_check_novelty (dv_hash env) [x] (snd s) = (n, t)" by (metis surj_pair)
      then have "raises n \<Longrightarrow> raises (compute_signature (dv_hash env) (ct_keys (snd s)) [x])"
        by (cases n) (auto simp: ct_check_novelty_def split: sum.splits if_splits)
      with rec Inr c1 c2 n run show ?thesis
        by (intro answered [of x]) (cases n; auto simp: record_answer_def dc_leave_def dc_enter_def Let_def split: if_splits)+
    qed
  qed
qed

lemma visit_frame:
  assumes "visit env cfg name prompt s w = (r, s', w')"
  shows "dc_spawned (fst s') = Suc (dc_spawned (fst s)) \<and> dc_depth (fst s') = dc_depth (fst s)
    \<and> dc_iterations (fst s') = dc_iterations (fst s) \<and> dc_start (fst s') = dc_start (fst s)"
  using assms by (cases rule: visit_cases) (auto simp: dc_enter_def dc_leave_def)

lemma engine_sel [simp]:
  "fst (add_error e s) = (fst s)\<lparr>dc_errors := dc_errors (fst s) @ [e]\<rparr>" "snd (add_error e s) = snd s"
  "fst (shift_depth d s) = (fst s)\<lparr>dc_depth := dc_depth (fst s) + d\<rparr>" "snd (shift_depth d s) = snd s"
  by (simp_all add: add_error_def shift_depth_def)

text \<open>What a run of the children never changes, and the bound on the number of agents.\<close>

definition dfs_frame :: "deleg_config \<Rightarrow> engine \<Rightarrow> engine \<Rightarrow> bool" where
  "dfs_frame cfg s s' \<longleftrightarrow> dc_depth (fst s') = dc_depth (fst s) \<and> dc_iterations (fst s') = dc_iterations (fst s)
     \<and> dc_start (fst s') = dc_start (fst s) \<and> dc_spawned (fst s) \<le> dc_spawned (fst s')
     \<and> (int (dc_spawned (fst s)) \<le> db_max_total_agents (dg_budget cfg) + 1 \<longrightarrow>
        int (dc_spawned (fst s')) \<le> db_max_total_agents (dg_budget cfg) + 1)"

lemma dfs_frame_refl [simp]: "dfs_frame cfg s s"
  by (simp add: dfs_frame_def)

lemma dfs_frame_trans: "dfs_frame cfg s s' \<Longrightarrow> dfs_frame cfg s' s'' \<Longrightarrow> dfs_frame cfg s s''"
  by (auto simp: dfs_frame_def)

lemma visit_dfs_frame:
  "visit env cfg name prompt s w = (r, s', w') \<Longrightarrow> int (dc_spawned (fst s)) \<le> db_max_total_agents (dg_budget cfg) \<Longrightarrow>
   dfs_frame cfg s s' \<and> dfs_frame cfg s (add_error e s')"
  using visit_frame [of env cfg name prompt s w r s' w'] by (auto simp: dfs_frame_def)

text \<open>One round of the loop, with the calls it makes named.\<close>

lemma dfs_children_step:
  assumes "dfs_children env cfg (Child a p cs # rest) s w = (s', w')"
  obtains (stop) "s' = s"
  | (raised) e s1 w1 where "int (dc_spawned (fst s)) < db_max_total_agents (dg_budget cfg)"
      "visit env cfg (child_name a) (child_prompt p) s w = (Inl e, s1, w1)"
      "dfs_children env cfg rest (add_error e s1) w1 = (s', w')"
  | (leaf) s1 w1 where "int (dc_spawned (fst s)) < db_max_total_agents (dg_budget cfg)" "cs = []"
      "visit env cfg (child_name a) (child_prompt p) s w = (Inr (), s1, w1)"
      "s' = s1 \<or> dfs_children env cfg rest s1 w1 = (s', w')"
  | (inner) r2 s1 w1 s2 w2 where "int (dc_spawned (fst s)) < db_max_total_agents (dg_budget cfg)" "cs \<noteq> []"
      "visit env cfg (child_name a) (child_prompt p) s w = (Inr (), s1, w1)"
      "execute_dfs env cfg (child_name a) (child_prompt p) cs s1 w1 = (r2, s2, w2)"
      "(\<exists>e. r2 = Inl e \<and> dfs_children env cfg rest (add_error e s2) w2 = (s', w'))
       \<or> r2 = Inr () \<and> (s' = s2 \<or> dfs_children env cfg rest s2 w2 = (s', w'))"
proof (cases "int (dc_spawned (fst s)) < db_max_total_agents (dg_budget cfg) \<and> check_boundaries cfg (dv_now env w) s = None")
  case False
  with assms have "s' = s" by (auto simp: dfs_children_Cons split: if_splits simp del: dfs_children.simps(2))
  then show ?thesis by (rule stop)
next
  case True
  then have go: "\<not> db_max_total_agents (dg_budget cfg) \<le> int (dc_spawned (fst s))"
    "\<not> check_boundaries cfg (dv_now env w) s \<noteq> None" "int (dc_spawned (fst s)) < db_max_total_agents (dg_budget cfg)"
    by simp_all
  obtain r1 s1 w1 where v: "visit env cfg (child_name a) (child_prompt p) s w = (r1, s1, w1)" by (metis prod_cases3)
  note run = assms [unfolded dfs_children_Cons if_not_P [OF go(1)] if_not_P [OF go(2)] v prod.case]
  show ?thesis
  proof (cases r1)
    case (Inl e)
    with run v go(3) show ?thesis by (intro raised) simp_all
  next
    case (Inr u)
    show ?thesis
    proof (cases "cs = []")
      case True
      with run Inr have "s' = s1 \<or> dfs_children env cfg rest s1 w1 = (s', w')" by (auto split: if_splits)
      moreover from v Inr have "visit env cfg (child_name a) (child_prompt p) s w = (Inr (), s1, w1)" by simp
      ultimately show ?thesis using leaf go(3) True by blast
    next
      case False
      obtain r2 s2 w2 where d: "execute_dfs env cfg (child_name a) (child_prompt p) cs s1 w1 = (r2, s2, w2)"
        by (metis prod_cases3)
      with run v go(3) Inr False show ?thesis by (intro inner) (auto split: sum.splits if_splits)
    qed
  qed
qed

lemma execute_dfs_cases:
  assumes "execute_dfs env cfg name prompt cs s w = (r, s', w')"
  obtains (raised) e where "visit env cfg name prompt s w = (Inl e, s', w')" "r = Inl e"
  | (stop) "visit env cfg name prompt s w = (Inr (), s', w')" "r = Inr ()"
  | (children) s1 w1 s2 where "visit env cfg name prompt s w = (Inr (), s1, w1)" "r = Inr ()"
      "int (dc_spawned (fst s1)) < db_max_total_agents (dg_budget cfg)"
      "dc_depth (fst s1) + 1 < db_max_depth (dg_budget cfg)" "cs \<noteq> []"
      "dfs_children env cfg cs (shift_depth 1 s1) w1 = (s2, w')" "s' = shift_depth (- 1) s2"
proof -
  obtain r1 s1 w1 where v: "visit env cfg name prompt s w = (r1, s1, w1)" by (metis prod_cases3)
  show ?thesis
  proof (cases r1)
    case (Inl e)
    with assms v have "r = Inl e" "s1 = s'" "w1 = w'" by (auto simp: execute_dfs_def)
    with v Inl show ?thesis using raised by blast
  next
    case (Inr u)
    show ?thesis
    proof (cases "check_boundaries cfg (dv_now env w1) s1 \<noteq> None \<or> cs = [] \<or> db_max_depth (dg_budget cfg) \<le> dc_depth (fst s1) + 1")
      case True
      with assms v Inr have "r = Inr ()" "s' = s1" "w' = w1" by (auto simp: execute_dfs_def split: if_splits)
      with v Inr show ?thesis by (intro stop) simp_all
    next
      case False
      obtain s2 w2 where c: "dfs_children env cfg cs (shift_depth 1 s1) w1 = (s2, w2)" by (metis surj_pair)
      from False have "int (dc_spawned (fst s1)) < db_max_total_agents (dg_budget cfg)"
        by (auto simp: check_boundaries_def Let_def split: if_splits)
      with assms v Inr False c show ?thesis
        by (intro children [of s1 w1 s2]) (auto simp: execute_dfs_def)
    qed
  qed
qed

lemma dfs_frame_shift: "dfs_frame cfg (shift_depth 1 s) s' \<Longrightarrow> dfs_frame cfg s (shift_depth (- 1) s')"
  by (auto simp: dfs_frame_def)

lemma dfs_frame_error: "dfs_frame cfg s s' \<Longrightarrow> dfs_frame cfg s (add_error e s')"
  by (auto simp: dfs_frame_def)

lemma execute_dfs_frame_aux:
  assumes "\<And>s w s' w'. dfs_children env cfg cs s w = (s', w') \<Longrightarrow> dfs_frame cfg s s'"
    and "execute_dfs env cfg name prompt cs s w = (r, s', w')"
    and "int (dc_spawned (fst s)) \<le> db_max_total_agents (dg_budget cfg)"
  shows "dfs_frame cfg s s'"
  using assms(2)
proof (cases rule: execute_dfs_cases)
  case (children s1 w1 s2)
  from assms(1) [OF children(6)] have "dfs_frame cfg s1 s'" by (simp add: children(7) dfs_frame_shift)
  with visit_dfs_frame [OF children(1) assms(3)] show ?thesis by (blast intro: dfs_frame_trans)
next
  case (raised e)
  from visit_dfs_frame [OF raised(1) assms(3)] show ?thesis ..
next
  case stop
  from visit_dfs_frame [OF stop(1) assms(3)] show ?thesis ..
qed

lemma dfs_children_frame: "dfs_children env cfg css s w = (s', w') \<Longrightarrow> dfs_frame cfg s s'"
proof (induction css arbitrary: s w s' w' rule: forest_induct)
  case (Cons a p cs rest)
  from Cons.prems show ?case
  proof (cases rule: dfs_children_step)
    case (raised e s1 w1)
    from visit_dfs_frame [OF raised(2)] raised(1) have "dfs_frame cfg s (add_error e s1)" by simp
    from dfs_frame_trans [OF this Cons.IH(2) [OF raised(3)]] show ?thesis .
  next
    case (leaf s1 w1)
    from visit_dfs_frame [OF leaf(3)] leaf(1) have 1: "dfs_frame cfg s s1" by simp
    from leaf(4) show ?thesis
    proof
      assume "dfs_children env cfg rest s1 w1 = (s', w')"
      from dfs_frame_trans [OF 1 Cons.IH(2) [OF this]] show ?thesis .
    qed (simp add: 1)
  next
    case (inner r2 s1 w1 s2 w2)
    have 1: "dfs_frame cfg s s1" using visit_dfs_frame [OF inner(3)] inner(1) by simp
    have room: "int (dc_spawned (fst s1)) \<le> db_max_total_agents (dg_budget cfg)"
      using visit_frame [OF inner(3)] inner(1) by simp
    have "dfs_frame cfg s1 s2"
      by (rule execute_dfs_frame_aux [OF _ inner(4) room]) (rule Cons.IH(1))
    with 1 have 2: "dfs_frame cfg s s2" by (rule dfs_frame_trans)
    from inner(5) consider e where "dfs_children env cfg rest (add_error e s2) w2 = (s', w')" | "s' = s2"
      | "dfs_children env cfg rest s2 w2 = (s', w')" by blast
    then show ?thesis
    proof cases
      case (1 e)
      from dfs_frame_trans [OF dfs_frame_error [OF 2] Cons.IH(2) [OF 1]] show ?thesis .
    next
      case 3
      from dfs_frame_trans [OF 2 Cons.IH(2) [OF 3]] show ?thesis .
    qed (simp add: 2)
  qed simp
qed simp

lemma execute_dfs_frame:
  "execute_dfs env cfg name prompt cs s w = (r, s', w') \<Longrightarrow>
   int (dc_spawned (fst s)) \<le> db_max_total_agents (dg_budget cfg) \<Longrightarrow> dfs_frame cfg s s'"
  by (rule execute_dfs_frame_aux [OF dfs_children_frame])

text \<open>An invariant of visits is an invariant of the whole traversal.\<close>

lemma dfs_children_invariant:
  assumes visit: "\<And>name prompt s w r s' w'. I s \<Longrightarrow> visit env cfg name prompt s w = (r, s', w') \<Longrightarrow>
        (case r of Inl e \<Rightarrow> I (add_error e s') | Inr _ \<Rightarrow> I s')"
    and shift: "\<And>d s. I s \<Longrightarrow> I (shift_depth d s)"
  shows "I s \<Longrightarrow> dfs_children env cfg css s w = (s', w') \<Longrightarrow> I s'"
proof (induction css arbitrary: s w s' w' rule: forest_induct)
  case (Cons a p cs rest)
  from Cons.prems(2) show ?case
  proof (cases rule: dfs_children_step)
    case (raised e s1 w1)
    with visit [OF Cons.prems(1) raised(2)] Cons.IH(2) [of "add_error e s1" w1 s' w'] show ?thesis by simp
  next
    case (leaf s1 w1)
    with visit [OF Cons.prems(1) leaf(3)] Cons.IH(2) [of s1 w1 s' w'] show ?thesis by auto
  next
    case (inner r2 s1 w1 s2 w2)
    from visit [OF Cons.prems(1) inner(3)] have s1: "I s1" by simp
    have "case r2 of Inl e \<Rightarrow> I (add_error e s2) | Inr _ \<Rightarrow> I s2"
      using inner(4)
    proof (cases rule: execute_dfs_cases)
      case (children s3 w3 s4)
      from visit [OF s1 children(1)] have "I s3" by simp
      with Cons.IH(1) [OF shift children(6)] have "I s4" by simp
      with children show ?thesis by (simp add: shift)
    qed (use visit [OF s1] in fastforce)+
    then show ?thesis using inner(5) Cons.IH(2) [of "add_error _ s2" w2 s' w'] Cons.IH(2) [of s2 w2 s' w'] by auto
  qed (use Cons.prems(1) in simp)
qed simp

text \<open>Breadth first: what an event of a child changes.\<close>

definition bfs_frame :: "bfs_state \<times> deleg_ctx \<Rightarrow> bfs_state \<times> deleg_ctx \<Rightarrow> bool" where
  "bfs_frame x y \<longleftrightarrow> dc_depth (snd y) = dc_depth (snd x) \<and> dc_iterations (snd y) = dc_iterations (snd x)
     \<and> dc_start (snd y) = dc_start (snd x)
     \<and> dc_spawned (snd y) + length (bf_waiting (fst y)) = dc_spawned (snd x) + length (bf_waiting (fst x))
     \<and> dc_active (snd y) + int (dc_completed (snd y)) - int (dc_spawned (snd y))
       = dc_active (snd x) + int (dc_completed (snd x)) - int (dc_spawned (snd x))"

lemma bfs_event_frame: "bfs_event env cs ev q c w = (q', c', w') \<Longrightarrow> bfs_frame (q, c) (q', c')"
proof (cases ev)
  case (Start i)
  assume ev: "bfs_event env cs ev q c w = (q', c', w')"
  show ?thesis
  proof (cases "i \<in> set (bf_waiting q)")
    case True
    obtain r c1 w1 where 1: "agent_start env (child_name (ch_agent (cs ! i))) c w = (r, c1, w1)" by (metis prod_cases3)
    have "bf_waiting q \<noteq> []" using True by auto
    with agent_start_ctx [OF 1] True ev 1 Start show ?thesis
      by (cases r) (auto simp: bfs_event_def bfs_frame_def dc_enter_def length_remove1 Suc_leI)
  qed (use ev Start in \<open>simp add: bfs_event_def bfs_frame_def\<close>)
next
  case (Finish i)
  assume "bfs_event env cs ev q c w = (q', c', w')"
  with Finish show ?thesis
    by (auto simp: bfs_event_def bfs_frame_def dc_leave_def split: option.splits prod.splits dest!: agent_finish_ctx)
next
  case (Cancel i)
  assume "bfs_event env cs ev q c w = (q', c', w')"
  with Cancel show ?thesis
    by (auto simp: bfs_event_def bfs_frame_def dc_leave_def split: option.splits)
qed

lemma bfs_events_frame: "bfs_events env cs evs q c w = (q', c', w') \<Longrightarrow> bfs_frame (q, c) (q', c')"
proof (induction evs arbitrary: q c w)
  case (Cons ev evs)
  obtain q1 c1 w1 where 1: "bfs_event env cs ev q c w = (q1, c1, w1)" by (metis prod_cases3)
  with Cons have "bfs_frame (q1, c1) (q', c')" by simp
  with bfs_event_frame [OF 1] show ?case by (simp add: bfs_frame_def)
qed (simp add: bfs_frame_def)

text \<open>Recording answers leaves the counts alone.\<close>

definition same_counts :: "deleg_ctx \<Rightarrow> deleg_ctx \<Rightarrow> bool" where
  "same_counts c c' \<longleftrightarrow> dc_depth c' = dc_depth c \<and> dc_iterations c' = dc_iterations c \<and> dc_start c' = dc_start c
     \<and> dc_spawned c' = dc_spawned c \<and> dc_active c' = dc_active c \<and> dc_completed c' = dc_completed c"

lemma record_answer_counts: "record_answer env cfg r s = (x, s') \<Longrightarrow> same_counts (fst s) (fst s')"
  by (auto simp: record_answer_def same_counts_def Let_def split: sum.splits if_splits prod.splits)

lemma record_all_counts: "record_all env cfg rs s = (x, s') \<Longrightarrow> same_counts (fst s) (fst s')"
proof (induction rs arbitrary: s)
  case (Cons r rs)
  obtain y s1 where 1: "record_answer env cfg r s = (y, s1)" by (metis surj_pair)
  with Cons record_answer_counts [OF 1] show ?case by (cases y) (auto simp: same_counts_def)
qed (simp add: same_counts_def)

lemma execute_children_queued_frame:
  assumes "execute_children_queued env cfg evs cs s w = (r, s', w')"
  shows "dc_depth (fst s') = dc_depth (fst s) \<and> dc_iterations (fst s') = dc_iterations (fst s)
    \<and> dc_spawned (fst s') \<le> dc_spawned (fst s) + length cs
    \<and> dc_active (fst s') + int (dc_completed (fst s')) - int (dc_spawned (fst s'))
      = dc_active (fst s) + int (dc_completed (fst s)) - int (dc_spawned (fst s))"
proof -
  let ?q = "\<lparr>bf_waiting = [0..<length cs], bf_running = [], bf_done = []\<rparr>"
  obtain q c w1 where e: "bfs_events env cs evs ?q (fst s) w = (q, c, w1)" by (metis prod_cases3)
  obtain x s1 where rec: "record_all env cfg (bf_done q) (c, snd s) = (x, s1)" by (metis surj_pair)
  from assms e rec have "s' = s1" by (simp add: execute_children_queued_def)
  with bfs_events_frame [OF e] record_all_counts [OF rec] show ?thesis
    by (auto simp: bfs_frame_def same_counts_def)
qed

text \<open>Every agent that was counted as spawned is active or completed.\<close>

definition balanced :: "engine \<Rightarrow> bool" where
  "balanced s \<longleftrightarrow> dc_active (fst s) + int (dc_completed (fst s)) = int (dc_spawned (fst s))"

lemma balanced_shift [simp]: "balanced (shift_depth d s) = balanced s"
  by (simp add: balanced_def)

lemma balanced_visit:
  assumes "balanced s" "visit env cfg name prompt s w = (r, s', w')"
  shows "balanced s' \<and> balanced (add_error e s')"
  using assms(2) by (cases rule: visit_cases) (use assms(1) in \<open>auto simp: balanced_def dc_enter_def dc_leave_def\<close>)

lemma balanced_dfs:
  assumes "balanced s" "execute_dfs env cfg name prompt cs s w = (r, s', w')"
  shows "balanced s'"
  using assms(2)
proof (cases rule: execute_dfs_cases)
  case (children s1 w1 s2)
  have "balanced s2"
  proof (rule dfs_children_invariant [where I = balanced, OF _ _ _ children(6)])
    show "balanced (shift_depth 1 s1)" using balanced_visit [OF assms(1) children(1)] by simp
    fix name prompt s w r s' w' assume "balanced s" "visit env cfg name prompt s w = (r, s', w')"
    then show "case r of Inl e \<Rightarrow> balanced (add_error e s') | Inr _ \<Rightarrow> balanced s'"
      using balanced_visit [of s env cfg name prompt w r s' w'] by (cases r) simp_all
  qed simp
  with children show ?thesis by simp
next
  case (raised e)
  from balanced_visit [OF assms(1) raised(1)] show ?thesis ..
next
  case stop
  from balanced_visit [OF assms(1) stop(1)] show ?thesis ..
qed

lemma execute_bfs_frame:
  assumes "execute_bfs env cfg evs name prompt cs s w = (r, s', w')" "dc_spawned (fst s) = 0" "balanced s"
    "budget_ok (dg_budget cfg)" "dc_depth (fst s) = 0"
  shows "balanced s' \<and> dc_iterations (fst s') = dc_iterations (fst s)
    \<and> int (dc_spawned (fst s')) \<le> db_max_total_agents (dg_budget cfg)
    \<and> int (dc_spawned (fst s')) \<le> 1 + db_max_breadth (dg_budget cfg)
    \<and> 0 \<le> dc_depth (fst s') \<and> dc_depth (fst s') \<le> 1 \<and> dc_depth (fst s') < db_max_depth (dg_budget cfg)"
proof -
  let ?b = "dg_budget cfg"
  have b: "0 < db_max_total_agents ?b" "0 < db_max_breadth ?b" "0 < db_max_depth ?b"
    using assms(4) by (simp_all add: budget_ok_def)
  obtain r1 s1 w1 where v: "visit env cfg name prompt s w = (r1, s1, w1)" by (metis prod_cases3)
  from visit_frame [OF v] balanced_visit [OF assms(3) v] assms(2,5)
  have s1: "dc_spawned (fst s1) = 1" "balanced s1" "dc_iterations (fst s1) = dc_iterations (fst s)" "dc_depth (fst s1) = 0"
    by simp_all
  define cs1 where "cs1 = (if db_max_breadth ?b < int (length cs) then slice_to (db_max_breadth ?b) cs else cs)"
  have len: "int (length cs1) \<le> db_max_breadth ?b"
    using b length_slice_to_le [of "db_max_breadth ?b" cs] by (auto simp: cs1_def)
  define rem where "rem = db_max_total_agents ?b - 1"
  consider "s' = s1" | "s' = shift_depth 1 s1" "1 < db_max_depth ?b"
    | "0 < rem" "1 < db_max_depth ?b" "execute_children_queued env cfg evs (slice_to rem cs1) (shift_depth 1 s1) w1 = (r, s', w')"
    using assms(1) v s1 unfolding execute_bfs_def Let_def cs1_def [symmetric] rem_def
    by (cases r1) (auto split: if_splits)
  then show ?thesis
  proof cases
    case 1
    with s1 b show ?thesis by simp
  next
    case 2
    with s1 b show ?thesis by (simp add: balanced_def)
  next
    case 3
    have "int (length (slice_to rem cs1)) \<le> rem" "length (slice_to rem cs1) \<le> length cs1"
      using 3(1) length_slice_to_le [of rem cs1] length_slice_to_le' [of rem cs1] by simp_all
    with execute_children_queued_frame [OF 3(3)] 3(1,2) s1 len show ?thesis
      by (auto simp: balanced_def rem_def)
  qed
qed

text \<open>Nothing below \<open>delegate\<close> reads the mode.\<close>

lemma mode_free:
  "record_answer env (cfg\<lparr>dg_mode := m\<rparr>) = record_answer env cfg"
  "visit env (cfg\<lparr>dg_mode := m\<rparr>) = visit env cfg"
  "record_all env (cfg\<lparr>dg_mode := m\<rparr>) = record_all env cfg"
  "execute_bfs env (cfg\<lparr>dg_mode := m\<rparr>) = execute_bfs env cfg"
proof -
  have sel: "dg_check_convergence (cfg\<lparr>dg_mode := m\<rparr>) = dg_check_convergence cfg"
    "dg_budget (cfg\<lparr>dg_mode := m\<rparr>) = dg_budget cfg" by simp_all
  show 1: "record_answer env (cfg\<lparr>dg_mode := m\<rparr>) = record_answer env cfg"
    by (intro ext) (simp only: record_answer_def sel)
  show 2: "visit env (cfg\<lparr>dg_mode := m\<rparr>) = visit env cfg"
    by (intro ext) (simp only: visit_def 1)
  have "record_all env (cfg\<lparr>dg_mode := m\<rparr>) rs s = record_all env cfg rs s" for rs s
    by (induction rs arbitrary: s) (simp_all only: record_all.simps 1)
  then show 3: "record_all env (cfg\<lparr>dg_mode := m\<rparr>) = record_all env cfg"
    by (intro ext) simp
  have "execute_children_queued env (cfg\<lparr>dg_mode := m\<rparr>) = execute_children_queued env cfg"
    "check_boundaries (cfg\<lparr>dg_mode := m\<rparr>) = check_boundaries cfg"
    by (intro ext; simp only: execute_children_queued_def check_boundaries_def 3 sel)+
  then show "execute_bfs env (cfg\<lparr>dg_mode := m\<rparr>) = execute_bfs env cfg"
    by (intro ext) (simp only: execute_bfs_def 2 sel)
qed

subsection \<open>Properties\<close>


text \<open>An environment for examples: every agent answers, nothing is called back, no time passes.\<close>

definition quiet_env :: "nat deleg_env" where
  "quiet_env = \<lparr>dv_run = (\<lambda>name prompt w. (Inr (Other_result name), Suc w)), dv_spawn = None, dv_complete = None,
     dv_now = (\<lambda>_. 0), dv_id = (\<lambda>name n w. name),
     dv_hash = \<lparr>he_str = (\<lambda>_. []), he_sha256 = (\<lambda>s. s), he_sort_lists = Inr\<rparr>\<rparr>"

definition small_config :: "int \<Rightarrow> deleg_config" where
  "small_config n = \<lparr>dg_mode = DFS, dg_budget = \<lparr>db_max_depth = 9, db_max_breadth = 5, db_max_total_agents = n,
     db_max_wall_time = 300, db_max_iterations = 10, db_stagnation_threshold = 3, db_max_concurrent = 3\<rparr>,
     dg_check_convergence = False, dg_evidence_keys = []\<rparr>"

lemmas delegation_evaluation = quiet_env_def small_config_def delegate_def execute_dfs_def visit_def
  execute_agent_def agent_start_def agent_finish_def record_answer_def dc_init_def dc_enter_def dc_leave_def
  check_boundaries_def ct_init_def ct_is_converged_def shift_depth_def child_name_def child_prompt_def
  build_result_def add_error_def Let_def


text \<open>Every answer is accounted for: after a depth first run no agent is active, and the results and errors
  together are as many as the agents, as long as neither the spawn callback nor the tracker raises.\<close>

definition tracker_safe :: "'w deleg_env \<Rightarrow> bool" where
  "tracker_safe env \<longleftrightarrow> (\<forall>name prompt w x ks. fst (dv_run env name prompt w) = Inr x \<longrightarrow>
     \<not> raises (compute_signature (dv_hash env) ks [x]))"

definition settled :: "engine \<Rightarrow> bool" where
  "settled s \<longleftrightarrow> dc_active (fst s) = 0 \<and> dc_completed (fst s) = dc_spawned (fst s)
     \<and> length (dc_results (fst s)) + length (dc_errors (fst s)) = dc_spawned (fst s)"

lemma settled_shift [simp]: "settled (shift_depth d s) = settled s"
  by (simp add: settled_def)

lemma settled_visit:
  assumes "spawn_safe env" "tracker_safe env" "settled s" "visit env cfg name prompt s w = (r, s', w')"
  shows "r = Inr () \<and> settled s'"
  using assms(4)
proof (cases rule: visit_cases)
  case (answered x)
  from answered(3) assms(2) have "\<not> raises (compute_signature (dv_hash env) (ct_keys (snd s)) [x])"
    by (auto simp: tracker_safe_def)
  with answered(2) have "\<not> raises r" by blast
  then have "r = Inr ()" by (cases r) simp_all
  with answered assms(3) show ?thesis by (simp add: settled_def dc_enter_def dc_leave_def)
qed (use assms(1,3) in \<open>simp_all add: settled_def dc_enter_def dc_leave_def\<close>)

lemma settled_children:
  assumes "spawn_safe env" "tracker_safe env" "settled s" "dfs_children env cfg cs s w = (s', w')"
  shows "settled s'"
proof (rule dfs_children_invariant [where I = settled, OF _ _ assms(3,4)])
  fix name prompt s w r s' w' assume "settled s" "visit env cfg name prompt s w = (r, s', w')"
  from settled_visit [OF assms(1,2) this]
  show "case r of Inl e \<Rightarrow> settled (add_error e s') | Inr _ \<Rightarrow> settled s'" by simp
qed simp

text \<open>Every answer of a depth first run is accounted for: as long as neither the spawn callback nor the
  tracker raises, the delegation returns a result, no agent is active at the end, and results and errors
  together are as many as the agents, failures of agents and of the completion callback included. The run is
  a success exactly when no agent failed.\<close>

theorem dfs_accounts_for_answers:
  assumes "spawn_safe env" "tracker_safe env" "dg_mode cfg = DFS"
    and "delegate env cfg evs name prompt cs t w = (r, s', w')"
  shows "\<exists>d. r = Ok d \<and> dc_active (fst s') = 0 \<and> dc_completed (fst s') = dr_total_agents d
    \<and> length (dr_results d) + length (dr_errors d) = dr_total_agents d
    \<and> (dr_success d \<longleftrightarrow> length (dr_results d) = dr_total_agents d)"
proof -
  let ?s = "(dc_init (dv_now env w), t)"
  obtain x s1 w1 where d: "execute_dfs env cfg name prompt cs ?s w = (x, s1, w1)" by (metis prod_cases3)
  have init: "settled ?s" by (simp add: settled_def dc_init_def)
  from d have "x = Inr () \<and> settled s1"
  proof (cases rule: execute_dfs_cases)
    case (children s2 w2 s3)
    from settled_visit [OF assms(1,2) init children(1)] settled_children [OF assms(1,2) _ children(6)] children(2,7)
    show ?thesis by simp
  next
    case (raised e)
    with settled_visit [OF assms(1,2) init] show ?thesis by blast
  next
    case stop
    with settled_visit [OF assms(1,2) init] show ?thesis by blast
  qed
  with d assms(3,4) show ?thesis
    by (auto simp: delegate_def settled_def build_result_def Let_def)
qed

theorem dfs_accounts_for_answers_witness:
  "\<exists>d s' w'. delegate quiet_env (small_config 9) [] ''root'' [] [Child (Some ''a'') None []] (ct_init []) 0 = (Ok d, s', w')
     \<and> length (dr_results d) + length (dr_errors d) = dr_total_agents d"
proof -
  obtain r s' w' where d: "delegate quiet_env (small_config 9) [] ''root'' [] [Child (Some ''a'') None []] (ct_init []) 0
      = (r, s', w')" by (metis prod_cases3)
  have "spawn_safe quiet_env" "dg_mode (small_config 9) = DFS"
    by (simp_all add: spawn_safe_def quiet_env_def small_config_def)
  moreover have "tracker_safe quiet_env"
    by (simp add: tracker_safe_def quiet_env_def compute_signature_def evidence_of_def)
  ultimately show ?thesis using dfs_accounts_for_answers [OF _ _ _ d] d by blast
qed

text \<open>The size of a forest: its nodes, those of them that have children, and its height.\<close>

fun nodes :: "child_spec list \<Rightarrow> nat" where
  "nodes [] = 0"
| "nodes (Child a p cs # rest) = Suc (nodes cs + nodes rest)"

fun inner_nodes :: "child_spec list \<Rightarrow> nat" where
  "inner_nodes [] = 0"
| "inner_nodes (Child a p cs # rest) = (if cs = [] then 0 else 1) + inner_nodes cs + inner_nodes rest"

fun height :: "child_spec list \<Rightarrow> nat" where
  "height [] = 0"
| "height (Child a p cs # rest) = max (Suc (height cs)) (height rest)"

text \<open>A configuration and an environment in which no limit is met and nothing raises.\<close>

definition unlimited :: "'w deleg_env \<Rightarrow> deleg_config \<Rightarrow> bool" where
  "unlimited env cfg \<longleftrightarrow> spawn_safe env \<and> \<not> dg_check_convergence cfg \<and> 0 < db_max_iterations (dg_budget cfg)
     \<and> (\<forall>w w'. dv_now env w' - dv_now env w < db_max_wall_time (dg_budget cfg))"

definition fresh_run :: "'w deleg_env \<Rightarrow> deleg_config \<Rightarrow> engine \<Rightarrow> bool" where
  "fresh_run env cfg s \<longleftrightarrow> dc_iterations (fst s) = 0 \<and> (\<exists>w. dc_start (fst s) = dv_now env w)
     \<and> \<not> ct_is_converged (db_stagnation_threshold (dg_budget cfg)) (snd s)"

lemma visit_unlimited:
  assumes "unlimited env cfg" "visit env cfg name prompt s w = (r, s', w')"
  shows "r = Inr () \<and> dc_spawned (fst s') = Suc (dc_spawned (fst s)) \<and> dc_depth (fst s') = dc_depth (fst s)
    \<and> (fresh_run env cfg s \<longrightarrow> fresh_run env cfg s')"
proof -
  obtain x c1 w1 where 1: "execute_agent env name prompt (fst s) w = (x, c1, w1)" by (metis prod_cases3)
  have "\<exists>y. x = Inr y"
    using 1 assms(1) by (auto simp: execute_agent_def agent_start_def unlimited_def spawn_safe_def Let_def
        split: option.splits prod.splits sum.splits) (metis fst_conv option.distinct(1))
  with assms 1 have "r = Inr ()" "snd s' = snd s"
    by (auto simp: visit_def record_answer_def unlimited_def add_error_def Let_def split: sum.splits prod.splits)
  with visit_frame [OF assms(2)] show ?thesis by (simp add: fresh_run_def)
qed

lemma boundaries_open:
  assumes "unlimited env cfg" "fresh_run env cfg s" "dc_depth (fst s) < db_max_depth (dg_budget cfg)"
    "int (dc_spawned (fst s)) < db_max_total_agents (dg_budget cfg)"
  shows "check_boundaries cfg (dv_now env w) s = None"
proof -
  from assms(2) obtain w0 where "dc_start (fst s) = dv_now env w0" by (auto simp: fresh_run_def)
  moreover from assms(1) have "dv_now env w - dv_now env w0 < db_max_wall_time (dg_budget cfg)"
    by (simp add: unlimited_def)
  ultimately have "\<not> db_max_wall_time (dg_budget cfg) \<le> dv_now env w - dc_start (fst s)" by (simp add: not_le)
  with assms show ?thesis
    by (simp add: check_boundaries_def unlimited_def fresh_run_def Let_def not_le)
qed

lemma dfs_children_unlimited:
  assumes "unlimited env cfg"
  shows "fresh_run env cfg s \<Longrightarrow> dc_depth (fst s) + int (height css) \<le> db_max_depth (dg_budget cfg) \<Longrightarrow>
    int (dc_spawned (fst s)) + int (nodes css) + int (inner_nodes css) \<le> db_max_total_agents (dg_budget cfg) \<Longrightarrow>
    dfs_children env cfg css s w = (s', w') \<Longrightarrow>
    fresh_run env cfg s' \<and> dc_spawned (fst s') = dc_spawned (fst s) + nodes css + inner_nodes css
      \<and> dc_depth (fst s') = dc_depth (fst s)"
proof (induction css arbitrary: s w s' w' rule: forest_induct)
  case (Cons a p cs rest)
  have room: "\<not> db_max_total_agents (dg_budget cfg) \<le> int (dc_spawned (fst s))"
    and depth: "dc_depth (fst s) < db_max_depth (dg_budget cfg)"
    using Cons.prems(2,3) by auto
  have bnd: "\<not> check_boundaries cfg (dv_now env w) s \<noteq> None"
    using boundaries_open [OF assms Cons.prems(1) depth] room by simp
  obtain r1 s1 w1 where v: "visit env cfg (child_name a) (child_prompt p) s w = (r1, s1, w1)" by (metis prod_cases3)
  from visit_unlimited [OF assms v] Cons.prems(1) have s1: "r1 = Inr ()" "dc_spawned (fst s1) = Suc (dc_spawned (fst s))"
    "dc_depth (fst s1) = dc_depth (fst s)" "fresh_run env cfg s1" by auto
  have noconv: "\<not> dg_check_convergence cfg" using assms by (simp add: unlimited_def)
  define inner where "inner = (if cs = [] then (Inr (), s1, w1)
      else execute_dfs env cfg (child_name a) (child_prompt p) cs s1 w1)"
  obtain r2 s2 w2 where i: "inner = (r2, s2, w2)" by (metis prod_cases3)
  have s2: "r2 = Inr () \<and> fresh_run env cfg s2 \<and> dc_depth (fst s2) = dc_depth (fst s)
      \<and> dc_spawned (fst s2) = Suc (dc_spawned (fst s)) + (if cs = [] then 0 else 1) + nodes cs + inner_nodes cs"
  proof (cases "cs = []")
    case True
    with i s1 show ?thesis by (simp add: inner_def)
  next
    case False
    then obtain x xs where "cs = x # xs" by (cases cs) auto
    then have nz: "0 < nodes cs" "0 < height cs" by (cases x; simp)+
    obtain r3 s3 w3 where v3: "visit env cfg (child_name a) (child_prompt p) s1 w1 = (r3, s3, w3)" by (metis prod_cases3)
    from visit_unlimited [OF assms v3] s1 have s3: "r3 = Inr ()" "dc_spawned (fst s3) = Suc (Suc (dc_spawned (fst s)))"
      "dc_depth (fst s3) = dc_depth (fst s)" "fresh_run env cfg s3" by auto
    have "dc_depth (fst s3) < db_max_depth (dg_budget cfg)" "int (dc_spawned (fst s3)) < db_max_total_agents (dg_budget cfg)"
      using Cons.prems(2,3) False s3 nz by auto
    then have b3: "check_boundaries cfg (dv_now env w3) s3 = None" by (rule boundaries_open [OF assms s3(4)])
    have d3: "\<not> db_max_depth (dg_budget cfg) \<le> dc_depth (fst s3) + 1"
      using Cons.prems(2) s3 nz by simp
    obtain s4 w4 where c: "dfs_children env cfg cs (shift_depth 1 s3) w3 = (s4, w4)" by (metis surj_pair)
    have "fresh_run env cfg (shift_depth 1 s3)" using s3(4) by (simp add: fresh_run_def)
    from Cons.IH(1) [OF this _ _ c] Cons.prems(2,3) s3 False
    have s4: "fresh_run env cfg s4" "dc_spawned (fst s4) = Suc (Suc (dc_spawned (fst s))) + nodes cs + inner_nodes cs"
      "dc_depth (fst s4) = dc_depth (fst s) + 1" by auto
    from i False v3 s3(1) b3 d3 c have "r2 = Inr ()" "s2 = shift_depth (- 1) s4"
      by (auto simp: inner_def execute_dfs_def)
    with s4 False show ?thesis by (simp add: fresh_run_def)
  qed
  have "dfs_children env cfg rest s2 w2 = (s', w')"
    using Cons.prems(4) unfolding dfs_children_Cons if_not_P [OF room] if_not_P [OF bnd] v prod.case s1(1) sum.case
      inner_def [symmetric] i
    using s2 noconv by simp
  from Cons.IH(2) [OF _ _ _ this] s2 Cons.prems(2,3) show ?case by auto
qed simp

text \<open>A depth first run executes every child that has children twice: once in the loop of its parent and
  once as the root of its own recursion. When no limit is met, the agents spawned are the nodes of the tree
  plus the inner nodes below the root, so a chain costs nearly twice its length.\<close>

theorem dfs_runs_inner_nodes_twice:
  assumes "unlimited env cfg" "dg_mode cfg = DFS" "\<not> ct_is_converged (db_stagnation_threshold (dg_budget cfg)) t"
    and "1 + int (height cs) \<le> db_max_depth (dg_budget cfg)"
    and "1 + int (nodes cs) + int (inner_nodes cs) \<le> db_max_total_agents (dg_budget cfg)"
    and "delegate env cfg evs name prompt cs t w = (r, s', w')"
  shows "\<exists>d. r = Ok d \<and> dr_total_agents d = Suc (nodes cs) + inner_nodes cs"
proof -
  let ?s = "(dc_init (dv_now env w), t)"
  have init: "fresh_run env cfg ?s" using assms(3) by (auto simp: fresh_run_def dc_init_def)
  obtain r1 s1 w1 where v: "visit env cfg name prompt ?s w = (r1, s1, w1)" by (metis prod_cases3)
  from visit_unlimited [OF assms(1) v] init have s1: "r1 = Inr ()" "dc_spawned (fst s1) = 1" "dc_depth (fst s1) = 0"
    "fresh_run env cfg s1" by (auto simp: dc_init_def)
  have "\<exists>s2 w2. execute_dfs env cfg name prompt cs ?s w = (Inr (), s2, w2) \<and> dc_spawned (fst s2) = Suc (nodes cs) + inner_nodes cs"
  proof (cases "cs = []")
    case True
    with v s1 have "execute_dfs env cfg name prompt cs ?s w = (Inr (), s1, w1)" by (simp add: execute_dfs_def)
    with s1 True show ?thesis by simp
  next
    case False
    then obtain x xs where "cs = x # xs" by (cases cs) auto
    then have nz: "0 < nodes cs" "0 < height cs" by (cases x; simp)+
    obtain s2 w2 where c: "dfs_children env cfg cs (shift_depth 1 s1) w1 = (s2, w2)" by (metis surj_pair)
    have "fresh_run env cfg (shift_depth 1 s1)" using s1(4) by (simp add: fresh_run_def)
    from dfs_children_unlimited [OF assms(1) this _ _ c] s1 assms(4,5)
    have "dc_spawned (fst s2) = Suc (nodes cs) + inner_nodes cs" by auto
    moreover have "check_boundaries cfg (dv_now env w1) s1 = None"
      by (rule boundaries_open [OF assms(1) s1(4)]) (use s1 nz assms(4,5) in auto)
    moreover have "\<not> db_max_depth (dg_budget cfg) \<le> dc_depth (fst s1) + 1" using s1 nz assms(4) by simp
    ultimately show ?thesis using v s1(1) False c by (simp add: execute_dfs_def)
  qed
  with assms(2,6) show ?thesis
    by (auto simp: delegate_def build_result_def Let_def)
qed

theorem dfs_runs_inner_nodes_twice_witness:
  "\<exists>d s' w'. delegate quiet_env (small_config 9) [] ''root'' [] [Child (Some ''a'') None [Child (Some ''b'') None []]] (ct_init []) 0
     = (Ok d, s', w') \<and> dr_total_agents d = 4"
proof -
  let ?cs = "[Child (Some ''a'') None [Child (Some ''b'') None []]]"
  obtain r s' w' where d: "delegate quiet_env (small_config 9) [] ''root'' [] ?cs (ct_init []) 0 = (r, s', w')"
    by (metis prod_cases3)
  have "unlimited quiet_env (small_config 9)"
    by (simp add: unlimited_def spawn_safe_def quiet_env_def small_config_def)
  from dfs_runs_inner_nodes_twice [OF this _ _ _ _ d] d show ?thesis
    by (auto simp: small_config_def ct_is_converged_def ct_init_def)
qed

end
