(* ===== verification/DelegPolicy.thy ===== *)
theory DelegPolicy
  imports Delegation
begin

text \<open>
  Delegation by policy: the contract of \<open>policy/delegation.py\<close>, the policies of \<open>policy/builtin/delegation.py\<close>, and the
  loop \<open>delegate_with_policy\<close> of \<open>delegation/engine.py\<close>. A policy is a function of its context and of the world
  that answers or raises. The texts of numbers and lists in a rationale are parameters.
\<close>

subsection \<open>Contexts and answers\<close>

datatype decision = CONTINUE | DELEGATE | SYNTHESIZE | DONE

record subtask =
  sb_agent :: string
  sb_prompt :: string
  sb_domain :: string
  sb_priority :: int

record policy_ctx =
  px_agent :: string
  px_depth :: int
  px_iteration :: int
  px_results :: "agent_result list"
  px_evidence :: "json list"
  px_findings :: int
  px_findings_per_iteration :: "int list"
  px_tokens :: int
  px_cost :: rat
  px_elapsed :: rat
  px_complexity :: rat
  px_domains :: "string list"
  px_max_depth :: int
  px_max_iterations :: int
  px_max_cost :: rat
  px_max_seconds :: rat
  px_stagnation_threshold :: int

definition is_budget_exhausted :: "policy_ctx \<Rightarrow> bool" where
  "is_budget_exhausted c \<longleftrightarrow> px_max_cost c \<le> px_cost c \<or> px_max_seconds c \<le> px_elapsed c
     \<or> px_max_depth c \<le> px_depth c \<or> px_max_iterations c \<le> px_iteration c"

definition is_stagnant :: "policy_ctx \<Rightarrow> bool" where
  "is_stagnant c =
     (if int (length (px_findings_per_iteration c)) < px_stagnation_threshold c then False
      else list_all (\<lambda>n. n = 0) (slice_last (px_stagnation_threshold c) (px_findings_per_iteration c)))"

definition zero_division :: exn where
  "zero_division = Exn ''ZeroDivisionError'' ''division by zero''"

definition budget_remaining_percent :: "policy_ctx \<Rightarrow> rat raising" where
  "budget_remaining_percent c =
     (if px_max_cost c = 0 \<or> px_max_seconds c = 0 \<or> px_max_iterations c = 0 then Inl zero_division
      else Inr (min (min (max 0 (1 - px_cost c / px_max_cost c)) (max 0 (1 - px_elapsed c / px_max_seconds c)))
             (max 0 (1 - of_int (px_iteration c) / of_int (px_max_iterations c)))))"

record policy_output =
  po_decision :: decision
  po_rationale :: string
  po_confidence :: rat
  po_subtasks :: "subtask list"
  po_continue_with :: "string option"

type_synonym 'w policy = "policy_ctx \<Rightarrow> 'w \<Rightarrow> policy_output raising \<times> 'w"

definition decide :: "decision \<Rightarrow> string \<Rightarrow> rat \<Rightarrow> policy_output" where
  "decide d why conf = \<lparr>po_decision = d, po_rationale = why, po_confidence = conf, po_subtasks = [], po_continue_with = None\<rparr>"

definition answer :: "policy_output \<Rightarrow> 'w \<Rightarrow> policy_output raising \<times> 'w" where
  "answer x w = (Inr x, w)"

subsection \<open>Composition\<close>

fun composite :: "'w policy list \<Rightarrow> 'w policy" where
  "composite [] c w = answer (decide DONE ''All policies exhausted'' (1 / 2)) w"
| "composite (p # ps) c w = (case p c w of
     (Inl e, w) \<Rightarrow> (Inl e, w)
   | (Inr x, w) \<Rightarrow> if po_decision x \<noteq> DONE \<or> 9 / 10 \<le> po_confidence x then (Inr x, w) else composite ps c w)"

definition default_policy :: "decision \<Rightarrow> string \<Rightarrow> 'w policy" where
  "default_policy d why c w = answer (decide d why (1 / 2)) w"

subsection \<open>The built-in policies\<close>

record texts =
  tx_fixed :: "nat \<Rightarrow> rat \<Rightarrow> string"
  tx_percent :: "rat \<Rightarrow> string"
  tx_list :: "string list \<Rightarrow> string"

record complexity_policy =
  cp_threshold :: rat
  cp_max_subtasks :: int
  cp_domain_agents :: "string \<rightharpoonup> string"

definition create_subtasks :: "complexity_policy \<Rightarrow> policy_ctx \<Rightarrow> subtask list" where
  "create_subtasks cp c =
     (let ts = map (\<lambda>d. \<lparr>sb_agent = (case cp_domain_agents cp d of Some a \<Rightarrow> a | None \<Rightarrow> d @ ''_agent''),
                        sb_prompt = ''Analyze '' @ d @ '' aspects of the task'', sb_domain = d, sb_priority = 1\<rparr>)
                (slice_to (cp_max_subtasks cp) (px_domains c))
      in if ts = [] \<and> 7 / 10 < px_complexity c
         then [\<lparr>sb_agent = ''specialist'', sb_prompt = ''Perform deep analysis of this complex task'',
                sb_domain = ''general'', sb_priority = 1\<rparr>]
         else ts)"

definition complexity_evaluate :: "texts \<Rightarrow> complexity_policy \<Rightarrow> 'w policy" where
  "complexity_evaluate tx cp c w =
     (if is_budget_exhausted c then answer (decide DONE ''Budget exhausted'' 1) w
      else if px_max_depth c - 1 \<le> px_depth c
      then answer (decide SYNTHESIZE ''Approaching max depth, synthesizing'' (9 / 10)) w
      else
        (let ts = create_subtasks cp c
         in if cp_threshold cp \<le> px_complexity c \<and> ts \<noteq> []
            then answer ((decide DELEGATE (''Task complexity '' @ tx_fixed tx 2 (px_complexity c) @ '' exceeds threshold ''
                @ tx_fixed tx 2 (cp_threshold cp)) (8 / 10))\<lparr>po_subtasks := slice_to (cp_max_subtasks cp) ts\<rparr>) w
            else answer ((decide CONTINUE (''Task complexity '' @ tx_fixed tx 2 (px_complexity c) @ '' below threshold'') (7 / 10))
                \<lparr>po_continue_with := Some (px_agent c)\<rparr>) w))"

definition budget_evaluate :: "texts \<Rightarrow> 'w policy \<Rightarrow> 'w policy" where
  "budget_evaluate tx inner c w =
     (if px_max_cost c \<le> px_cost c
      then answer (decide DONE (''Budget exhausted: cost $'' @ tx_fixed tx 2 (px_cost c) @ '' >= $'' @ tx_fixed tx 2 (px_max_cost c)) 1) w
      else if px_max_seconds c \<le> px_elapsed c
      then answer (decide DONE (''Budget exhausted: time '' @ tx_fixed tx 1 (px_elapsed c) @ ''s >= '' @ tx_fixed tx 1 (px_max_seconds c) @ ''s'') 1) w
      else if px_max_depth c \<le> px_depth c
      then answer (decide SYNTHESIZE (''Max depth reached ('' @ str_int (px_depth c) @ ''), synthesizing'') (9 / 10)) w
      else if px_max_iterations c \<le> px_iteration c
      then answer (decide DONE (''Max iterations reached ('' @ str_int (px_iteration c) @ '')'') (9 / 10)) w
      else case budget_remaining_percent c of
        Inl e \<Rightarrow> (Inl e, w)
      | Inr pct \<Rightarrow>
          if pct \<le> 2 / 10 then
            (case inner c w of
               (Inl e, w) \<Rightarrow> (Inl e, w)
             | (Inr x, w) \<Rightarrow>
                 if po_decision x = DELEGATE
                 then answer ((decide DELEGATE (''Low budget ('' @ tx_percent tx pct @ '' remaining): '' @ po_rationale x) (po_confidence x))
                     \<lparr>po_subtasks := take 1 (po_subtasks x)\<rparr>) w
                 else (Inr x, w))
          else inner c w)"

definition stagnation_evaluate :: "int \<Rightarrow> 'w policy \<Rightarrow> 'w policy" where
  "stagnation_evaluate threshold inner c w =
     (let recent = slice_last threshold (px_findings_per_iteration c)
      in if threshold \<le> int (length (px_findings_per_iteration c)) \<and> list_all (\<lambda>n. n = 0) recent
         then answer (decide DONE (''Stagnation: no findings for '' @ str_int threshold @ '' iterations'') (85 / 100)) w
         else if threshold \<le> int (length (px_findings_per_iteration c)) \<and> 3 \<le> length (px_findings_per_iteration c)
             \<and> 0 < sum_list recent
         then answer (decide DONE ''Stagnation: 3+ iterations with findings, forcing completion'' (8 / 10)) w
         else inner c w)"

record domain_policy =
  dm_agents :: "(string \<times> string) list"
  dm_default :: string
  dm_order :: "string list"

definition dm_init :: "(string \<times> string) list \<Rightarrow> string \<Rightarrow> string list option \<Rightarrow> domain_policy" where
  "dm_init agents default_agent order =
     \<lparr>dm_agents = agents, dm_default = default_agent,
      dm_order = (case order of Some (d # ds) \<Rightarrow> d # ds | _ \<Rightarrow> keys agents)\<rparr>"

fun index_of :: "'a \<Rightarrow> 'a list \<Rightarrow> nat option" where
  "index_of x [] = None"
| "index_of x (y # ys) = (if x = y then Some 0 else map_option Suc (index_of x ys))"

definition prioritized :: "domain_policy \<Rightarrow> string list \<Rightarrow> string list" where
  "prioritized dp ds = sort_key (\<lambda>d. case index_of d (dm_order dp) of Some i \<Rightarrow> int i | None \<Rightarrow> 999) ds"

definition domain_subtasks :: "domain_policy \<Rightarrow> string list \<Rightarrow> subtask list" where
  "domain_subtasks dp ds = concat (map (\<lambda>d. case map_of (dm_agents dp) d of
       None \<Rightarrow> []
     | Some a \<Rightarrow> [\<lparr>sb_agent = a, sb_prompt = ''Analyze '' @ d @ '' aspects'', sb_domain = d,
         sb_priority = (case index_of d (dm_order dp) of Some i \<Rightarrow> int i + 1 | None \<Rightarrow> 99)\<rparr>]) (prioritized dp ds))"

definition domain_evaluate :: "texts \<Rightarrow> domain_policy \<Rightarrow> 'w policy" where
  "domain_evaluate tx dp c w =
     (if is_budget_exhausted c then answer (decide DONE ''Budget exhausted'' 1) w
      else if px_domains c = [] then
        (if 2 \<le> px_iteration c then answer (decide DONE ''No domains detected after multiple iterations'' (7 / 10)) w
         else answer (decide CONTINUE ''No domains detected, continuing analysis'' (6 / 10)) w)
      else
        (let ts = domain_subtasks dp (px_domains c)
         in if ts \<noteq> []
            then answer ((decide DELEGATE (''Delegating to specialized agents for domains: '' @ tx_list tx (px_domains c)) (8 / 10))
                \<lparr>po_subtasks := ts\<rparr>) w
            else answer ((decide DELEGATE (''Using default agent for domains: '' @ tx_list tx (px_domains c)) (6 / 10))
                \<lparr>po_subtasks := [\<lparr>sb_agent = dm_default dp, sb_prompt = ''Analyze task'', sb_domain = ''general'', sb_priority = 99\<rparr>]\<rparr>) w))"

definition iteration_evaluate :: "int \<Rightarrow> 'w policy option \<Rightarrow> 'w policy" where
  "iteration_evaluate m inner c w =
     (if m \<le> px_iteration c then answer (decide DONE (''Max iterations ('' @ str_int m @ '') reached'') 1) w
      else case inner of
        Some p \<Rightarrow> p c w
      | None \<Rightarrow> answer (decide CONTINUE (''Iteration '' @ str_int (px_iteration c) @ ''/'' @ str_int m) (1 / 2)) w)"

definition evidence_evaluate :: "int \<Rightarrow> 'w policy \<Rightarrow> 'w policy" where
  "evidence_evaluate m inner c w =
     (let n = int (length (px_evidence c))
      in if m \<le> n then answer (decide DONE (''Evidence threshold met: '' @ str_int n @ '' >= '' @ str_int m) (9 / 10)) w
         else case inner c w of
           (Inl e, w) \<Rightarrow> (Inl e, w)
         | (Inr x, w) \<Rightarrow>
             if po_decision x = DONE
             then answer (decide CONTINUE (''Evidence threshold not met: '' @ str_int n @ ''/'' @ str_int m) (7 / 10)) w
             else (Inr x, w))"

subsection \<open>The loop\<close>

definition px_init :: "string \<Rightarrow> deleg_config \<Rightarrow> policy_ctx" where
  "px_init name cfg =
     \<lparr>px_agent = name, px_depth = 0, px_iteration = 0, px_results = [], px_evidence = [], px_findings = 0,
      px_findings_per_iteration = [], px_tokens = 0, px_cost = 0, px_elapsed = 0, px_complexity = 1 / 2, px_domains = [],
      px_max_depth = db_max_depth (dg_budget cfg), px_max_iterations = db_max_iterations (dg_budget cfg), px_max_cost = 1,
      px_max_seconds = db_max_wall_time (dg_budget cfg), px_stagnation_threshold = db_stagnation_threshold (dg_budget cfg)\<rparr>"

text \<open>An answer of an agent in this loop: the convergence tracker is not asked.\<close>

definition add_result :: "agent_result \<Rightarrow> deleg_ctx \<Rightarrow> deleg_ctx" where
  "add_result r c = c\<lparr>dc_results := dc_results c @ [r]\<rparr>"

definition note_error :: "exn \<Rightarrow> deleg_ctx \<Rightarrow> deleg_ctx" where
  "note_error e c = c\<lparr>dc_errors := dc_errors c @ [e]\<rparr>"

text \<open>The subtasks in order. The depth does not change while they run, so its test lets all of them pass or none.\<close>

fun run_subtasks ::
  "'w deleg_env \<Rightarrow> subtask list \<Rightarrow> policy_ctx \<Rightarrow> deleg_ctx \<Rightarrow> 'w \<Rightarrow> unit raising \<times> policy_ctx \<times> deleg_ctx \<times> 'w" where
  "run_subtasks env [] p c w = (Inr (), p, c, w)"
| "run_subtasks env (t # ts) p c w =
     (if px_max_depth p \<le> px_depth p then (Inr (), p, c, w)
      else case execute_agent env (sb_agent t) (sb_prompt t) c w of
        (Inl e, c, w) \<Rightarrow> (Inl e, p, c, w)
      | (Inr (Inl e), c, w) \<Rightarrow> run_subtasks env ts p (note_error e c) w
      | (Inr (Inr r), c, w) \<Rightarrow> run_subtasks env ts (p\<lparr>px_results := px_results p @ [r]\<rparr>) (add_result r c) w)"

text \<open>One turn: the policy decides, and the decision is carried out. \<open>False\<close> is the \<open>break\<close> of \<open>DONE\<close>.\<close>

definition policy_turn ::
  "'w deleg_env \<Rightarrow> 'w policy \<Rightarrow> string \<Rightarrow> string \<Rightarrow> policy_ctx \<Rightarrow> deleg_ctx \<Rightarrow> 'w
     \<Rightarrow> bool raising \<times> policy_ctx \<times> deleg_ctx \<times> 'w" where
  "policy_turn env policy name prompt p c w = (case policy p w of
     (Inl e, w) \<Rightarrow> (Inl e, p, c, w)
   | (Inr x, w) \<Rightarrow>
       (case po_decision x of
          DONE \<Rightarrow> (Inr False, p, c, w)
        | CONTINUE \<Rightarrow>
            (case execute_agent env name prompt c w of
               (Inl e, c, w) \<Rightarrow> (Inl e, p, c, w)
             | (Inr (Inl e), c, w) \<Rightarrow> (Inr True, p, note_error e c, w)
             | (Inr (Inr r), c, w) \<Rightarrow> (Inr True, p, add_result r c, w))
        | DELEGATE \<Rightarrow>
            (case run_subtasks env (po_subtasks x) p c w of
               (Inl e, p, c, w) \<Rightarrow> (Inl e, p, c, w)
             | (Inr _, p, c, w) \<Rightarrow> (Inr True, p\<lparr>px_depth := px_depth p + 1\<rparr>, c, w))
        | SYNTHESIZE \<Rightarrow> (Inr True, p, c, w)))"

function policy_loop ::
  "'w deleg_env \<Rightarrow> deleg_config \<Rightarrow> 'w policy \<Rightarrow> string \<Rightarrow> string \<Rightarrow> int \<Rightarrow> policy_ctx \<Rightarrow> deleg_ctx \<Rightarrow> 'w
     \<Rightarrow> unit raising \<times> deleg_ctx \<times> 'w" where
  "policy_loop env cfg policy name prompt i p c w =
     (case policy_turn env policy name prompt p c w of
        (Inl e, p, c, w) \<Rightarrow> (Inl e, c, w)
      | (Inr again, p, c, w) \<Rightarrow>
          if \<not> again then (Inr (), c, w)
          else if db_max_iterations (dg_budget cfg) \<le> i + 1 then (Inr (), c, w)
          else policy_loop env cfg policy name prompt (i + 1) (p\<lparr>px_iteration := i\<rparr>) c w)"
  by pat_completeness auto
termination
  by (relation "measure (\<lambda>(env, cfg, policy, name, prompt, i, p, c, w). nat (db_max_iterations (dg_budget cfg) - i))") auto

declare policy_loop.simps [simp del]

definition delegate_with_policy ::
  "'w deleg_env \<Rightarrow> deleg_config \<Rightarrow> 'w policy option \<Rightarrow> 'w policy option \<Rightarrow> string \<Rightarrow> string \<Rightarrow> engine \<Rightarrow> 'w
     \<Rightarrow> deleg_result result \<times> engine \<times> 'w" where
  "delegate_with_policy env cfg own policy name prompt s w =
     (case (if policy = None then own else policy) of
        None \<Rightarrow> (Err ''No policy configured - pass policy to constructor or delegate_with_policy()'' (Some ''POLICY_REQUIRED'') False, s, w)
      | Some f \<Rightarrow>
          (case policy_loop env cfg f name prompt 0 (px_init name cfg) (dc_init (dv_now env w)) w of
             (Inl e, c, w) \<Rightarrow> (Err (exn_msg e) (Some ''DELEGATION_ERROR'') False, (c, snd s), w)
           | (Inr _, c, w) \<Rightarrow> (Ok (build_result cfg COMPLETED (dv_now env w) (c, snd s)), (c, snd s), w)))"


subsection \<open>What a turn changes\<close>

text \<open>Contexts that differ in the results alone, and the agents that calls may spawn.\<close>

definition same_view :: "policy_ctx \<Rightarrow> policy_ctx \<Rightarrow> bool" where
  "same_view p p' \<longleftrightarrow> (\<exists>rs. p' = p\<lparr>px_results := rs\<rparr>)"

lemma same_view_refl [simp]: "same_view p p"
  unfolding same_view_def by (intro exI [of _ "px_results p"]) simp

lemma same_view_results [simp]: "same_view (p\<lparr>px_results := rs\<rparr>) p' \<longleftrightarrow> same_view p p'"
  by (simp add: same_view_def)

lemma same_view_deeper:
  assumes "same_view p q"
  shows "same_view (p\<lparr>px_depth := px_depth p + 1\<rparr>) (q\<lparr>px_depth := px_depth q + 1\<rparr>)"
proof -
  from assms obtain rs where "q = p\<lparr>px_results := rs\<rparr>" by (auto simp: same_view_def)
  then have "q\<lparr>px_depth := px_depth q + 1\<rparr> = p\<lparr>px_depth := px_depth p + 1, px_results := rs\<rparr>" by simp
  then show ?thesis unfolding same_view_def by blast
qed

lemma spawned_results [simp]:
  "dc_spawned (add_result r c) = dc_spawned c" "dc_spawned (note_error e c) = dc_spawned c"
  by (simp_all add: add_result_def note_error_def)

lemma execute_agent_spawned: "execute_agent env name prompt c w = (r, c', w') \<Longrightarrow> dc_spawned c' = Suc (dc_spawned c)"
  using execute_agent_ctx [of env name prompt c w r c' w'] by (simp add: dc_enter_def dc_leave_def split: if_splits)

lemma run_subtasks_frame:
  "run_subtasks env ts p c w = (r, p', c', w') \<Longrightarrow> same_view p p' \<and> dc_spawned c' \<le> dc_spawned c + length ts"
proof (induction ts arbitrary: p c w)
  case (Cons t ts)
  show ?case
  proof (cases "px_max_depth p \<le> px_depth p")
    case True
    with Cons.prems show ?thesis by auto
  next
    case False
    obtain x c1 w1 where x: "execute_agent env (sb_agent t) (sb_prompt t) c w = (x, c1, w1)" by (metis prod_cases3)
    note spawned = execute_agent_spawned [OF x]
    consider e where "x = Inl e" | e where "x = Inr (Inl e)" | a where "x = Inr (Inr a)"
      by (metis sum.exhaust)
    then show ?thesis
    proof cases
      case 1
      with Cons.prems False x spawned show ?thesis by auto
    next
      case (2 e)
      with Cons.prems False x have "run_subtasks env ts p (note_error e c1) w1 = (r, p', c', w')" by simp
      from Cons.IH [OF this] spawned show ?thesis by simp
    next
      case (3 a)
      with Cons.prems False x
      have "run_subtasks env ts (p\<lparr>px_results := px_results p @ [a]\<rparr>) (add_result a c1) w1 = (r, p', c', w')" by simp
      from Cons.IH [OF this] spawned show ?thesis by simp
    qed
  qed
qed simp

text \<open>A policy that asks for at most \<open>n\<close> subtasks at once.\<close>

definition asks_at_most :: "nat \<Rightarrow> 'w policy \<Rightarrow> bool" where
  "asks_at_most n policy \<longleftrightarrow> (\<forall>p w x w'. policy p w = (Inr x, w') \<longrightarrow> length (po_subtasks x) \<le> n)"

lemma policy_turn_frame:
  assumes "policy_turn env policy name prompt p c w = (r, p', c', w')"
  shows "(same_view p p' \<or> same_view (p\<lparr>px_depth := px_depth p + 1\<rparr>) p')
    \<and> (asks_at_most n policy \<longrightarrow> dc_spawned c' \<le> dc_spawned c + max 1 n)"
proof -
  obtain x w1 where x: "policy p w = (x, w1)" by (metis surj_pair)
  show ?thesis
  proof (cases x)
    case (Inl e)
    with assms x show ?thesis by (simp add: policy_turn_def)
  next
    case (Inr o')
    show ?thesis
    proof (cases "po_decision o'")
      case CONTINUE
      obtain y c2 w2 where y: "execute_agent env name prompt c w1 = (y, c2, w2)" by (metis prod_cases3)
      with assms x Inr CONTINUE have "p' = p" "dc_spawned c' = dc_spawned c2"
        by (auto simp: policy_turn_def split: sum.splits)
      with execute_agent_spawned [OF y] show ?thesis by simp
    next
      case DELEGATE
      obtain y p2 c2 w2 where y: "run_subtasks env (po_subtasks o') p c w1 = (y, p2, c2, w2)" by (metis prod_cases4)
      with assms x Inr DELEGATE have "p' = p2 \<or> p' = p2\<lparr>px_depth := px_depth p2 + 1\<rparr>" "c' = c2"
        by (auto simp: policy_turn_def split: sum.splits)
      moreover have "length (po_subtasks o') \<le> n" if "asks_at_most n policy"
        using that x Inr by (auto simp: asks_at_most_def)
      ultimately show ?thesis using run_subtasks_frame [OF y] same_view_deeper [of p p2] by fastforce
    next
      case SYNTHESIZE
      with assms x Inr show ?thesis by (simp add: policy_turn_def)
    next
      case DONE
      with assms x Inr show ?thesis by (simp add: policy_turn_def)
    qed
  qed
qed


subsection \<open>What a policy sees\<close>

text \<open>The contexts with which the loop asks its policy, and the turn that it is in.\<close>

inductive at_head ::
  "'w deleg_env \<Rightarrow> deleg_config \<Rightarrow> 'w policy \<Rightarrow> string \<Rightarrow> string \<Rightarrow> int \<Rightarrow> policy_ctx \<Rightarrow> deleg_ctx \<Rightarrow> 'w \<Rightarrow> bool"
  for env cfg policy name prompt where
  first_turn: "at_head env cfg policy name prompt 0 (px_init name cfg) (dc_init (dv_now env w)) w"
| next_turn: "at_head env cfg policy name prompt i p c w
    \<Longrightarrow> policy_turn env policy name prompt p c w = (Inr True, p', c', w')
    \<Longrightarrow> i + 1 < db_max_iterations (dg_budget cfg)
    \<Longrightarrow> at_head env cfg policy name prompt (i + 1) (p'\<lparr>px_iteration := i\<rparr>) c' w'"

definition stale_view :: "string \<Rightarrow> deleg_config \<Rightarrow> int \<Rightarrow> policy_ctx \<Rightarrow> bool" where
  "stale_view name cfg i p \<longleftrightarrow> 0 \<le> px_depth p \<and> px_depth p \<le> i
     \<and> (\<exists>rs. p = (px_init name cfg)\<lparr>px_results := rs, px_depth := px_depth p, px_iteration := max 0 (i - 1)\<rparr>)"

lemma view_cases:
  assumes "same_view p p' \<or> same_view (p\<lparr>px_depth := px_depth p + 1\<rparr>) p'"
  obtains rs d where "p' = p\<lparr>px_results := rs, px_depth := d\<rparr>" "d = px_depth p \<or> d = px_depth p + 1"
proof -
  from assms consider rs where "p' = p\<lparr>px_results := rs\<rparr>" | rs where "p' = p\<lparr>px_depth := px_depth p + 1, px_results := rs\<rparr>"
    by (auto simp: same_view_def)
  then show ?thesis
  proof cases
    case (1 rs)
    then have "p' = p\<lparr>px_results := rs, px_depth := px_depth p\<rparr>" by (cases p) simp
    then show ?thesis by (rule that) simp
  next
    case (2 rs)
    then have "p' = p\<lparr>px_results := rs, px_depth := px_depth p + 1\<rparr>" by simp
    then show ?thesis by (rule that) simp
  qed
qed

lemma at_head_view:
  assumes "at_head env cfg policy name prompt i p c w"
  shows "0 \<le> i \<and> (i = 0 \<or> i < db_max_iterations (dg_budget cfg)) \<and> stale_view name cfg i p"
  using assms
proof induction
  case (first_turn w)
  have "px_init name cfg = (px_init name cfg)\<lparr>px_results := [], px_depth := 0, px_iteration := 0\<rparr>"
    by (simp add: px_init_def)
  then show ?case unfolding stale_view_def by (auto simp: px_init_def)
next
  case (next_turn i p c w p' c' w')
  then obtain rs where p: "p = (px_init name cfg)\<lparr>px_results := rs, px_depth := px_depth p, px_iteration := max 0 (i - 1)\<rparr>"
    and i: "0 \<le> px_depth p" "px_depth p \<le> i" "0 \<le> i" by (auto simp: stale_view_def)
  from policy_turn_frame [OF next_turn.hyps(2)] obtain rs' d where
    p': "p' = p\<lparr>px_results := rs', px_depth := d\<rparr>" "d = px_depth p \<or> d = px_depth p + 1"
    by (rule view_cases [OF conjunct1])
  define q where "q = p'\<lparr>px_iteration := i\<rparr>"
  have "q = (px_init name cfg)\<lparr>px_results := rs', px_depth := px_depth q, px_iteration := i\<rparr>"
    unfolding q_def p'(1) by (subst p) simp
  moreover have "0 \<le> px_depth q" "px_depth q \<le> i + 1" using p' i by (auto simp: q_def)
  ultimately have "stale_view name cfg (i + 1) q" unfolding stale_view_def using i by auto
  with i next_turn.hyps(3) show ?case by (simp add: q_def)
qed

text \<open>The confidence of the stagnation policy is below what a composite takes for a decision to stop: when the
  policy says \<open>DONE\<close>, whatever its reason, the composite asks the next policy.\<close>

lemma composite_skips_stagnation:
  assumes "int (length (px_findings_per_iteration c)) \<ge> k" "list_all (\<lambda>n. n = 0) (slice_last k (px_findings_per_iteration c))"
  shows "composite (stagnation_evaluate k inner # ps) c w = composite ps c w"
  using assms by (simp add: stagnation_evaluate_def answer_def decide_def)

definition decides :: "policy_output raising \<times> 'w \<Rightarrow> decision option" where
  "decides r = (case fst r of Inr x \<Rightarrow> Some (po_decision x) | Inl _ \<Rightarrow> None)"

text \<open>What a policy sees in this loop: whatever the agents answer, the complexity, the domains, the evidence, the
  findings, the costs and the time stay at their initial values and the iteration number lags one turn behind, so it
  never reaches the limit. The complexity policy and the domain policy therefore never delegate, the stagnation
  policy does what its inner policy does, and a policy that waits for evidence is never done.\<close>

theorem policies_see_stale_context:
  assumes "at_head env cfg policy name prompt i p c w" "budget_ok (dg_budget cfg)"
  shows "px_iteration p = max 0 (i - 1) \<and> px_iteration p < px_max_iterations p
    \<and> decides (complexity_evaluate tx cp p v) \<noteq> Some DELEGATE
    \<and> decides (domain_evaluate tx dp p v) \<noteq> Some DELEGATE
    \<and> (0 < k \<longrightarrow> stagnation_evaluate k inner p v = inner p v)
    \<and> (0 < k \<longrightarrow> decides (evidence_evaluate k inner p v) \<noteq> Some DONE)"
proof -
  from at_head_view [OF assms(1)] obtain rs where i: "0 \<le> i" "i = 0 \<or> i < db_max_iterations (dg_budget cfg)"
    and p: "p = (px_init name cfg)\<lparr>px_results := rs, px_depth := px_depth p, px_iteration := max 0 (i - 1)\<rparr>"
    by (auto simp: stale_view_def)
  have fields: "px_iteration p = max 0 (i - 1)" "px_max_iterations p = db_max_iterations (dg_budget cfg)"
    "px_domains p = []" "px_complexity p = 1 / 2" "px_evidence p = []" "px_findings_per_iteration p = []"
    by (subst p, simp add: px_init_def)+
  have "px_iteration p < px_max_iterations p" using i assms(2) fields by (auto simp: budget_ok_def)
  moreover have "create_subtasks cp p = []" by (simp add: create_subtasks_def fields slice_to_def)
  then have "decides (complexity_evaluate tx cp p v) \<noteq> Some DELEGATE"
    by (simp add: decides_def complexity_evaluate_def answer_def decide_def Let_def)
  moreover have "decides (domain_evaluate tx dp p v) \<noteq> Some DELEGATE"
    by (simp add: decides_def domain_evaluate_def answer_def decide_def fields)
  moreover have "0 < k \<longrightarrow> stagnation_evaluate k inner p v = inner p v"
    by (simp add: stagnation_evaluate_def fields)
  moreover have "0 < k \<longrightarrow> decides (evidence_evaluate k inner p v) \<noteq> Some DONE"
    by (auto simp: evidence_evaluate_def fields decides_def answer_def decide_def split: prod.splits sum.splits)
  ultimately show ?thesis using fields(1) by blast
qed

theorem policies_see_stale_context_witness:
  "decides (complexity_evaluate \<lparr>tx_fixed = (\<lambda>_ _. []), tx_percent = (\<lambda>_. []), tx_list = (\<lambda>_. [])\<rparr>
     \<lparr>cp_threshold = 0, cp_max_subtasks = 5, cp_domain_agents = Map.empty\<rparr> (px_init ''root'' (small_config 9)) (0::nat)) \<noteq> Some DELEGATE"
proof -
  have "budget_ok (dg_budget (small_config 9))" by (simp add: budget_ok_def small_config_def)
  from policies_see_stale_context [OF at_head.first_turn [of quiet_env "small_config 9" "default_policy DONE []" "''root''" "[]" 0] this,
      THEN conjunct2, THEN conjunct2, THEN conjunct1]
  show ?thesis .
qed

subsection \<open>Termination\<close>

text \<open>The loop with a number of turns that it may take: \<open>None\<close> when they are not enough.\<close>

fun policy_run ::
  "nat \<Rightarrow> 'w deleg_env \<Rightarrow> deleg_config \<Rightarrow> 'w policy \<Rightarrow> string \<Rightarrow> string \<Rightarrow> int \<Rightarrow> policy_ctx \<Rightarrow> deleg_ctx \<Rightarrow> 'w
     \<Rightarrow> (unit raising \<times> deleg_ctx \<times> 'w) option" where
  "policy_run 0 env cfg policy name prompt i p c w = None"
| "policy_run (Suc n) env cfg policy name prompt i p c w =
     (case policy_turn env policy name prompt p c w of
        (Inl e, p, c, w) \<Rightarrow> Some (Inl e, c, w)
      | (Inr again, p, c, w) \<Rightarrow>
          if \<not> again then Some (Inr (), c, w)
          else if db_max_iterations (dg_budget cfg) \<le> i + 1 then Some (Inr (), c, w)
          else policy_run n env cfg policy name prompt (i + 1) (p\<lparr>px_iteration := i\<rparr>) c w)"

lemma policy_loop_run:
  assumes "asks_at_most n policy"
  shows "db_max_iterations (dg_budget cfg) - i \<le> int m \<Longrightarrow> 0 < m \<Longrightarrow>
    policy_loop env cfg policy name prompt i p c w = (r, c', w') \<Longrightarrow>
    policy_run m env cfg policy name prompt i p c w = Some (r, c', w') \<and> dc_spawned c' \<le> dc_spawned c + m * max 1 n"
proof (induction m arbitrary: i p c w)
  case (Suc m)
  obtain x p1 c1 w1 where turn: "policy_turn env policy name prompt p c w = (x, p1, c1, w1)" by (metis prod_cases4)
  from policy_turn_frame [OF this, of n] assms have spawned: "dc_spawned c1 \<le> dc_spawned c + max 1 n" by blast
  note loop = Suc.prems(3) [unfolded policy_loop.simps [of env cfg policy name prompt i] turn prod.case]
  show ?case
  proof (cases "x = Inr True \<and> i + 1 < db_max_iterations (dg_budget cfg)")
    case True
    with loop have rest: "policy_loop env cfg policy name prompt (i + 1) (p1\<lparr>px_iteration := i\<rparr>) c1 w1 = (r, c', w')" by simp
    have "db_max_iterations (dg_budget cfg) - (i + 1) \<le> int m" "0 < m" using Suc.prems(1) True by auto
    from Suc.IH [OF this rest] turn True spawned show ?thesis by simp
  next
    case False
    with loop turn spawned show ?thesis by (cases x) (auto split: if_splits)
  qed
qed simp

text \<open>C12. Delegation by policy ends: whatever the policy decides, as many turns as the iteration limit are enough. With a
  policy that asks for at most \<open>n\<close> subtasks at once no more than \<open>max_iterations * max 1 n\<close> agents are spawned
  (the limit on agents is not consulted), and the outcome is an error only when something raised.\<close>

theorem policy_loop_terminates:
  assumes "budget_ok (dg_budget cfg)" "asks_at_most n policy"
    and "delegate_with_policy env cfg own (Some policy) name prompt s w = (r, s', w')"
  shows "\<exists>x. policy_run (nat (db_max_iterations (dg_budget cfg))) env cfg policy name prompt 0 (px_init name cfg)
        (dc_init (dv_now env w)) w = Some (x, fst s', w')
    \<and> dc_spawned (fst s') \<le> nat (db_max_iterations (dg_budget cfg)) * max 1 n \<and> snd s' = snd s
    \<and> (case x of Inl e \<Rightarrow> r = Err (exn_msg e) (Some ''DELEGATION_ERROR'') False
        | Inr _ \<Rightarrow> \<exists>d. r = Ok d \<and> dr_total_agents d = dc_spawned (fst s') \<and> dr_results d = dc_results (fst s'))"
proof -
  let ?m = "nat (db_max_iterations (dg_budget cfg))"
  obtain x c w1 where loop: "policy_loop env cfg policy name prompt 0 (px_init name cfg) (dc_init (dv_now env w)) w = (x, c, w1)"
    by (metis prod_cases3)
  have "db_max_iterations (dg_budget cfg) - 0 \<le> int ?m" "0 < ?m" using assms(1) by (simp_all add: budget_ok_def)
  from policy_loop_run [OF assms(2) this loop]
  have run: "policy_run ?m env cfg policy name prompt 0 (px_init name cfg) (dc_init (dv_now env w)) w = Some (x, c, w1)"
    "dc_spawned c \<le> ?m * max 1 n" by (simp_all add: dc_init_def)
  have "s' = (c, snd s)" "w' = w1" "case x of Inl e \<Rightarrow> r = Err (exn_msg e) (Some ''DELEGATION_ERROR'') False
        | Inr _ \<Rightarrow> \<exists>d. r = Ok d \<and> dr_total_agents d = dc_spawned c \<and> dr_results d = dc_results c"
    using assms(3) loop by (auto simp: delegate_with_policy_def build_result_def split: sum.splits)
  with run show ?thesis unfolding \<open>s' = (c, snd s)\<close> \<open>w' = w1\<close> fst_conv snd_conv by blast
qed

definition eager_policy :: "nat policy" where
  "eager_policy = (\<lambda>p w. answer ((decide DELEGATE [] 1)\<lparr>po_subtasks :=
     replicate 2 \<lparr>sb_agent = ''a'', sb_prompt = [], sb_domain = [], sb_priority = 1\<rparr>\<rparr>) w)"

definition two_turns :: deleg_config where
  "two_turns = small_config 2\<lparr>dg_budget := dg_budget (small_config 2)\<lparr>db_max_iterations := 2\<rparr>\<rparr>"

theorem policy_loop_terminates_witness:
  "\<exists>r s' w'. delegate_with_policy quiet_env two_turns None (Some eager_policy) ''root'' [] (dc_init 0, ct_init []) 0 = (r, s', w')
     \<and> dc_spawned (fst s') = 4 \<and> dc_spawned (fst s') \<le> 2 * max 1 2"
proof -
  obtain r s' w' where run: "delegate_with_policy quiet_env two_turns None (Some eager_policy) ''root'' []
      (dc_init 0, ct_init []) 0 = (r, s', w')" by (metis prod_cases3)
  have "budget_ok (dg_budget two_turns)" "asks_at_most 2 eager_policy"
    by (auto simp: budget_ok_def two_turns_def small_config_def asks_at_most_def eager_policy_def answer_def)
  note ends = policy_loop_terminates [OF this run]
  have "dc_spawned (fst s') = 4"
    using run by (simp add: delegate_with_policy_def policy_loop.simps policy_turn_def eager_policy_def answer_def decide_def
        two_turns_def px_init_def numeral_2_eq_2 add_result_def delegation_evaluation split: sum.splits)
      (auto simp: add_result_def)
  with ends run show ?thesis by (simp add: two_turns_def)
qed

end
