(* ===== verification/Permissions.thy ===== *)
theory Permissions
  imports Mediators
begin

text \<open>
  Who may use which tool: the filter of \<open>tools/permission_filter.py\<close> over the registry of
  \<open>tools/framework.py\<close>, and the evaluator of \<open>permissions/evaluate.py\<close> with its only caller, \<open>ToolContext.ask\<close>.
  A rule dictionary has string values. Tools and their metadata are arbitrary values.
\<close>

subsection \<open>The registry\<close>

record ('t, 'm) registry =
  rg_tools :: "string \<rightharpoonup> 't"
  rg_metadata :: "string \<rightharpoonup> 'm list"

text \<open>Metadata is a dictionary; only an empty one is not stored, so it is a list here.\<close>

definition rg_init :: "('t, 'm) registry" where
  "rg_init = \<lparr>rg_tools = Map.empty, rg_metadata = Map.empty\<rparr>"

definition rg_register :: "'t \<Rightarrow> string \<Rightarrow> 'm list option \<Rightarrow> ('t, 'm) registry \<Rightarrow> ('t, 'm) registry" where
  "rg_register t i m r =
     (let r = r\<lparr>rg_tools := (rg_tools r)(i \<mapsto> t)\<rparr>
      in case m of Some (x # xs) \<Rightarrow> r\<lparr>rg_metadata := (rg_metadata r)(i \<mapsto> x # xs)\<rparr> | _ \<Rightarrow> r)"

subsection \<open>The filter\<close>

record rule =
  ru_permission :: string
  ru_pattern :: string
  ru_action :: string

record ('t, 'm) tool_filter =
  tf_rules :: "rule list"
  tf_registry :: "('t, 'm) registry option"
  tf_allowed :: "string list option"
  tf_denied :: "string list option"

text \<open>\<open>_parse_permissions\<close>: missing entries are empty, rules without a permission or an action are dropped.\<close>

definition entry :: "string \<Rightarrow> (string \<times> string) list \<Rightarrow> string" where
  "entry k d = (case map_of d k of Some v \<Rightarrow> v | None \<Rightarrow> [])"

definition parse_permissions :: "(string \<times> string) list list \<Rightarrow> rule list" where
  "parse_permissions ds =
     map (\<lambda>d. \<lparr>ru_permission = entry ''permission'' d, ru_pattern = entry ''pattern'' d, ru_action = entry ''action'' d\<rparr>)
       (filter (\<lambda>d. entry ''permission'' d \<noteq> [] \<and> entry ''action'' d \<noteq> []) ds)"

definition tf_make ::
  "(string \<times> string) list list option \<Rightarrow> ('t, 'm) registry option \<Rightarrow> string list option \<Rightarrow> string list option
     \<Rightarrow> string list option \<Rightarrow> string list option \<Rightarrow> ('t, 'm) tool_filter" where
  "tf_make permissions reg allowed_tools denied_tools allowlist denylist =
     \<lparr>tf_rules = (case permissions of None \<Rightarrow> [] | Some ds \<Rightarrow> parse_permissions ds), tf_registry = reg,
      tf_allowed = (if allowed_tools = None then allowlist else allowed_tools),
      tf_denied = (if denied_tools = None then denylist else denied_tools)\<rparr>"

definition starts_with :: "string \<Rightarrow> string \<Rightarrow> bool" where
  "starts_with p s \<longleftrightarrow> take (length p) s = p"

definition ends_with :: "string \<Rightarrow> string \<Rightarrow> bool" where
  "ends_with p s \<longleftrightarrow> starts_with (rev p) (rev s)"

definition tf_matches :: "string \<Rightarrow> string \<Rightarrow> bool" where
  "tf_matches needle pat =
     (if pat = ''*'' then True
      else if needle = pat then True
      else if ends_with ''*'' pat then starts_with (butlast pat) needle
      else if starts_with ''*'' pat then ends_with (tl pat) needle
      else False)"

text \<open>The loop over the rules keeps the action of the last that matches.\<close>

definition tf_evaluate :: "('t, 'm) tool_filter \<Rightarrow> string \<Rightarrow> string option" where
  "tf_evaluate f i =
     foldl (\<lambda>last r. if tf_matches i (ru_permission r) then Some (ru_action r) else last) None (tf_rules f)"

fun matches_tool_list :: "string \<Rightarrow> string list \<Rightarrow> bool" where
  "matches_tool_list i [] = False"
| "matches_tool_list i (p # ps) = (if tf_matches i p then True else matches_tool_list i ps)"

definition explicitly_denied :: "('t, 'm) tool_filter \<Rightarrow> string \<Rightarrow> bool" where
  "explicitly_denied f i = (case tf_denied f of None \<Rightarrow> False | Some ps \<Rightarrow> matches_tool_list i ps)"

definition explicitly_allowed :: "('t, 'm) tool_filter \<Rightarrow> string \<Rightarrow> bool" where
  "explicitly_allowed f i = (case tf_allowed f of None \<Rightarrow> False | Some ps \<Rightarrow> matches_tool_list i ps)"

definition is_tool_allowed :: "('t, 'm) tool_filter \<Rightarrow> string \<Rightarrow> bool" where
  "is_tool_allowed f i =
     (if explicitly_denied f i then False
      else if explicitly_allowed f i then True
      else tf_evaluate f i = Some ''allow'')"

text \<open>\<open>get_filtered_tool_ids\<close>. The loop runs over a set, so the order of the identifiers does not matter; without
  a set and without a registry nothing is allowed.\<close>

definition filtered_ids :: "('t, 'm) tool_filter \<Rightarrow> string set option \<Rightarrow> string set" where
  "filtered_ids f ids =
     (let ids = (case ids of Some s \<Rightarrow> s
                 | None \<Rightarrow> (case tf_registry f of Some r \<Rightarrow> dom (rg_tools r) | None \<Rightarrow> {}))
      in Set.filter (\<lambda>i. \<not> explicitly_denied f i \<and> (explicitly_allowed f i \<or> tf_evaluate f i = Some ''allow'')) ids)"

definition filtered_registry :: "('t, 'm) tool_filter \<Rightarrow> ('t, 'm) registry option" where
  "filtered_registry f = (case tf_registry f of
     None \<Rightarrow> None
   | Some r \<Rightarrow>
       let ids = filtered_ids f None
       in Some (if ids = {} then rg_init
          else \<lparr>rg_tools = (\<lambda>i. if i \<in> ids then rg_tools r i else None),
                rg_metadata = (\<lambda>i. if i \<in> ids \<and> rg_tools r i \<noteq> None \<and> rg_metadata r i \<noteq> Some [] then rg_metadata r i else None)\<rparr>))"

subsection \<open>The evaluator\<close>

text \<open>\<open>s.split("*")\<close>\<close>

fun split_star :: "string \<Rightarrow> string list" where
  "split_star [] = [[]]"
| "split_star (c # s) =
     (if c = CHR ''*'' then [] # split_star s
      else (case split_star s of [] \<Rightarrow> [[c]] | p # ps \<Rightarrow> (c # p) # ps))"

definition matches_pattern :: "string \<Rightarrow> string \<Rightarrow> bool" where
  "matches_pattern needle pat =
     (let ps = split_star pat; ns = split_star needle
      in if length ps \<noteq> length ns then False
         else list_all (\<lambda>(p, n). \<not> (p \<noteq> ''*'' \<and> p \<noteq> n)) (zip ps ns))"

definition default_rule :: rule where
  "default_rule = \<lparr>ru_permission = ''*'', ru_pattern = ''*'', ru_action = ''ask''\<rparr>"

definition evaluate :: "string \<Rightarrow> string \<Rightarrow> rule list list \<Rightarrow> rule" where
  "evaluate permission pat rulesets =
     (case find (\<lambda>r. matches_pattern permission (ru_permission r) \<and> matches_pattern pat (ru_pattern r))
             (concat (map rev (rev rulesets))) of
        Some r \<Rightarrow> r | None \<Rightarrow> default_rule)"

definition DEFAULT_RULES :: "rule list" where
  "DEFAULT_RULES = map (\<lambda>(p, a). \<lparr>ru_permission = p, ru_pattern = ''*'', ru_action = a\<rparr>)
     [(''*'', ''allow''), (''doom_loop'', ''ask''), (''external_directory'', ''ask''),
      (''question'', ''deny''), (''plan_enter'', ''deny''), (''plan_exit'', ''deny'')]"

definition get_default_rulesets :: "rule list list" where
  "get_default_rulesets = [DEFAULT_RULES]"

text \<open>\<open>ToolContext.ask\<close>: an event on the bus for each outcome; a question is taken as answered with yes.\<close>

definition tool_ask ::
  "((string \<times> json) list \<Rightarrow> (string \<times> json) list) \<Rightarrow> ('h \<Rightarrow> bus_event \<Rightarrow> 'w \<Rightarrow> exn option \<times> 'w) \<Rightarrow>
     string \<Rightarrow> string \<Rightarrow> string list option \<Rightarrow> 'h bus \<Rightarrow> 'w \<Rightarrow> bool \<times> 'h bus \<times> 'w" where
  "tool_ask redact call permission pat always b w =
     (let r = evaluate permission pat get_default_rulesets;
          scope = [(''permission'', JStr permission), (''pattern'', JStr pat)];
          data = scope @ [(''always'', case always of None \<Rightarrow> JNull | Some xs \<Rightarrow> JArr (map JStr xs))]
      in if ru_action r = ''deny'' then (False, bus_publish redact call ''permission.denied'' (Some scope) b w)
         else if ru_action r = ''allow'' then (True, bus_publish redact call ''permission.granted'' (Some data) b w)
         else (True, bus_publish redact call ''permission.asked'' (Some data) b w))"

subsection \<open>Globs\<close>

text \<open>The usual meaning of a pattern in which the star stands for any text.\<close>

fun glob :: "string \<Rightarrow> string \<Rightarrow> bool" where
  "glob [] s = (s = [])"
| "glob (c # p) s =
     (if c = CHR ''*'' then glob p s \<or> (case s of [] \<Rightarrow> False | _ # t \<Rightarrow> glob (c # p) t)
      else (case s of [] \<Rightarrow> False | d # t \<Rightarrow> d = c \<and> glob p t))"

lemma glob_star: "glob (CHR ''*'' # p) s \<longleftrightarrow> (\<exists>a b. s = a @ b \<and> glob p b)"
proof (induction s)
  case (Cons d s)
  have "(\<exists>a b. d # s = a @ b \<and> glob p b) \<longleftrightarrow> glob p (d # s) \<or> (\<exists>a b. s = a @ b \<and> glob p b)"
    by (metis append_Cons append_Nil neq_Nil_conv list.inject)
  with Cons show ?case by simp
qed simp

lemma glob_any: "glob ''*'' s"
  unfolding glob_star by simp

lemma glob_literal: "CHR ''*'' \<notin> set p \<Longrightarrow> glob (p @ q) s \<longleftrightarrow> (\<exists>t. s = p @ t \<and> glob q t)"
proof (induction p arbitrary: s)
  case (Cons c p)
  then show ?case by (cases s) auto
qed simp

lemma starts_with_iff: "starts_with p s \<longleftrightarrow> (\<exists>t. s = p @ t)"
  unfolding starts_with_def by (metis append_eq_conv_conj append_take_drop_id)

lemma ends_with_iff: "ends_with p s \<longleftrightarrow> (\<exists>t. s = t @ p)"
  unfolding ends_with_def starts_with_iff by (metis rev_append rev_rev_ident)

text \<open>Patterns that the filter understands: a star at most at one end.\<close>

definition simple_glob :: "string \<Rightarrow> bool" where
  "simple_glob p \<longleftrightarrow> CHR ''*'' \<notin> set (butlast p) \<or> CHR ''*'' \<notin> set (tl p)"

lemma tf_matches_glob:
  assumes "simple_glob p"
  shows "tf_matches s p \<longleftrightarrow> glob p s"
proof (cases "CHR ''*'' \<in> set p")
  case False
  then have "\<not> ends_with ''*'' p" "\<not> starts_with ''*'' p" "p \<noteq> ''*''"
    by (auto simp: ends_with_iff starts_with_iff)
  with False glob_literal [of p "[]" s] show ?thesis by (auto simp: tf_matches_def)
next
  case True
  show ?thesis
  proof (cases "CHR ''*'' \<in> set (butlast p)")
    case False
    from True False have p: "p = butlast p @ ''*''"
      by (metis append_butlast_last_id empty_iff empty_set in_set_conv_decomp insert_iff list.simps(15) set_append Un_iff)
    with False have "glob p s \<longleftrightarrow> starts_with (butlast p) s"
      using glob_literal [of "butlast p" "''*''" s] glob_any unfolding starts_with_iff by metis
    moreover have "ends_with ''*'' p" using p by (auto simp: ends_with_iff)
    moreover have "s = p \<Longrightarrow> starts_with (butlast p) s" using p by (auto simp: starts_with_iff)
    moreover have "p = ''*'' \<Longrightarrow> starts_with (butlast p) s" by (simp add: starts_with_def)
    ultimately show ?thesis by (auto simp: tf_matches_def)
  next
    case inner: True
    with assms have tl: "CHR ''*'' \<notin> set (tl p)" by (auto simp: simple_glob_def)
    with True obtain q where p: "p = CHR ''*'' # q" by (cases p) auto
    with tl inner have q: "CHR ''*'' \<notin> set q" "q \<noteq> []" by auto
    then have "\<not> ends_with ''*'' p" unfolding p by (cases q rule: rev_cases) (auto simp: ends_with_iff)
    moreover have "glob p s \<longleftrightarrow> ends_with q s"
      unfolding p glob_star ends_with_iff using glob_literal [OF q(1), of "[]"] by auto
    moreover have "s = p \<Longrightarrow> ends_with q s" using p by (auto simp: ends_with_iff)
    ultimately show ?thesis using p q by (auto simp: tf_matches_def starts_with_def)
  qed
qed

lemma matches_tool_list_iff: "matches_tool_list i ps \<longleftrightarrow> (\<exists>p \<in> set ps. tf_matches i p)"
  by (induction ps) auto

lemma last_match:
  "foldl (\<lambda>last r. if P r then Some (f r) else last) a rs = (case find P (rev rs) of Some r \<Rightarrow> Some (f r) | None \<Rightarrow> a)"
proof (induction rs rule: rev_induct)
  case (snoc r rs)
  then show ?case by simp
qed simp

text \<open>What the source says of the order: a denial wins, then the allowlist, then the last rule that matches.\<close>

definition permitted :: "('t, 'm) tool_filter \<Rightarrow> string \<Rightarrow> bool" where
  "permitted f i \<longleftrightarrow>
     \<not> (\<exists>ps. tf_denied f = Some ps \<and> (\<exists>p \<in> set ps. glob p i))
     \<and> ((\<exists>ps. tf_allowed f = Some ps \<and> (\<exists>p \<in> set ps. glob p i))
       \<or> (\<exists>xs r ys. tf_rules f = xs @ r # ys \<and> glob (ru_permission r) i \<and> ru_action r = ''allow''
            \<and> (\<forall>y \<in> set ys. \<not> glob (ru_permission y) i)))"

definition simple_filter :: "('t, 'm) tool_filter \<Rightarrow> bool" where
  "simple_filter f \<longleftrightarrow> (\<forall>ps. tf_denied f = Some ps \<longrightarrow> list_all simple_glob ps)
     \<and> (\<forall>ps. tf_allowed f = Some ps \<longrightarrow> list_all simple_glob ps) \<and> list_all (simple_glob \<circ> ru_permission) (tf_rules f)"

lemma find_rev_Some:
  "find P (rev rs) = Some r \<longleftrightarrow> (\<exists>xs ys. rs = xs @ r # ys \<and> P r \<and> (\<forall>y \<in> set ys. \<not> P y))"
proof (induction rs rule: rev_induct)
  case (snoc x rs)
  show ?case
  proof (cases "P x")
    case True
    have "\<And>xs ys. rs @ [x] = xs @ r # ys \<Longrightarrow> \<forall>y \<in> set ys. \<not> P y \<Longrightarrow> r = x"
      using True by (metis append_butlast_last_id butlast_append last_ConsL last_ConsR last_appendR last_in_set last_snoc list.distinct(1))
    moreover have "\<exists>xs ys. rs @ [x] = xs @ x # ys \<and> (\<forall>y \<in> set ys. \<not> P y)" by (intro exI [of _ rs] exI [of _ "[]"]) simp
    ultimately show ?thesis using True by auto
  next
    case False
    have "(\<exists>xs ys. rs @ [x] = xs @ r # ys \<and> P r \<and> (\<forall>y \<in> set ys. \<not> P y)) \<longleftrightarrow>
        (\<exists>xs ys. rs = xs @ r # ys \<and> P r \<and> (\<forall>y \<in> set ys. \<not> P y))" (is "?l \<longleftrightarrow> ?r")
    proof
      assume ?l
      then obtain xs ys where 1: "rs @ [x] = xs @ r # ys" "P r" "\<forall>y \<in> set ys. \<not> P y" by blast
      with False show ?r by (cases ys rule: rev_cases) auto
    next
      assume ?r
      then obtain xs ys where "rs = xs @ r # ys" "P r" "\<forall>y \<in> set ys. \<not> P y" by blast
      with False have "rs @ [x] = xs @ r # (ys @ [x]) \<and> P r \<and> (\<forall>y \<in> set (ys @ [x]). \<not> P y)" by auto
      then show ?l by blast
    qed
    with False snoc show ?thesis by simp
  qed
qed simp

lemma case_Some_iff: "(case x of None \<Rightarrow> None | Some r \<Rightarrow> Some (g r)) = Some a \<longleftrightarrow> (\<exists>r. x = Some r \<and> g r = a)"
  by (cases x) simp_all

lemma tf_evaluate_iff:
  "tf_evaluate f i = Some a \<longleftrightarrow> (\<exists>xs r ys. tf_rules f = xs @ r # ys \<and> tf_matches i (ru_permission r) \<and> ru_action r = a
     \<and> (\<forall>y \<in> set ys. \<not> tf_matches i (ru_permission y)))"
  unfolding tf_evaluate_def last_match case_Some_iff find_rev_Some by metis

lemma is_tool_allowed_permitted:
  assumes "simple_filter f"
  shows "is_tool_allowed f i \<longleftrightarrow> permitted f i"
proof -
  have "\<And>r. r \<in> set (tf_rules f) \<Longrightarrow> tf_matches i (ru_permission r) \<longleftrightarrow> glob (ru_permission r) i"
    using assms tf_matches_glob by (auto simp: simple_filter_def list_all_iff)
  then have "tf_evaluate f i = Some ''allow'' \<longleftrightarrow> (\<exists>xs r ys. tf_rules f = xs @ r # ys \<and> glob (ru_permission r) i
      \<and> ru_action r = ''allow'' \<and> (\<forall>y \<in> set ys. \<not> glob (ru_permission y) i))"
    unfolding tf_evaluate_iff by (metis in_set_conv_decomp list.set_intros(2) Un_iff set_append)
  moreover have "\<And>ps. tf_denied f = Some ps \<Longrightarrow> matches_tool_list i ps \<longleftrightarrow> (\<exists>p \<in> set ps. glob p i)"
    "\<And>ps. tf_allowed f = Some ps \<Longrightarrow> matches_tool_list i ps \<longleftrightarrow> (\<exists>p \<in> set ps. glob p i)"
    using assms tf_matches_glob by (auto simp: simple_filter_def list_all_iff matches_tool_list_iff)
  ultimately show ?thesis
    by (auto simp: is_tool_allowed_def explicitly_denied_def explicitly_allowed_def permitted_def split: option.splits)
qed

lemma filtered_ids_eq:
  "filtered_ids f (Some ids) = {i \<in> ids. is_tool_allowed f i}"
  "filtered_ids f None = {i. \<exists>r. tf_registry f = Some r \<and> i \<in> dom (rg_tools r) \<and> is_tool_allowed f i}"
  by (auto simp: filtered_ids_def is_tool_allowed_def Let_def split: option.splits)

lemma filtered_registry_tools:
  "tf_registry f = None \<Longrightarrow> filtered_registry f = None"
  "tf_registry f = Some r \<Longrightarrow> \<exists>r'. filtered_registry f = Some r'
     \<and> rg_tools r' i = (if is_tool_allowed f i then rg_tools r i else None)"
proof -
  assume r: "tf_registry f = Some r"
  have "i \<in> filtered_ids f None \<longleftrightarrow> rg_tools r i \<noteq> None \<and> is_tool_allowed f i"
    using r by (auto simp: filtered_ids_eq)
  then show "\<exists>r'. filtered_registry f = Some r'
     \<and> rg_tools r' i = (if is_tool_allowed f i then rg_tools r i else None)"
    using r by (auto simp: filtered_registry_def Let_def rg_init_def)
qed (simp add: filtered_registry_def)

text \<open>C10. When each pattern has a star at most at one end, the three views of the filter agree with the documented
  order on globs: a tool is usable exactly when no denied pattern matches it and an allowed pattern or the last
  matching rule lets it through; the filtered registry holds exactly the usable tools, each with its own entry.\<close>

theorem permission_filter_spec:
  assumes "simple_filter f"
  shows "is_tool_allowed f i = permitted f i \<and> (i \<in> filtered_ids f (Some ids) \<longleftrightarrow> i \<in> ids \<and> permitted f i)
    \<and> (case filtered_registry f of None \<Rightarrow> tf_registry f = None
       | Some r' \<Rightarrow> \<exists>r. tf_registry f = Some r \<and> rg_tools r' i = (if permitted f i then rg_tools r i else None))"
proof -
  have "case filtered_registry f of None \<Rightarrow> tf_registry f = None
       | Some r' \<Rightarrow> \<exists>r. tf_registry f = Some r \<and> rg_tools r' i = (if is_tool_allowed f i then rg_tools r i else None)"
    using filtered_registry_tools [of f] by (cases "tf_registry f") (auto split: option.splits)
  then show ?thesis unfolding is_tool_allowed_permitted [OF assms, symmetric] by (simp add: filtered_ids_eq)
qed

definition example_filter :: "(nat, nat) tool_filter" where
  "example_filter = tf_make (Some [[(''permission'', ''*''), (''action'', ''allow'')], [(''permission'', ''web*''), (''action'', ''deny'')]])
     (Some (rg_register 2 ''webfetch'' None (rg_register 1 ''bash'' (Some [7]) rg_init))) None (Some [''*Tool'']) None None"

theorem permission_filter_spec_witness:
  "permitted example_filter ''bash'' \<and> \<not> permitted example_filter ''webfetch'' \<and> \<not> permitted example_filter ''BashTool''"
proof -
  have simple: "simple_filter example_filter"
    by (simp add: simple_filter_def example_filter_def tf_make_def parse_permissions_def entry_def simple_glob_def)
  note spec = permission_filter_spec [OF simple, THEN conjunct1, symmetric]
  show ?thesis unfolding spec
    by (simp add: example_filter_def tf_make_def parse_permissions_def entry_def is_tool_allowed_def explicitly_denied_def
        explicitly_allowed_def tf_evaluate_def tf_matches_def starts_with_def ends_with_def)
qed

subsection \<open>The evaluator compares\<close>

lemma split_star_nonempty: "split_star s \<noteq> []"
  by (cases s) (auto split: list.splits)

lemma split_star_parts: "p \<in> set (split_star s) \<Longrightarrow> CHR ''*'' \<notin> set p"
proof (induction s arbitrary: p)
  case (Cons c s)
  then show ?case by (auto split: if_splits list.splits)
qed simp

lemma split_star_inj: "split_star s = split_star t \<Longrightarrow> s = t"
proof (induction s arbitrary: t)
  case Nil
  then show ?case by (cases t) (auto split: if_splits list.splits simp: split_star_nonempty split_star_nonempty [symmetric])
next
  case (Cons c s)
  from Cons.prems have "t \<noteq> []"
    by (auto split: if_splits list.splits simp: split_star_nonempty)
  then obtain d u where "t = d # u" by (cases t) auto
  with Cons show ?case
    by (auto split: if_splits list.splits simp: split_star_nonempty)
qed

lemma matches_pattern_eq: "matches_pattern s p \<longleftrightarrow> s = p"
proof
  assume m: "matches_pattern s p"
  then have len: "length (split_star p) = length (split_star s)"
    by (auto simp: matches_pattern_def Let_def split: if_splits)
  have "\<And>x. x \<in> set (split_star p) \<Longrightarrow> x \<noteq> ''*''" using split_star_parts by force
  with m len have "\<forall>(x, y) \<in> set (zip (split_star p) (split_star s)). x = y"
    by (fastforce simp: matches_pattern_def Let_def list_all_iff dest: set_zip_leftD)
  with len have "split_star p = split_star s" by (simp add: list_eq_iff_zip_eq)
  then show "s = p" by (metis split_star_inj)
next
  assume "s = p"
  then show "matches_pattern s p" by (auto simp: matches_pattern_def Let_def list_all_iff set_zip)
qed

text \<open>The star of a rule of the evaluator is a literal star. Under the default rules a request is therefore denied
  or granted at once only when its own pattern is the text \<open>*\<close>; for every other pattern the default \<open>ask\<close> applies,
  also for \<open>question\<close>, \<open>plan_enter\<close> and \<open>plan_exit\<close>, and \<open>ask\<close> lets the tool go on.\<close>

theorem evaluator_is_literal:
  "matches_pattern s p = (s = p)
   \<and> ru_action (evaluate permission pat get_default_rulesets) =
       (if pat \<noteq> ''*'' then ''ask'' else if permission = ''*'' then ''allow''
        else if permission \<in> {''question'', ''plan_enter'', ''plan_exit''} then ''deny'' else ''ask'')
   \<and> (fst (tool_ask redact call permission pat always b w) \<longleftrightarrow>
       \<not> (pat = ''*'' \<and> permission \<in> {''question'', ''plan_enter'', ''plan_exit''}))"
proof -
  have action: "ru_action (evaluate permission pat get_default_rulesets) =
       (if pat \<noteq> ''*'' then ''ask'' else if permission = ''*'' then ''allow''
        else if permission \<in> {''question'', ''plan_enter'', ''plan_exit''} then ''deny'' else ''ask'')"
    by (simp add: evaluate_def get_default_rulesets_def DEFAULT_RULES_def matches_pattern_eq default_rule_def)
  then have "fst (tool_ask redact call permission pat always b w) \<longleftrightarrow>
       \<not> (pat = ''*'' \<and> permission \<in> {''question'', ''plan_enter'', ''plan_exit''})"
    unfolding tool_ask_def Let_def action by simp
  with action show ?thesis by (simp add: matches_pattern_eq)
qed

end
