(* ===== verification/ToolCache.thy ===== *)
theory ToolCache
  imports Results "HOL-Library.List_Lexorder" "HOL-Library.Char_ord"
begin

text \<open>
  The tool result cache of \<open>tools/cache.py\<close>. The \<open>OrderedDict\<close> is an association list, least recently used first.
  The four result fields of an entry are one value \<open>'r\<close>. \<open>str\<close>, \<open>json.dumps\<close> and SHA-256 are parameters. Arguments
  are JSON values, so there are no tuples and no paths among them. The interleaving of
  concurrent calls of \<open>aget_or_execute\<close> is in \<open>SingleFlight\<close>.
\<close>

declare map_of_eq_Some_iff [simp del] Some_eq_map_of_iff [simp del]

subsection \<open>Keys\<close>

record key_env =
  ke_str :: "json \<Rightarrow> string"
  ke_dumps :: "json \<Rightarrow> string"
  ke_sha256 :: "string \<Rightarrow> string"

text \<open>\<open>_normalize_args\<close> on a dictionary, and what it does to the values of one.\<close>

function normalize :: "(json \<Rightarrow> string) \<Rightarrow> json \<Rightarrow> json" where
  "normalize str (JObj d) = JObj (sort_key fst (map (\<lambda>(k, v). (k, normalize str v)) d))"
| "normalize str (JArr xs) = JArr (map (\<lambda>v. case v of JObj d \<Rightarrow> normalize str (JObj d) | _ \<Rightarrow> JStr (str v)) xs)"
| "normalize str JNull = JNull"
| "normalize str (JBool b) = JBool b"
| "normalize str (JNum x) = JNum x"
| "normalize str (JStr s) = JStr s"
  by pat_completeness auto
termination
proof (relation "measure (\<lambda>(str, j). size j)"; clarsimp)
  fix d :: "(string \<times> json) list" and k v
  assume "(k, v) \<in> set d"
  then show "size v < Suc (size_list (size_prod (\<lambda>x. 0) size) d)"
    by (induction d) auto
next
  fix xs :: "json list" and d
  assume "JObj d \<in> set xs"
  then show "size_list (size_prod (\<lambda>x. 0) size) d < size_list size xs"
    by (induction xs) auto
qed

definition make_key :: "key_env \<Rightarrow> string \<Rightarrow> (string \<times> json) list \<Rightarrow> string" where
  "make_key ke tool args =
     tool @ '':'' @ take 16 (ke_sha256 ke (ke_dumps ke (normalize (ke_str ke) (JObj args))))"

subsection \<open>The cache\<close>

record 'r entry =
  ce_tool :: string
  ce_args :: "(string \<times> json) list"
  ce_result :: 'r
  ce_cached_at :: rat
  ce_access :: nat
  ce_ttl :: rat

record 'r cache =
  tc_entries :: "(string \<times> 'r entry) list"
  tc_max :: int
  tc_ttl :: rat
  tc_cacheable :: "string list"
  tc_non_cacheable :: "string list"
  tc_hits :: nat
  tc_misses :: nat
  tc_evictions :: nat

definition DEFAULT_CACHEABLE_TOOLS :: "string list" where
  "DEFAULT_CACHEABLE_TOOLS = [''read'', ''glob'', ''grep'', ''rg'', ''ripgrep'', ''ast-grep'', ''git'', ''file'', ''tree'', ''ls'']"

definition DEFAULT_NON_CACHEABLE_TOOLS :: "string list" where
  "DEFAULT_NON_CACHEABLE_TOOLS =
     [''write'', ''edit'', ''bash'', ''shell'', ''execute'', ''delete'', ''move'', ''rename'', ''patch'']"

definition tools_or :: "string list option \<Rightarrow> string list \<Rightarrow> string list" where
  "tools_or ts d = (case ts of Some (t # u) \<Rightarrow> t # u | _ \<Rightarrow> d)"

definition tc_init :: "int \<Rightarrow> rat \<Rightarrow> string list option \<Rightarrow> string list option \<Rightarrow> 'r cache" where
  "tc_init max_size ttl cacheable non =
     \<lparr>tc_entries = [], tc_max = max_size, tc_ttl = ttl, tc_cacheable = tools_or cacheable DEFAULT_CACHEABLE_TOOLS,
      tc_non_cacheable = tools_or non DEFAULT_NON_CACHEABLE_TOOLS, tc_hits = 0, tc_misses = 0, tc_evictions = 0\<rparr>"

definition is_cacheable :: "string \<Rightarrow> 'r cache \<Rightarrow> bool" where
  "is_cacheable tool c =
     (if tool \<in> set (tc_non_cacheable c) then False else tool \<in> set (tc_cacheable c))"

definition tc_evict :: "string \<Rightarrow> 'r cache \<Rightarrow> 'r cache" where
  "tc_evict k c =
     (if k \<in> set (keys (tc_entries c))
      then c\<lparr>tc_entries := AList.delete k (tc_entries c), tc_evictions := Suc (tc_evictions c)\<rparr> else c)"

definition evict_oldest :: "'r cache \<Rightarrow> 'r cache" where
  "evict_oldest c = (case tc_entries c of [] \<Rightarrow> c | (k, _) # _ \<Rightarrow> tc_evict k c)"

text \<open>A hit: \<open>move_to_end\<close> and the counts. The entry is shared, so the caller sees the new count too.\<close>

definition fresh :: "rat \<Rightarrow> 'r entry \<Rightarrow> bool" where
  "fresh now e \<longleftrightarrow> now - ce_cached_at e \<le> ce_ttl e"

definition tc_hit :: "string \<Rightarrow> 'r entry \<Rightarrow> 'r cache \<Rightarrow> 'r entry \<times> 'r cache" where
  "tc_hit k e c =
     (let e = e\<lparr>ce_access := Suc (ce_access e)\<rparr>
      in (e, c\<lparr>tc_entries := AList.delete k (tc_entries c) @ [(k, e)], tc_hits := Suc (tc_hits c)\<rparr>))"

definition tc_get :: "key_env \<Rightarrow> rat \<Rightarrow> string \<Rightarrow> (string \<times> json) list \<Rightarrow> 'r cache \<Rightarrow> 'r entry option \<times> 'r cache" where
  "tc_get ke now tool args c =
     (if \<not> is_cacheable tool c then (None, c)
      else let k = make_key ke tool args
        in case map_of (tc_entries c) k of
             None \<Rightarrow> (None, c\<lparr>tc_misses := Suc (tc_misses c)\<rparr>)
           | Some e \<Rightarrow>
               if now - ce_cached_at e > ce_ttl e
               then let c = tc_evict k c in (None, c\<lparr>tc_misses := Suc (tc_misses c)\<rparr>)
               else (case tc_hit k e c of (e, c) \<Rightarrow> (Some e, c)))"

text \<open>\<open>while len(self._cache) >= self._max_size: self._evict_oldest()\<close>, which does not return when the size
  cannot fall below the limit.\<close>

partial_function (option) make_room :: "'r cache \<Rightarrow> 'r cache option" where
  "make_room c = (if tc_max c \<le> int (length (tc_entries c)) then make_room (evict_oldest c) else Some c)"

definition ttl_or :: "rat option \<Rightarrow> rat \<Rightarrow> rat" where
  "ttl_or t d = (case t of Some x \<Rightarrow> (if x = 0 then d else x) | None \<Rightarrow> d)"

definition put_entry :: "string \<Rightarrow> 'r entry \<Rightarrow> 'r cache \<Rightarrow> 'r cache option" where
  "put_entry k e c = (case make_room c of None \<Rightarrow> None
     | Some c \<Rightarrow> Some (c\<lparr>tc_entries := AList.update k e (tc_entries c)\<rparr>))"

definition new_entry :: "rat \<Rightarrow> string \<Rightarrow> (string \<times> json) list \<Rightarrow> 'r \<Rightarrow> rat option \<Rightarrow> 'r cache \<Rightarrow> 'r entry" where
  "new_entry now tool args r ttl c =
     \<lparr>ce_tool = tool, ce_args = args, ce_result = r, ce_cached_at = now, ce_access = 0, ce_ttl = ttl_or ttl (tc_ttl c)\<rparr>"

text \<open>\<open>set\<close>. \<open>None\<close>: the call does not return.\<close>

definition tc_set ::
  "key_env \<Rightarrow> rat \<Rightarrow> string \<Rightarrow> (string \<times> json) list \<Rightarrow> 'r \<Rightarrow> rat option \<Rightarrow> 'r cache \<Rightarrow> 'r cache option" where
  "tc_set ke now tool args r ttl c =
     (if \<not> is_cacheable tool c then Some c
      else put_entry (make_key ke tool args) (new_entry now tool args r ttl c) c)"

text \<open>\<open>aset\<close>: the same with the lock held around the eviction and the store.\<close>

definition tc_aset ::
  "key_env \<Rightarrow> rat \<Rightarrow> string \<Rightarrow> (string \<times> json) list \<Rightarrow> 'r \<Rightarrow> rat option \<Rightarrow> 'r cache \<Rightarrow> 'r cache option" where
  "tc_aset ke now tool args r ttl c =
     (if \<not> is_cacheable tool c then Some c
      else let k = make_key ke tool args
        in case make_room c of None \<Rightarrow> None
          | Some c' \<Rightarrow> Some (c'\<lparr>tc_entries := AList.update k (new_entry now tool args r ttl c) (tc_entries c')\<rparr>))"

lemma tc_aset_eq: "tc_aset = tc_set"
  by (intro ext) (simp add: tc_aset_def tc_set_def put_entry_def split: option.split)

definition tc_invalidate :: "string option \<Rightarrow> 'r cache \<Rightarrow> nat \<times> 'r cache" where
  "tc_invalidate tool c = (case tool of
     None \<Rightarrow> (length (tc_entries c), c\<lparr>tc_entries := [], tc_evictions := tc_evictions c + length (tc_entries c)\<rparr>)
   | Some t \<Rightarrow>
       (let ks = keys (filter (\<lambda>(k, e). ce_tool e = t) (tc_entries c))
        in (length ks, fold tc_evict ks c)))"

record cache_stats =
  cs_hits :: nat
  cs_misses :: nat
  cs_evictions :: nat
  cs_size :: nat
  cs_max_size :: int
  cs_hit_rate :: rat

definition tc_get_stats :: "'r cache \<Rightarrow> cache_stats" where
  "tc_get_stats c =
     (let total = tc_hits c + tc_misses c
      in \<lparr>cs_hits = tc_hits c, cs_misses = tc_misses c, cs_evictions = tc_evictions c,
          cs_size = length (tc_entries c), cs_max_size = tc_max c,
          cs_hit_rate = (if 0 < total then of_nat (tc_hits c) / of_nat total else 0)\<rparr>)"

partial_function (option) shrink :: "int \<Rightarrow> nat \<Rightarrow> 'r cache \<Rightarrow> (nat \<times> 'r cache) option" where
  "shrink n evicted c =
     (if n < int (length (tc_entries c)) then shrink n (Suc evicted) (evict_oldest c) else Some (evicted, c))"

definition tc_resize :: "int \<Rightarrow> 'r cache \<Rightarrow> (nat \<times> 'r cache) option" where
  "tc_resize n c = shrink n 0 (c\<lparr>tc_max := n\<rparr>)"

subsection \<open>Eviction\<close>

lemma evict_oldest_Nil: "tc_entries c = [] \<Longrightarrow> evict_oldest c = c"
  by (simp add: evict_oldest_def)

definition evicted :: "nat \<Rightarrow> 'r cache \<Rightarrow> 'r cache" where
  "evicted n c = c\<lparr>tc_entries := drop n (tc_entries c), tc_evictions := tc_evictions c + n\<rparr>"

lemma evict_oldest_Cons:
  "wf_dict (tc_entries c) \<Longrightarrow> tc_entries c \<noteq> [] \<Longrightarrow> evict_oldest c = evicted 1 c"
  by (cases "tc_entries c") (auto simp: evict_oldest_def evicted_def tc_evict_def delete_idem simp del: AList.delete_eq)

lemma evicted_simps [simp]:
  "tc_entries (evicted n c) = drop n (tc_entries c)" "tc_max (evicted n c) = tc_max c"
  "tc_evictions (evicted n c) = tc_evictions c + n" "evicted 0 c = c" "evicted m (evicted n c) = evicted (n + m) c"
  "is_cacheable t (evicted n c) = is_cacheable t c" "tc_hits (evicted n c) = tc_hits c" "tc_misses (evicted n c) = tc_misses c"
  by (simp_all add: evicted_def is_cacheable_def ac_simps)

lemma wf_drop: "wf_dict d \<Longrightarrow> wf_dict (drop n d)"
  by (metis distinct_drop drop_map)

lemma shrink_returns:
  assumes "wf_dict (tc_entries c)" "0 \<le> n"
  shows "shrink n a c = Some (a + (length (tc_entries c) - nat n), evicted (length (tc_entries c) - nat n) c)"
  using assms
proof (induction "length (tc_entries c)" arbitrary: a c)
  case 0
  then show ?case by (subst shrink.simps) simp
next
  case (Suc m)
  show ?case
  proof (cases "n < int (length (tc_entries c))")
    case True
    have ne: "tc_entries c \<noteq> []" using Suc.hyps(2) by auto
    from Suc.hyps(2) True Suc.prems have "Suc (length (tc_entries c) - Suc (nat n)) = length (tc_entries c) - nat n" by simp
    with Suc.hyps(1) [of "evicted 1 c" "Suc a"] Suc.hyps(2) Suc.prems True show ?thesis
      by (subst shrink.simps) (simp add: evict_oldest_Cons [OF Suc.prems(1) ne] wf_drop del: One_nat_def)
  next
    case False
    then show ?thesis by (subst shrink.simps) simp
  qed
qed


lemma shrink_loops: "n < 0 \<Longrightarrow> shrink n a c = None"
proof (rule ccontr)
  assume "n < 0" "shrink n a c \<noteq> None"
  then obtain r where "shrink n a c = Some r" by auto
  then have "0 \<le> n"
    by (rule shrink.raw_induct [where P = "\<lambda>n a c r. 0 \<le> n", rotated]) (auto split: if_splits)
  with \<open>n < 0\<close> show False by simp
qed

lemma evict_oldest_max [simp]: "tc_max (evict_oldest c) = tc_max c"
  by (simp add: evict_oldest_def tc_evict_def split: list.split prod.split)

lemma make_room_returns:
  assumes "wf_dict (tc_entries c)" "0 < tc_max c"
  shows "make_room c = Some (evicted (Suc (length (tc_entries c)) - nat (tc_max c)) c)"
  using assms
proof (induction "length (tc_entries c)" arbitrary: c)
  case 0
  then show ?case by (subst make_room.simps) simp
next
  case (Suc m)
  show ?case
  proof (cases "tc_max c \<le> int (length (tc_entries c))")
    case True
    have ne: "tc_entries c \<noteq> []" using Suc.hyps(2) by auto
    from Suc.hyps(2) True Suc.prems
    have "Suc (Suc (length (tc_entries c) - Suc 0) - nat (tc_max c)) = Suc (length (tc_entries c)) - nat (tc_max c)" by simp
    with Suc.hyps(1) [of "evicted 1 c"] Suc.hyps(2) Suc.prems True show ?thesis
      by (subst make_room.simps) (simp add: evict_oldest_Cons [OF Suc.prems(1) ne] wf_drop)
  next
    case False
    then show ?thesis by (subst make_room.simps) simp
  qed
qed

lemma make_room_loops: "tc_max c \<le> 0 \<Longrightarrow> make_room c = None"
proof (rule ccontr)
  assume "tc_max c \<le> 0" "make_room c \<noteq> None"
  then obtain r where "make_room c = Some r" by auto
  then have "0 < tc_max c"
    by (rule make_room.raw_induct [where P = "\<lambda>c r. 0 < tc_max c", rotated])
      (auto split: if_splits, metis evict_oldest_max)
  with \<open>tc_max c \<le> 0\<close> show False by simp
qed

text \<open>What a store and a change of the limit leave in the cache.\<close>

definition after_put :: "string \<Rightarrow> 'r entry \<Rightarrow> 'r cache \<Rightarrow> 'r cache" where
  "after_put k e c = (let c = evicted (Suc (length (tc_entries c)) - nat (tc_max c)) c
     in c\<lparr>tc_entries := AList.update k e (tc_entries c)\<rparr>)"

lemma put_entry_eq:
  "wf_dict (tc_entries c) \<Longrightarrow> put_entry k e c = (if 0 < tc_max c then Some (after_put k e c) else None)"
  by (simp add: put_entry_def make_room_returns make_room_loops after_put_def Let_def)

text \<open>C15. A store returns exactly when the tool is not cached at all or the limit of the cache is positive, and a change
  of the limit exactly when the new limit is not negative; otherwise the eviction loop never ends. When a store
  returns, it has first evicted from the old end of the cache until one place is free, also when it only replaces
  an entry, and a replaced entry keeps its place in the order.\<close>

theorem cache_limit_termination:
  assumes "wf_dict (tc_entries c)"
  shows "tc_set ke now tool args r ttl c =
      (if \<not> is_cacheable tool c then Some c
       else if 0 < tc_max c then Some (after_put (make_key ke tool args) (new_entry now tool args r ttl c) c) else None)
    \<and> tc_resize n c = (if 0 \<le> n then Some (length (tc_entries c) - nat n, evicted (length (tc_entries c) - nat n) (c\<lparr>tc_max := n\<rparr>))
       else None)"
  using assms by (simp add: tc_set_def put_entry_eq tc_resize_def shrink_returns shrink_loops)

definition full_cache :: "nat cache" where
  "full_cache = (tc_init 2 300 None None)\<lparr>tc_entries :=
     [(''read:a'', \<lparr>ce_tool = ''read'', ce_args = [], ce_result = 1, ce_cached_at = 0, ce_access = 0, ce_ttl = 300\<rparr>),
      (''read:b'', \<lparr>ce_tool = ''read'', ce_args = [], ce_result = 2, ce_cached_at = 0, ce_access = 0, ce_ttl = 300\<rparr>)]\<rparr>"

theorem cache_limit_termination_witness:
  "\<exists>c'. tc_set \<lparr>ke_str = (\<lambda>_. []), ke_dumps = (\<lambda>_. []), ke_sha256 = (\<lambda>_. ''b'')\<rparr> 5 ''read'' [] 3 None full_cache = Some c'
    \<and> keys (tc_entries c') = [''read:b''] \<and> tc_resize (- 1) full_cache = None"
proof -
  let ?ke = "\<lparr>ke_str = (\<lambda>_. []), ke_dumps = (\<lambda>_. []), ke_sha256 = (\<lambda>_. ''b'')\<rparr>"
  have "wf_dict (tc_entries full_cache)" by (simp add: full_cache_def tc_init_def)
  note limit = cache_limit_termination [OF this, of ?ke 5 "''read''" "[]" 3 None "- 1"]
  show ?thesis using limit
    by (simp add: full_cache_def tc_init_def tools_or_def is_cacheable_def DEFAULT_CACHEABLE_TOOLS_def
        DEFAULT_NON_CACHEABLE_TOOLS_def after_put_def make_key_def new_entry_def)
qed

subsection \<open>Histories\<close>

datatype 'r cache_op =
    Get rat string "(string \<times> json) list"
  | Set rat string "(string \<times> json) list" 'r "rat option"
  | Invalidate "string option"
  | Resize int

definition cache_step :: "key_env \<Rightarrow> 'r cache_op \<Rightarrow> 'r cache \<Rightarrow> 'r cache option" where
  "cache_step ke op c = (case op of
     Get now tool args \<Rightarrow> Some (snd (tc_get ke now tool args c))
   | Set now tool args r ttl \<Rightarrow> tc_set ke now tool args r ttl c
   | Invalidate t \<Rightarrow> Some (snd (tc_invalidate t c))
   | Resize n \<Rightarrow> map_option snd (tc_resize n c))"

text \<open>A history, latest operation first.\<close>

fun cache_run :: "key_env \<Rightarrow> 'r cache_op list \<Rightarrow> 'r cache \<Rightarrow> 'r cache option" where
  "cache_run ke [] c = Some c"
| "cache_run ke (op # ops) c = (case cache_run ke ops c of None \<Rightarrow> None | Some c \<Rightarrow> cache_step ke op c)"

text \<open>The last entry that a history stored under a key and did not invalidate.\<close>

fun last_store :: "key_env \<Rightarrow> 'r cache \<Rightarrow> 'r cache_op list \<Rightarrow> string \<Rightarrow> 'r entry option" where
  "last_store ke c [] k = None"
| "last_store ke c (Set now tool args r ttl # ops) k =
     (if is_cacheable tool c \<and> make_key ke tool args = k then Some (new_entry now tool args r ttl c) else last_store ke c ops k)"
| "last_store ke c (Invalidate None # ops) k = None"
| "last_store ke c (Invalidate (Some t) # ops) k =
     (case last_store ke c ops k of None \<Rightarrow> None | Some e \<Rightarrow> if ce_tool e = t then None else Some e)"
| "last_store ke c (_ # ops) k = last_store ke c ops k"

definition same_settings :: "'r cache \<Rightarrow> 'r cache \<Rightarrow> bool" where
  "same_settings c c' \<longleftrightarrow> tc_cacheable c' = tc_cacheable c \<and> tc_non_cacheable c' = tc_non_cacheable c \<and> tc_ttl c' = tc_ttl c"

definition stored_as :: "'r entry \<Rightarrow> 'r entry option \<Rightarrow> bool" where
  "stored_as e x \<longleftrightarrow> (\<exists>n. x = Some (e\<lparr>ce_access := n\<rparr>))"

definition cache_inv :: "key_env \<Rightarrow> 'r cache \<Rightarrow> 'r cache_op list \<Rightarrow> 'r cache \<Rightarrow> bool" where
  "cache_inv ke c0 ops c \<longleftrightarrow> wf_dict (tc_entries c) \<and> int (length (tc_entries c)) \<le> max 0 (tc_max c) \<and> same_settings c0 c
     \<and> (\<forall>k e. map_of (tc_entries c) k = Some e \<longrightarrow> stored_as e (last_store ke c0 ops k))"


lemma stored_as_self [simp]: "stored_as e (Some e)"
  unfolding stored_as_def by (intro exI [of _ "ce_access e"]) simp

lemma stored_as_tool: "stored_as e x \<Longrightarrow> \<exists>e'. x = Some e' \<and> ce_tool e' = ce_tool e"
  by (auto simp: stored_as_def)

lemma stored_as_result: "stored_as e (Some e') \<Longrightarrow> ce_result e = ce_result e'"
  by (auto simp: stored_as_def)

lemma same_settings_cacheable: "same_settings c0 c \<Longrightarrow> is_cacheable t c = is_cacheable t c0"
  by (simp add: same_settings_def is_cacheable_def)

lemma map_of_drop: "wf_dict d \<Longrightarrow> map_of (drop n d) k = Some v \<Longrightarrow> map_of d k = Some v"
  by (metis in_set_dropD map_of_SomeD map_of_is_SomeI)

lemma cache_inv_evicted:
  "cache_inv ke c0 ops c \<Longrightarrow> cache_inv ke c0 ops (evicted n c)"
  by (auto simp: cache_inv_def wf_drop same_settings_def evicted_def dest: map_of_drop)

lemma cache_inv_evict:
  assumes "cache_inv ke c0 ops c"
  shows "cache_inv ke c0 ops (tc_evict k c)"
proof -
  have "length (AList.delete k (tc_entries c)) \<le> length (tc_entries c)" by (rule length_delete_le)
  moreover have "wf_dict (AList.delete k (tc_entries c))" using assms by (intro wf_delete) (simp add: cache_inv_def)
  ultimately show ?thesis using assms
    by (auto simp: cache_inv_def tc_evict_def same_settings_def simp del: AList.delete_eq split: if_splits)
qed

lemma cache_inv_hit:
  assumes "cache_inv ke c0 ops c" "map_of (tc_entries c) k = Some e"
  shows "cache_inv ke c0 ops (snd (tc_hit k e c))"
proof -
  let ?d = "AList.delete k (tc_entries c) @ [(k, e\<lparr>ce_access := Suc (ce_access e)\<rparr>)]"
  have wf: "wf_dict (tc_entries c)" "k \<in> set (keys (tc_entries c))"
    using assms by (auto simp: cache_inv_def dest: map_of_in_keys)
  have "length ?d = length (tc_entries c)" using length_delete_mem [OF wf] by simp
  moreover have "wf_dict ?d" using wf_delete [OF wf(1), of k] by (simp add: AList.delete_eq image_iff)
  moreover have "\<And>j x. map_of ?d j = Some x \<Longrightarrow> stored_as x (last_store ke c0 ops j)"
    using assms by (auto simp: cache_inv_def map_add_def stored_as_def simp del: AList.delete_eq split: if_splits option.splits)
  ultimately show ?thesis using assms by (auto simp: cache_inv_def tc_hit_def Let_def same_settings_def simp del: AList.delete_eq)
qed

lemma cache_inv_cong:
  "cache_inv ke c0 ops c \<Longrightarrow> tc_entries c' = tc_entries c \<Longrightarrow> tc_max c' = tc_max c \<Longrightarrow> same_settings c0 c'
    \<Longrightarrow> (\<And>k. last_store ke c0 ops' k = last_store ke c0 ops k) \<Longrightarrow> cache_inv ke c0 ops' c'"
  by (simp add: cache_inv_def)


lemma cache_inv_get: "cache_inv ke c0 ops c \<Longrightarrow> cache_inv ke c0 (Get now tool args # ops) (snd (tc_get ke now tool args c))"
proof -
  assume inv: "cache_inv ke c0 ops c"
  let ?k = "make_key ke tool args"
  have shift: "cache_inv ke c0 (Get now tool args # ops) c'" if "cache_inv ke c0 ops c'" for c'
    using that by (simp add: cache_inv_def)
  have missed: "cache_inv ke c0 ops (c'\<lparr>tc_misses := n\<rparr>)" if "cache_inv ke c0 ops c'" for c' n
    using that by (auto simp: cache_inv_def same_settings_def)
  show ?thesis
    using inv cache_inv_evict [OF inv, of ?k] cache_inv_hit [OF inv, of ?k]
    by (auto simp: tc_get_def Let_def intro!: shift missed split: option.splits prod.splits)
qed

lemma cache_inv_put:
  assumes "cache_inv ke c0 ops c" "0 < tc_max c" "is_cacheable tool c0" "k = make_key ke tool args"
  shows "cache_inv ke c0 (Set now tool args r ttl # ops) (after_put k (new_entry now tool args r ttl c) c)"
proof -
  let ?n = "Suc (length (tc_entries c)) - nat (tc_max c)" and ?e = "new_entry now tool args r ttl c"
  have inv: "cache_inv ke c0 ops (evicted ?n c)" by (rule cache_inv_evicted [OF assms(1)])
  have e: "?e = new_entry now tool args r ttl c0" using assms(1) by (simp add: cache_inv_def same_settings_def new_entry_def)
  have wf: "wf_dict (drop ?n (tc_entries c))" using assms(1) by (simp add: cache_inv_def wf_drop)
  have "int (length (AList.update k ?e (drop ?n (tc_entries c)))) \<le> tc_max c"
    using assms(1,2) unfolding length_update by (auto simp: cache_inv_def)
  moreover have "wf_dict (AList.update k ?e (drop ?n (tc_entries c)))" using wf by (rule wf_update)
  moreover have "stored_as x (last_store ke c0 (Set now tool args r ttl # ops) j)"
    if "map_of (AList.update k ?e (drop ?n (tc_entries c))) j = Some x" for j x
  proof (cases "j = k")
    case True
    with that assms(3,4) e show ?thesis by simp
  next
    case False
    with that inv assms(3,4) show ?thesis by (auto simp: cache_inv_def)
  qed
  ultimately show ?thesis using assms(1,2)
    by (simp add: cache_inv_def after_put_def Let_def same_settings_def evicted_def)
qed

lemma cache_inv_set:
  assumes "cache_inv ke c0 ops c" "tc_set ke now tool args r ttl c = Some c'"
  shows "cache_inv ke c0 (Set now tool args r ttl # ops) c'"
proof (cases "is_cacheable tool c0")
  case True
  have wf: "wf_dict (tc_entries c)" "same_settings c0 c" using assms(1) by (simp_all add: cache_inv_def)
  with assms(2) True have "0 < tc_max c" "c' = after_put (make_key ke tool args) (new_entry now tool args r ttl c) c"
    by (auto simp: tc_set_def put_entry_eq same_settings_cacheable split: if_splits)
  with cache_inv_put [OF assms(1) _ True refl] show ?thesis by simp
next
  case False
  with assms have "c' = c" by (auto simp: tc_set_def cache_inv_def same_settings_cacheable)
  with assms(1) False show ?thesis by (simp add: cache_inv_def)
qed

lemma tc_evict_gone: "map_of (tc_entries (tc_evict k c)) j = (if j = k then None else map_of (tc_entries c) j)"
  by (cases "map_of (tc_entries c) k") (simp_all add: tc_evict_def map_of_eq_None_iff [symmetric])

lemma fold_evict:
  "cache_inv ke c0 ops c \<Longrightarrow> cache_inv ke c0 ops (fold tc_evict ks c)
    \<and> map_of (tc_entries (fold tc_evict ks c)) j = (if j \<in> set ks then None else map_of (tc_entries c) j)"
proof (induction ks arbitrary: c)
  case (Cons k ks)
  from Cons.IH [OF cache_inv_evict [OF Cons.prems]] show ?case by (simp add: tc_evict_gone)
qed simp

lemma cache_inv_invalidate:
  assumes inv: "cache_inv ke c0 ops c"
  shows "cache_inv ke c0 (Invalidate t # ops) (snd (tc_invalidate t c))"
proof (cases t)
  case None
  with assms show ?thesis by (auto simp: tc_invalidate_def cache_inv_def same_settings_def)
next
  case (Some u)
  let ?ks = "keys (filter (\<lambda>(k, e). ce_tool e = u) (tc_entries c))"
  have "stored_as e (last_store ke c0 (Invalidate (Some u) # ops) j)"
    if e: "map_of (tc_entries (fold tc_evict ?ks c)) j = Some e" for j e
  proof -
    from e fold_evict [OF inv, of ?ks j] have "j \<notin> set ?ks" "map_of (tc_entries c) j = Some e"
      by (auto split: if_splits)
    moreover from this have "ce_tool e \<noteq> u" by (force dest: map_of_SomeD)
    ultimately show ?thesis using inv stored_as_tool by (fastforce simp: cache_inv_def)
  qed
  with fold_evict [OF inv, of ?ks] Some show ?thesis
    by (simp add: tc_invalidate_def cache_inv_def Let_def)
qed


lemma cache_inv_resize:
  assumes "cache_inv ke c0 ops c" "tc_resize n c = Some (m, c')"
  shows "cache_inv ke c0 (Resize n # ops) c'"
proof -
  have wf: "wf_dict (tc_entries (c\<lparr>tc_max := n\<rparr>))" using assms(1) by (simp add: cache_inv_def)
  with assms(2) have "0 \<le> n" "c' = evicted (length (tc_entries c) - nat n) (c\<lparr>tc_max := n\<rparr>)"
    by (cases "0 \<le> n"; simp add: tc_resize_def shrink_returns shrink_loops)+
  moreover from this assms(1) have "\<And>k e. map_of (tc_entries c') k = Some e \<Longrightarrow> stored_as e (last_store ke c0 ops k)"
    by (auto simp: cache_inv_def dest: map_of_drop)
  ultimately show ?thesis using assms(1) by (auto simp: cache_inv_def wf_drop same_settings_def evicted_def)
qed

lemma cache_run_inv: "cache_run ke ops (tc_init m ttl a n) = Some c \<Longrightarrow> cache_inv ke (tc_init m ttl a n) ops c"
proof (induction ops arbitrary: c)
  case Nil
  then show ?case by (auto simp: cache_inv_def same_settings_def tc_init_def)
next
  case (Cons op ops)
  then obtain c1 where c1: "cache_run ke ops (tc_init m ttl a n) = Some c1" "cache_step ke op c1 = Some c"
    by (auto split: option.splits)
  from Cons.IH [OF c1(1)] have inv: "cache_inv ke (tc_init m ttl a n) ops c1" .
  show ?case
  proof (cases op)
    case (Get now tool args)
    with c1(2) have "c = snd (tc_get ke now tool args c1)" by (simp add: cache_step_def)
    with Get cache_inv_get [OF inv] show ?thesis by simp
  next
    case (Set now tool args r t)
    with c1(2) cache_inv_set [OF inv] show ?thesis by (simp add: cache_step_def)
  next
    case (Invalidate t)
    with c1(2) have "c = snd (tc_invalidate t c1)" by (simp add: cache_step_def)
    with Invalidate cache_inv_invalidate [OF inv] show ?thesis by simp
  next
    case (Resize k)
    with c1(2) obtain j where "tc_resize k c1 = Some (j, c)" by (auto simp: cache_step_def)
    with Resize cache_inv_resize [OF inv] show ?thesis by simp
  qed
qed

lemma set_is_found:
  fixes c :: "'r cache"
  assumes "cache_run ke (Set s tool args r t # ops) (tc_init m ttl a n) = Some c"
    and "is_cacheable tool (tc_init m ttl a n :: 'r cache)"
  shows "map_of (tc_entries c) (make_key ke tool args) = Some (new_entry s tool args r t (tc_init m ttl a n))"
proof -
  let ?c0 = "tc_init m ttl a n :: 'r cache"
  obtain c1 where c1: "cache_run ke ops ?c0 = Some c1" "tc_set ke s tool args r t c1 = Some c"
    using assms(1) by (auto simp: cache_step_def split: option.splits)
  have inv: "wf_dict (tc_entries c1)" "same_settings ?c0 c1" using cache_run_inv [OF c1(1)] by (simp_all add: cache_inv_def)
  have "is_cacheable tool c1" using assms(2) same_settings_cacheable [OF inv(2)] by simp
  moreover have "new_entry s tool args r t c1 = new_entry s tool args r t ?c0"
    using inv(2) unfolding same_settings_def new_entry_def by metis
  ultimately have "c = after_put (make_key ke tool args) (new_entry s tool args r t ?c0) c1"
    using c1(2) inv(1) by (simp add: tc_set_def put_entry_eq split: if_splits)
  then show ?thesis by (simp add: after_put_def Let_def)
qed

text \<open>C8. After any history of lookups, stores, invalidations and changes of the limit, a lookup answers only with the
  last entry stored under its key and not invalidated since, and only while that entry is within its time to live;
  it does find the entry when the store was the last operation. The cache never grows past its limit.\<close>

theorem cache_serves_last_store:
  fixes m ttl a n
  defines "c0 \<equiv> tc_init m ttl a n"
  assumes "cache_run ke ops c0 = Some c" "tc_get ke now tool args c = (x, c')"
  shows "int (length (tc_entries c')) \<le> max 0 (tc_max c')
    \<and> (case x of
         Some e \<Rightarrow> is_cacheable tool c0 \<and> stored_as e (last_store ke c0 ops (make_key ke tool args)) \<and> fresh now e
       | None \<Rightarrow> \<forall>s tool' args' r t older. ops = Set s tool' args' r t # older \<longrightarrow> is_cacheable tool' c0 \<longrightarrow>
           make_key ke tool' args' = make_key ke tool args \<longrightarrow> is_cacheable tool c0 \<longrightarrow>
           ttl_or t ttl < now - s)"
proof -
  let ?k = "make_key ke tool args"
  have inv: "cache_inv ke c0 ops c" using cache_run_inv assms(2) unfolding c0_def .
  then have cacheable: "is_cacheable tool c = is_cacheable tool c0"
    by (simp add: cache_inv_def same_settings_cacheable)
  have "cache_inv ke c0 (Get now tool args # ops) c'" using cache_inv_get [OF inv, of now tool args] assms(3) by simp
  then have "int (length (tc_entries c')) \<le> max 0 (tc_max c')" by (simp add: cache_inv_def)
  moreover have "is_cacheable tool c0 \<and> stored_as e (last_store ke c0 ops ?k) \<and> fresh now e" if "x = Some e" for e
    using assms(3) that inv unfolding cacheable [symmetric]
    by (auto simp: tc_get_def Let_def tc_hit_def fresh_def cache_inv_def stored_as_def split: if_splits option.splits)
  moreover have "ttl_or t ttl < now - s" if "x = None" "ops = Set s tool' args' r t # older" "is_cacheable tool' c0"
      "make_key ke tool' args' = ?k" "is_cacheable tool c0" for s tool' args' r t older
  proof -
    have "map_of (tc_entries c) ?k = Some (new_entry s tool' args' r t c0)"
      using set_is_found assms(2) that(2,3,4) unfolding c0_def by metis
    moreover have "ce_cached_at (new_entry s tool' args' r t c0) = s" "ce_ttl (new_entry s tool' args' r t c0) = ttl_or t ttl"
      by (simp_all add: new_entry_def c0_def tc_init_def)
    ultimately show ?thesis using assms(3) that(1,5) unfolding cacheable [symmetric]
      by (auto simp: tc_get_def Let_def split: if_splits prod.splits)
  qed
  ultimately show ?thesis by (auto split: option.split)
qed

definition one_key :: key_env where
  "one_key = \<lparr>ke_str = (\<lambda>_. []), ke_dumps = (\<lambda>_. []), ke_sha256 = (\<lambda>_. ''b'')\<rparr>"

theorem cache_serves_last_store_witness:
  "\<exists>c e c'. cache_run one_key [Set 0 ''read'' [] (2::nat) None] (tc_init 2 300 None None) = Some c
     \<and> tc_get one_key 9 ''read'' [] c = (Some e, c') \<and> ce_result e = 2"
proof -
  let ?c0 = "tc_init 2 300 None None :: nat cache" and ?op = "Set 0 ''read'' [] (2::nat) None"
  have tool: "is_cacheable ''read'' ?c0"
    by (simp add: is_cacheable_def tc_init_def tools_or_def DEFAULT_CACHEABLE_TOOLS_def DEFAULT_NON_CACHEABLE_TOOLS_def)
  have "tc_entries ?c0 = []" "0 < tc_max ?c0" by (simp_all add: tc_init_def)
  with tool have run: "cache_run one_key [?op] ?c0 = Some (after_put (make_key one_key ''read'' []) (new_entry 0 ''read'' [] 2 None ?c0) ?c0)"
    by (simp add: cache_step_def tc_set_def put_entry_eq)
  obtain x c' where get: "tc_get one_key 9 ''read'' [] (after_put (make_key one_key ''read'' []) (new_entry 0 ''read'' [] 2 None ?c0) ?c0) = (x, c')"
    by (metis surj_pair)
  note served = cache_serves_last_store [OF run get]
  have "x \<noteq> None"
  proof
    assume "x = None"
    from served [unfolded this option.case, THEN conjunct2, rule_format, OF refl tool refl tool]
    show False by (simp add: ttl_or_def)
  qed
  then obtain e where e: "x = Some e" by auto
  with served tool have "stored_as e (Some (new_entry 0 ''read'' [] 2 None ?c0))" by simp
  then have "ce_result e = 2" by (simp add: stored_as_result new_entry_def)
  with run get e show ?thesis by blast
qed

end
