(* ===== verification/SingleFlight.thy ===== *)
theory SingleFlight
  imports ToolCache
begin

text \<open>
  Concurrent calls of \<open>ToolResultCache.aget_or_execute\<close>: each coroutine is a program counter, each block under the
  lock one step, and the coroutines are interleaved in any order. A coroutine that finds an execution in flight for its
  key awaits the future of that execution. A coroutine may be cancelled wherever it waits; awaiting a future
  hands the cancellation on to the future, as \<open>asyncio\<close> documents.
\<close>

record request =
  rq_tool :: string
  rq_args :: "(string \<times> json) list"
  rq_ttl :: "rat option"

definition rq_key :: "key_env \<Rightarrow> request \<Rightarrow> string" where
  "rq_key ke r = make_key ke (rq_tool r) (rq_args r)"

datatype 'r fut = Unset | Resolved "'r entry option" | Fut_cancelled

datatype 'r answer = Returned "'r entry option" bool | Raised exn | Was_cancelled

text \<open>Where a coroutine is: before the first block, between the blocks, awaiting the future of a coroutine, executing the
  tool, before the \<open>finally\<close> block, or at its end.\<close>

datatype 'r pc = Begin | Between | Waiting nat | Executing | Cleaning "'r answer" | Ended "'r answer"

text \<open>The future that an executor registers is named by the executor.\<close>

record 'r flights =
  fl_cache :: "'r cache"
  fl_pending :: "string \<rightharpoonup> nat"
  fl_fut :: "nat \<Rightarrow> 'r fut"
  fl_pc :: "nat \<Rightarrow> 'r pc"

subsection \<open>The blocks\<close>

datatype 'r found = Found "'r entry" | Join nat | Nothing

definition join :: "string \<Rightarrow> (string \<rightharpoonup> nat) \<Rightarrow> 'r found" where
  "join k pend = (case pend k of Some f \<Rightarrow> Join f | None \<Rightarrow> Nothing)"

definition first_block :: "rat \<Rightarrow> string \<Rightarrow> (string \<rightharpoonup> nat) \<Rightarrow> 'r cache \<Rightarrow> 'r found \<times> 'r cache" where
  "first_block now k pend c = (case map_of (tc_entries c) k of
     None \<Rightarrow> (join k pend, c)
   | Some e \<Rightarrow> if fresh now e then (case tc_hit k e c of (e, c) \<Rightarrow> (Found e, c)) else (join k pend, tc_evict k c))"

definition second_block ::
  "rat \<Rightarrow> string \<Rightarrow> nat \<Rightarrow> (string \<rightharpoonup> nat) \<Rightarrow> 'r cache \<Rightarrow> 'r found \<times> (string \<rightharpoonup> nat) \<times> 'r cache" where
  "second_block now k i pend c =
     (case (case map_of (tc_entries c) k of None \<Rightarrow> None | Some e \<Rightarrow> if fresh now e then Some e else None) of
        Some e \<Rightarrow> (case tc_hit k e c of (e, c) \<Rightarrow> (Found e, pend, c))
      | None \<Rightarrow>
          (case join k pend of
             Nothing \<Rightarrow> (Nothing, pend(k \<mapsto> i), c\<lparr>tc_misses := Suc (tc_misses c)\<rparr>)
           | x \<Rightarrow> (x, pend, c)))"

definition after_first :: "'r found \<Rightarrow> 'r pc" where
  "after_first x = (case x of Found e \<Rightarrow> Ended (Returned (Some e) True) | Join f \<Rightarrow> Waiting f | Nothing \<Rightarrow> Between)"

definition after_second :: "'r found \<Rightarrow> 'r pc" where
  "after_second x = (case x of Found e \<Rightarrow> Ended (Returned (Some e) True) | Join f \<Rightarrow> Waiting f | Nothing \<Rightarrow> Executing)"

text \<open>The end of an execution: its outcome is stored and the future is resolved. A future that a waiter cancelled
  cannot be resolved any more: \<open>set_result\<close> raises, also in the handler.\<close>

definition invalid_state :: exn where
  "invalid_state = Exn ''InvalidStateError'' ''invalid state''"

definition resolve :: "'r entry option \<Rightarrow> 'r answer \<Rightarrow> 'r fut \<Rightarrow> 'r fut \<times> 'r answer" where
  "resolve x a f = (case f of Unset \<Rightarrow> (Resolved x, a) | _ \<Rightarrow> (f, Raised invalid_state))"

definition ran :: "key_env \<Rightarrow> rat \<Rightarrow> request \<Rightarrow> 'r raising \<Rightarrow> 'r fut \<Rightarrow> 'r cache \<Rightarrow> ('r fut \<times> 'r answer \<times> 'r cache) option" where
  "ran ke now r x f c = (case x of
     Inl e \<Rightarrow> (case resolve None (Raised e) f of (f, a) \<Rightarrow> Some (f, a, c))
   | Inr v \<Rightarrow>
       (let e = new_entry now (rq_tool r) (rq_args r) v (rq_ttl r) c
        in case put_entry (rq_key ke r) e c of
             None \<Rightarrow> None
           | Some c \<Rightarrow> (case resolve (Some e) (Returned (Some e) False) f of (f, a) \<Rightarrow> Some (f, a, c))))"

text \<open>The tool is not cacheable: no shared state is used.\<close>

definition ran_directly :: "rat \<Rightarrow> request \<Rightarrow> 'r raising \<Rightarrow> 'r cache \<Rightarrow> 'r answer" where
  "ran_directly now r x c = (case x of
     Inl e \<Rightarrow> Raised e
   | Inr v \<Rightarrow> Returned (Some (new_entry now (rq_tool r) (rq_args r) v (rq_ttl r) c)) False)"

definition woken :: "'r entry option \<Rightarrow> 'r cache \<Rightarrow> 'r cache" where
  "woken x c = (case x of Some e \<Rightarrow> c\<lparr>tc_hits := Suc (tc_hits c)\<rparr> | None \<Rightarrow> c)"

definition cancel_fut :: "'r fut \<Rightarrow> 'r fut" where
  "cancel_fut f = (case f of Unset \<Rightarrow> Fut_cancelled | _ \<Rightarrow> f)"

abbreviation move :: "'r flights \<Rightarrow> nat \<Rightarrow> 'r pc \<Rightarrow> 'r flights" where
  "move s i p \<equiv> s\<lparr>fl_pc := (fl_pc s)(i := p)\<rparr>"

subsection \<open>The interleaving\<close>

inductive flight :: "key_env \<Rightarrow> (nat \<Rightarrow> request) \<Rightarrow> 'r flights \<Rightarrow> 'r flights \<Rightarrow> bool" for ke rq where
  direct: "fl_pc s i = Begin \<Longrightarrow> \<not> is_cacheable (rq_tool (rq i)) (fl_cache s)
    \<Longrightarrow> flight ke rq s (move s i (Ended (ran_directly now (rq i) x (fl_cache s))))"
| first: "fl_pc s i = Begin \<Longrightarrow> is_cacheable (rq_tool (rq i)) (fl_cache s)
    \<Longrightarrow> first_block now (rq_key ke (rq i)) (fl_pending s) (fl_cache s) = (x, c)
    \<Longrightarrow> flight ke rq s (move (s\<lparr>fl_cache := c\<rparr>) i (after_first x))"
| second: "fl_pc s i = Between \<Longrightarrow> second_block now (rq_key ke (rq i)) i (fl_pending s) (fl_cache s) = (x, pend, c)
    \<Longrightarrow> flight ke rq s (move (s\<lparr>fl_cache := c, fl_pending := pend\<rparr>) i (after_second x))"
| ran: "fl_pc s i = Executing \<Longrightarrow> ran ke now (rq i) x (fl_fut s i) (fl_cache s) = Some (f, a, c)
    \<Longrightarrow> flight ke rq s (move (s\<lparr>fl_cache := c, fl_fut := (fl_fut s)(i := f)\<rparr>) i (Cleaning a))"
| clean: "fl_pc s i = Cleaning a
    \<Longrightarrow> flight ke rq s (move (s\<lparr>fl_pending := (fl_pending s)(rq_key ke (rq i) := None)\<rparr>) i (Ended a))"
| answered: "fl_pc s i = Waiting f \<Longrightarrow> fl_fut s f = Resolved x
    \<Longrightarrow> flight ke rq s (move (s\<lparr>fl_cache := woken x (fl_cache s)\<rparr>) i (Ended (Returned x True)))"
| abandoned: "fl_pc s i = Waiting f \<Longrightarrow> fl_fut s f = Fut_cancelled
    \<Longrightarrow> flight ke rq s (move s i (Ended Was_cancelled))"
| cancel_waiter: "fl_pc s i = Waiting f
    \<Longrightarrow> flight ke rq s (move (s\<lparr>fl_fut := (fl_fut s)(f := cancel_fut (fl_fut s f))\<rparr>) i (Ended Was_cancelled))"
| cancel_executor: "fl_pc s i = Executing \<Longrightarrow> flight ke rq s (move s i (Cleaning Was_cancelled))"
| cancel_early: "fl_pc s i \<in> {Begin, Between} \<Longrightarrow> flight ke rq s (move s i (Ended Was_cancelled))"

definition fl_init :: "'r cache \<Rightarrow> 'r flights" where
  "fl_init c = \<lparr>fl_cache = c, fl_pending = Map.empty, fl_fut = (\<lambda>_. Unset), fl_pc = (\<lambda>_. Begin)\<rparr>"

abbreviation flown :: "key_env \<Rightarrow> (nat \<Rightarrow> request) \<Rightarrow> 'r flights \<Rightarrow> 'r flights \<Rightarrow> bool" where
  "flown ke rq \<equiv> (flight ke rq)\<^sup>*\<^sup>*"

subsection \<open>The invariant\<close>

definition in_flight :: "'r pc \<Rightarrow> bool" where
  "in_flight p \<longleftrightarrow> p = Executing \<or> (\<exists>a. p = Cleaning a)"

definition started :: "'r pc \<Rightarrow> bool" where
  "started p \<longleftrightarrow> p = Executing \<or> (\<exists>a. p = Cleaning a) \<or> (\<exists>a. p = Ended a)"

definition was_cancelled :: "'r pc \<Rightarrow> bool" where
  "was_cancelled p \<longleftrightarrow> p = Cleaning Was_cancelled \<or> p = Ended Was_cancelled"

lemma pc_simps [simp]:
  "in_flight Executing" "in_flight (Cleaning a)" "\<not> in_flight Begin" "\<not> in_flight Between" "\<not> in_flight (Waiting f)"
  "\<not> in_flight (Ended a)" "was_cancelled (Cleaning a) = (a = Was_cancelled)" "was_cancelled (Ended a) = (a = Was_cancelled)"
  "\<not> was_cancelled Executing" "\<not> was_cancelled Begin" "\<not> was_cancelled Between" "\<not> was_cancelled (Waiting f)"
  by (auto simp: in_flight_def was_cancelled_def)

lemma after_simps [simp]:
  "in_flight (after_first x) = False" "in_flight (after_second x) = (x = Nothing)"
  "(after_first x = Waiting f) = (x = Join f)" "(after_second x = Waiting f) = (x = Join f)"
  "(after_second x = Executing) = (x = Nothing)" "after_first x \<noteq> Executing"
  "after_first x \<noteq> Cleaning a" "after_second x \<noteq> Cleaning a"
  by (cases x; simp add: after_first_def after_second_def)+

text \<open>The pending table and the executors agree, and whoever waits, waits for a coroutine of its own key that
  holds an unset future only while it executes or because it was cancelled.\<close>

definition table_inv :: "key_env \<Rightarrow> (nat \<Rightarrow> request) \<Rightarrow> 'r flights \<Rightarrow> bool" where
  "table_inv ke rq s \<longleftrightarrow>
     (\<forall>k i. fl_pending s k = Some i \<longleftrightarrow> in_flight (fl_pc s i) \<and> rq_key ke (rq i) = k)"

definition waiting_inv :: "key_env \<Rightarrow> (nat \<Rightarrow> request) \<Rightarrow> 'r flights \<Rightarrow> bool" where
  "waiting_inv ke rq s \<longleftrightarrow>
     (\<forall>i f. fl_pc s i = Waiting f \<longrightarrow> rq_key ke (rq f) = rq_key ke (rq i)
        \<and> (fl_fut s f = Unset \<longrightarrow> fl_pc s f = Executing \<or> was_cancelled (fl_pc s f)))"

definition cleaning_inv :: "'r flights \<Rightarrow> bool" where
  "cleaning_inv s \<longleftrightarrow> (\<forall>i a. fl_pc s i = Cleaning a \<longrightarrow> fl_fut s i = Unset \<longrightarrow> a = Was_cancelled)"

definition flights_inv :: "key_env \<Rightarrow> (nat \<Rightarrow> request) \<Rightarrow> 'r flights \<Rightarrow> bool" where
  "flights_inv ke rq s \<longleftrightarrow> table_inv ke rq s \<and> waiting_inv ke rq s \<and> cleaning_inv s"

lemma join_simps: "join k pend = Join f \<longleftrightarrow> pend k = Some f" "join k pend = Nothing \<longleftrightarrow> pend k = None"
  by (simp_all add: join_def split: option.splits)

lemma first_block_outcome:
  "first_block now k pend c = (x, c') \<Longrightarrow> x = Join f \<Longrightarrow> pend k = Some f"
  by (auto simp: first_block_def join_simps split: option.splits if_splits prod.splits)

lemma second_block_outcome:
  assumes "second_block now k i pend c = (x, pend', c')"
  shows "(x = Nothing \<longrightarrow> pend k = None \<and> pend' = pend(k \<mapsto> i)) \<and> (x \<noteq> Nothing \<longrightarrow> pend' = pend)
    \<and> (\<forall>f. x = Join f \<longrightarrow> pend k = Some f)"
  using assms by (auto simp: second_block_def join_def split: option.splits if_splits prod.splits)

lemma resolve_outcome: "resolve x a f = (f', a') \<Longrightarrow> f' \<noteq> Unset"
  by (auto simp: resolve_def split: fut.splits)

lemma ran_outcome: "ran ke now r x f c = Some (f', a, c') \<Longrightarrow> f' \<noteq> Unset"
  by (auto simp: ran_def Let_def split: sum.splits option.splits prod.splits dest: resolve_outcome)


lemma flights_inv_init: "flights_inv ke rq (fl_init c)"
  by (simp add: flights_inv_def table_inv_def waiting_inv_def cleaning_inv_def fl_init_def)

lemma cleaning_inv_step: "flight ke rq s s' \<Longrightarrow> cleaning_inv s \<Longrightarrow> cleaning_inv s'"
  by (cases rule: flight.cases)
    (auto simp: cleaning_inv_def cancel_fut_def dest: ran_outcome split: fut.splits if_splits)

lemma table_inv_move:
  assumes "table_inv ke rq s" "fl_pc s' = (fl_pc s)(i := p)" "fl_pending s' = fl_pending s"
    "in_flight p = in_flight (fl_pc s i)"
  shows "table_inv ke rq s'"
  using assms by (auto simp: table_inv_def)

lemma one_executor:
  "table_inv ke rq s \<Longrightarrow> in_flight (fl_pc s i) \<Longrightarrow> in_flight (fl_pc s j) \<Longrightarrow> rq_key ke (rq i) = rq_key ke (rq j) \<Longrightarrow> i = j"
  by (metis table_inv_def option.inject)

lemma table_inv_step:
  assumes "flight ke rq s s'" and inv: "table_inv ke rq s"
  shows "table_inv ke rq s'"
  using assms(1)
proof cases
  case (second i now x pend c)
  show ?thesis
  proof (cases "x = Nothing")
    case True
    with second_block_outcome [OF second(3)] have none: "fl_pending s (rq_key ke (rq i)) = None" and
      pend: "pend = (fl_pending s)(rq_key ke (rq i) \<mapsto> i)" by auto
    from inv none have "\<And>j. in_flight (fl_pc s j) \<Longrightarrow> rq_key ke (rq j) \<noteq> rq_key ke (rq i)"
      by (metis option.distinct(1) table_inv_def)
    with second inv True pend show ?thesis by (auto simp: table_inv_def)
  next
    case False
    with second second_block_outcome [OF second(3)] show ?thesis
      by (intro table_inv_move [OF inv, of s' i "after_second x"]) auto
  qed
next
  case (clean i a)
  then have "in_flight (fl_pc s i)" by simp
  from one_executor [OF inv this] have "\<And>j. in_flight (fl_pc s j) \<Longrightarrow> j \<noteq> i \<Longrightarrow> rq_key ke (rq j) \<noteq> rq_key ke (rq i)"
    by metis
  with clean inv show ?thesis by (auto simp: table_inv_def)
next
  case (cancel_early i)
  then show ?thesis by (intro table_inv_move [OF inv, of s' i "Ended Was_cancelled"]) auto
qed (rule table_inv_move [OF inv], simp, simp, simp)+

lemma joined:
  assumes "table_inv ke rq s" "cleaning_inv s" "fl_pending s k = Some f"
  shows "rq_key ke (rq f) = k \<and> in_flight (fl_pc s f)
    \<and> (fl_fut s f = Unset \<longrightarrow> fl_pc s f = Executing \<or> was_cancelled (fl_pc s f))"
  using assms by (auto simp: table_inv_def cleaning_inv_def in_flight_def)

lemma waiting_inv_move:
  assumes "waiting_inv ke rq s" "fl_pc s' = (fl_pc s)(i := p)"
    and "\<And>f. fl_fut s' f = Unset \<Longrightarrow> fl_fut s f = Unset"
    and "\<And>f. p = Waiting f \<Longrightarrow> fl_pending s (rq_key ke (rq i)) = Some f" "table_inv ke rq s" "cleaning_inv s"
    and "fl_pc s i = Executing \<or> was_cancelled (fl_pc s i) \<Longrightarrow> fl_fut s' i = Unset \<Longrightarrow> p = Executing \<or> was_cancelled p"
    and "\<not> in_flight (fl_pc s i) \<or> (\<forall>f. p \<noteq> Waiting f)"
  shows "waiting_inv ke rq s'"
  unfolding waiting_inv_def
proof (intro allI impI)
  fix j f
  assume w: "fl_pc s' j = Waiting f"
  have j: "rq_key ke (rq f) = rq_key ke (rq j) \<and> (fl_fut s f = Unset \<longrightarrow> fl_pc s f = Executing \<or> was_cancelled (fl_pc s f))"
  proof (cases "j = i")
    case True
    with w assms(2,4) joined [OF assms(5,6)] show ?thesis by simp
  next
    case False
    with w assms(1,2) show ?thesis by (simp add: waiting_inv_def)
  qed
  moreover have "fl_pc s' f = Executing \<or> was_cancelled (fl_pc s' f)" if "fl_fut s' f = Unset"
  proof (cases "f = i")
    case True
    with j that assms(2,3,7) show ?thesis by simp
  next
    case False
    with j that assms(2,3) show ?thesis by simp
  qed
  ultimately show "rq_key ke (rq f) = rq_key ke (rq j) \<and>
      (fl_fut s' f = Unset \<longrightarrow> fl_pc s' f = Executing \<or> was_cancelled (fl_pc s' f))" by blast
qed

lemma waiting_inv_step:
  assumes "flight ke rq s s'" "table_inv ke rq s" "cleaning_inv s" "waiting_inv ke rq s"
  shows "waiting_inv ke rq s'"
proof -
  note move = waiting_inv_move [OF assms(4) _ _ _ assms(2,3)]
  show ?thesis using assms(1)
  proof cases
    case (direct i now x)
    then show ?thesis by (intro move [of s' i "Ended (ran_directly now (rq i) x (fl_cache s))"]) auto
  next
    case (first i now x c)
    with first_block_outcome [OF first(4)] show ?thesis by (intro move [of s' i "after_first x"]) auto
  next
    case (second i now x pend c)
    with second_block_outcome [OF second(3)] show ?thesis by (intro move [of s' i "after_second x"]) auto
  next
    case (ran i now x f a c)
    with ran_outcome [OF ran(3)] show ?thesis by (intro move [of s' i "Cleaning a"]) (auto split: if_splits)
  next
    case (clean i a)
    with assms(3) show ?thesis by (intro move [of s' i "Ended a"]) (auto simp: cleaning_inv_def)
  next
    case (answered i f x)
    then show ?thesis by (intro move [of s' i "Ended (Returned x True)"]) auto
  next
    case (abandoned i f)
    then show ?thesis by (intro move [of s' i "Ended Was_cancelled"]) auto
  next
    case (cancel_waiter i f)
    then show ?thesis
      by (intro move [of s' i "Ended Was_cancelled"]) (auto simp: cancel_fut_def split: fut.splits if_splits)
  next
    case (cancel_executor i)
    then show ?thesis by (intro move [of s' i "Cleaning Was_cancelled"]) auto
  next
    case (cancel_early i)
    then show ?thesis by (intro move [of s' i "Ended Was_cancelled"]) auto
  qed
qed

lemma flights_inv_reachable: "flown ke rq (fl_init c) s \<Longrightarrow> flights_inv ke rq s"
proof (induction rule: rtranclp_induct)
  case base
  show ?case by (rule flights_inv_init)
next
  case (step s s')
  then show ?case
    unfolding flights_inv_def by (blast intro: table_inv_step waiting_inv_step cleaning_inv_step)
qed


subsection \<open>Properties\<close>

text \<open>C3. However the calls are interleaved, at most one coroutine executes the tool for a key. A coroutine that waits,
  waits for one with the same key; as long as the future is unset, that one is still executing or was cancelled,
  so without cancellations every waiter is answered when the execution ends.\<close>

theorem single_flight:
  assumes "flown ke rq (fl_init c) s"
  shows "(fl_pc s i = Executing \<and> fl_pc s j = Executing \<and> rq_key ke (rq i) = rq_key ke (rq j) \<longrightarrow> i = j)
    \<and> (fl_pc s i = Waiting f \<longrightarrow> rq_key ke (rq f) = rq_key ke (rq i)
       \<and> (fl_fut s f = Unset \<longrightarrow> fl_pc s f = Executing \<or> was_cancelled (fl_pc s f)))"
proof -
  have "flights_inv ke rq s" by (rule flights_inv_reachable [OF assms])
  then show ?thesis using one_executor [of ke rq s i j] by (auto simp: flights_inv_def waiting_inv_def)
qed

text \<open>Two requests for one key: the first executes, the second waits for it.\<close>

definition same_request :: "nat \<Rightarrow> request" where
  "same_request i = \<lparr>rq_tool = ''read'', rq_args = [], rq_ttl = None\<rparr>"

abbreviation start_cache :: "nat cache" where
  "start_cache \<equiv> tc_init 2 300 None None"

definition waiting_pair :: "nat flights" where
  "waiting_pair = (fl_init start_cache)\<lparr>fl_cache := start_cache\<lparr>tc_misses := 1\<rparr>,
     fl_pending := [rq_key one_key (same_request 0) \<mapsto> 0], fl_pc := (\<lambda>_. Begin)(0 := Executing, 1 := Waiting 0)\<rparr>"

lemma read_cacheable: "is_cacheable ''read'' (start_cache\<lparr>tc_misses := n\<rparr>)" "is_cacheable ''read'' start_cache"
  by (simp_all add: is_cacheable_def tc_init_def tools_or_def DEFAULT_CACHEABLE_TOOLS_def DEFAULT_NON_CACHEABLE_TOOLS_def)

lemma waiting_pair_reachable: "flown one_key same_request (fl_init start_cache) waiting_pair"
proof -
  let ?k = "rq_key one_key (same_request 0)" and ?c = "start_cache\<lparr>tc_misses := 1\<rparr>"
  let ?s1 = "move (fl_init start_cache) 0 Between"
  let ?s2 = "(fl_init start_cache)\<lparr>fl_cache := ?c, fl_pending := [?k \<mapsto> 0], fl_pc := (\<lambda>_. Begin)(0 := Executing)\<rparr>"
  have none: "tc_entries start_cache = []" "tc_misses start_cache = 0" by (simp_all add: tc_init_def)
  have key: "rq_key one_key (same_request 1) = ?k" by (simp add: same_request_def)
  have "flight one_key same_request (fl_init start_cache) (move ((fl_init start_cache)\<lparr>fl_cache := start_cache\<rparr>) 0 (after_first Nothing))"
    by (rule flight.first [where now = 0])
      (simp_all add: fl_init_def read_cacheable first_block_def join_def none same_request_def)
  then have 1: "flight one_key same_request (fl_init start_cache) ?s1" by (simp add: fl_init_def after_first_def)
  have "flight one_key same_request ?s1 (move (?s1\<lparr>fl_cache := ?c, fl_pending := [?k \<mapsto> 0]\<rparr>) 0 (after_second Nothing))"
    by (rule flight.second [where now = 0]) (simp_all add: fl_init_def second_block_def join_def none)
  then have 2: "flight one_key same_request ?s1 ?s2" by (simp add: fl_init_def after_second_def)
  have "flight one_key same_request ?s2 (move (?s2\<lparr>fl_cache := ?c\<rparr>) 1 (after_first (Join 0)))"
    by (rule flight.first [where now = 0])
      (simp_all add: fl_init_def read_cacheable first_block_def join_def none key [simplified], simp add: same_request_def read_cacheable)
  then have 3: "flight one_key same_request ?s2 waiting_pair" by (simp add: fl_init_def after_first_def waiting_pair_def)
  from 1 2 3 show ?thesis by (meson converse_rtranclp_into_rtranclp rtranclp.rtrancl_refl)
qed

theorem single_flight_witness:
  "rq_key one_key (same_request 0) = rq_key one_key (same_request 1) \<and> fl_pc waiting_pair 1 = Waiting 0"
proof -
  have "fl_pc waiting_pair 1 = Waiting 0" by (simp add: waiting_pair_def)
  with single_flight [OF waiting_pair_reachable, of 1 1 0] show ?thesis by simp
qed

definition orphaned :: "'r flights \<Rightarrow> nat \<Rightarrow> nat \<Rightarrow> bool" where
  "orphaned s i f \<longleftrightarrow> fl_pc s i \<in> {Waiting f, Ended Was_cancelled} \<and> was_cancelled (fl_pc s f)
     \<and> (\<forall>x. fl_fut s f \<noteq> Resolved x)"

lemma orphan_step:
  assumes "flight ke rq s s'" "orphaned s i f"
  shows "orphaned s' i f"
  using assms(1)
  by (cases rule: flight.cases)
    (use assms(2) in \<open>auto simp: orphaned_def cancel_fut_def split: fut.splits if_splits\<close>)

text \<open>A coroutine that waits for an executor which was cancelled is never answered: its future is never resolved,
  so it waits until it, or another coroutine that waits for the same future, is cancelled too.\<close>

theorem cancelled_flight_orphans:
  assumes "flown ke rq s s'" "fl_pc s i = Waiting f" "fl_fut s f = Unset" "was_cancelled (fl_pc s f)"
  shows "fl_pc s' i \<in> {Waiting f, Ended Was_cancelled} \<and> (\<forall>x. fl_fut s' f \<noteq> Resolved x)"
proof -
  have "orphaned s' i f"
    using assms(1)
  proof (induction rule: rtranclp_induct)
    case base
    with assms(2-4) show ?case by (simp add: orphaned_def)
  next
    case (step s1 s2)
    then show ?case by (blast intro: orphan_step)
  qed
  then show ?thesis by (simp add: orphaned_def)
qed

theorem cancelled_flight_orphans_witness:
  "\<exists>s. flown one_key same_request (fl_init start_cache) s \<and> fl_pc s 1 = Waiting 0 \<and> fl_pc s 0 = Ended Was_cancelled
     \<and> (\<nexists>s' e. flown one_key same_request s s' \<and> fl_pc s' 1 = Ended (Returned e True))"
proof -
  let ?s1 = "move waiting_pair 0 (Cleaning Was_cancelled)"
  let ?s2 = "move (?s1\<lparr>fl_pending := (fl_pending ?s1)(rq_key one_key (same_request 0) := None)\<rparr>) 0 (Ended Was_cancelled)"
  have "flight one_key same_request waiting_pair ?s1"
    by (rule flight.cancel_executor) (simp add: waiting_pair_def)
  moreover have "flight one_key same_request ?s1 ?s2" by (rule flight.clean) simp
  ultimately have reach: "flown one_key same_request (fl_init start_cache) ?s2"
    using waiting_pair_reachable by (meson rtranclp.rtrancl_into_rtrancl)
  have at: "fl_pc ?s2 1 = Waiting 0" "fl_fut ?s2 0 = Unset" "fl_pc ?s2 0 = Ended Was_cancelled"
    by (simp_all add: waiting_pair_def fl_init_def)
  have "fl_pc s' 1 \<noteq> Ended (Returned e True)" if "flown one_key same_request ?s2 s'" for s' e
    using cancelled_flight_orphans [OF that at(1,2)] at(3) by (auto simp: was_cancelled_def)
  with reach at show ?thesis by blast
qed

end
