(* ===== verification/TaskQueue.thy ===== *)
theory TaskQueue
  imports Results "HOL-Library.Multiset"
begin

text \<open>
  The task queue and the worker pool of \<open>reliability/queue_worker.py\<close>. A task is an object that the queue, its table of
  identifiers and the workers share, so it is a reference into a heap. The workers are interleaved: what a
  worker does between two points where it may be suspended is one step.
\<close>

subsection \<open>Tasks and the queue\<close>

datatype task_status = PENDING | RUNNING | COMPLETED | FAILED

record 'p task =
  tk_id :: string
  tk_type :: string
  tk_payload :: 'p
  tk_status :: task_status
  tk_priority :: nat

record 'p queue =
  qu_max :: int
  qu_items :: "nat list"
  qu_tasks :: "string \<rightharpoonup> nat"
  qu_heap :: "nat \<Rightarrow> 'p task"

definition tq_init :: "int \<Rightarrow> (nat \<Rightarrow> 'p task) \<Rightarrow> 'p queue" where
  "tq_init maxsize heap = \<lparr>qu_max = maxsize, qu_items = [], qu_tasks = Map.empty, qu_heap = heap\<rparr>"

definition tq_full :: "'p queue \<Rightarrow> bool" where
  "tq_full q \<longleftrightarrow> 0 < qu_max q \<and> qu_max q \<le> int (length (qu_items q))"

definition set_status :: "task_status \<Rightarrow> nat \<Rightarrow> 'p queue \<Rightarrow> 'p queue" where
  "set_status st r q = q\<lparr>qu_heap := (qu_heap q)(r := (qu_heap q r)\<lparr>tk_status := st\<rparr>)\<rparr>"

text \<open>\<open>enqueue\<close>: the task is registered under the lock, then \<open>put\<close> waits for a free place. \<open>None\<close>: it waits.\<close>

definition tq_register :: "nat \<Rightarrow> 'p queue \<Rightarrow> 'p queue" where
  "tq_register r q = (set_status PENDING r q)\<lparr>qu_tasks := (qu_tasks q)(tk_id (qu_heap q r) \<mapsto> r)\<rparr>"

definition tq_put :: "nat \<Rightarrow> 'p queue \<Rightarrow> 'p queue option" where
  "tq_put r q = (if tq_full q then None else Some (q\<lparr>qu_items := qu_items q @ [r]\<rparr>))"

definition tq_enqueue :: "nat \<Rightarrow> 'p queue \<Rightarrow> (nat result \<times> 'p queue) option" where
  "tq_enqueue r q = (case tq_put r (tq_register r q) of None \<Rightarrow> None | Some q \<Rightarrow> Some (Ok r, q))"

definition tq_take :: "'p queue \<Rightarrow> (nat \<times> 'p queue) option" where
  "tq_take q = (case qu_items q of [] \<Rightarrow> None | r # rs \<Rightarrow> Some (r, q\<lparr>qu_items := rs\<rparr>))"

text \<open>\<open>dequeue\<close> without a timeout, or at the moment at which its timeout is decided.\<close>

definition tq_dequeue :: "'p queue \<Rightarrow> nat option result \<times> 'p queue" where
  "tq_dequeue q = (case tq_take q of None \<Rightarrow> (Ok None, q) | Some (r, q) \<Rightarrow> (Ok (Some r), q))"

text \<open>\<open>peek\<close>: the first task and then the rest are moved to a second queue, and everything is put back.\<close>

fun drain :: "'p queue \<Rightarrow> nat list \<Rightarrow> nat list \<Rightarrow> nat list" where
  "drain q [] temp = temp"
| "drain q (r # rs) temp = drain q rs (temp @ [r])"

fun put_back :: "nat list \<Rightarrow> 'p queue \<Rightarrow> 'p queue option" where
  "put_back [] q = Some q"
| "put_back (r # rs) q = (case tq_put r q of None \<Rightarrow> None | Some q \<Rightarrow> put_back rs q)"

definition tq_peek :: "'p queue \<Rightarrow> (nat option result \<times> 'p queue) option" where
  "tq_peek q = (case tq_take q of
     None \<Rightarrow> Some (Ok None, q)
   | Some (r, q) \<Rightarrow>
       (case put_back (drain q (qu_items q) [r]) (q\<lparr>qu_items := []\<rparr>) of
          None \<Rightarrow> None | Some q \<Rightarrow> Some (Ok (Some r), q)))"

definition tq_size :: "'p queue \<Rightarrow> nat result" where
  "tq_size q = Ok (length (qu_items q))"

definition tq_get_task :: "string \<Rightarrow> 'p queue \<Rightarrow> nat option result" where
  "tq_get_task i q = Ok (qu_tasks q i)"

definition tq_update_status :: "string \<Rightarrow> task_status \<Rightarrow> 'p queue \<Rightarrow> nat result \<times> 'p queue" where
  "tq_update_status i st q = (case qu_tasks q i of
     None \<Rightarrow> (Err (''Task not found: '' @ i) (Some ''TASK_NOT_FOUND'') False, q)
   | Some r \<Rightarrow> (Ok r, set_status st r q))"

subsection \<open>First in, first out\<close>

text \<open>What the pool needs of a queue: what is taken comes in the order in which it was put.\<close>

locale fifo =
  fixes put :: "'a \<Rightarrow> 'q \<Rightarrow> 'q option" and take_first :: "'q \<Rightarrow> ('a \<times> 'q) option" and items :: "'q \<Rightarrow> 'a list"
  assumes put_items: "put x q = Some q' \<Longrightarrow> items q' = items q @ [x]"
    and take_none: "take_first q = None \<longleftrightarrow> items q = []"
    and take_items: "take_first q = Some (x, q') \<Longrightarrow> items q = x # items q'"
begin

text \<open>A run of puts (\<open>Some x\<close>) and takes (\<open>None\<close>), with what was put and what was taken.\<close>

fun served :: "'a option list \<Rightarrow> 'q \<Rightarrow> 'a list \<Rightarrow> 'a list \<Rightarrow> 'q \<times> 'a list \<times> 'a list" where
  "served [] q ins outs = (q, ins, outs)"
| "served (Some x # ops) q ins outs =
     (case put x q of None \<Rightarrow> served ops q ins outs | Some q \<Rightarrow> served ops q (ins @ [x]) outs)"
| "served (None # ops) q ins outs =
     (case take_first q of None \<Rightarrow> served ops q ins outs | Some (x, q) \<Rightarrow> served ops q ins (outs @ [x]))"

lemma served_in_order:
  "ins = outs @ items q \<Longrightarrow> served ops q ins outs = (q', ins', outs') \<Longrightarrow> ins' = outs' @ items q'"
proof (induction ops q ins outs rule: served.induct)
  case (2 x ops q ins outs)
  then show ?case by (auto split: option.splits dest: put_items)
next
  case (3 ops q ins outs)
  then show ?case by (auto split: option.splits dest: take_items)
qed simp

end

interpretation tq: fifo tq_put tq_take qu_items
  by unfold_locales (auto simp: tq_put_def tq_take_def split: if_splits list.splits)

lemma drain_eq: "drain q rs temp = temp @ rs"
  by (induction rs arbitrary: temp) auto

lemma put_back_eq:
  "qu_max q \<le> 0 \<or> int (length (qu_items q) + length rs) \<le> qu_max q \<Longrightarrow> put_back rs q = Some (q\<lparr>qu_items := qu_items q @ rs\<rparr>)"
  by (induction rs arbitrary: q) (auto simp: tq_put_def tq_full_def)

lemma peek_eq:
  assumes "qu_max q \<le> 0 \<or> int (length (qu_items q)) \<le> qu_max q"
  shows "tq_peek q = Some (Ok (case qu_items q of [] \<Rightarrow> None | r # _ \<Rightarrow> Some r), q)"
proof (cases "qu_items q")
  case (Cons r rs)
  then have "put_back (r # rs) (q\<lparr>qu_items := []\<rparr>) = Some (q\<lparr>qu_items := r # rs\<rparr>)"
    using assms by (subst put_back_eq) auto
  moreover have "q\<lparr>qu_items := r # rs\<rparr> = q" using Cons by (cases q) simp
  ultimately show ?thesis using Cons by (simp add: tq_peek_def tq_take_def drain_eq del: put_back.simps)
qed (simp add: tq_peek_def tq_take_def)

subsection \<open>Workers\<close>

text \<open>Where a worker is: it polls, it holds a task that it has just dequeued, it is inside the processor, or its loop has
  ended.\<close>

datatype wpc = Polling | Got nat | Busy nat | Stopped

record worker =
  wk_running :: bool
  wk_pc :: wpc
  wk_processed :: nat
  wk_errors :: nat

definition wk_init :: worker where
  "wk_init = \<lparr>wk_running = False, wk_pc = Stopped, wk_processed = 0, wk_errors = 0\<rparr>"

definition wk_start :: "worker \<Rightarrow> unit result \<times> worker" where
  "wk_start w = (if wk_running w then (Err ''Worker already running'' (Some ''ALREADY_RUNNING'') False, w)
     else (Ok (), w\<lparr>wk_running := True, wk_pc := Polling\<rparr>))"

text \<open>The pool: its workers by number, in the order of \<open>_workers\<close>; a worker that is no longer in the list is
  still there. \<open>pl_log\<close>, \<open>pl_taken\<close>, \<open>pl_done\<close> and \<open>pl_lost\<close> record what was put, taken, finished and dropped.\<close>

record 'p pool =
  pl_queue :: "'p queue"
  pl_num :: int
  pl_workers :: "nat list"
  pl_all :: "worker list"
  pl_running :: bool
  pl_in_progress :: int
  pl_log :: "nat list"
  pl_taken :: "nat list"
  pl_done :: "nat list"
  pl_lost :: "nat list"

definition pl_init :: "'p queue \<Rightarrow> int \<Rightarrow> 'p pool" where
  "pl_init q n = \<lparr>pl_queue = q, pl_num = n, pl_workers = [], pl_all = [], pl_running = False, pl_in_progress = 0,
     pl_log = qu_items q, pl_taken = [], pl_done = [], pl_lost = []\<rparr>"

definition set_worker :: "nat \<Rightarrow> worker \<Rightarrow> 'p pool \<Rightarrow> 'p pool" where
  "set_worker i w s = s\<lparr>pl_all := (pl_all s)[i := w]\<rparr>"

text \<open>The steps of \<open>_run_loop\<close> for the worker \<open>i\<close>. The outcome of the processor is \<open>Ok\<close> (\<open>Some True\<close>), an error result
  (\<open>Some False\<close>) or an exception (\<open>None\<close>).\<close>

definition worker_poll :: "nat \<Rightarrow> 'p pool \<Rightarrow> 'p pool" where
  "worker_poll i s =
     (let w = pl_all s ! i
      in if \<not> wk_running w then set_worker i (w\<lparr>wk_pc := Stopped\<rparr>) s
         else (case tq_dequeue (pl_queue s) of
             (Ok (Some r), q) \<Rightarrow> set_worker i (w\<lparr>wk_pc := Got r\<rparr>) (s\<lparr>pl_queue := q, pl_taken := pl_taken s @ [r]\<rparr>)
           | (_, q) \<Rightarrow> s\<lparr>pl_queue := q\<rparr>))"

definition id_of :: "nat \<Rightarrow> 'p pool \<Rightarrow> string" where
  "id_of r s = tk_id (qu_heap (pl_queue s) r)"

definition worker_begin :: "nat \<Rightarrow> nat \<Rightarrow> 'p pool \<Rightarrow> 'p pool" where
  "worker_begin i r s = set_worker i ((pl_all s ! i)\<lparr>wk_pc := Busy r\<rparr>)
     (s\<lparr>pl_queue := snd (tq_update_status (id_of r s) RUNNING (pl_queue s)), pl_in_progress := pl_in_progress s + 1\<rparr>)"

definition worker_end :: "nat \<Rightarrow> nat \<Rightarrow> bool option \<Rightarrow> 'p pool \<Rightarrow> 'p pool" where
  "worker_end i r outcome s =
     (let w = (pl_all s ! i)\<lparr>wk_pc := Polling\<rparr>;
          s = s\<lparr>pl_in_progress := pl_in_progress s - 1, pl_done := pl_done s @ [r]\<rparr>
      in if outcome = Some True
         then set_worker i (w\<lparr>wk_processed := Suc (wk_processed w)\<rparr>)
           (s\<lparr>pl_queue := snd (tq_update_status (id_of r s) COMPLETED (pl_queue s))\<rparr>)
         else set_worker i (w\<lparr>wk_errors := Suc (wk_errors w)\<rparr>)
           (s\<lparr>pl_queue := snd (tq_update_status (id_of r s) FAILED (pl_queue s))\<rparr>))"

text \<open>\<open>AsyncWorker.stop\<close>: the loop is cancelled where it waits. What it holds is not put back, and its status stays.\<close>

definition worker_stop :: "nat \<Rightarrow> 'p pool \<Rightarrow> 'p pool" where
  "worker_stop i s =
     (let w = pl_all s ! i; w' = w\<lparr>wk_running := False, wk_pc := Stopped\<rparr>
      in if \<not> wk_running w then s
         else (case wk_pc w of
             Got r \<Rightarrow> set_worker i w' (s\<lparr>pl_lost := pl_lost s @ [r]\<rparr>)
           | Busy r \<Rightarrow> set_worker i w' (s\<lparr>pl_lost := pl_lost s @ [r], pl_in_progress := pl_in_progress s - 1\<rparr>)
           | _ \<Rightarrow> set_worker i w' s))"

subsection \<open>The pool\<close>

definition add_workers :: "nat \<Rightarrow> 'p pool \<Rightarrow> 'p pool" where
  "add_workers n s = s\<lparr>pl_workers := pl_workers s @ [length (pl_all s)..<length (pl_all s) + n],
     pl_all := pl_all s @ replicate n (snd (wk_start wk_init))\<rparr>"

definition pool_start :: "'p pool \<Rightarrow> unit result \<times> 'p pool" where
  "pool_start s = (if pl_running s then (Ok (), s)
     else (Ok (), (add_workers (nat (pl_num s)) (s\<lparr>pl_workers := []\<rparr>))\<lparr>pl_running := True\<rparr>))"

definition pool_stop :: "'p pool \<Rightarrow> unit result \<times> 'p pool" where
  "pool_stop s = (if \<not> pl_running s then (Ok (), s)
     else (Ok (), (fold worker_stop (pl_workers s) s)\<lparr>pl_workers := [], pl_running := False\<rparr>))"

definition pool_resize :: "int \<Rightarrow> 'p pool \<Rightarrow> unit result \<times> 'p pool" where
  "pool_resize n s =
     (if n < 1 then (Err ''num_workers must be at least 1'' (Some ''INVALID_SIZE'') False, s)
      else (let k = length (pl_workers s)
        in (Ok (), (if int k < n then add_workers (nat n - k) s
              else if n < int k then
                (let stop = drop (nat n) (pl_workers s)
                 in fold worker_stop stop (s\<lparr>pl_workers := take (nat n) (pl_workers s)\<rparr>))
              else s)\<lparr>pl_num := n\<rparr>)))"

record pool_stats =
  ps_processed :: nat
  ps_errors :: nat
  ps_workers :: nat

definition pool_get_stats :: "'p pool \<Rightarrow> pool_stats" where
  "pool_get_stats s =
     \<lparr>ps_processed = sum_list (map (\<lambda>i. wk_processed (pl_all s ! i)) (pl_workers s)),
      ps_errors = sum_list (map (\<lambda>i. wk_errors (pl_all s ! i)) (pl_workers s)), ps_workers = length (pl_workers s)\<rparr>"

definition pool_running_count :: "'p pool \<Rightarrow> nat" where
  "pool_running_count s = length (filter (\<lambda>i. wk_running (pl_all s ! i)) (pl_workers s))"

text \<open>One turn of \<open>wait_for_completion\<close>: the answer, or \<open>None\<close> for another turn.\<close>

definition completion_check :: "rat option \<Rightarrow> rat \<Rightarrow> 'p pool \<Rightarrow> unit result option" where
  "completion_check timeout elapsed s =
     (if tq_size (pl_queue s) = Ok 0 \<and> pl_in_progress s = 0 then Some (Ok ())
      else case timeout of
        Some t \<Rightarrow> if t \<le> elapsed then Some (Err ''Timeout waiting for completion'' (Some ''TIMEOUT'') False) else None
      | None \<Rightarrow> None)"

text \<open>What can happen to a pool: producers register and put tasks, workers advance, and the pool is started, stopped
  and resized.\<close>

inductive pool_step :: "'p pool \<Rightarrow> 'p pool \<Rightarrow> bool" where
  register: "pool_step s (s\<lparr>pl_queue := tq_register r (pl_queue s)\<rparr>)"
| put: "tq_put r (pl_queue s) = Some q \<Longrightarrow> pool_step s (s\<lparr>pl_queue := q, pl_log := pl_log s @ [r]\<rparr>)"
| poll: "i < length (pl_all s) \<Longrightarrow> wk_pc (pl_all s ! i) = Polling \<Longrightarrow> pool_step s (worker_poll i s)"
| begin_task: "i < length (pl_all s) \<Longrightarrow> wk_pc (pl_all s ! i) = Got r \<Longrightarrow> pool_step s (worker_begin i r s)"
| end_task: "i < length (pl_all s) \<Longrightarrow> wk_pc (pl_all s ! i) = Busy r \<Longrightarrow> pool_step s (worker_end i r outcome s)"
| start: "pool_step s (snd (pool_start s))"
| stop: "pool_step s (snd (pool_stop s))"
| resize: "pool_step s (snd (pool_resize n s))"

subsection \<open>Conservation\<close>

definition holds :: "worker \<Rightarrow> nat list" where
  "holds w = (case wk_pc w of Got r \<Rightarrow> [r] | Busy r \<Rightarrow> [r] | _ \<Rightarrow> [])"

definition got :: "worker \<Rightarrow> nat list" where
  "got w = (case wk_pc w of Got r \<Rightarrow> [r] | _ \<Rightarrow> [])"

definition busy :: "worker \<Rightarrow> int" where
  "busy w = (case wk_pc w of Busy r \<Rightarrow> 1 | _ \<Rightarrow> 0)"

definition total :: "(worker \<Rightarrow> 'a) \<Rightarrow> 'p pool \<Rightarrow> 'a::comm_monoid_add" where
  "total g s = sum_list (map g (pl_all s))"

lemma sum_list_list_update:
  "i < length xs \<Longrightarrow> sum_list (map g (xs[i := x])) + g (xs ! i) = sum_list (map g xs) + (g x :: 'a::comm_monoid_add)"
proof (induction xs arbitrary: i)
  case (Cons y ys)
  then show ?case by (cases i) (auto simp: ac_simps)
qed simp

definition pool_inv :: "'p pool \<Rightarrow> bool" where
  "pool_inv s \<longleftrightarrow> mset (pl_taken s) = total (mset \<circ> holds) s + mset (pl_done s) + mset (pl_lost s)
     \<and> pl_in_progress s = total busy s \<and> pl_log s = pl_taken s @ qu_items (pl_queue s)
     \<and> (\<forall>w \<in> set (pl_all s). holds w \<noteq> [] \<longrightarrow> wk_running w) \<and> (\<forall>i \<in> set (pl_workers s). i < length (pl_all s))"

lemma queue_frames [simp]:
  "qu_items (set_status st r q) = qu_items q" "qu_items (tq_register r q) = qu_items q"
  "qu_items (snd (tq_update_status i st q)) = qu_items q"
  by (simp_all add: set_status_def tq_register_def tq_update_status_def split: option.splits)

lemma set_worker_frames [simp]:
  "pl_queue (set_worker i w s) = pl_queue s" "pl_taken (set_worker i w s) = pl_taken s" "pl_done (set_worker i w s) = pl_done s"
  "pl_lost (set_worker i w s) = pl_lost s" "pl_log (set_worker i w s) = pl_log s" "pl_workers (set_worker i w s) = pl_workers s"
  "pl_in_progress (set_worker i w s) = pl_in_progress s" "length (pl_all (set_worker i w s)) = length (pl_all s)"
  by (simp_all add: set_worker_def)

text \<open>A step of one worker: it replaces a worker, and the counts follow.\<close>

lemma pool_inv_worker:
  assumes "pool_inv s" "i < length (pl_all s)" "s' = set_worker i w t" "pl_all t = pl_all s" "pl_workers t = pl_workers s"
    and "pl_log s' = pl_taken s' @ qu_items (pl_queue s')"
    and "mset (pl_taken s') + mset (holds (pl_all s ! i)) + mset (pl_done s) + mset (pl_lost s)
       = mset (pl_taken s) + mset (holds w) + mset (pl_done s') + mset (pl_lost s')"
    and "pl_in_progress s' + busy (pl_all s ! i) = pl_in_progress s + busy w"
    and "holds w \<noteq> [] \<longrightarrow> wk_running w"
  shows "pool_inv s'"
proof -
  have all: "pl_all s' = (pl_all s)[i := w]" "pl_workers s' = pl_workers s" using assms(3-5) by (simp_all add: set_worker_def)
  note held = sum_list_list_update [OF assms(2), of "mset \<circ> holds" w] and busy = sum_list_list_update [OF assms(2), of busy w]
  have "total (mset \<circ> holds) s' + mset (holds (pl_all s ! i)) = total (mset \<circ> holds) s + mset (holds w)"
    using held all(1) by (simp add: total_def)
  moreover have "mset (pl_taken s) = total (mset \<circ> holds) s + mset (pl_done s) + mset (pl_lost s)"
    using assms(1) by (simp add: pool_inv_def)
  ultimately have "mset (pl_taken s') + mset (holds (pl_all s ! i)) + (mset (pl_done s) + mset (pl_lost s)) =
      total (mset \<circ> holds) s' + mset (pl_done s') + mset (pl_lost s') + mset (holds (pl_all s ! i)) + (mset (pl_done s) + mset (pl_lost s))"
    using assms(7) by (simp add: ac_simps)
  then have "mset (pl_taken s') = total (mset \<circ> holds) s' + mset (pl_done s') + mset (pl_lost s')" by simp
  moreover have "pl_in_progress s' = total busy s'"
    using busy assms(1,8) all(1) by (simp add: total_def pool_inv_def)
  moreover have "\<forall>v \<in> set (pl_all s'). holds v \<noteq> [] \<longrightarrow> wk_running v"
    using assms(1,9) all(1) set_update_subset_insert [of "pl_all s" i w] by (auto simp: pool_inv_def)
  ultimately show ?thesis using assms(1,2,6) all by (simp add: pool_inv_def)
qed

lemma wpc_simps [simp]:
  "holds (w\<lparr>wk_pc := p\<rparr>) = (case p of Got r \<Rightarrow> [r] | Busy r \<Rightarrow> [r] | _ \<Rightarrow> [])"
  "holds (w\<lparr>wk_processed := m\<rparr>) = holds w" "holds (w\<lparr>wk_errors := m\<rparr>) = holds w" "holds (w\<lparr>wk_running := b\<rparr>) = holds w"
  "busy (w\<lparr>wk_pc := p\<rparr>) = (case p of Busy r \<Rightarrow> 1 | _ \<Rightarrow> 0)"
  "busy (w\<lparr>wk_processed := m\<rparr>) = busy w" "busy (w\<lparr>wk_errors := m\<rparr>) = busy w" "busy (w\<lparr>wk_running := b\<rparr>) = busy w"
  by (simp_all add: holds_def busy_def)

lemma worker_runs: "pool_inv s \<Longrightarrow> i < length (pl_all s) \<Longrightarrow> holds (pl_all s ! i) \<noteq> [] \<Longrightarrow> wk_running (pl_all s ! i)"
  by (simp add: pool_inv_def)

lemma worker_poll_inv:
  assumes "pool_inv s" "i < length (pl_all s)" "wk_pc (pl_all s ! i) = Polling"
  shows "pool_inv (worker_poll i s)"
proof -
  have idle: "holds (pl_all s ! i) = []" "busy (pl_all s ! i) = 0" using assms(3) by (simp_all add: holds_def busy_def)
  have log: "pl_log s = pl_taken s @ qu_items (pl_queue s)" using assms(1) by (simp add: pool_inv_def)
  show ?thesis
  proof (cases "wk_running (pl_all s ! i)")
    case False
    then have eq: "worker_poll i s = set_worker i ((pl_all s ! i)\<lparr>wk_pc := Stopped\<rparr>) s" by (simp add: worker_poll_def Let_def)
    show ?thesis by (rule pool_inv_worker [OF assms(1,2) eq]) (simp_all add: idle log eq)
  next
    case run: True
    show ?thesis
    proof (cases "tq_take (pl_queue s)")
      case None
      with run show ?thesis using assms(1) by (simp add: worker_poll_def tq_dequeue_def Let_def)
    next
      case (Some x)
      then obtain r q where x: "tq_take (pl_queue s) = Some (r, q)" by (cases x) simp
      with run have eq: "worker_poll i s = set_worker i ((pl_all s ! i)\<lparr>wk_pc := Got r\<rparr>) (s\<lparr>pl_queue := q, pl_taken := pl_taken s @ [r]\<rparr>)"
        by (simp add: worker_poll_def tq_dequeue_def Let_def)
      show ?thesis
        by (rule pool_inv_worker [OF assms(1,2) eq]) (simp_all add: eq idle log run tq.take_items [OF x])
    qed
  qed
qed

lemma worker_begin_inv:
  assumes "pool_inv s" "i < length (pl_all s)" "wk_pc (pl_all s ! i) = Got r"
  shows "pool_inv (worker_begin i r s)"
proof -
  have old: "holds (pl_all s ! i) = [r]" "busy (pl_all s ! i) = 0" using assms(3) by (simp_all add: holds_def busy_def)
  have "pl_log s = pl_taken s @ qu_items (pl_queue s)" using assms(1) by (simp add: pool_inv_def)
  then show ?thesis using worker_runs [OF assms(1,2)] old
    by (intro pool_inv_worker [OF assms(1,2) worker_begin_def]) (simp_all add: worker_begin_def)
qed

lemma worker_end_inv:
  assumes "pool_inv s" "i < length (pl_all s)" "wk_pc (pl_all s ! i) = Busy r"
  shows "pool_inv (worker_end i r outcome s)"
proof -
  have old: "holds (pl_all s ! i) = [r]" "busy (pl_all s ! i) = 1" using assms(3) by (simp_all add: holds_def busy_def)
  have log: "pl_log s = pl_taken s @ qu_items (pl_queue s)" using assms(1) by (simp add: pool_inv_def)
  show ?thesis
    by (cases "outcome = Some True"; unfold worker_end_def Let_def; simp; intro pool_inv_worker [OF assms(1,2) refl])
      (simp_all add: old log assms(3) holds_def busy_def)
qed

lemma worker_stop_inv:
  assumes "pool_inv s" "i < length (pl_all s)"
  shows "pool_inv (worker_stop i s)"
proof (cases "wk_running (pl_all s ! i)")
  case True
  have log: "pl_log s = pl_taken s @ qu_items (pl_queue s)" using assms(1) by (simp add: pool_inv_def)
  show ?thesis
    by (cases "wk_pc (pl_all s ! i)"; simp add: worker_stop_def Let_def True;
        intro pool_inv_worker [OF assms refl]; simp add: log holds_def busy_def)
qed (simp add: worker_stop_def assms(1))

lemma worker_stop_frame:
  "length (pl_all (worker_stop i s)) = length (pl_all s) \<and> pl_workers (worker_stop i s) = pl_workers s"
  by (simp add: worker_stop_def set_worker_def Let_def split: wpc.split)

lemma fold_stop_inv:
  "pool_inv s \<Longrightarrow> \<forall>i \<in> set is. i < length (pl_all s) \<Longrightarrow> pool_inv (fold worker_stop is s)
    \<and> length (pl_all (fold worker_stop is s)) = length (pl_all s)"
proof (induction "is" arbitrary: s)
  case (Cons i "is")
  then show ?case using worker_stop_inv [of s i] worker_stop_frame [of i s] by simp
qed simp

lemma sum_list_replicate_empty: "sum_list (replicate n ({#} :: nat multiset)) = {#}"
  by (induction n) simp_all

lemma add_workers_inv: "pool_inv s \<Longrightarrow> pool_inv (add_workers n s)"
  by (auto simp: sum_list_replicate_empty pool_inv_def add_workers_def total_def sum_list_replicate wk_start_def wk_init_def holds_def busy_def)

lemma pool_inv_cong:
  "pool_inv s \<Longrightarrow> pl_taken s' = pl_taken s \<Longrightarrow> pl_done s' = pl_done s \<Longrightarrow> pl_lost s' = pl_lost s \<Longrightarrow> pl_all s' = pl_all s
    \<Longrightarrow> pl_in_progress s' = pl_in_progress s \<Longrightarrow> pl_log s' = pl_log s \<Longrightarrow> qu_items (pl_queue s') = qu_items (pl_queue s)
    \<Longrightarrow> set (pl_workers s') \<subseteq> set (pl_workers s) \<Longrightarrow> pool_inv s'"
  by (auto simp: pool_inv_def total_def)

lemma pool_step_inv:
  assumes "pool_step s s'" "pool_inv s"
  shows "pool_inv s'"
  using assms
proof (induction rule: pool_step.induct)
  case (register s r)
  then show ?case by (rule pool_inv_cong) simp_all
next
  case (put r s q)
  then show ?case by (auto simp: pool_inv_def total_def dest: tq.put_items)
next
  case (poll i s)
  then show ?case by (intro worker_poll_inv)
next
  case (begin_task i s r)
  then show ?case by (intro worker_begin_inv)
next
  case (end_task i s r outcome)
  then show ?case by (intro worker_end_inv)
next
  case (start s)
  then have "pool_inv (s\<lparr>pl_workers := []\<rparr>)" by (auto intro: pool_inv_cong)
  then have "pool_inv (add_workers (nat (pl_num s)) (s\<lparr>pl_workers := []\<rparr>))" by (rule add_workers_inv)
  with start show ?case by (auto simp: pool_start_def intro: pool_inv_cong)
next
  case (stop s)
  then have "\<forall>i \<in> set (pl_workers s). i < length (pl_all s)" by (simp add: pool_inv_def)
  with stop have "pool_inv (fold worker_stop (pl_workers s) s)" by (rule fold_stop_inv [THEN conjunct1])
  with stop show ?case by (auto simp: pool_stop_def intro: pool_inv_cong)
next
  case (resize s n)
  let ?s = "s\<lparr>pl_workers := take (nat n) (pl_workers s)\<rparr>"
  have "pool_inv ?s" using resize by (rule pool_inv_cong) (auto dest: in_set_takeD)
  moreover have "\<forall>i \<in> set (drop (nat n) (pl_workers s)). i < length (pl_all ?s)"
    using resize by (auto simp: pool_inv_def dest: in_set_dropD)
  ultimately have less: "pool_inv (fold worker_stop (drop (nat n) (pl_workers s)) ?s)" by (rule fold_stop_inv [THEN conjunct1])
  have num: "pool_inv (t\<lparr>pl_num := m\<rparr>)" if "pool_inv t" for t :: "'a pool" and m
    using that by (rule pool_inv_cong) simp_all
  show ?case unfolding pool_resize_def Let_def
    by (simp add: resize num less add_workers_inv)
qed


subsection \<open>Properties\<close>

lemma pool_inv_reachable:
  assumes "pool_step\<^sup>*\<^sup>* (pl_init (tq_init m heap) n) s"
  shows "pool_inv s"
  using assms
proof (induction rule: rtranclp_induct)
  case base
  show ?case by (simp add: pool_inv_def pl_init_def tq_init_def total_def)
next
  case (step s s')
  then show ?case by (blast intro: pool_step_inv)
qed

lemma total_mset: "total (mset \<circ> f) s = mset (concat (map f (pl_all s)))"
  unfolding total_def by (induction "pl_all s" rule: list.induct) (simp_all add: mset_concat comp_def)

lemma busy_zero:
  assumes "sum_list (map busy ws) = 0" "w \<in> set ws"
  shows "holds w = got w"
proof -
  have "\<And>x. x \<in> set (map busy ws) \<Longrightarrow> 0 \<le> x" by (auto simp: busy_def split: wpc.splits)
  with assms have "busy w = 0" using sum_list_nonneg_eq_0_iff [of "map busy ws"] by auto
  then show ?thesis by (cases "wk_pc w") (simp_all add: busy_def holds_def got_def)
qed

text \<open>C2. In every interleaving of producers, workers, starts, stops and resizes, tasks are taken in the order in which they
  were put, and a task that was taken is in exactly one place, as often as it was taken: held by one worker,
  finished, or dropped by a worker that was stopped. The count of tasks in progress is the number of workers inside
  the processor. When \<open>wait_for_completion\<close> answers \<open>Ok\<close>, every task that was put is finished or dropped,
  or was just dequeued by a worker that has not begun it.\<close>

theorem pool_conserves_tasks:
  assumes "pool_step\<^sup>*\<^sup>* (pl_init (tq_init m heap) n) s"
  shows "pl_log s = pl_taken s @ qu_items (pl_queue s)
    \<and> mset (pl_taken s) = mset (concat (map holds (pl_all s))) + mset (pl_done s) + mset (pl_lost s)
    \<and> pl_in_progress s = int (length (filter (\<lambda>w. \<exists>r. wk_pc w = Busy r) (pl_all s)))
    \<and> (completion_check t e s = Some (Ok ()) \<longrightarrow>
         mset (pl_log s) = mset (concat (map got (pl_all s))) + mset (pl_done s) + mset (pl_lost s))"
proof -
  have inv: "pool_inv s" by (rule pool_inv_reachable [OF assms])
  then have taken: "mset (pl_taken s) = mset (concat (map holds (pl_all s))) + mset (pl_done s) + mset (pl_lost s)"
    and log: "pl_log s = pl_taken s @ qu_items (pl_queue s)" and prog: "pl_in_progress s = sum_list (map busy (pl_all s))"
    unfolding pool_inv_def total_mset by (simp_all add: total_def)
  have "sum_list (map busy ws) = int (length (filter (\<lambda>w. \<exists>r. wk_pc w = Busy r) ws))" for ws
    by (induction ws) (auto simp: busy_def split: wpc.splits)
  with prog have count: "pl_in_progress s = int (length (filter (\<lambda>w. \<exists>r. wk_pc w = Busy r) (pl_all s)))" by simp
  have "mset (pl_log s) = mset (concat (map got (pl_all s))) + mset (pl_done s) + mset (pl_lost s)"
    if "completion_check t e s = Some (Ok ())"
  proof -
    from that have "qu_items (pl_queue s) = []" "pl_in_progress s = 0"
      by (auto simp: completion_check_def tq_size_def split: if_splits option.splits)
    then have "map holds (pl_all s) = map got (pl_all s)" and "pl_log s = pl_taken s"
      using busy_zero [of "pl_all s"] prog log by auto
    with taken show ?thesis by simp
  qed
  with taken log count show ?thesis by blast
qed


text \<open>The race that the last part leaves: a pool of one worker that has just dequeued the only task. The check of
  \<open>wait_for_completion\<close> already answers \<open>Ok\<close>, and the task is still \<open>PENDING\<close>.\<close>

definition one_task :: "nat \<Rightarrow> unit task" where
  "one_task r = \<lparr>tk_id = ''t'', tk_type = ''x'', tk_payload = (), tk_status = PENDING, tk_priority = 0\<rparr>"

theorem pool_conserves_tasks_witness:
  "\<exists>s. pool_step\<^sup>*\<^sup>* (pl_init (tq_init 0 one_task) 1) s \<and> completion_check None 0 s = Some (Ok ())
     \<and> pl_log s = [0] \<and> pl_done s = [] \<and> pl_lost s = [] \<and> concat (map got (pl_all s)) = [0]"
proof -
  let ?s0 = "pl_init (tq_init 0 one_task) 1"
  let ?s1 = "snd (pool_start ?s0)"
  let ?q = "(pl_queue ?s1)\<lparr>qu_items := qu_items (pl_queue ?s1) @ [0]\<rparr>"
  let ?s2 = "?s1\<lparr>pl_queue := ?q, pl_log := pl_log ?s1 @ [0]\<rparr>"
  let ?s3 = "worker_poll 0 ?s2"
  note defs = pool_start_def pl_init_def tq_init_def add_workers_def wk_start_def wk_init_def
  have "pool_step ?s0 ?s1" by (rule pool_step.start)
  moreover have "pool_step ?s1 ?s2" by (rule pool_step.put) (simp add: tq_put_def tq_full_def defs)
  moreover have "pool_step ?s2 ?s3" by (rule pool_step.poll) (simp_all add: defs)
  ultimately have reach: "pool_step\<^sup>*\<^sup>* ?s0 ?s3" by (meson converse_rtranclp_into_rtranclp rtranclp.rtrancl_refl)
  have s3: "pl_log ?s3 = [0]" "pl_done ?s3 = []" "pl_lost ?s3 = []" "completion_check None 0 ?s3 = Some (Ok ())"
    by (simp_all add: defs worker_poll_def tq_dequeue_def tq_take_def Let_def set_worker_def completion_check_def tq_size_def)
  with pool_conserves_tasks [OF reach, of None 0] have "mset (concat (map got (pl_all ?s3))) = mset [0]" by simp
  then have "concat (map got (pl_all ?s3)) = [0]" by (metis mset_single_iff_right mset.simps(1,2) add_mset_add_single)
  with reach s3 show ?thesis by blast
qed

end
