(* ===== verification/Texts.thy ===== *)
theory Texts
  imports Prelude "HOL-Library.Sublist"
begin

text \<open>
  The operations on texts the components use: \<open>str.lower\<close>, \<open>str.strip\<close>, \<open>sub in text\<close> and
  \<open>sep.join\<close>. A text is a list of characters with code points below 256 (Latin-1); on these
  the definitions agree with Python.
\<close>

definition lower_char :: "char \<Rightarrow> char" where
  "lower_char c =
     (let n = of_char c :: nat
      in if 65 \<le> n \<and> n \<le> 90 \<or> 192 \<le> n \<and> n \<le> 222 \<and> n \<noteq> 215 then char_of (n + 32) else c)"

definition str_lower :: "string \<Rightarrow> string" where
  "str_lower s = map lower_char s"

definition is_space :: "char \<Rightarrow> bool" where
  "is_space c = (let n = of_char c :: nat
     in 9 \<le> n \<and> n \<le> 13 \<or> 28 \<le> n \<and> n \<le> 32 \<or> n = 133 \<or> n = 160)"

definition str_strip :: "string \<Rightarrow> string" where
  "str_strip s = rev (dropWhile is_space (rev (dropWhile is_space s)))"

definition contains :: "string \<Rightarrow> string \<Rightarrow> bool" where
  "contains sub s = sublist sub s"

fun str_join :: "string \<Rightarrow> string list \<Rightarrow> string" where
  "str_join sep [] = []"
| "str_join sep [x] = x"
| "str_join sep (x # y # zs) = x @ sep @ str_join sep (y # zs)"

lemma contains_simps [simp]:
  "contains [] s" "contains (x # xs) [] = False"
  "contains (x # xs) (y # ys) \<longleftrightarrow> prefix (x # xs) (y # ys) \<or> contains (x # xs) ys"
  by (auto simp: contains_def sublist_Cons_right)

lemma contains_append: "contains s (a @ s @ b)"
  by (simp add: contains_def)

lemma containsE:
  assumes "contains s t"
  obtains a b where "t = a @ s @ b"
  using assms by (auto simp: contains_def sublist_def)

lemma str_lower_append [simp]: "str_lower (a @ b) = str_lower a @ str_lower b"
  by (simp add: str_lower_def)

lemma str_strip_empty_iff: "str_strip s = [] \<longleftrightarrow> list_all is_space s"
proof -
  have drop: "dropWhile is_space t = [] \<longleftrightarrow> list_all is_space t" for t
    by (induction t) auto
  have all: "list_all is_space (dropWhile is_space s) \<longleftrightarrow> list_all is_space s"
    by (induction s) auto
  show ?thesis
    unfolding str_strip_def rev_is_Nil_conv drop list_all_rev by (rule all)
qed

text \<open>A word without a separator that occurs in a text occurs in one of its pieces.\<close>

lemma prefix_before: "prefix s (a @ c # b) \<Longrightarrow> c \<notin> set s \<Longrightarrow> prefix s a"
proof (induction a arbitrary: s)
  case Nil
  then show ?case by (cases s) auto
next
  case (Cons x a)
  then show ?case by (cases s) auto
qed

lemma contains_split:
  assumes "contains s (a @ c # b)" "c \<notin> set s"
  shows "contains s a \<or> contains s b"
  using assms(1)
proof (induction a)
  case Nil
  with assms(2) show ?case by (cases s) auto
next
  case (Cons x a)
  show ?case
  proof (cases "prefix s ((x # a) @ c # b)")
    case True
    from prefix_before [OF True assms(2)] have "prefix s (x # a)" .
    then show ?thesis by (simp add: contains_def)
  next
    case False
    with Cons show ?thesis by (cases s) auto
  qed
qed

lemma not_contains_split:
  "c \<notin> set s \<Longrightarrow> \<not> contains s a \<Longrightarrow> \<not> contains s b \<Longrightarrow> \<not> contains s (a @ c # b)"
  using contains_split by blast

lemma str_strip_id:
  assumes "s \<noteq> []" "\<not> is_space (hd s)" "\<not> is_space (last s)"
  shows "str_strip s = s"
proof -
  have keep: "t \<noteq> [] \<Longrightarrow> \<not> is_space (hd t) \<Longrightarrow> dropWhile is_space t = t" for t
    by (cases t) auto
  show ?thesis
    using keep [OF assms(1,2)] keep [of "rev s"] assms by (simp add: str_strip_def hd_rev)
qed

end
