(* ===== verification/AgentRegistry.thy ===== *)
theory AgentRegistry
  imports Storage Texts "HOL-Library.Multiset"
begin

text \<open>
  The agent definitions of \<open>agents/builtin.py\<close> and their registry, \<open>agents/registry.py\<close>: lookup that
  ignores case, seeding with the agents of the plugins at the first lookup, and persistence of custom
  agents in one file each. A file that does not hold the fields of an agent is \<open>None\<close>; the JSON codec is
  not modelled. What \<open>load_agents\<close> of \<open>core/plugin_discovery.py\<close> finds is an argument.
\<close>

declare map_of_eq_Some_iff [simp del] Some_eq_map_of_iff [simp del]

subsection \<open>Agents\<close>

record agent =
  ag_name :: string
  ag_description :: string
  ag_mode :: string
  ag_permission :: "(string \<times> string) list list"
  ag_native :: bool
  ag_hidden :: bool
  ag_top_p :: "rat option"
  ag_temperature :: "rat option"
  ag_color :: "string option"
  ag_model :: "(string \<times> string) list option"
  ag_prompt :: "string option"
  ag_options :: "dict option"
  ag_steps :: "int option"
  ag_allowed_tools :: "string list option"
  ag_denied_tools :: "string list option"

text \<open>What \<open>_persist_agent\<close> writes, as \<open>Agent(**data)\<close> reads it back: the two tool lists are not written.\<close>

definition persisted :: "agent \<Rightarrow> agent" where
  "persisted a = a\<lparr>ag_allowed_tools := None, ag_denied_tools := None\<rparr>"

text \<open>What a plugin entry point gives: an agent, its configuration wrapper, a built result, or a function
  that returns one of them or raises.\<close>

datatype plugin_value = Plain_agent agent | Agent_config agent | Built_ok agent | Unusable
datatype plugin = Plugin_value plugin_value | Plugin_factory "plugin_value raising"

definition agent_of_value :: "plugin_value \<Rightarrow> agent option" where
  "agent_of_value v = (case v of Plain_agent a \<Rightarrow> Some a | Agent_config a \<Rightarrow> Some a | Built_ok a \<Rightarrow> Some a
     | Unusable \<Rightarrow> None)"

definition load_agent_from_plugin :: "plugin \<Rightarrow> agent option" where
  "load_agent_from_plugin p = (case p of
     Plugin_value v \<Rightarrow> agent_of_value v
   | Plugin_factory (Inr v) \<Rightarrow> agent_of_value v
   | Plugin_factory (Inl e) \<Rightarrow> None)"

subsection \<open>The registry\<close>

record agent_registry =
  ar_persistence :: bool
  ar_storage_dir :: bool
  ar_agents :: "(string \<times> agent) list"
  ar_seeded :: bool
  ar_files :: "(string \<times> agent option) list"

definition normalize_name :: "string \<Rightarrow> string" where
  "normalize_name n = str_strip (str_lower n)"

definition register_internal :: "agent \<Rightarrow> (string \<times> agent) list \<Rightarrow> (string \<times> agent) list" where
  "register_internal a d = AList.update (normalize_name (ag_name a)) a d"

definition seed_one :: "string \<times> plugin \<Rightarrow> (string \<times> agent) list \<Rightarrow> (string \<times> agent) list" where
  "seed_one p d = (case load_agent_from_plugin (snd p) of None \<Rightarrow> d | Some a \<Rightarrow> register_internal a d)"

type_synonym plugins = "(string \<times> plugin) list raising"

definition seed_builtin_agents :: "plugins \<Rightarrow> agent_registry \<Rightarrow> agent_registry" where
  "seed_builtin_agents ps r =
     (if ar_seeded r then r
      else case ps of
        Inl e \<Rightarrow> r
      | Inr ps \<Rightarrow> r\<lparr>ar_agents := fold seed_one ps (ar_agents r), ar_seeded := True\<rparr>)"

definition ensure_seeded :: "plugins \<Rightarrow> agent_registry \<Rightarrow> agent_registry" where
  "ensure_seeded ps r = (if \<not> ar_seeded r then seed_builtin_agents ps r else r)"

text \<open>\<open>_initialize_persistence\<close>: the files in the order in which the directory lists them.\<close>

definition load_file :: "string \<times> agent option \<Rightarrow> (string \<times> agent) list \<Rightarrow> (string \<times> agent) list" where
  "load_file f d = (case snd f of
     None \<Rightarrow> d
   | Some a \<Rightarrow> (case map_of d (normalize_name (ag_name a)) of
       Some old \<Rightarrow> if ag_native old then d else register_internal a d
     | None \<Rightarrow> register_internal a d))"

definition ar_init :: "bool \<Rightarrow> bool \<Rightarrow> (string \<times> agent option) list \<Rightarrow> agent_registry" where
  "ar_init persistence dir files =
     \<lparr>ar_persistence = persistence, ar_storage_dir = dir,
      ar_agents = (if persistence \<and> dir then fold load_file files [] else []), ar_seeded = False, ar_files = files\<rparr>"

text \<open>\<open>_persist_agent\<close>; \<open>io\<close> is what opening and writing the file raises, if anything.\<close>

definition persist_agent :: "exn option \<Rightarrow> agent \<Rightarrow> agent_registry \<Rightarrow> exn option \<times> agent_registry" where
  "persist_agent io a r =
     (if \<not> ar_storage_dir r then (Some (Exn ''RuntimeError'' ''storage_dir is required for persistence''), r)
      else case io of
        Some e \<Rightarrow> (Some e, r)
      | None \<Rightarrow> (None, r\<lparr>ar_files := AList.update (ag_name a) (Some (persisted a)) (ar_files r)\<rparr>))"

definition overwrite_error :: "agent \<Rightarrow> exn" where
  "overwrite_error a = Exn ''ValueError'' (''Cannot overwrite built-in agent: '' @ ag_name a)"

definition register_agent :: "exn option \<Rightarrow> agent \<Rightarrow> agent_registry \<Rightarrow> agent raising \<times> agent_registry" where
  "register_agent io a r =
     (let k = normalize_name (ag_name a)
      in if (case map_of (ar_agents r) k of Some old \<Rightarrow> ag_native old | None \<Rightarrow> False)
         then (Inl (overwrite_error a), r)
         else let r1 = r\<lparr>ar_agents := register_internal a (ar_agents r)\<rparr>
              in if ar_persistence r \<and> \<not> ag_native a
                 then (case persist_agent io a r1 of
                     (Some e, r2) \<Rightarrow> (Inl e, r2\<lparr>ar_agents := AList.delete k (ar_agents r2)\<rparr>)
                   | (None, r2) \<Rightarrow> (Inr a, r2))
                 else (Inr a, r1))"

definition get_agent :: "plugins \<Rightarrow> string \<Rightarrow> agent_registry \<Rightarrow> agent option \<times> agent_registry" where
  "get_agent ps name r =
     (let r = ensure_seeded ps r in (map_of (ar_agents r) (normalize_name name), r))"

definition list_agents :: "plugins \<Rightarrow> bool \<Rightarrow> agent_registry \<Rightarrow> agent list \<times> agent_registry" where
  "list_agents ps include_hidden r =
     (let r = ensure_seeded ps r; agents = map snd (ar_agents r)
      in (if include_hidden then agents else filter (\<lambda>a. \<not> ag_hidden a) agents, r))"

definition remove_error :: "string \<Rightarrow> exn" where
  "remove_error name = Exn ''ValueError'' (''Cannot remove built-in agent: '' @ name)"

definition remove_agent :: "string \<Rightarrow> agent_registry \<Rightarrow> bool raising \<times> agent_registry" where
  "remove_agent name r =
     (let k = normalize_name name
      in case map_of (ar_agents r) k of
           None \<Rightarrow> (Inr False, r)
         | Some a \<Rightarrow>
             if ag_native a then (Inl (remove_error name), r)
             else let r1 = r\<lparr>ar_agents := AList.delete k (ar_agents r)\<rparr>
                  in (Inr True,
                      if ar_persistence r \<and> ar_storage_dir r
                      then r1\<lparr>ar_files := AList.delete (ag_name a) (ar_files r1)\<rparr> else r1))"

definition has_agent :: "string \<Rightarrow> agent_registry \<Rightarrow> bool" where
  "has_agent name r \<longleftrightarrow> map_of (ar_agents r) (normalize_name name) \<noteq> None"

subsection \<open>What the operations keep\<close>

text \<open>Every agent is registered under its normalized name, and each name and file occurs once.\<close>

definition ar_wf :: "agent_registry \<Rightarrow> bool" where
  "ar_wf r \<longleftrightarrow> wf_dict (ar_agents r) \<and> wf_dict (ar_files r)
     \<and> (\<forall>k a. map_of (ar_agents r) k = Some a \<longrightarrow> k = normalize_name (ag_name a))"

definition named :: "(string \<times> agent) list \<Rightarrow> bool" where
  "named d \<longleftrightarrow> wf_dict d \<and> (\<forall>k a. map_of d k = Some a \<longrightarrow> k = normalize_name (ag_name a))"

lemma ar_wf_named: "ar_wf r \<longleftrightarrow> named (ar_agents r) \<and> wf_dict (ar_files r)"
  by (auto simp: ar_wf_def named_def)

lemma named_register [inv_intros]: "named d \<Longrightarrow> named (register_internal a d)"
  by (auto simp: named_def register_internal_def wf_update)

lemma named_delete [inv_intros]: "named d \<Longrightarrow> named (AList.delete k d)"
  by (auto simp: named_def wf_delete split: if_splits)

lemma named_seed_one [inv_intros]: "named d \<Longrightarrow> named (seed_one p d)"
  by (auto simp: seed_one_def intro: named_register split: option.splits)

lemma named_load_file [inv_intros]: "named d \<Longrightarrow> named (load_file f d)"
  by (auto simp: load_file_def intro: named_register split: option.splits)

lemma named_fold: "(\<And>x d. named d \<Longrightarrow> named (f x d)) \<Longrightarrow> named d \<Longrightarrow> named (fold f xs d)"
  by (induction xs arbitrary: d) auto

lemma named_Nil [simp]: "named []"
  by (simp add: named_def)

lemma ar_wf_seeded [inv_intros]: "ar_wf r \<Longrightarrow> ar_wf (ensure_seeded ps r)"
  by (auto simp: ensure_seeded_def seed_builtin_agents_def ar_wf_named split: sum.splits
      intro: named_fold named_seed_one)

datatype ar_op = Register_agent "exn option" agent | Get_agent string | List_agents bool | Remove_agent string

fun ar_do :: "plugins \<Rightarrow> ar_op \<Rightarrow> agent_registry \<Rightarrow> agent_registry" where
  "ar_do ps (Register_agent io a) r = snd (register_agent io a r)"
| "ar_do ps (Get_agent name) r = snd (get_agent ps name r)"
| "ar_do ps (List_agents hidden) r = snd (list_agents ps hidden r)"
| "ar_do ps (Remove_agent name) r = snd (remove_agent name r)"

lemma ar_wf_register [inv_intros]: "ar_wf r \<Longrightarrow> ar_wf (snd (register_agent io a r))"
  by (auto simp: register_agent_def persist_agent_def Let_def ar_wf_named split: option.splits prod.splits
      intro: named_register named_delete wf_update)

lemma ar_wf_remove [inv_intros]: "ar_wf r \<Longrightarrow> ar_wf (snd (remove_agent name r))"
  by (auto simp: remove_agent_def Let_def ar_wf_named split: option.splits intro: named_delete wf_delete)

lemma ar_wf_do [inv_intros]: "ar_wf r \<Longrightarrow> ar_wf (ar_do ps op r)"
  by (cases op) (auto simp: get_agent_def list_agents_def Let_def intro: inv_intros)

lemma ar_wf_init: "wf_dict files \<Longrightarrow> ar_wf (ar_init persistence dir files)"
  by (auto simp: ar_init_def ar_wf_named intro: named_fold named_load_file)

text \<open>Once the registry is seeded, nothing reaches a built-in agent.\<close>

definition holds_native :: "string \<Rightarrow> agent \<Rightarrow> agent_registry \<Rightarrow> bool" where
  "holds_native k a r \<longleftrightarrow> ar_seeded r \<and> map_of (ar_agents r) k = Some a \<and> ag_native a"

lemma native_register: "holds_native k a r \<Longrightarrow> holds_native k a (snd (register_agent io b r))"
  by (auto simp: holds_native_def register_agent_def register_internal_def persist_agent_def Let_def
      split: option.splits prod.splits)

lemma native_remove: "holds_native k a r \<Longrightarrow> holds_native k a (snd (remove_agent name r))"
  by (auto simp: holds_native_def remove_agent_def Let_def split: option.splits)

lemma native_do: "holds_native k a r \<Longrightarrow> holds_native k a (ar_do ps op r)"
proof (cases op)
  case (Register_agent io b)
  then show "holds_native k a r \<Longrightarrow> ?thesis" by (simp add: native_register)
next
  case (Remove_agent name)
  then show "holds_native k a r \<Longrightarrow> ?thesis" by (simp add: native_remove)
qed (simp_all add: get_agent_def list_agents_def Let_def ensure_seeded_def holds_native_def)

lemma native_run: "holds_native k a r \<Longrightarrow> holds_native k a (fold (ar_do ps) ops r)"
  by (induction ops arbitrary: r) (auto intro: native_do)

text \<open>Built-in agents are protected: once a registry is seeded, a native agent that it holds stays what it is
  whatever agents are registered, looked up and removed afterwards, it is found under every spelling of its
  name, and replacing or removing it raises a \<open>ValueError\<close> and changes nothing.\<close>

theorem registry_protects_builtins:
  assumes "ar_seeded r" "map_of (ar_agents r) (normalize_name name) = Some a" "ag_native a"
    and "normalize_name (ag_name b) = normalize_name name"
    and "r' = fold (ar_do ps) ops r"
  shows "get_agent ps name r' = (Some a, r') \<and> remove_agent name r' = (Inl (remove_error name), r')
    \<and> register_agent io b r' = (Inl (overwrite_error b), r')"
proof -
  from assms(1-3) have "holds_native (normalize_name name) a r'"
    unfolding assms(5) by (intro native_run) (simp add: holds_native_def)
  with assms(4) show ?thesis
    by (simp add: holds_native_def get_agent_def ensure_seeded_def remove_agent_def register_agent_def Let_def)
qed

definition example_agent :: "string \<Rightarrow> bool \<Rightarrow> agent" where
  "example_agent name native = \<lparr>ag_name = name, ag_description = ''d'', ag_mode = ''primary'', ag_permission = [],
     ag_native = native, ag_hidden = False, ag_top_p = None, ag_temperature = None, ag_color = None,
     ag_model = None, ag_prompt = None, ag_options = None, ag_steps = None, ag_allowed_tools = None,
     ag_denied_tools = Some [''bash'']\<rparr>"

lemma normalize_examples:
  "normalize_name ''build'' = ''build''" "normalize_name '' Build '' = ''build''" "normalize_name ''mine'' = ''mine''"
  by code_simp+

theorem registry_protects_builtins_witness:
  "\<exists>r'. get_agent (Inl (Exn [] [])) '' Build '' r' = (Some (example_agent ''build'' True), r')
     \<and> register_agent None (example_agent ''build'' False) r' = (Inl (overwrite_error (example_agent ''build'' False)), r')"
proof -
  let ?r = "(ar_init False False [])\<lparr>ar_agents := [(''build'', example_agent ''build'' True)], ar_seeded := True\<rparr>"
  have "map_of (ar_agents ?r) (normalize_name '' Build '') = Some (example_agent ''build'' True)"
    "normalize_name (ag_name (example_agent ''build'' False)) = normalize_name '' Build ''"
    by (simp_all add: normalize_examples example_agent_def)
  from registry_protects_builtins [OF _ this(1) _ this(2) refl, of "Inl (Exn [] [])" "[Remove_agent ''build'']" None]
  show ?thesis by (auto simp: example_agent_def)
qed

subsection \<open>Lookup after registration\<close>

text \<open>The agent that seeding leaves under a name: the last plugin with this name wins.\<close>

definition plugin_agent :: "plugins \<Rightarrow> string \<Rightarrow> agent option" where
  "plugin_agent ps k = (case ps of Inl e \<Rightarrow> None
     | Inr ps \<Rightarrow> map_of (rev (concat (map (\<lambda>p. case load_agent_from_plugin (snd p) of
         None \<Rightarrow> [] | Some a \<Rightarrow> [(normalize_name (ag_name a), a)]) ps))) k)"

lemma map_of_seeding:
  "map_of (fold seed_one ps d) k = (case plugin_agent (Inr ps) k of Some a \<Rightarrow> Some a | None \<Rightarrow> map_of d k)"
proof (induction ps arbitrary: d)
  case Nil
  show ?case by (simp add: plugin_agent_def)
next
  case (Cons p ps)
  have "map_of (seed_one p d) k = (case load_agent_from_plugin (snd p) of None \<Rightarrow> map_of d k
      | Some a \<Rightarrow> if k = normalize_name (ag_name a) then Some a else map_of d k)"
    by (simp add: seed_one_def register_internal_def split: option.splits)
  then show ?case
    unfolding fold_simps comp_apply Cons.IH
    by (auto simp: plugin_agent_def map_add_def split: option.splits)
qed

lemma register_InrD:
  assumes "register_agent io a r = (Inr b, r')"
  shows "b = a \<and> ar_agents r' = register_internal a (ar_agents r) \<and> ar_seeded r' = ar_seeded r
    \<and> (ar_persistence r \<and> \<not> ag_native a \<longrightarrow> ar_storage_dir r
        \<and> ar_files r' = AList.update (ag_name a) (Some (persisted a)) (ar_files r))"
  using assms by (auto simp: register_agent_def persist_agent_def Let_def split: if_splits prod.splits option.splits)

text \<open>An agent that was registered is found under every spelling of its name, with one exception: a registry
  that was not looked at before is seeded by the lookup, and a plugin with this name replaces the agent that was
  just registered, custom or not.\<close>

theorem registry_lookup:
  assumes "register_agent io a r = (Inr b, r')" "normalize_name name = normalize_name (ag_name a)"
  shows "fst (get_agent ps name r')
    = (if ar_seeded r then Some a
       else case plugin_agent ps (normalize_name name) of Some p \<Rightarrow> Some p | None \<Rightarrow> Some a)"
proof -
  note r' = register_InrD [OF assms(1)]
  then have "map_of (ar_agents r') (normalize_name name) = Some a"
    using assms(2) by (simp add: register_internal_def)
  then show ?thesis
    using r' by (cases ps) (auto simp: get_agent_def ensure_seeded_def seed_builtin_agents_def map_of_seeding Let_def
        plugin_agent_def split: option.splits)
qed

theorem registry_lookup_witness:
  "fst (get_agent (Inr [(''build'', Plugin_value (Plain_agent (example_agent ''build'' True)))]) '' Build ''
     (snd (register_agent None (example_agent ''build'' False) (ar_init False False []))))
   = Some (example_agent ''build'' True)"
proof -
  have reg: "register_agent None (example_agent ''build'' False) (ar_init False False [])
      = (Inr (example_agent ''build'' False), snd (register_agent None (example_agent ''build'' False) (ar_init False False [])))"
    by (simp add: register_agent_def ar_init_def)
  show ?thesis
    by (subst registry_lookup [OF reg])
      (simp_all add: normalize_examples example_agent_def ar_init_def plugin_agent_def load_agent_from_plugin_def
        agent_of_value_def)
qed

subsection \<open>Restart\<close>

definition file_key :: "string \<times> agent option \<Rightarrow> string option" where
  "file_key f = map_option (\<lambda>a. normalize_name (ag_name a)) (snd f)"

lemma load_other: "file_key f \<noteq> Some k \<Longrightarrow> map_of (load_file f d) k = map_of d k"
  by (auto simp: load_file_def file_key_def register_internal_def split: option.splits)

lemma load_others: "\<forall>f \<in> set fs. file_key f \<noteq> Some k \<Longrightarrow> map_of (fold load_file fs d) k = map_of d k"
  by (induction fs arbitrary: d) (simp_all add: load_other)

lemma load_only:
  assumes "fs = us @ (n, Some a) # vs" "k = normalize_name (ag_name a)"
    and "\<forall>f \<in> set us \<union> set vs. file_key f \<noteq> Some k"
  shows "map_of (fold load_file fs []) k = Some a"
proof -
  let ?d = "fold load_file us []"
  have "map_of ?d k = None" using load_others [of us k "[]"] assms(3) by simp
  then have "map_of (load_file (n, Some a) ?d) k = Some a"
    using assms(2) by (simp add: load_file_def register_internal_def)
  moreover have "map_of (fold load_file vs (load_file (n, Some a) ?d)) k = map_of (load_file (n, Some a) ?d) k"
    using assms(3) by (intro load_others) simp
  ultimately show ?thesis unfolding assms(1) by simp
qed

lemma update_other: "f \<in> set (AList.update k v d) \<Longrightarrow> fst f \<noteq> k \<Longrightarrow> f \<in> set d"
  by (induction d) (auto split: if_splits)

text \<open>A custom agent survives a restart: when it was registered with persistence, and no other file holds an agent
  of the same name up to case and blanks, a registry made later from the files, in whatever order the directory
  lists them, holds it with every field except its two tool lists: the restrictions on its tools are lost.\<close>

theorem agent_survives_restart:
  assumes "register_agent io a r = (Inr b, r')" "ar_persistence r" "\<not> ag_native a" "wf_dict (ar_files r)"
    and "\<forall>f \<in> set (ar_files r). file_key f = Some (normalize_name (ag_name a)) \<longrightarrow> fst f = ag_name a"
    and "mset listing = mset (ar_files r')"
  shows "map_of (ar_agents (ar_init True True listing)) (normalize_name (ag_name a))
    = Some (a\<lparr>ag_allowed_tools := None, ag_denied_tools := None\<rparr>)"
proof -
  let ?k = "normalize_name (ag_name a)" and ?e = "(ag_name a, Some (persisted a))"
  from register_InrD [OF assms(1)] assms(2,3)
  have files: "ar_files r' = AList.update (ag_name a) (Some (persisted a)) (ar_files r)" by auto
  have set: "set listing = set (ar_files r')" using assms(6) by (metis set_mset_mset)
  have dist: "wf_dict listing"
  proof -
    have "mset (keys listing) = mset (keys (ar_files r'))" using assms(6) by simp
    moreover have "wf_dict (ar_files r')" unfolding files by (rule wf_update [OF assms(4)])
    ultimately show ?thesis by (metis mset_eq_imp_distinct_iff)
  qed
  have "map_of (ar_files r') (ag_name a) = Some (Some (persisted a))" by (simp add: files)
  then have mem: "?e \<in> set listing" unfolding set by (rule map_of_SomeD)
  then obtain us vs where split: "listing = us @ ?e # vs" by (meson split_list)
  have "file_key f \<noteq> Some ?k" if f: "f \<in> set us \<union> set vs" for f
  proof
    assume key: "file_key f = Some ?k"
    have "fst f \<in> fst ` set us \<union> fst ` set vs" using f by blast
    moreover have "ag_name a \<notin> fst ` set us \<union> fst ` set vs" using dist unfolding split by simp
    ultimately have ne: "fst f \<noteq> ag_name a" by metis
    have "f \<in> set listing" using f unfolding split by auto
    then have up: "f \<in> set (AList.update (ag_name a) (Some (persisted a)) (ar_files r))"
      unfolding set files .
    from bspec [OF assms(5) update_other [OF up ne]] key have "fst f = ag_name a" by (rule mp)
    with ne show False by (rule notE)
  qed
  then have "map_of (fold load_file listing []) ?k = Some (persisted a)"
    by (intro load_only [OF split]) (auto simp: persisted_def)
  then show ?thesis by (simp add: ar_init_def persisted_def)
qed

theorem agent_survives_restart_witness:
  "map_of (ar_agents (ar_init True True [(''mine'', Some (persisted (example_agent ''mine'' False)))])) ''mine''
   = Some ((example_agent ''mine'' False)\<lparr>ag_allowed_tools := None, ag_denied_tools := None\<rparr>)"
proof -
  let ?r = "ar_init True True []"
  have "register_agent None (example_agent ''mine'' False) ?r
      = (Inr (example_agent ''mine'' False), snd (register_agent None (example_agent ''mine'' False) ?r))"
    by (simp add: register_agent_def ar_init_def persist_agent_def Let_def example_agent_def)
  from agent_survives_restart [OF this, of "[(''mine'', Some (persisted (example_agent ''mine'' False)))]"]
  show ?thesis
    by (simp add: ar_init_def example_agent_def normalize_examples register_agent_def persist_agent_def Let_def)
qed

end
