(* ===== verification/Policies.thy ===== *)
theory Policies
  imports Mediators Texts
begin

text \<open>
  The policy engine package: the contracts of \<open>policy/contracts.py\<close>, the engines of
  \<open>policy/engine.py\<close>, \<open>rules_policy.py\<close>, \<open>plan_execute_policy.py\<close>, \<open>react_policy.py\<close>,
  \<open>fsm_bridge.py\<close> and \<open>router_policy.py\<close>, the proposal validator of \<open>policy/validator.py\<close>, the
  harness gate of \<open>policy/invariants.py\<close> and the action dispatcher of \<open>policy/actions.py\<close>. The locale
  \<open>proposer\<close> is what the agent runtime relies on: an engine that always answers, with a proposal that
  validator and gate let through. It is interpreted on every engine.

  Quotients of budgets are exact. A double rounds them to the nearest, which leaves every comparison
  with a threshold as it is while the budgets stay below \<open>2 ^ 50\<close>.
\<close>

subsection \<open>Contracts\<close>

datatype risk_level = LOW | MED | HIGH

definition risk_value :: "risk_level \<Rightarrow> string" where
  "risk_value r = (case r of LOW \<Rightarrow> ''LOW'' | MED \<Rightarrow> ''MED'' | HIGH \<Rightarrow> ''HIGH'')"

datatype edit_operation = Op_replace | Op_insert | Op_append | Op_delete

datatype action =
    Read_file string "int option" "int option"
  | Search_repo string "string option" int
  | Edit_file string edit_operation "string option" "int option" "int option"
  | Run_tests string "string option" "string list"
  | Upsert_todos "(string \<times> json) list list" "string list"
  | Request_approval string "string list" "rat option"
  | Summarize string int "string list"

definition action_type :: "action \<Rightarrow> string" where
  "action_type a = (case a of
     Read_file _ _ _ \<Rightarrow> ''READ_FILE'' | Search_repo _ _ _ \<Rightarrow> ''SEARCH_REPO''
   | Edit_file _ _ _ _ _ \<Rightarrow> ''EDIT_FILE'' | Run_tests _ _ _ \<Rightarrow> ''RUN_TESTS''
   | Upsert_todos _ _ \<Rightarrow> ''UPSERT_TODOS'' | Request_approval _ _ _ \<Rightarrow> ''REQUEST_APPROVAL''
   | Summarize _ _ _ \<Rightarrow> ''SUMMARIZE'')"

datatype level = High | Medium | Low

definition level_value :: "level \<Rightarrow> string" where
  "level_value p = (case p of High \<Rightarrow> ''high'' | Medium \<Rightarrow> ''medium'' | Low \<Rightarrow> ''low'')"

datatype request_type = Rq_file | Rq_symbol | Rq_search | Rq_dependency | Rq_history | Rq_custom

record context_request =
  cr_type :: request_type
  cr_query :: string
  cr_scope :: "string list"
  cr_priority :: level
  cr_rationale :: string

datatype evidence_type =
  File_modified | Test_passed | Build_succeeded | Manual_review | Inference | Other_evidence

record completion_claim =
  cl_todo_id :: string
  cl_evidence_type :: evidence_type
  cl_evidence_summary :: string
  cl_evidence_refs :: "string list"
  cl_confidence :: rat
  cl_verification_hints :: string

datatype todo_status = Pending | In_progress | Completed | Blocked | Skipped

record todo_item =
  td_id :: string
  td_description :: string
  td_status :: todo_status
  td_priority :: level
  td_dependencies :: "string list"

datatype event_outcome = Ev_success | Ev_failure | Ev_pending | Ev_skipped

record event_summary =
  es_event_type :: string
  es_timestamp :: string
  es_summary :: string
  es_outcome :: event_outcome

record budget_info =
  bi_max_iterations :: int
  bi_max_tool_calls :: int
  bi_max_wall_time :: rat
  bi_max_subagent_calls :: int
  bi_iterations :: int
  bi_tool_calls :: int
  bi_wall_time :: rat
  bi_subagent_calls :: int

definition default_budget :: budget_info where
  "default_budget = \<lparr>bi_max_iterations = 100, bi_max_tool_calls = 1000, bi_max_wall_time = 3600,
     bi_max_subagent_calls = 50, bi_iterations = 0, bi_tool_calls = 0, bi_wall_time = 0, bi_subagent_calls = 0\<rparr>"

datatype constraint_type = Ct_permission | Ct_tool_restriction | Ct_file_pattern | Ct_time_limit | Ct_custom

datatype severity = Hard | Soft

record constraint =
  ct_type :: constraint_type
  ct_value :: string
  ct_description :: string
  ct_severity :: severity

record policy_input =
  pi_goal :: string
  pi_todos :: "todo_item list"
  pi_events :: "event_summary list"
  pi_granted_context :: "(string \<times> json) list"
  pi_budgets :: budget_info
  pi_constraints :: "constraint list"

definition mk_input :: "string \<Rightarrow> policy_input" where
  "mk_input goal = \<lparr>pi_goal = goal, pi_todos = [], pi_events = [], pi_granted_context = [],
     pi_budgets = default_budget, pi_constraints = []\<rparr>"

record step_proposal =
  sp_intent :: string
  sp_target_todo_ids :: "string list"
  sp_requested_context :: "context_request list"
  sp_actions :: "action list"
  sp_completion_claims :: "completion_claim list"
  sp_risk_level :: risk_level
  sp_notes :: string

definition mk_proposal :: "string \<Rightarrow> step_proposal" where
  "mk_proposal intent = \<lparr>sp_intent = intent, sp_target_todo_ids = [], sp_requested_context = [],
     sp_actions = [], sp_completion_claims = [], sp_risk_level = LOW, sp_notes = []\<rparr>"

definition get_action_types :: "step_proposal \<Rightarrow> string list" where
  "get_action_types p = map action_type (sp_actions p)"

definition has_high_risk_actions :: "step_proposal \<Rightarrow> bool" where
  "has_high_risk_actions p =
     list_ex (\<lambda>a. action_type a \<in> {''EDIT_FILE'', ''RUN_TESTS'', ''REQUEST_APPROVAL''}) (sp_actions p)"

subsection \<open>The engines without state\<close>

type_synonym engine = "policy_input \<Rightarrow> step_proposal raising"

definition default_propose :: engine where
  "default_propose i = Inr (mk_proposal ''No action proposed'')"

definition react_propose :: engine where
  "react_propose i = Inr (mk_proposal ''No action proposed'')"

definition fsm_propose :: engine where
  "fsm_propose i = Inr (mk_proposal ''FSM-based action (not yet wired)'')"

text \<open>Both the rules and the plan engine look for the first pending TODO of the highest priority:
  \<open>list.sort\<close> is stable, and so is \<open>sort_key\<close>.\<close>

definition priority_rank :: "level \<Rightarrow> nat" where
  "priority_rank p = (case p of High \<Rightarrow> 0 | Medium \<Rightarrow> 1 | Low \<Rightarrow> 2)"

definition first_pending :: "todo_item list \<Rightarrow> todo_item option" where
  "first_pending ts =
     (let pending = filter (\<lambda>t. td_status t = Pending) ts
      in if pending = [] then None else Some (hd (sort_key (\<lambda>t. priority_rank (td_priority t)) pending)))"

definition plan_propose :: engine where
  "plan_propose i = (case first_pending (pi_todos i) of
     None \<Rightarrow> Inr ((mk_proposal ''No pending TODOs - awaiting plan generation'')
       \<lparr>sp_notes := ''No pending TODOs available. Plan generation will be added in future iteration.''\<rparr>)
   | Some t \<Rightarrow> Inr ((mk_proposal (''Execute TODO: '' @ td_description t))
       \<lparr>sp_target_todo_ids := [td_id t],
        sp_notes := ''Minimal proposal targeting TODO '' @ CHR 0x27 # td_id t @ CHR 0x27 # '' (priority: ''
                    @ level_value (td_priority t) @ '')''\<rparr>))"

subsection \<open>The rules engine\<close>

definition budget_spent :: "budget_info \<Rightarrow> bool" where
  "budget_spent b \<longleftrightarrow> bi_max_iterations b \<le> bi_iterations b \<or> bi_max_tool_calls b \<le> bi_tool_calls b
     \<or> bi_max_wall_time b \<le> bi_wall_time b \<or> bi_max_subagent_calls b \<le> bi_subagent_calls b"

definition at_critical :: "rat \<Rightarrow> rat \<Rightarrow> bool" where
  "at_critical used limit \<longleftrightarrow> 0 < limit \<and> 9 / 10 \<le> used / limit"

definition budget_critical :: "budget_info \<Rightarrow> bool" where
  "budget_critical b \<longleftrightarrow> at_critical (of_int (bi_iterations b)) (of_int (bi_max_iterations b))
     \<or> at_critical (of_int (bi_tool_calls b)) (of_int (bi_max_tool_calls b))
     \<or> at_critical (bi_wall_time b) (bi_max_wall_time b)
     \<or> at_critical (of_int (bi_subagent_calls b)) (of_int (bi_max_subagent_calls b))"

definition has_hard :: "policy_input \<Rightarrow> bool" where
  "has_hard i = list_ex (\<lambda>c. ct_severity c = Hard) (pi_constraints i)"

definition high_risk :: "policy_input \<Rightarrow> bool" where
  "high_risk i \<longleftrightarrow> has_hard i \<or> budget_critical (pi_budgets i)"

definition exhausted_proposal :: step_proposal where
  "exhausted_proposal = (mk_proposal ''Budget exhausted - no further actions possible'')
     \<lparr>sp_notes := ''All available budget has been consumed. Cannot propose further actions.''\<rparr>"

definition approval_proposal :: "policy_input \<Rightarrow> step_proposal" where
  "approval_proposal i =
     (let reasons = (if has_hard i then [''hard constraints are active''] else [])
                    @ (if budget_critical (pi_budgets i) then [''budget is critically low''] else []);
          reason_text = (if reasons = [] then ''high-risk conditions detected'' else str_join '' and '' reasons)
      in (mk_proposal (''Request approval due to: '' @ reason_text))
         \<lparr>sp_actions := [Request_approval (''Approval required before proceeding: '' @ reason_text @ ''. Goal: '' @ pi_goal i)
                           [''approve'', ''reject'', ''modify''] None],
          sp_risk_level := HIGH, sp_notes := ''High-risk situation detected. Human approval required.''\<rparr>)"

definition todo_proposal :: "policy_input \<Rightarrow> step_proposal" where
  "todo_proposal i = (case first_pending (pi_todos i) of
     None \<Rightarrow> (mk_proposal ''No pending TODOs to address'')
       \<lparr>sp_notes := ''All TODOs are completed or no TODOs defined.''\<rparr>
   | Some t \<Rightarrow> (mk_proposal (''Address TODO: '' @ td_description t))
       \<lparr>sp_target_todo_ids := [td_id t],
        sp_notes := ''Minimal proposal targeting first pending TODO (priority: '' @ level_value (td_priority t) @ '')''\<rparr>)"

definition rules_propose :: engine where
  "rules_propose i = Inr (if budget_spent (pi_budgets i) then exhausted_proposal
     else if high_risk i then approval_proposal i else todo_proposal i)"

subsection \<open>The router\<close>

datatype route = To_rules | To_react | To_plan | To_fsm

definition engine_class :: "route \<Rightarrow> string" where
  "engine_class r = (case r of To_rules \<Rightarrow> ''RulesPolicy'' | To_react \<Rightarrow> ''ReActPolicy''
     | To_plan \<Rightarrow> ''PlanExecutePolicy'' | To_fsm \<Rightarrow> ''FSMPolicy'')"

definition sub_engine :: "route \<Rightarrow> engine" where
  "sub_engine r = (case r of To_rules \<Rightarrow> rules_propose | To_react \<Rightarrow> react_propose
     | To_plan \<Rightarrow> plan_propose | To_fsm \<Rightarrow> fsm_propose)"

definition policy_by_name :: "string \<Rightarrow> route" where
  "policy_by_name mode =
     (let m = str_lower mode
      in if m = ''rules'' then To_rules else if m = ''react'' then To_react
         else if m = ''plan_execute'' then To_plan else if m = ''fsm'' then To_fsm else To_rules)"

definition strictness :: "policy_input \<Rightarrow> rat" where
  "strictness i = (if pi_constraints i = [] then 0
     else of_nat (length (filter (\<lambda>c. ct_severity c = Hard) (pi_constraints i))) / of_nat (length (pi_constraints i)))"

definition headroom :: "policy_input \<Rightarrow> rat" where
  "headroom i =
     (let m = bi_max_iterations (pi_budgets i)
      in if m \<le> 0 then 1
         else max 0 (min 1 (of_int (m - bi_iterations (pi_budgets i)) / of_int m)))"

text \<open>The double \<open>1.0 - 0.8\<close>. It lies below \<open>1 / 5\<close>.\<close>

definition headroom_threshold :: rat where
  "headroom_threshold = 900719925474099 / 4503599627370496"

definition incomplete :: "todo_item list \<Rightarrow> todo_item list" where
  "incomplete ts = filter (\<lambda>t. td_status t \<in> {Pending, In_progress, Blocked}) ts"

definition ambiguity :: "policy_input \<Rightarrow> rat" where
  "ambiguity i =
     (let ts = incomplete (pi_todos i)
      in if pi_todos i = [] \<or> ts = [] then 0
         else if 3 < length ts \<and> filter (\<lambda>t. td_status t = Pending) ts = [] then 1
         else of_nat (length ts) / of_nat (max 1 (length (pi_todos i))))"

definition edit_keywords :: "string list" where
  "edit_keywords = [''edit'', ''modify'', ''refactor'', ''rename'', ''delete'', ''remove'', ''move'', ''update'',
     ''write'', ''create'', ''add'', ''implement'', ''fix'', ''test'', ''build'', ''lint'', ''format'']"

definition tool_intensity :: "policy_input \<Rightarrow> rat" where
  "tool_intensity i =
     (let ts = filter (\<lambda>t. td_status t \<in> {Pending, In_progress}) (pi_todos i)
      in if ts = [] then 0
         else of_nat (length (filter (\<lambda>t. list_ex (\<lambda>k. contains k (str_lower (td_description t))) edit_keywords) ts))
              / of_nat (length ts))"

text \<open>\<open>mode\<close> is the environment variable \<open>DK_POLICY_MODE\<close>.\<close>

definition select_policy :: "string option \<Rightarrow> policy_input \<Rightarrow> route" where
  "select_policy mode i = (case mode of
     Some (c # m) \<Rightarrow> policy_by_name (c # m)
   | _ \<Rightarrow> if headroom i \<le> headroom_threshold then To_rules
          else if 0 < strictness i then To_rules
          else if 1 \<le> ambiguity i then To_react
          else if 1 / 2 \<le> tool_intensity i then To_plan
          else To_rules)"

text \<open>The answer and the events published on the bus.\<close>

definition router_propose :: "(route \<Rightarrow> engine) \<Rightarrow> string option \<Rightarrow> policy_input \<Rightarrow> step_proposal raising \<times> bus_event list" where
  "router_propose engines mode i =
     (let r = select_policy mode i
      in case engines r i of
           Inr p \<Rightarrow> (Inr p, [])
         | Inl e \<Rightarrow> (engines To_fsm i,
             [\<lparr>be_name = ''policy.router.fallback'',
               be_data = [(''policy'', JStr (engine_class r)), (''error'', JStr (exn_msg e))]\<rparr>]))"

subsection \<open>The proposal validator\<close>

definition VALID_ACTION_TYPES :: "string list" where
  "VALID_ACTION_TYPES = [''EDIT_FILE'', ''READ_FILE'', ''REQUEST_APPROVAL'', ''RUN_TESTS'', ''SEARCH_REPO'',
     ''SUMMARIZE'', ''UPSERT_TODOS'']"

text \<open>A message of a validation result: a plain text, or the dump of a JSON object (the codec is not
  modelled, as for results).\<close>

datatype message_text = Plain string | Dumped json

record validation =
  vr_valid :: bool
  vr_errors :: "message_text list"
  vr_warnings :: "message_text list"

text \<open>Proposals are typed, so the check that the risk level is one of the enumeration has no branch here.\<close>

definition validate :: "step_proposal \<Rightarrow> validation" where
  "validate p =
     (let errors = (if sp_intent p = [] \<or> str_strip (sp_intent p) = []
                    then [Plain ''Field 'intent' is required and cannot be empty''] else [])
                 @ map (\<lambda>(i, a). Plain (''Action at index '' @ str_nat i @ '' has unknown action_type '' @ CHR 0x27 # action_type a
                       @ CHR 0x27 # ''. Valid types: '' @ str_join '', '' VALID_ACTION_TYPES))
                   (filter (\<lambda>(i, a). action_type a \<notin> set VALID_ACTION_TYPES) (List.enumerate 0 (sp_actions p)));
          warnings = (if sp_actions p = []
                      then [Plain ''Proposal has no actions - this may be intentional for context requests''] else [])
                   @ (if sp_target_todo_ids p \<noteq> [] \<and> sp_completion_claims p = []
                      then [Plain (''Proposal targets TODOs but has no completion_claims - ''
                             @ ''consider adding claims if this step completes work'')] else [])
      in \<lparr>vr_valid = (errors = []), vr_errors = errors, vr_warnings = warnings\<rparr>)"

subsection \<open>The harness gate\<close>

definition verify_before_done :: "step_proposal \<Rightarrow> bool" where
  "verify_before_done p \<longleftrightarrow> sp_completion_claims p = []
     \<or> list_ex (\<lambda>c. cl_evidence_type c \<in> {Test_passed, Build_succeeded, Manual_review}) (sp_completion_claims p)"

definition approval_required :: "step_proposal \<Rightarrow> bool" where
  "approval_required p =
     (let types = get_action_types p
      in if \<not> list_ex (\<lambda>t. t \<in> {''EDIT_FILE'', ''RUN_TESTS''}) types then True
         else ''REQUEST_APPROVAL'' \<in> set types)"

definition exhausted_markers :: "string list" where
  "exhausted_markers = [''budget_exhausted'', ''budget exhausted'', ''budget_exceeded'', ''budget exceeded'']"

definition notes_exhausted :: "step_proposal \<Rightarrow> bool" where
  "notes_exhausted p =
     (let notes = str_strip (str_lower (sp_notes p))
      in if notes = [] then False else list_ex (\<lambda>m. contains m notes) exhausted_markers)"

definition format_rejection :: "string \<Rightarrow> string \<Rightarrow> string \<Rightarrow> string list \<Rightarrow> message_text" where
  "format_rejection code blocked risk hints = Dumped (JObj [(''policy_id'', JStr ''harness_invariants''),
     (''reason_code'', JStr code), (''blocked_action_type'', JStr blocked), (''blocked_action_risk'', JStr risk),
     (''remediation_hints'', JArr (map JStr hints))])"

definition first_action_type :: "step_proposal \<Rightarrow> string option" where
  "first_action_type p = (case get_action_types p of [] \<Rightarrow> None | t # _ \<Rightarrow> Some t)"

definition approval_blocked_action :: "step_proposal \<Rightarrow> string" where
  "approval_blocked_action p =
     (case find (\<lambda>t. t \<in> {''EDIT_FILE'', ''RUN_TESTS''}) (get_action_types p) of
        Some t \<Rightarrow> t
      | None \<Rightarrow> (case get_action_types p of [] \<Rightarrow> ''UNKNOWN'' | t # _ \<Rightarrow> t))"

definition rejected :: "message_text \<Rightarrow> validation" where
  "rejected e = \<lparr>vr_valid = False, vr_errors = [e], vr_warnings = []\<rparr>"

definition gate_enforce :: "step_proposal \<Rightarrow> validation" where
  "gate_enforce p =
     (if notes_exhausted p
      then rejected (format_rejection ''BUDGET_EXHAUSTED'' (case first_action_type p of Some t \<Rightarrow> t | None \<Rightarrow> ''HALT'')
             (risk_value (sp_risk_level p))
             [''Stop execution and request additional budget approval'', ''Summarize progress before exiting''])
      else if \<not> verify_before_done p
      then rejected (format_rejection ''UNVERIFIED_COMPLETION'' ''COMPLETE_TODO'' (risk_value (sp_risk_level p))
             [''Provide verification evidence (test_passed, build_succeeded, manual_review)'',
              ''Include evidence references for completed work''])
      else if \<not> approval_required p
      then rejected (format_rejection ''APPROVAL_REQUIRED'' (approval_blocked_action p) (risk_value (sp_risk_level p))
             [''Add a REQUEST_APPROVAL action before high-risk operations'',
              ''Wait for explicit approval before proceeding''])
      else \<lparr>vr_valid = True, vr_errors = [], vr_warnings = []\<rparr>)"

subsection \<open>The action dispatcher\<close>

record action_result =
  ar_success :: bool
  ar_output :: "string option"
  ar_error :: "string option"

type_synonym 'w handler = "action \<Rightarrow> 'w \<Rightarrow> action_result raising \<times> 'w"
type_synonym 'w dispatcher = "string \<rightharpoonup> 'w handler"

definition ad_register :: "string \<Rightarrow> 'w handler \<Rightarrow> 'w dispatcher \<Rightarrow> 'w dispatcher" where
  "ad_register t h d = d(t \<mapsto> h)"

definition ad_dispatch :: "action \<Rightarrow> 'w dispatcher \<Rightarrow> 'w \<Rightarrow> action_result raising \<times> 'w" where
  "ad_dispatch a d w = (case d (action_type a) of
     None \<Rightarrow> (Inl (Exn ''UnknownActionTypeError'' (''No handler registered for action type: '' @ action_type a)), w)
   | Some h \<Rightarrow> h a w)"

definition read_file_validate :: "action \<Rightarrow> bool" where
  "read_file_validate a = (case a of Read_file _ _ _ \<Rightarrow> True | _ \<Rightarrow> False)"

definition read_file_execute :: "'w handler" where
  "read_file_execute a w = (case a of
     Read_file path _ _ \<Rightarrow>
       (if \<not> read_file_validate a
        then (Inr \<lparr>ar_success = False, ar_output = None, ar_error = Some ''Invalid action: path must be a string''\<rparr>, w)
        else (Inr \<lparr>ar_success = True, ar_output = Some (''Would read file: '' @ path), ar_error = None\<rparr>, w))
   | _ \<Rightarrow> (Inr \<lparr>ar_success = False, ar_output = None, ar_error = Some ''Invalid action: expected READ_FILE''\<rparr>, w))"

subsection \<open>The first pending TODO\<close>

lemma hd_insort_key:
  "hd (insort_key f x xs) = (if xs = [] \<or> f x \<le> f (hd xs) then x else hd xs)"
  by (cases xs) auto

lemma sort_key_Nil_iff: "sort_key f xs = [] \<longleftrightarrow> xs = []"
  by (metis length_0_conv length_sort)

text \<open>The head of a stable sort is the first of the least elements.\<close>

lemma hd_sort_key:
  assumes "xs \<noteq> []"
  shows "\<exists>pre post. xs = pre @ hd (sort_key f xs) # post
    \<and> (\<forall>u \<in> set pre. f (hd (sort_key f xs)) < f u) \<and> (\<forall>u \<in> set post. f (hd (sort_key f xs)) \<le> f u)"
  using assms
proof (induction xs)
  case (Cons x xs)
  show ?case
  proof (cases "xs = []")
    case True
    then show ?thesis by (intro exI [of _ "[]"]) simp
  next
    case False
    let ?m = "hd (sort_key f xs)"
    obtain pre post where m: "xs = pre @ ?m # post" "\<forall>u \<in> set pre. f ?m < f u" "\<forall>u \<in> set post. f ?m \<le> f u"
      using Cons.IH [OF False] by blast
    have hd: "hd (sort_key f (x # xs)) = (if f x \<le> f ?m then x else ?m)"
      using False by (simp add: hd_insort_key sort_key_Nil_iff)
    show ?thesis
    proof (cases "f x \<le> f ?m")
      case True
      have "set xs = set pre \<union> {?m} \<union> set post" using m(1) by (metis Un_assoc insert_is_Un list.simps(15) set_append)
      with True m(2,3) have "\<forall>u \<in> set xs. f x \<le> f u" by (auto intro: order_trans less_imp_le)
      with True hd show ?thesis by (intro exI [of _ "[]"] exI [of _ xs]) simp
    next
      case False
      with m hd have "x # xs = (x # pre) @ ?m # post \<and> (\<forall>u \<in> set (x # pre). f ?m < f u)" by auto
      with False m(3) hd show ?thesis by (metis (no_types, lifting))
    qed
  qed
qed simp

lemma filter_split:
  "filter P xs = ys @ t # zs \<Longrightarrow> \<exists>pre post. xs = pre @ t # post \<and> P t \<and> filter P pre = ys \<and> filter P post = zs"
proof (induction ys arbitrary: xs)
  case Nil
  then obtain us vs where "xs = us @ t # vs" "\<forall>u \<in> set us. \<not> P u" "P t" "zs = filter P vs"
    by (auto simp: filter_eq_Cons_iff)
  then show ?case by (intro exI [of _ us] exI [of _ vs]) (simp add: filter_empty_conv)
next
  case (Cons y ys)
  then obtain us vs where u: "xs = us @ y # vs" "\<forall>u \<in> set us. \<not> P u" "P y" "filter P vs = ys @ t # zs"
    by (auto simp: filter_eq_Cons_iff)
  with Cons.IH [of vs] obtain pre post
    where v: "vs = pre @ t # post" "P t" "filter P pre = ys" "filter P post = zs" by blast
  with u(1-3) show ?case by (intro exI [of _ "us @ y # pre"] exI [of _ post]) (simp add: filter_empty_conv)
qed

lemma first_pending_SomeD:
  assumes "first_pending ts = Some t"
  shows "\<exists>pre post. ts = pre @ t # post \<and> td_status t = Pending
    \<and> (\<forall>u \<in> set pre. td_status u = Pending \<longrightarrow> priority_rank (td_priority t) < priority_rank (td_priority u))
    \<and> (\<forall>u \<in> set post. td_status u = Pending \<longrightarrow> priority_rank (td_priority t) \<le> priority_rank (td_priority u))"
proof -
  let ?P = "\<lambda>t. td_status t = Pending" and ?f = "\<lambda>t. priority_rank (td_priority t)"
  from assms have ne: "filter ?P ts \<noteq> []" and t: "t = hd (sort_key ?f (filter ?P ts))"
    by (auto simp: first_pending_def Let_def split: if_splits)
  from hd_sort_key [OF ne, of ?f] obtain ys zs where f: "filter ?P ts = ys @ t # zs"
    "\<forall>u \<in> set ys. ?f t < ?f u" "\<forall>u \<in> set zs. ?f t \<le> ?f u"
    unfolding t by blast
  from filter_split [OF f(1)] obtain pre post
    where s: "ts = pre @ t # post" "?P t" "filter ?P pre = ys" "filter ?P post = zs" by blast
  have "\<forall>u \<in> set pre. ?P u \<longrightarrow> ?f t < ?f u" using f(2) unfolding s(3) [symmetric] by simp
  moreover have "\<forall>u \<in> set post. ?P u \<longrightarrow> ?f t \<le> ?f u" using f(3) unfolding s(4) [symmetric] by simp
  ultimately show ?thesis using s(1,2) by blast
qed

lemma first_pending_None: "first_pending ts = None \<longleftrightarrow> (\<forall>t \<in> set ts. td_status t \<noteq> Pending)"
  by (auto simp: first_pending_def Let_def filter_empty_conv)

subsection \<open>The signals of the router\<close>

lemma all_incomplete: "list_all (\<lambda>t. td_status t \<in> {Pending, In_progress, Blocked}) ts \<longleftrightarrow> incomplete ts = ts"
  by (simp add: incomplete_def list_all_iff filter_id_conv)

lemma ambiguity_one_iff:
  "1 \<le> ambiguity i \<longleftrightarrow> incomplete (pi_todos i) \<noteq> []
     \<and> (incomplete (pi_todos i) = pi_todos i
        \<or> 3 < length (incomplete (pi_todos i)) \<and> (\<forall>t \<in> set (pi_todos i). td_status t \<noteq> Pending))"
proof -
  let ?n = "length (incomplete (pi_todos i))" and ?m = "length (pi_todos i)"
  have le: "?n \<le> ?m" by (simp add: incomplete_def)
  have eq: "?n = ?m \<longleftrightarrow> incomplete (pi_todos i) = pi_todos i"
    by (auto simp: incomplete_def filter_id_conv dest: length_filter_less [where P = "\<lambda>t. td_status t \<in> {Pending, In_progress, Blocked}"]
        intro: ccontr)
  have pend: "filter (\<lambda>t. td_status t = Pending) (incomplete (pi_todos i)) = []
      \<longleftrightarrow> (\<forall>t \<in> set (pi_todos i). td_status t \<noteq> Pending)"
    by (auto simp: incomplete_def filter_empty_conv)
  show ?thesis
  proof (cases "incomplete (pi_todos i) = []")
    case False
    then have m: "pi_todos i \<noteq> []" by (auto simp: incomplete_def)
    then have pos: "(0::rat) < of_nat ?m" and mx: "max 1 ?m = ?m" by (auto simp: Suc_le_eq max_def)
    have "(1::rat) \<le> of_nat ?n / of_nat ?m \<longleftrightarrow> ?m \<le> ?n" using pos by (simp add: le_divide_eq)
    also have "\<dots> \<longleftrightarrow> ?n = ?m" using le by auto
    finally have q: "(1::rat) \<le> of_nat ?n / of_nat ?m \<longleftrightarrow> ?n = ?m" .
    show ?thesis
      using False m q eq pend by (auto simp: ambiguity_def Let_def mx Suc_le_eq)
  qed (simp add: ambiguity_def)
qed

lemma strictness_pos_iff: "0 < strictness i \<longleftrightarrow> has_hard i"
  by (auto simp: strictness_def has_hard_def list_ex_iff filter_empty_conv zero_less_divide_iff)

lemma threshold_arith:
  fixes k m :: int
  assumes "0 < m" "m < 1125899906842624"
  shows "k * 4503599627370496 \<le> 900719925474099 * m \<longleftrightarrow> 5 * k < m"
proof
  assume "k * 4503599627370496 \<le> 900719925474099 * m"
  with assms(1) show "5 * k < m" by linarith
next
  assume "5 * k < m"
  with assms(2) show "k * 4503599627370496 \<le> 900719925474099 * m" by linarith
qed

lemma headroom_low_iff:
  assumes "bi_max_iterations (pi_budgets i) < 2 ^ 50"
  shows "headroom i \<le> headroom_threshold \<longleftrightarrow> 0 < bi_max_iterations (pi_budgets i)
    \<and> 5 * (bi_max_iterations (pi_budgets i) - bi_iterations (pi_budgets i)) < bi_max_iterations (pi_budgets i)"
proof -
  define m k where "m = bi_max_iterations (pi_budgets i)" and "k = m - bi_iterations (pi_budgets i)"
  note h = headroom_def [of i] headroom_threshold_def
  show ?thesis
  proof (cases "0 < m")
    case True
    then have pos: "(0::rat) < of_int m" by simp
    have "headroom i \<le> headroom_threshold \<longleftrightarrow> (of_int k :: rat) / of_int m \<le> headroom_threshold"
    proof -
      have "0 \<le> headroom_threshold" "headroom_threshold < 1" by (simp_all add: headroom_threshold_def)
      moreover have "headroom i = max 0 (min 1 (of_int k / of_int m))"
        using True by (simp add: headroom_def Let_def m_def k_def)
      ultimately show ?thesis by (simp add: max_def min_def)
    qed
    also have "\<dots> \<longleftrightarrow> (of_int k :: rat) * 4503599627370496 \<le> 900719925474099 * of_int m"
      using pos by (simp add: headroom_threshold_def field_simps)
    also have "\<dots> \<longleftrightarrow> k * 4503599627370496 \<le> 900719925474099 * m"
      by (metis (mono_tags, lifting) of_int_le_iff of_int_mult of_int_numeral)
    also have "\<dots> \<longleftrightarrow> 5 * k < m"
      using True assms unfolding m_def [symmetric] by (intro threshold_arith) simp_all
    finally show ?thesis using True by (simp add: m_def k_def)
  qed (simp add: h m_def)
qed

subsection \<open>What passes the validator and the gate\<close>

definition passes :: "step_proposal \<Rightarrow> bool" where
  "passes p \<longleftrightarrow> vr_valid (validate p) \<and> vr_valid (gate_enforce p)"

lemma action_type_valid: "action_type a \<in> set VALID_ACTION_TYPES"
  by (cases a) (simp_all add: action_type_def VALID_ACTION_TYPES_def)

lemma validate_valid_iff: "vr_valid (validate p) \<longleftrightarrow> \<not> list_all is_space (sp_intent p)"
proof -
  have "filter (\<lambda>(i, a). action_type a \<notin> set VALID_ACTION_TYPES) (List.enumerate 0 (sp_actions p)) = []"
    using action_type_valid by (auto simp: filter_empty_conv)
  then show ?thesis
    by (auto simp: validate_def Let_def str_strip_empty_iff)
qed

lemma gate_valid_iff:
  "vr_valid (gate_enforce p) \<longleftrightarrow> \<not> notes_exhausted p \<and> verify_before_done p \<and> approval_required p"
  by (simp add: gate_enforce_def rejected_def)

lemma approval_required_iff:
  "approval_required p \<longleftrightarrow> (\<forall>a \<in> set (sp_actions p). action_type a \<notin> {''EDIT_FILE'', ''RUN_TESTS''})
     \<or> (\<exists>a \<in> set (sp_actions p). action_type a = ''REQUEST_APPROVAL'')"
  unfolding approval_required_def get_action_types_def Let_def list_ex_iff by (auto simp: image_iff eq_commute [of "''REQUEST_APPROVAL''"])

lemma contains_strip: "contains m (str_strip s) \<Longrightarrow> contains m s"
proof -
  have "suffix (dropWhile is_space s) s" by (rule suffix_dropWhile)
  moreover have "prefix (str_strip s) (dropWhile is_space s)"
    unfolding str_strip_def by (metis rev_rev_ident suffix_dropWhile suffix_to_prefix)
  ultimately have "sublist (str_strip s) s"
    by (meson prefix_imp_sublist suffix_imp_sublist sublist_order.order_trans)
  then show "contains m (str_strip s) \<Longrightarrow> contains m s"
    unfolding contains_def by (rule sublist_order.order_trans [rotated])
qed

definition plain_text :: "string \<Rightarrow> bool" where
  "plain_text s = list_all (\<lambda>m. \<not> contains m (str_lower s)) exhausted_markers"

lemma plain_notes: "plain_text (sp_notes p) \<Longrightarrow> \<not> notes_exhausted p"
  unfolding plain_text_def notes_exhausted_def Let_def list_all_iff list_ex_iff
  using contains_strip by auto

lemma plain_quoted:
  assumes "plain_text a" "plain_text b" "plain_text c"
  shows "plain_text (a @ CHR 0x27 # b @ CHR 0x27 # c)"
proof -
  have low: "str_lower (a @ CHR 0x27 # b @ CHR 0x27 # c)
      = str_lower a @ CHR 0x27 # str_lower b @ CHR 0x27 # str_lower c"
    by (simp add: str_lower_def lower_char_def)
  have q: "CHR 0x27 \<notin> set m" if "m \<in> set exhausted_markers" for m
    using that by (auto simp: exhausted_markers_def)
  show ?thesis
    unfolding plain_text_def low list_all_iff
  proof
    fix m assume m: "m \<in> set exhausted_markers"
    with assms have "\<not> contains m (str_lower a)" "\<not> contains m (str_lower b)" "\<not> contains m (str_lower c)"
      by (simp_all add: plain_text_def list_all_iff)
    with q [OF m] show "\<not> contains m (str_lower a @ CHR 0x27 # str_lower b @ CHR 0x27 # str_lower c)"
      by (intro not_contains_split)
  qed
qed

lemma passes_simple:
  assumes "intent \<noteq> []" "\<not> is_space (hd intent)" "plain_text (sp_notes p)" "sp_intent p = intent"
    "sp_completion_claims p = []" "list_all (\<lambda>a. action_type a \<notin> {''EDIT_FILE'', ''RUN_TESTS''}) (sp_actions p)"
  shows "passes p"
  using assms plain_notes [OF assms(3)]
  unfolding passes_def validate_valid_iff gate_valid_iff approval_required_iff verify_before_done_def
  by (cases intent) (auto simp: list_all_iff)

subsection \<open>The contract of an engine\<close>

text \<open>What the agent runtime needs of the engine it was given: it answers every input, and on the inputs that
  are \<open>fit\<close> its proposal passes the validator and the gate.\<close>

locale proposer =
  fixes propose :: engine and fit :: "policy_input \<Rightarrow> bool"
  assumes answers: "\<exists>p. propose i = Inr p"
    and sound: "fit i \<Longrightarrow> propose i = Inr p \<Longrightarrow> passes p"
begin

lemma never_raises: "propose i \<noteq> Inl e"
  using answers [of i] by auto

lemma fit_answer:
  assumes "fit i"
  obtains p where "propose i = Inr p" "passes p"
  using answers [of i] sound [OF assms] by blast

end

text \<open>An identifier of a TODO enters the notes of the plan engine, and the gate searches the notes.\<close>

definition plain_todos :: "policy_input \<Rightarrow> bool" where
  "plain_todos i = list_all (\<lambda>t. plain_text (td_id t)) (pi_todos i)"

lemma passes_mk: "intent \<noteq> [] \<Longrightarrow> \<not> is_space (hd intent) \<Longrightarrow> passes (mk_proposal intent)"
  by (rule passes_simple [of intent])
    (simp_all add: mk_proposal_def plain_text_def exhausted_markers_def str_lower_def)

lemma plain_literals:
  "plain_text ''No pending TODOs available. Plan generation will be added in future iteration.''"
  "plain_text ''Minimal proposal targeting TODO ''"
  "plain_text ''All available budget has been consumed. Cannot propose further actions.''"
  "plain_text ''High-risk situation detected. Human approval required.''"
  "plain_text ''All TODOs are completed or no TODOs defined.''"
  by code_simp+

lemma plain_levels:
  "plain_text ('' (priority: '' @ level_value High @ '')'')"
  "plain_text ('' (priority: '' @ level_value Medium @ '')'')"
  "plain_text ('' (priority: '' @ level_value Low @ '')'')"
  "plain_text (''Minimal proposal targeting first pending TODO (priority: '' @ level_value High @ '')'')"
  "plain_text (''Minimal proposal targeting first pending TODO (priority: '' @ level_value Medium @ '')'')"
  "plain_text (''Minimal proposal targeting first pending TODO (priority: '' @ level_value Low @ '')'')"
  by code_simp+

lemma plain_priority:
  "plain_text ('' (priority: '' @ level_value l @ '')'')"
  "plain_text (''Minimal proposal targeting first pending TODO (priority: '' @ level_value l @ '')'')"
  by (cases l; simp only: plain_levels)+

lemma rules_passes: "rules_propose i = Inr p \<Longrightarrow> passes p"
proof -
  have "passes exhausted_proposal"
    by (rule passes_simple [OF _ _ _ refl]) (simp_all add: exhausted_proposal_def mk_proposal_def plain_literals is_space_def)
  moreover have "passes (approval_proposal i)"
    by (rule passes_simple [OF _ _ _ refl])
      (simp_all add: approval_proposal_def mk_proposal_def plain_literals is_space_def Let_def action_type_def)
  moreover have "passes (todo_proposal i)"
    unfolding todo_proposal_def
    by (cases "first_pending (pi_todos i)"; rule passes_simple [OF _ _ _ refl])
      (simp_all add: mk_proposal_def plain_priority [simplified] plain_literals [simplified] is_space_def)
  ultimately show "rules_propose i = Inr p \<Longrightarrow> passes p"
    by (auto simp: rules_propose_def split: if_splits)
qed

lemma first_pending_mem: "first_pending ts = Some t \<Longrightarrow> t \<in> set ts"
  using first_pending_SomeD [of ts t] by auto

lemma plan_passes: "plain_todos i \<Longrightarrow> plan_propose i = Inr p \<Longrightarrow> passes p"
proof (cases "first_pending (pi_todos i)")
  case None
  assume "plan_propose i = Inr p"
  with None show "passes p"
    by (intro passes_simple [OF _ _ _ refl])
      (auto simp: plan_propose_def mk_proposal_def plain_literals is_space_def)
next
  case (Some t)
  assume plain: "plain_todos i" and p: "plan_propose i = Inr p"
  from plain Some have "plain_text (td_id t)"
    by (auto simp: plain_todos_def list_all_iff dest: first_pending_mem)
  then have "plain_text (''Minimal proposal targeting TODO '' @ CHR 0x27 # td_id t @ CHR 0x27 # '' (priority: ''
      @ level_value (td_priority t) @ '')'')"
    by (intro plain_quoted plain_literals plain_priority)
  moreover from p Some have "p = (mk_proposal (''Execute TODO: '' @ td_description t))
       \<lparr>sp_target_todo_ids := [td_id t],
        sp_notes := ''Minimal proposal targeting TODO '' @ CHR 0x27 # td_id t @ CHR 0x27 # '' (priority: ''
                    @ level_value (td_priority t) @ '')''\<rparr>"
    by (simp add: plan_propose_def)
  ultimately show "passes p"
    by (intro passes_simple [OF _ _ _ refl]) (auto simp: mk_proposal_def is_space_def simp del: append.simps)
qed

text \<open>Outside \<open>plain_todos\<close> the plan engine is not sound: the gate takes an identifier that contains one of its
  markers for an exhausted budget.\<close>

lemma contains_middle: "contains m b \<Longrightarrow> contains m (a @ b @ c)"
  unfolding contains_def by (meson sublist_append_leftI sublist_append_rightI sublist_order.order_trans)

lemma plan_rejected:
  assumes "first_pending (pi_todos i) = Some t" "\<not> plain_text (td_id t)" "plan_propose i = Inr p"
  shows "notes_exhausted p \<and> \<not> passes p"
proof -
  let ?tail = "CHR 0x27 # '' (priority: '' @ level_value (td_priority t) @ '')''"
  have np: "sp_notes p = (''Minimal proposal targeting TODO '' @ [CHR 0x27]) @ td_id t @ ?tail"
    using assms(1,3) by (auto simp: plan_propose_def)
  let ?low = "str_lower (sp_notes p)"
  have ends: "?low \<noteq> [] \<and> hd ?low = CHR ''m'' \<and> last ?low = CHR '')''"
  proof -
    have "lower_char (CHR ''M'') = CHR ''m''" "lower_char (CHR '')'') = CHR '')''" by code_simp+
    then show ?thesis unfolding np by (simp add: str_lower_def)
  qed
  then have strip: "str_strip ?low = ?low"
    by (intro str_strip_id) (auto simp: is_space_def)
  obtain m where "m \<in> set exhausted_markers" "contains m (str_lower (td_id t))"
    using assms(2) by (auto simp: plain_text_def list_all_iff)
  then have "\<exists>m \<in> set exhausted_markers. contains m ?low"
    unfolding np str_lower_append by (blast intro: contains_middle)
  with ends strip have "notes_exhausted p"
    by (auto simp: notes_exhausted_def Let_def list_ex_iff)
  then show ?thesis by (simp add: passes_def gate_valid_iff)
qed

interpretation default: proposer default_propose "\<lambda>_. True"
  by unfold_locales (auto simp: default_propose_def is_space_def intro: passes_mk)

interpretation react: proposer react_propose "\<lambda>_. True"
  by unfold_locales (auto simp: react_propose_def is_space_def intro: passes_mk)

interpretation fsm_bridge: proposer fsm_propose "\<lambda>_. True"
  by unfold_locales (auto simp: fsm_propose_def is_space_def intro: passes_mk)

interpretation rules: proposer rules_propose "\<lambda>_. True"
  by unfold_locales (simp add: rules_propose_def, blast intro: rules_passes)

interpretation plan: proposer plan_propose plain_todos
  by unfold_locales (auto simp: plan_propose_def split: option.splits intro: plan_passes)

subsection \<open>Where the router sends an input\<close>

lemma sub_engine_answers: "\<exists>p. sub_engine r i = Inr p"
  by (cases r) (auto simp: sub_engine_def intro: rules.answers react.answers plan.answers fsm_bridge.answers)

lemma router_answer: "router_propose sub_engine mode i = (sub_engine (select_policy mode i) i, [])"
  using sub_engine_answers [of "select_policy mode i" i] by (auto simp: router_propose_def Let_def)

interpretation router: proposer "\<lambda>i. fst (router_propose sub_engine mode i)" plain_todos for mode
proof
  show "\<exists>p. fst (router_propose sub_engine mode i) = Inr p" for i
    by (simp add: router_answer sub_engine_answers)
  show "passes p" if "plain_todos i" "fst (router_propose sub_engine mode i) = Inr p" for i p
    using that by (cases "select_policy mode i")
      (auto simp: router_answer sub_engine_def intro: rules.sound react.sound plan.sound fsm_bridge.sound)
qed

text \<open>The router answers with the proposal of the engine it selects and never falls back, since no
  engine raises. The engine is the one named by the mode (the rules for an unknown name). Without a mode
  it is the rules engine when strictly more than four fifths of the iterations are used, not when exactly four
  fifths are, or when a hard constraint is present; else the engine that proposes nothing when every TODO is
  incomplete, even one pending TODO, or when more than three are incomplete and none is pending; else the
  plan engine when half of the open TODOs mention an edit, and the rules engine otherwise.\<close>

theorem router_spec:
  assumes "bi_max_iterations (pi_budgets i) < 2 ^ 50"
  shows "router_propose sub_engine mode i = (sub_engine (case mode of
      Some (c # m) \<Rightarrow> policy_by_name (c # m)
    | _ \<Rightarrow> let max = bi_max_iterations (pi_budgets i); left = max - bi_iterations (pi_budgets i);
              open = (\<lambda>t. td_status t = Pending \<or> td_status t = In_progress \<or> td_status t = Blocked)
          in if 0 < max \<and> 5 * left < max \<or> (\<exists>c \<in> set (pi_constraints i). ct_severity c = Hard) then To_rules
             else if (\<exists>t \<in> set (pi_todos i). open t) \<and> ((\<forall>t \<in> set (pi_todos i). open t)
                 \<or> 3 < length (filter open (pi_todos i)) \<and> (\<forall>t \<in> set (pi_todos i). td_status t \<noteq> Pending))
             then To_react
             else if 1 / 2 \<le> tool_intensity i then To_plan else To_rules) i, [])"
proof -
  have inc: "incomplete ts = filter (\<lambda>t. td_status t = Pending \<or> td_status t = In_progress \<or> td_status t = Blocked) ts"
    for ts by (simp add: incomplete_def)
  have hard: "0 < strictness i \<longleftrightarrow> (\<exists>c \<in> set (pi_constraints i). ct_severity c = Hard)"
    by (auto simp: strictness_pos_iff has_hard_def list_ex_iff)
  let ?open = "\<lambda>t. td_status t = Pending \<or> td_status t = In_progress \<or> td_status t = Blocked"
  have amb: "1 \<le> ambiguity i \<longleftrightarrow> (\<exists>t \<in> set (pi_todos i). ?open t) \<and> ((\<forall>t \<in> set (pi_todos i). ?open t)
      \<or> 3 < length (filter ?open (pi_todos i)) \<and> (\<forall>t \<in> set (pi_todos i). td_status t \<noteq> Pending))"
    unfolding ambiguity_one_iff inc filter_empty_conv filter_id_conv by blast
  have either: "(if A then r else if B then r else x) = (if A \<or> B then r else x)" for A B and r x :: route
    by simp
  have sel: "select_policy mode i = (case mode of Some (c # m) \<Rightarrow> policy_by_name (c # m)
      | _ \<Rightarrow> let max = bi_max_iterations (pi_budgets i); left = max - bi_iterations (pi_budgets i);
              open = (\<lambda>t. td_status t = Pending \<or> td_status t = In_progress \<or> td_status t = Blocked)
          in if 0 < max \<and> 5 * left < max \<or> (\<exists>c \<in> set (pi_constraints i). ct_severity c = Hard) then To_rules
             else if (\<exists>t \<in> set (pi_todos i). open t) \<and> ((\<forall>t \<in> set (pi_todos i). open t)
                 \<or> 3 < length (filter open (pi_todos i)) \<and> (\<forall>t \<in> set (pi_todos i). td_status t \<noteq> Pending))
             then To_react
             else if 1 / 2 \<le> tool_intensity i then To_plan else To_rules)"
    unfolding select_policy_def headroom_low_iff [OF assms] amb hard either Let_def ..
  show ?thesis unfolding router_answer sel ..
qed

theorem router_spec_witness:
  "router_propose sub_engine None ((mk_input ''goal'')\<lparr>pi_todos := [\<lparr>td_id = ''1'', td_description = ''edit a.py'',
       td_status = Pending, td_priority = High, td_dependencies = []\<rparr>]\<rparr>) = (Inr (mk_proposal ''No action proposed''), [])"
  by (subst router_spec) (simp_all add: mk_input_def default_budget_def sub_engine_def react_propose_def)

text \<open>A TODO list that has just been written, every item pending, gets no step: the router sends it to the engine
  that proposes nothing.\<close>

lemma fresh_plan_no_step:
  assumes "select_policy None i \<noteq> To_rules" "pi_todos i \<noteq> []" "\<forall>t \<in> set (pi_todos i). td_status t = Pending"
  shows "router_propose sub_engine None i = (Inr (mk_proposal ''No action proposed''), [])"
proof -
  have "incomplete (pi_todos i) = pi_todos i"
    using assms(3) by (simp add: incomplete_def filter_id_conv)
  with assms(1,2) have "select_policy None i = To_react"
    by (auto simp: select_policy_def ambiguity_one_iff split: if_splits)
  then show ?thesis by (simp add: router_answer sub_engine_def react_propose_def)
qed

subsection \<open>Dispatch\<close>

lemma dispatch_registered:
  "ad_dispatch a (ad_register t h d) w = (if t = action_type a then h a w else ad_dispatch a d w)"
  by (simp add: ad_dispatch_def ad_register_def)

lemma read_file_handler:
  "fst (read_file_execute a w) = Inr r \<Longrightarrow> ar_success r \<longleftrightarrow> action_type a = ''READ_FILE''"
  by (cases a) (auto simp: read_file_execute_def read_file_validate_def action_type_def)

end
