(* ===== verification/AgentRuntime.thy ===== *)
theory AgentRuntime
  imports AgentRegistry Policies Permissions Repositories
begin

text \<open>
  The execution of an agent, \<open>agents/runtime.py\<close>: the agent is looked up in its registry, the session is loaded and
  checked, the tools are filtered by the permissions of the agent, and messages are exchanged with the model in
  a loop of at most ten turns, each of which asks the policy engine for a proposal and has the validator and the
  gate judge it.

  The session manager, the context builder, the provider registry and the AI session are functions of the world
  (fields of \<open>rt_env\<close>). Everything the runtime tells others is recorded in the order it happens: events
  published on the bus, calls of the session lifecycle and of the evaluation hooks, and the exchanges with the
  model. Listeners of these do not act on the runtime.
\<close>

declare map_of_eq_Some_iff [simp del] Some_eq_map_of_iff [simp del]

subsection \<open>Data\<close>

record token_usage =
  tu_input :: int
  tu_output :: int
  tu_reasoning :: int
  tu_cache_read :: int
  tu_cache_write :: int

definition no_tokens :: token_usage where
  "no_tokens = \<lparr>tu_input = 0, tu_output = 0, tu_reasoning = 0, tu_cache_read = 0, tu_cache_write = 0\<rparr>"

datatype msg_part = Tool_part string "string option" | Text_part string | Other_part string

text \<open>A message of the model. \<open>rs_tokens\<close> is the entry \<open>tokens\<close> of its metadata, if there is one.\<close>

record response =
  rs_text :: string
  rs_parts :: "msg_part list"
  rs_metadata :: dict
  rs_tokens :: "(string \<times> int) list option"

record ai_request =
  rq_message :: string
  rq_options :: dict

datatype rt_event =
    Published string dict
  | Lifecycle_updated dict
  | Hook_tool_call string string
  | Hook_phase string dict
  | Exchanged ai_request response

datatype session_lookup = Lookup_result "session option result" | Lookup_value "session option"

record ('t, 'm, 'w) rt_env =
  re_plugins :: plugins
  re_get_session :: "string \<Rightarrow> 'w \<Rightarrow> session_lookup raising \<times> 'w"
  re_build_context :: "session \<Rightarrow> agent \<Rightarrow> ('t, 'm) registry \<Rightarrow> 'w \<Rightarrow> exn option \<times> 'w"
  re_provider :: "(string \<Rightarrow> 'w \<Rightarrow> (string option \<times> string option) option raising \<times> 'w) option"
  re_account :: "(string \<times> string) option"
  re_defaults :: "string \<times> string"
  re_settings_key :: "string \<Rightarrow> string option"
  re_open :: "session \<Rightarrow> string \<Rightarrow> string \<Rightarrow> string option \<Rightarrow> ('t, 'm) registry \<Rightarrow> 'w \<Rightarrow> exn option \<times> 'w"
  re_send :: "ai_request \<Rightarrow> 'w \<Rightarrow> response raising \<times> 'w"
  re_now :: "'w \<Rightarrow> rat"
  re_now_text :: "'w \<Rightarrow> string"
  re_lifecycle :: bool
  re_hooks :: bool
  re_policy_enabled :: bool
  re_engine :: engine
  re_engine_name :: string

definition MAX_TOOL_LOOPS :: nat where
  "MAX_TOOL_LOOPS = 10"

record run_result =
  rn_agent_name :: string
  rn_response :: string
  rn_parts :: "msg_part list"
  rn_metadata :: dict
  rn_tools_used :: "string list"
  rn_tokens_used :: "token_usage option"
  rn_duration :: rat
  rn_error :: "string option"
  rn_task_id :: "string option"

subsection \<open>The policy input and the rejection\<close>

text \<open>TODOs come as dictionaries of texts; unknown states and priorities become the defaults.\<close>

definition todo_status_of :: "string \<Rightarrow> todo_status" where
  "todo_status_of s = (if s = ''in_progress'' then In_progress else if s = ''completed'' then Completed
     else if s = ''blocked'' then Blocked else if s = ''skipped'' then Skipped else Pending)"

definition todo_level_of :: "string \<Rightarrow> level" where
  "todo_level_of s = (if s = ''high'' then High else if s = ''low'' then Low else Medium)"

definition text_entry :: "string \<Rightarrow> string \<Rightarrow> (string \<times> string) list \<Rightarrow> string" where
  "text_entry k d t = (case map_of t k of Some v \<Rightarrow> v | None \<Rightarrow> d)"

definition todo_of :: "(string \<times> string) list \<Rightarrow> todo_item" where
  "todo_of t = \<lparr>td_id = text_entry ''id'' [] t, td_description = text_entry ''description'' [] t,
     td_status = todo_status_of (text_entry ''status'' ''pending'' t),
     td_priority = todo_level_of (text_entry ''priority'' ''medium'' t), td_dependencies = []\<rparr>"

definition build_policy_input ::
  "string \<Rightarrow> string \<Rightarrow> (string \<times> string) list list \<Rightarrow> nat \<Rightarrow> string list \<Rightarrow> string \<Rightarrow> policy_input" where
  "build_policy_input now_text goal todos iteration tools_used summary =
     (mk_input goal)\<lparr>pi_todos := map todo_of todos,
        pi_events := (if summary = [] then []
                      else [\<lparr>es_event_type = ''tool_result'', es_timestamp = now_text, es_summary = take 200 summary,
                             es_outcome = Ev_success\<rparr>]),
        pi_budgets := default_budget\<lparr>bi_iterations := int iteration, bi_max_iterations := int MAX_TOOL_LOOPS,
                                     bi_tool_calls := int (length tools_used)\<rparr>\<rparr>"

text \<open>\<open>_parse_rejection_payload\<close>; a plain text is one that \<open>json.loads\<close> refuses.\<close>

definition rejection_fields :: "json \<Rightarrow> dict" where
  "rejection_fields hints = [(''policy_id'', JStr ''harness_invariants''), (''reason_code'', JStr ''POLICY_REJECTED''),
     (''blocked_action_type'', JStr ''UNKNOWN''), (''blocked_action_risk'', JStr ''LOW''), (''remediation_hints'', hints)]"

definition parse_rejection :: "message_text option \<Rightarrow> dict" where
  "parse_rejection payload = (case payload of
     Some (Dumped (JObj d)) \<Rightarrow>
       map (\<lambda>(k, default). (k, case map_of d k of Some v \<Rightarrow> v | None \<Rightarrow> default)) (rejection_fields (JArr []))
   | Some (Plain (c # t)) \<Rightarrow> rejection_fields (JArr [JStr (c # t)])
   | _ \<Rightarrow> rejection_fields (JArr [JStr ''Revise proposal to satisfy validator and harness gates'']))"

subsection \<open>The tool loop\<close>

datatype verdict = Go_on | Stop | Fail exn

definition is_approval :: "action \<Rightarrow> bool" where
  "is_approval a \<longleftrightarrow> action_type a = ''REQUEST_APPROVAL''"

text \<open>The turn of the policy engine. The summary that is assigned before a \<open>break\<close> is not read afterwards.\<close>

definition judge_proposal :: "string \<Rightarrow> string \<Rightarrow> step_proposal \<Rightarrow> verdict \<times> rt_event list" where
  "judge_proposal engine_name session_id p =
     (let vr = validate p; gr = gate_enforce p;
          decision = Published ''policy.proposal.decision''
            [(''session_id'', JStr session_id), (''policy_id'', JStr engine_name), (''proposal_intent'', JStr (sp_intent p)),
             (''risk_level'', JStr (risk_value (sp_risk_level p))), (''action_count'', JNum (of_nat (length (sp_actions p))))]
      in if \<not> vr_valid vr \<or> \<not> vr_valid gr
         then (Stop, [decision, Published ''policy.proposal.rejection''
                ((''session_id'', JStr session_id)
                 # parse_rejection (case vr_errors gr of [] \<Rightarrow> None | e # _ \<Rightarrow> Some e))])
         else if list_ex is_approval (sp_actions p) then (Stop, [decision])
         else if contains ''budget exhausted'' (str_lower (sp_intent p)) then (Stop, [decision])
         else (Go_on, [decision]))"

definition policy_check :: "engine \<Rightarrow> string \<Rightarrow> string \<Rightarrow> policy_input \<Rightarrow> verdict \<times> rt_event list" where
  "policy_check eng engine_name session_id i = (case eng i of
     Inl e \<Rightarrow> (Fail e, [])
   | Inr p \<Rightarrow> judge_proposal engine_name session_id p)"

record loop_state =
  lp_parts :: "msg_part list"
  lp_tools :: "string list"
  lp_tokens :: token_usage
  lp_response :: "response option"
  lp_summary :: string

definition lp_init :: loop_state where
  "lp_init = \<lparr>lp_parts = [], lp_tools = [], lp_tokens = no_tokens, lp_response = None, lp_summary = []\<rparr>"

definition add_tool :: "msg_part \<Rightarrow> string list \<Rightarrow> string list" where
  "add_tool p ts = (case p of Tool_part t _ \<Rightarrow> if t \<in> set ts then ts else ts @ [t] | _ \<Rightarrow> ts)"

definition token_count :: "string \<Rightarrow> (string \<times> int) list \<Rightarrow> int" where
  "token_count k d = (case map_of d k of Some n \<Rightarrow> n | None \<Rightarrow> 0)"

definition add_tokens :: "(string \<times> int) list option \<Rightarrow> token_usage \<Rightarrow> token_usage" where
  "add_tokens d t = (case d of None \<Rightarrow> t
     | Some d \<Rightarrow> \<lparr>tu_input = tu_input t + token_count ''input'' d, tu_output = tu_output t + token_count ''output'' d,
                  tu_reasoning = tu_reasoning t + token_count ''reasoning'' d,
                  tu_cache_read = tu_cache_read t + token_count ''cache_read'' d,
                  tu_cache_write = tu_cache_write t + token_count ''cache_write'' d\<rparr>)"

text \<open>What a turn and the code after the loop both do with a response.\<close>

definition absorb :: "response \<Rightarrow> loop_state \<Rightarrow> loop_state" where
  "absorb r lp = lp\<lparr>lp_parts := lp_parts lp @ rs_parts r, lp_tools := fold add_tool (rs_parts r) (lp_tools lp),
     lp_tokens := add_tokens (rs_tokens r) (lp_tokens lp)\<rparr>"

definition is_tool_part :: "msg_part \<Rightarrow> bool" where
  "is_tool_part p = (case p of Tool_part _ _ \<Rightarrow> True | _ \<Rightarrow> False)"

definition tool_hooks :: "bool \<Rightarrow> msg_part list \<Rightarrow> rt_event list" where
  "tool_hooks on ps = (if on
     then concat (map (\<lambda>p. case p of Tool_part t out \<Rightarrow> [Hook_tool_call t (case out of Some s \<Rightarrow> s | None \<Rightarrow> [])] | _ \<Rightarrow> []) ps)
     else [])"

definition turn_message :: "nat \<Rightarrow> string \<Rightarrow> string \<Rightarrow> string \<Rightarrow> string" where
  "turn_message it user_message intent summary =
     (if it = 0 then user_message
      else ''Continue working on: '' @ intent @ [CHR 0x0A, CHR 0x0A] @ ''Last tool result: '' @ summary)"

fun tool_loop :: "('t, 'm, 'w) rt_env \<Rightarrow> string \<Rightarrow> string \<Rightarrow> dict \<Rightarrow> nat \<Rightarrow> nat \<Rightarrow> loop_state \<Rightarrow> rt_event list \<Rightarrow> 'w
    \<Rightarrow> exn option \<times> loop_state \<times> rt_event list \<times> 'w" where
  "tool_loop env sid msg opts it 0 lp tr w = (None, lp, tr, w)"
| "tool_loop env sid msg opts it (Suc n) lp tr w =
     (let (v, evs) = (if re_policy_enabled env
            then policy_check (re_engine env) (re_engine_name env) sid
                   (build_policy_input (re_now_text env w) (take 200 msg) [] it (lp_tools lp) (lp_summary lp))
            else (Go_on, []));
          tr = tr @ evs
      in case v of
           Fail e \<Rightarrow> (Some e, lp, tr, w)
         | Stop \<Rightarrow> (None, lp, tr, w)
         | Go_on \<Rightarrow>
             (let rq = \<lparr>rq_message = turn_message it msg (take 200 msg) (lp_summary lp), rq_options = opts\<rparr>
              in case re_send env rq w of
                   (Inl e, w) \<Rightarrow> (Some e, lp, tr, w)
                 | (Inr r, w) \<Rightarrow>
                     (let lp = (absorb r lp)\<lparr>lp_response := Some r,
                                 lp_summary := (if rs_text r = [] then lp_summary lp else take 300 (rs_text r))\<rparr>;
                          tr = tr @ Exchanged rq r # tool_hooks (re_hooks env) (rs_parts r)
                      in if \<not> list_ex is_tool_part (rs_parts r) then (None, lp, tr, w)
                         else tool_loop env sid msg opts (Suc it) n lp tr w)))"

subsection \<open>The execution of an agent\<close>

definition final_options :: "dict \<Rightarrow> dict" where
  "final_options opts = AList.update ''disable_tools'' (JBool True) opts"

definition joined_text :: "msg_part list \<Rightarrow> string" where
  "joined_text ps = concat (map (\<lambda>p. case p of Text_part t \<Rightarrow> t | _ \<Rightarrow> []) ps)"

definition with_task :: "string option \<Rightarrow> dict \<Rightarrow> dict" where
  "with_task task d = (case task of Some (c # t) \<Rightarrow> d @ [(''task_id'', JStr (c # t))] | _ \<Rightarrow> d)"

text \<open>After the loop: when no response was obtained, a last message is sent without tools. The parts, tools and
  tokens of the last response are then added, for a response of the loop a second time.\<close>

definition finish_run :: "('t, 'm, 'w) rt_env \<Rightarrow> string \<Rightarrow> string \<Rightarrow> string option \<Rightarrow> rat \<Rightarrow> string \<Rightarrow> dict \<Rightarrow> loop_state
    \<Rightarrow> rt_event list \<Rightarrow> 'w \<Rightarrow> run_result raising \<times> rt_event list \<times> 'w" where
  "finish_run env name sid task start msg opts lp tr w =
     (let rq = \<lparr>rq_message = ''Task: '' @ take 200 msg @ [CHR 0x0A, CHR 0x0A] @ ''Provide the final response to the user.'',
                rq_options = final_options opts\<rparr>;
          (got, tr, w) = (case lp_response lp of
             Some r \<Rightarrow> (Inr r, tr, w)
           | None \<Rightarrow> (case re_send env rq w of (Inl e, w) \<Rightarrow> (Inl e, tr, w) | (Inr r, w) \<Rightarrow> (Inr r, tr @ [Exchanged rq r], w)))
      in case got of
           Inl e \<Rightarrow> (Inl e, tr, w)
         | Inr r \<Rightarrow>
             (let lp = absorb r lp; duration = re_now env w - start;
                  cleanup = Published ''agent.cleanup'' (with_task task [(''session_id'', JStr sid), (''agent_name'', JStr name),
                     (''messages_count'', JNum 1), (''tools_used'', JArr (map JStr (lp_tools lp))), (''duration'', JNum duration)]);
                  complete = Hook_phase ''agent_complete'' [(''agent_name'', JStr name), (''duration_seconds'', JNum duration),
                     (''tools_used_count'', JNum (of_nat (length (lp_tools lp)))), (''success'', JBool True)]
              in (Inr \<lparr>rn_agent_name = name, rn_response = (if rs_text r = [] then joined_text (rs_parts r) else rs_text r),
                       rn_parts = lp_parts lp, rn_metadata = rs_metadata r, rn_tools_used = lp_tools lp,
                       rn_tokens_used = Some (lp_tokens lp), rn_duration = duration, rn_error = None, rn_task_id = task\<rparr>,
                  tr @ cleanup # (if re_hooks env then [complete] else []), w)))"

text \<open>The provider, the model and the key of the run. The options \<open>provider\<close> and \<open>model\<close>, when given, are texts.\<close>

definition option_text :: "string \<Rightarrow> string \<Rightarrow> dict \<Rightarrow> string" where
  "option_text k d opts = (case map_of opts k of Some (JStr s) \<Rightarrow> s | _ \<Rightarrow> d)"

definition chosen_provider :: "('t, 'm, 'w) rt_env \<Rightarrow> dict \<Rightarrow> string" where
  "chosen_provider env opts =
     option_text ''provider'' (case re_account env of Some a \<Rightarrow> fst a | None \<Rightarrow> fst (re_defaults env)) opts"

definition chosen_model :: "('t, 'm, 'w) rt_env \<Rightarrow> agent \<Rightarrow> dict \<Rightarrow> string" where
  "chosen_model env a opts =
     (let m = option_text ''model'' (case re_account env of Some a \<Rightarrow> snd a | None \<Rightarrow> snd (re_defaults env)) opts
      in case ag_model a of Some (x # d) \<Rightarrow> text_entry ''model'' m (x # d) | _ \<Rightarrow> m)"

text \<open>A missing or empty key of the provider configuration leaves the choice to the settings.\<close>

definition choose_key :: "('t, 'm, 'w) rt_env \<Rightarrow> string \<Rightarrow> string \<Rightarrow> 'w \<Rightarrow> (string \<times> string option) raising \<times> 'w" where
  "choose_key env provider model w =
     (case re_provider env of
        None \<Rightarrow> (Inr (model, re_settings_key env provider), w)
      | Some lookup \<Rightarrow> (case lookup provider w of
          (Inl e, w) \<Rightarrow> (Inl e, w)
        | (Inr (Some (Some (c # key), m)), w) \<Rightarrow>
            (Inr (case m of Some (d # ms) \<Rightarrow> d # ms | _ \<Rightarrow> model, Some (c # key)), w)
        | (Inr _, w) \<Rightarrow> (Inr (model, re_settings_key env provider), w)))"

definition agent_tools :: "agent \<Rightarrow> ('t, 'm) registry option \<Rightarrow> ('t, 'm) registry" where
  "agent_tools a tools =
     (let all = (case tools of Some r \<Rightarrow> r | None \<Rightarrow> rg_init)
      in case filtered_registry (tf_make (Some (ag_permission a)) (Some all) None None None None) of
           Some r \<Rightarrow> r | None \<Rightarrow> rg_init)"

definition opt_num :: "rat option \<Rightarrow> json" where
  "opt_num x = (case x of Some r \<Rightarrow> JNum r | None \<Rightarrow> JNull)"

definition execution_options :: "agent \<Rightarrow> dict \<Rightarrow> dict" where
  "execution_options a opts =
     fold (\<lambda>(k, v). AList.update k v) opts [(''temperature'', opt_num (ag_temperature a)), (''top_p'', opt_num (ag_top_p a))]"

text \<open>\<open>AGENT_EXECUTING\<close> and its copy for the lifecycle.\<close>

definition announce :: "('t, 'm, 'w) rt_env \<Rightarrow> string \<Rightarrow> dict \<Rightarrow> rt_event list" where
  "announce env name d = Published name d # (if re_lifecycle env then [Lifecycle_updated d] else [])"

definition run_body :: "('t, 'm, 'w) rt_env \<Rightarrow> agent \<Rightarrow> string \<Rightarrow> session \<Rightarrow> ('t, 'm) registry option \<Rightarrow> string option \<Rightarrow> rat \<Rightarrow> string \<Rightarrow> dict
    \<Rightarrow> rt_event list \<Rightarrow> 'w \<Rightarrow> run_result raising \<times> rt_event list \<times> 'w" where
  "run_body env a sid s tools task start msg opts tr w =
     (let reg = agent_tools a tools
      in case re_build_context env s a reg w of
           (Some e, w) \<Rightarrow> (Inl e, tr, w)
         | (None, w) \<Rightarrow>
             (let tr = tr @ [Published ''agent.ready'' (with_task task [(''session_id'', JStr sid), (''agent_name'', JStr (ag_name a)),
                         (''tools_available'', JNum (of_nat (card (dom (rg_tools reg)))))])];
                  provider = chosen_provider env opts
              in case choose_key env provider (chosen_model env a opts) w of
                   (Inl e, w) \<Rightarrow> (Inl e, tr, w)
                 | (Inr (model, key), w) \<Rightarrow>
                     (case re_open env s provider model key reg w of
                        (Some e, w) \<Rightarrow> (Inl e, tr, w)
                      | (None, w) \<Rightarrow>
                          (let tr = tr @ announce env ''agent.executing'' (with_task task
                                      [(''session_id'', JStr sid), (''agent_name'', JStr (ag_name a)), (''model'', JStr model)]);
                               eo = execution_options a opts
                           in case tool_loop env sid msg eo 0 MAX_TOOL_LOOPS lp_init tr w of
                                (Some e, lp, tr, w) \<Rightarrow> (Inl e, tr, w)
                              | (None, lp, tr, w) \<Rightarrow> finish_run env (ag_name a) sid task start msg eo lp tr w))))"

text \<open>What \<open>except Exception\<close> makes of an exception of the body.\<close>

definition failed_run :: "('t, 'm, 'w) rt_env \<Rightarrow> string \<Rightarrow> string \<Rightarrow> string option \<Rightarrow> rat \<Rightarrow> exn \<Rightarrow> 'w \<Rightarrow> run_result \<times> rt_event" where
  "failed_run env name sid task start e w =
     (let duration = re_now env w - start
      in (\<lparr>rn_agent_name = name, rn_response = ''Error: '' @ exn_msg e, rn_parts = [],
           rn_metadata = [(''error'', JStr (exn_msg e))], rn_tools_used = [], rn_tokens_used = None,
           rn_duration = duration, rn_error = Some (exn_msg e), rn_task_id = task\<rparr>,
          Published ''agent.error'' (with_task task [(''session_id'', JStr sid), (''agent_name'', JStr name),
            (''error'', JStr (exn_msg e)), (''duration'', JNum duration)])))"

definition refuse :: "string \<Rightarrow> string \<Rightarrow> string \<Rightarrow> string \<Rightarrow> 'a raising \<times> rt_event list" where
  "refuse sid name told raised =
     (Inl (Exn ''ValueError'' raised), [Published ''agent.error'' [(''session_id'', JStr sid), (''agent_name'', JStr name),
        (''error'', JStr told)]])"

text \<open>The session, checked: \<open>Inl\<close> is an exception, with the events published before it.\<close>

definition find_session_for :: "('t, 'm, 'w) rt_env \<Rightarrow> string \<Rightarrow> string \<Rightarrow> 'w \<Rightarrow> (session raising \<times> rt_event list) \<times> 'w" where
  "find_session_for env name sid w =
     (case re_get_session env sid w of
        (Inl e, w) \<Rightarrow> ((Inl e, []), w)
      | (Inr l, w) \<Rightarrow>
          (case l of
             Lookup_result (Err e c b) \<Rightarrow>
               (refuse sid name (''Session lookup failed: '' @ e) (''Session lookup failed for '' @ sid @ '': '' @ e), w)
           | _ \<Rightarrow>
             (case (case l of Lookup_result r \<Rightarrow> unwrap r | Lookup_value v \<Rightarrow> Inr v) of
                Inl e \<Rightarrow> ((Inl e, []), w)
              | Inr None \<Rightarrow> (refuse sid name (''Session not found: '' @ sid) (''Session not found: '' @ sid), w)
              | Inr (Some s) \<Rightarrow>
                  (let empty = (\<lambda>field. ''Session '' @ sid @ '' has empty '' @ field)
                   in if s_project_id s = [] then (refuse sid name (empty ''project_id'') (empty ''project_id''), w)
                      else if s_directory s = [] then (refuse sid name (empty ''directory'') (empty ''directory''), w)
                      else if s_title s = [] then (refuse sid name (empty ''title'') (empty ''title''), w)
                      else ((Inr s, []), w)))))"

text \<open>The arguments of a call, and the call. The events of the run are returned in order.\<close>

record ('t, 'm) run_args =
  ra_agent :: string
  ra_session :: string
  ra_message :: string
  ra_tools :: "('t, 'm) registry option"
  ra_options :: dict
  ra_task :: "string option"

definition execute_agent :: "('t, 'm, 'w) rt_env \<Rightarrow> ('t, 'm) run_args \<Rightarrow> agent_registry \<Rightarrow> 'w
    \<Rightarrow> run_result raising \<times> rt_event list \<times> agent_registry \<times> 'w" where
  "execute_agent env x reg w =
     (let start = re_now env w; sid = ra_session x; task = ra_task x;
          (found, reg) = get_agent (re_plugins env) (ra_agent x) reg
      in case found of
           None \<Rightarrow> (let (r, tr) = refuse sid (ra_agent x) (''Agent not found: '' @ ra_agent x) (''Agent not found: '' @ ra_agent x)
                    in (r, tr, reg, w))
         | Some a \<Rightarrow>
             (case find_session_for env (ra_agent x) sid w of
                ((Inl e, tr), w) \<Rightarrow> (Inl e, tr, reg, w)
              | ((Inr s, tr), w) \<Rightarrow>
                  (let init = with_task task [(''session_id'', JStr sid), (''agent_name'', JStr (ag_name a)), (''agent_mode'', JStr (ag_mode a))];
                       tr = tr @ announce env ''agent.initialized'' init
                   in case run_body env a sid s (ra_tools x) task start (ra_message x) (ra_options x) tr w of
                        (Inr r, tr, w) \<Rightarrow> (Inr r, tr, reg, w)
                      | (Inl e, tr, w) \<Rightarrow> (let (r, ev) = failed_run env (ag_name a) sid task start e w in (Inr r, tr @ [ev], reg, w)))))"

subsection \<open>The turn of the policy engine\<close>


definition reading_engine :: engine where
  "reading_engine i = Inr ((mk_proposal ''look'')\<lparr>sp_actions := [Read_file ''a.py'' None None]\<rparr>)"


definition lacks :: "string \<Rightarrow> rt_event list \<Rightarrow> bool" where
  "lacks n tr \<longleftrightarrow> (\<forall>d. Published n d \<notin> set tr)"

abbreviation rejection_free :: "rt_event list \<Rightarrow> bool" where
  "rejection_free \<equiv> lacks ''policy.proposal.rejection''"

lemma lacks_simps [simp]:
  "lacks n []" "lacks n (tr @ tr') \<longleftrightarrow> lacks n tr \<and> lacks n tr'"
  "lacks n (ev # tr) \<longleftrightarrow> (\<forall>d. ev \<noteq> Published n d) \<and> lacks n tr"
  by (auto simp: lacks_def)

lemma lacks_hooks [simp]: "lacks n (tool_hooks on ps)"
  by (induction ps) (auto simp: tool_hooks_def split: msg_part.splits)

lemma judge_passes: "passes p \<Longrightarrow> rejection_free (snd (judge_proposal n sid p))"
  by (simp add: judge_proposal_def passes_def Let_def)

text \<open>A client of the contract of an engine: with an engine that is sound on inputs without TODOs, which are the only
  inputs the runtime builds, the loop never fails in the policy turn and no proposal is rejected.\<close>

context proposer
begin

lemma check_accepted:
  assumes "fit i"
  shows "(\<forall>e. fst (policy_check propose n sid i) \<noteq> Fail e) \<and> rejection_free (snd (policy_check propose n sid i))"
proof -
  from assms obtain p where p: "propose i = Inr p" "passes p" by (rule fit_answer)
  have "fst (judge_proposal n sid p) \<noteq> Fail e" for e by (simp add: judge_proposal_def Let_def)
  with p judge_passes show ?thesis by (simp add: policy_check_def)
qed

lemma loop_accepted:
  assumes "re_engine env = propose" "\<And>i. pi_todos i = [] \<Longrightarrow> fit i"
    and "tool_loop env sid msg opts it n lp tr w = (e, lp', tr', w')" "rejection_free tr"
  shows "rejection_free tr'"
  using assms(3,4)
proof (induction n arbitrary: it lp tr w)
  case (Suc n)
  let ?i = "build_policy_input (re_now_text env w) (take 200 msg) [] it (lp_tools lp) (lp_summary lp)"
  have "fit ?i" by (rule assms(2)) (simp add: build_policy_input_def)
  note ok = check_accepted [OF this, of "re_engine_name env" sid]
  show ?case
    using Suc.prems ok Suc.IH unfolding assms(1)
    by (auto simp: assms(1) Let_def split: prod.splits if_splits verdict.splits sum.splits; fastforce)
qed simp

end

subsection \<open>What a run consists of\<close>

text \<open>The exchanges of a trace.\<close>

fun exchanges :: "rt_event list \<Rightarrow> (ai_request \<times> response) list" where
  "exchanges [] = []"
| "exchanges (Exchanged rq r # tr) = (rq, r) # exchanges tr"
| "exchanges (_ # tr) = exchanges tr"

lemma exchanges_append [simp]: "exchanges (tr @ tr') = exchanges tr @ exchanges tr'"
  by (induction tr rule: exchanges.induct) simp_all

lemma exchanges_hooks [simp]: "exchanges (tool_hooks on ps) = []"
  by (induction ps) (auto simp: tool_hooks_def split: msg_part.splits)

lemma exchanges_check [simp]: "exchanges (snd (policy_check eng n sid i)) = []"
  by (simp add: policy_check_def judge_proposal_def Let_def split: sum.splits)

lemma exchanges_announce [simp]: "exchanges (announce env n d) = []"
  by (simp add: announce_def)

definition absorb_all :: "response list \<Rightarrow> loop_state \<Rightarrow> loop_state" where
  "absorb_all rs lp = fold absorb rs lp"

lemma absorb_all_parts: "lp_parts (absorb_all rs lp) = lp_parts lp @ concat (map rs_parts rs)"
  by (induction rs arbitrary: lp) (simp_all add: absorb_all_def absorb_def)

lemma absorb_all_tokens: "lp_tokens (absorb_all rs lp) = fold add_tokens (map rs_tokens rs) (lp_tokens lp)"
  by (induction rs arbitrary: lp) (simp_all add: absorb_all_def absorb_def)

lemma absorb_all_response [simp]: "lp_response (absorb_all rs lp) = lp_response lp"
  by (induction rs arbitrary: lp) (simp_all add: absorb_all_def absorb_def)

text \<open>The counts of a state, without the response and the summary.\<close>

definition same_counts :: "loop_state \<Rightarrow> loop_state \<Rightarrow> bool" where
  "same_counts a b \<longleftrightarrow> lp_parts a = lp_parts b \<and> lp_tools a = lp_tools b \<and> lp_tokens a = lp_tokens b"

lemma same_counts_simps [simp]: "same_counts a a" "same_counts (a\<lparr>lp_response := x, lp_summary := y\<rparr>) b \<longleftrightarrow> same_counts a b"
  "same_counts b (a\<lparr>lp_response := x, lp_summary := y\<rparr>) \<longleftrightarrow> same_counts b a"
  by (simp_all add: same_counts_def)

lemma same_counts_absorb_all: "same_counts a b \<Longrightarrow> same_counts (absorb_all rs a) (absorb_all rs b)"
  by (induction rs arbitrary: a b) (simp_all add: absorb_all_def absorb_def same_counts_def)

lemma same_counts_trans: "same_counts a b \<Longrightarrow> same_counts b c \<Longrightarrow> same_counts a c"
  by (simp add: same_counts_def)

lemma tool_loop_trace:
  "tool_loop env sid msg opts it n lp tr w = (e, lp', tr', w') \<Longrightarrow>
   \<exists>evs. tr' = tr @ evs \<and> length (exchanges evs) \<le> n
     \<and> same_counts lp' (absorb_all (map snd (exchanges evs)) lp)
     \<and> lp_response lp' = (if exchanges evs = [] then lp_response lp else Some (snd (last (exchanges evs))))
     \<and> (\<forall>x \<in> set (exchanges evs). rq_options (fst x) = opts)"
proof (induction n arbitrary: it lp tr w)
  case 0
  then show ?case by (simp add: absorb_all_def)
next
  case (Suc n)
  obtain v evs0 where chk: "(if re_policy_enabled env
      then policy_check (re_engine env) (re_engine_name env) sid
             (build_policy_input (re_now_text env w) (take 200 msg) [] it (lp_tools lp) (lp_summary lp))
      else (Go_on, [])) = (v, evs0)" by fastforce
  have ex0: "exchanges evs0 = []" using chk by (auto split: if_splits dest: sym [of _ "(v, evs0)"])
      (metis exchanges_check snd_conv)
  let ?rq = "\<lparr>rq_message = turn_message it msg (take 200 msg) (lp_summary lp), rq_options = opts\<rparr>"
  show ?case
  proof (cases "v = Go_on \<and> (\<exists>r w1. re_send env ?rq w = (Inr r, w1))")
    case False
    with Suc.prems have "tr' = tr @ evs0 \<and> lp' = lp"
      by (auto simp: chk Let_def split: verdict.splits prod.splits sum.splits)
    with ex0 show ?thesis by (intro exI [of _ evs0]) (simp add: absorb_all_def)
  next
    case True
    then obtain r w1 where v: "v = Go_on" and snd: "re_send env ?rq w = (Inr r, w1)" by blast
    let ?lp1 = "(absorb r lp)\<lparr>lp_response := Some r,
                  lp_summary := (if rs_text r = [] then lp_summary lp else take 300 (rs_text r))\<rparr>"
    let ?new = "evs0 @ Exchanged ?rq r # tool_hooks (re_hooks env) (rs_parts r)"
    have ex1: "exchanges ?new = [(?rq, r)]" by (simp add: ex0)
    show ?thesis
    proof (cases "list_ex is_tool_part (rs_parts r)")
      case False
      with Suc.prems have "lp' = ?lp1 \<and> tr' = tr @ ?new"
        by (simp add: chk v snd Let_def)
      with ex1 show ?thesis by (intro exI [of _ ?new]) (simp add: absorb_all_def)
    next
      case True
      with Suc.prems have "tool_loop env sid msg opts (Suc it) n ?lp1 (tr @ ?new) w1 = (e, lp', tr', w')"
        by (simp add: chk v snd Let_def)
      from Suc.IH [OF this] obtain evs where evs: "tr' = (tr @ ?new) @ evs" "length (exchanges evs) \<le> n"
        "same_counts lp' (absorb_all (map snd (exchanges evs)) ?lp1)"
        "lp_response lp' = (if exchanges evs = [] then lp_response ?lp1 else Some (snd (last (exchanges evs))))"
        "\<forall>x \<in> set (exchanges evs). rq_options (fst x) = opts" by blast
      have ex: "exchanges (?new @ evs) = (?rq, r) # exchanges evs" using ex1 by simp
      have "same_counts (absorb_all (map snd (exchanges evs)) ?lp1) (absorb_all (map snd (exchanges evs)) (absorb r lp))"
        by (intro same_counts_absorb_all) simp
      with evs(3) have "same_counts lp' (absorb_all (map snd (exchanges (?new @ evs))) lp)"
        unfolding ex by (simp add: absorb_all_def) (erule (1) same_counts_trans)
      with evs ex show ?thesis by (intro exI [of _ "?new @ evs"]) auto
    qed
  qed
qed

text \<open>What a run that ends without an exception is made of: the events before the loop hold no exchange.\<close>

lemma finish_run_InrD:
  assumes "finish_run env name sid task start msg opts lp tr w = (Inr res, tr', w')"
  shows "\<exists>r. rn_parts res = lp_parts lp @ rs_parts r \<and> rn_tokens_used res = Some (add_tokens (rs_tokens r) (lp_tokens lp))
    \<and> rn_error res = None
    \<and> (case lp_response lp of Some r' \<Rightarrow> r = r' \<and> exchanges tr' = exchanges tr
       | None \<Rightarrow> \<exists>rq. rq_options rq = final_options opts \<and> exchanges tr' = exchanges tr @ [(rq, r)])"
  using assms
  by (auto simp: finish_run_def absorb_def Let_def split: option.splits sum.splits prod.splits if_splits)

definition plain_events :: "rt_event list \<Rightarrow> bool" where
  "plain_events evs = list_all (\<lambda>ev. (\<exists>d. ev = Published ''agent.ready'' d \<or> ev = Published ''agent.executing'' d
     \<or> ev = Published ''agent.initialized'' d \<or> ev = Lifecycle_updated d)) evs"

lemma plain_no_exchange: "plain_events evs \<Longrightarrow> exchanges evs = []"
  by (induction evs rule: exchanges.induct) (auto simp: plain_events_def)

lemma run_body_cases:
  assumes "run_body env a sid s tools task start msg opts tr w = (out, tr', w')"
  obtains
    (early) e evs where "out = Inl e" "tr' = tr @ evs" "plain_events evs"
  | (failed) e evs w1 lp where "out = Inl e" "plain_events evs"
      "tool_loop env sid msg (execution_options a opts) 0 MAX_TOOL_LOOPS lp_init (tr @ evs) w1 = (Some e, lp, tr', w')"
  | (late) evs w1 lp tr2 w2 where "plain_events evs"
      "tool_loop env sid msg (execution_options a opts) 0 MAX_TOOL_LOOPS lp_init (tr @ evs) w1 = (None, lp, tr2, w2)"
      "finish_run env (ag_name a) sid task start msg (execution_options a opts) lp tr2 w2 = (out, tr', w')"
proof -
  let ?reg = "agent_tools a tools"
  let ?ready = "[Published ''agent.ready'' (with_task task [(''session_id'', JStr sid), (''agent_name'', JStr (ag_name a)),
                         (''tools_available'', JNum (of_nat (card (dom (rg_tools ?reg)))))])]"
  obtain b w1 where ctx: "re_build_context env s a ?reg w = (b, w1)" by fastforce
  show ?thesis
  proof (cases b)
    case (Some e)
    with assms ctx show ?thesis by (intro early [of e "[]"]) (simp_all add: run_body_def plain_events_def)
  next
    case b: None
    obtain k w2 where key: "choose_key env (chosen_provider env opts) (chosen_model env a opts) w1 = (k, w2)" by fastforce
    show ?thesis
    proof (cases k)
      case (Inl e)
      with assms ctx b key show ?thesis
        by (intro early [of e ?ready]) (simp_all add: run_body_def plain_events_def Let_def)
    next
      case (Inr mk)
      obtain model kk where mk: "mk = (model, kk)" by fastforce
      obtain o1 w3 where op: "re_open env s (chosen_provider env opts) model kk ?reg w2 = (o1, w3)" by fastforce
      show ?thesis
      proof (cases o1)
        case (Some e)
        with assms ctx b key Inr mk op show ?thesis
          by (intro early [of e ?ready]) (simp_all add: run_body_def plain_events_def Let_def)
      next
        case o1: None
        let ?evs = "?ready @ announce env ''agent.executing'' (with_task task
          [(''session_id'', JStr sid), (''agent_name'', JStr (ag_name a)), (''model'', JStr model)])"
        have plain: "plain_events ?evs" by (simp add: plain_events_def announce_def)
        obtain x lp tr2 w4 where loop: "tool_loop env sid msg (execution_options a opts) 0 MAX_TOOL_LOOPS lp_init (tr @ ?evs) w3
            = (x, lp, tr2, w4)" by (metis prod_cases4)
        note body = run_body_def [of env a sid s tools task start msg opts tr w] ctx b key Inr mk op o1
        show ?thesis
        proof (cases x)
          case (Some e)
          with assms loop show ?thesis by (intro failed [OF _ plain, of e w3 lp]) (simp_all add: body Let_def)
        next
          case None
          with assms loop show ?thesis by (intro late [OF plain, of w3 lp tr2 w4]) (simp_all add: body Let_def)
        qed
      qed
    qed
  qed
qed

lemma run_body_InrD:
  assumes "run_body env a sid s tools task start msg opts tr w = (Inr res, tr', w')" "exchanges tr = []"
  shows "rn_error res = None \<and> (\<exists>xs r. length xs \<le> MAX_TOOL_LOOPS
    \<and> rn_parts res = concat (map rs_parts (map snd xs)) @ rs_parts r
    \<and> rn_tokens_used res = Some (add_tokens (rs_tokens r) (fold add_tokens (map rs_tokens (map snd xs)) no_tokens))
    \<and> (\<forall>x \<in> set xs. rq_options (fst x) = execution_options a opts)
    \<and> (if xs = [] then \<exists>rq. rq_options rq = final_options (execution_options a opts) \<and> exchanges tr' = [(rq, r)]
       else r = snd (last xs) \<and> exchanges tr' = xs))"
proof -
  let ?eo = "execution_options a opts"
  from assms(1) obtain evs0 w1 lp tr2 w2 where
    plain: "plain_events evs0"
    and loop: "tool_loop env sid msg ?eo 0 MAX_TOOL_LOOPS lp_init (tr @ evs0) w1 = (None, lp, tr2, w2)"
    and fin: "finish_run env (ag_name a) sid task start msg ?eo lp tr2 w2 = (Inr res, tr', w')"
    by (cases rule: run_body_cases) auto
  from tool_loop_trace [OF loop] obtain evs where evs: "tr2 = (tr @ evs0) @ evs" "length (exchanges evs) \<le> MAX_TOOL_LOOPS"
    "same_counts lp (absorb_all (map snd (exchanges evs)) lp_init)"
    "lp_response lp = (if exchanges evs = [] then None else Some (snd (last (exchanges evs))))"
    "\<forall>x \<in> set (exchanges evs). rq_options (fst x) = ?eo"
    by (auto simp: lp_init_def)
  have parts: "lp_parts lp = concat (map rs_parts (map snd (exchanges evs)))"
    and toks: "lp_tokens lp = fold add_tokens (map rs_tokens (map snd (exchanges evs))) no_tokens"
    using evs(3) by (simp_all add: same_counts_def absorb_all_parts absorb_all_tokens lp_init_def)
  have ex2: "exchanges tr2 = exchanges evs" using plain_no_exchange [OF plain] assms(2) evs(1) by simp
  from finish_run_InrD [OF fin] obtain r where r: "rn_parts res = lp_parts lp @ rs_parts r"
    "rn_tokens_used res = Some (add_tokens (rs_tokens r) (lp_tokens lp))" "rn_error res = None"
    "case lp_response lp of Some r' \<Rightarrow> r = r' \<and> exchanges tr' = exchanges tr2
       | None \<Rightarrow> \<exists>rq. rq_options rq = final_options ?eo \<and> exchanges tr' = exchanges tr2 @ [(rq, r)]"
    by blast
  show ?thesis
    using r evs(2,4,5) ex2 parts toks by (intro conjI exI [of _ "exchanges evs"] exI [of _ r]) (auto split: if_splits)
qed

lemma find_session_quiet:
  "find_session_for env name sid w = ((Inr s, tr), w') \<Longrightarrow> tr = []"
  by (auto simp: find_session_for_def refuse_def Let_def split: prod.splits sum.splits session_lookup.splits result.splits
      option.splits if_splits)

lemma execute_agent_cases:
  assumes "execute_agent env x reg w = (Inr res, tr, reg', w')"
  obtains a s tr0 w0 r tr1 w1 where
    "fst (get_agent (re_plugins env) (ra_agent x) reg) = Some a" "exchanges tr0 = []"
    "\<forall>ev \<in> set tr0. \<exists>d. ev = Published ''agent.initialized'' d \<or> ev = Lifecycle_updated d"
    "run_body env a (ra_session x) s (ra_tools x) (ra_task x) (re_now env w) (ra_message x) (ra_options x) tr0 w0 = (r, tr1, w1)"
    "case r of Inr res' \<Rightarrow> res = res' \<and> tr = tr1
       | Inl e \<Rightarrow> (let (res', ev) = failed_run env (ag_name a) (ra_session x) (ra_task x) (re_now env w) e w1
                  in res = res' \<and> tr = tr1 @ [ev])"
proof -
  obtain found reg1 where g: "get_agent (re_plugins env) (ra_agent x) reg = (found, reg1)" by fastforce
  with assms obtain a where a: "found = Some a"
    by (cases found) (auto simp: execute_agent_def refuse_def Let_def)
  obtain s tr2 w0 where f: "find_session_for env (ra_agent x) (ra_session x) w = ((Inr s, tr2), w0)"
    using assms a g by (auto simp: execute_agent_def Let_def split: prod.splits sum.splits)
  note [simp] = find_session_quiet [OF f]
  let ?init = "with_task (ra_task x) [(''session_id'', JStr (ra_session x)), (''agent_name'', JStr (ag_name a)), (''agent_mode'', JStr (ag_mode a))]"
  obtain r tr1 w1 where b: "run_body env a (ra_session x) s (ra_tools x) (ra_task x) (re_now env w) (ra_message x) (ra_options x)
      (announce env ''agent.initialized'' ?init) w0 = (r, tr1, w1)" by (metis prod_cases3)
  have "case r of Inr res' \<Rightarrow> res = res' \<and> tr = tr1
       | Inl e \<Rightarrow> (let (res', ev) = failed_run env (ag_name a) (ra_session x) (ra_task x) (re_now env w) e w1
                  in res = res' \<and> tr = tr1 @ [ev])"
    using assms a g f b by (auto simp: execute_agent_def Let_def split: sum.splits prod.splits)
  with g a b show ?thesis by (intro that [OF _ _ _ b]) (auto simp: announce_def)
qed

text \<open>A run that succeeds exchanges between one and ten messages with the model. Either the policy stopped the loop
  before the first message and there is one exchange, without tools, whose parts and tokens are the result; or all
  messages were sent by the loop, and the result holds the parts and the tokens of every response in order and those
  of the last response a second time.\<close>

theorem run_counts_last_twice:
  assumes "execute_agent env x reg w = (Inr res, tr, reg', w')" "rn_error res = None"
  shows "\<exists>eo. (\<exists>rq r. exchanges tr = [(rq, r)] \<and> rq_options rq = final_options eo \<and> rn_parts res = rs_parts r
        \<and> rn_tokens_used res = Some (add_tokens (rs_tokens r) no_tokens))
    \<or> (1 \<le> length (exchanges tr) \<and> length (exchanges tr) \<le> 10 \<and> (\<forall>x \<in> set (exchanges tr). rq_options (fst x) = eo)
        \<and> rn_parts res = concat (map (rs_parts \<circ> snd) (exchanges tr)) @ rs_parts (snd (last (exchanges tr)))
        \<and> rn_tokens_used res = Some (add_tokens (rs_tokens (snd (last (exchanges tr))))
             (fold add_tokens (map (rs_tokens \<circ> snd) (exchanges tr)) no_tokens)))"
proof -
  from execute_agent_cases [OF assms(1)] obtain a s tr0 w0 r tr1 w1 where
    quiet: "exchanges tr0 = []"
    and body: "run_body env a (ra_session x) s (ra_tools x) (ra_task x) (re_now env w) (ra_message x) (ra_options x) tr0 w0 = (r, tr1, w1)"
    and out: "case r of Inr res' \<Rightarrow> res = res' \<and> tr = tr1
       | Inl e \<Rightarrow> (let (res', ev) = failed_run env (ag_name a) (ra_session x) (ra_task x) (re_now env w) e w1
                  in res = res' \<and> tr = tr1 @ [ev])" by metis
  from out assms(2) have r: "r = Inr res" "tr = tr1"
    by (auto simp: failed_run_def Let_def split: sum.splits)
  from run_body_InrD [OF body [unfolded r] quiet] r(2) show ?thesis
    by (auto simp: MAX_TOOL_LOOPS_def Suc_le_eq split: if_splits intro!: exI [of _ "execution_options a (ra_options x)"])
qed

definition example_env :: "engine \<Rightarrow> (nat, nat, unit) rt_env" where
  "example_env eng = \<lparr>re_plugins = Inr [], re_get_session = (\<lambda>sid w. (Inr (Lookup_value (Some
       \<lparr>s_id = sid, s_slug = ''s'', s_project_id = ''p'', s_directory = ''d'', s_parent_id = None, s_title = ''t'',
        s_version = ''1'', s_time_created = 0, s_time_updated = 0, s_rest = []\<rparr>)), w)),
     re_build_context = (\<lambda>s a r w. (None, w)), re_provider = None, re_account = None, re_defaults = (''zai'', ''glm''),
     re_settings_key = (\<lambda>_. None), re_open = (\<lambda>s p m k r w. (None, w)),
     re_send = (\<lambda>rq w. (Inr \<lparr>rs_text = ''hi'', rs_parts = [Text_part ''hi''], rs_metadata = [],
                            rs_tokens = Some [(''input'', 7)]\<rparr>, w)),
     re_now = (\<lambda>_. 0), re_now_text = (\<lambda>_. ''0''), re_lifecycle = False, re_hooks = False, re_policy_enabled = True,
     re_engine = eng, re_engine_name = ''E''\<rparr>"

definition example_args :: "(nat, nat) run_args" where
  "example_args = \<lparr>ra_agent = ''build'', ra_session = ''s1'', ra_message = ''hello'', ra_tools = None, ra_options = [],
     ra_task = None\<rparr>"

definition example_registry :: agent_registry where
  "example_registry = (ar_init False False [])\<lparr>ar_agents := [(''build'', example_agent ''build'' True)], ar_seeded := True\<rparr>"

lemma judge_plain: "judge_proposal n sid (mk_proposal ''No action proposed'')
    = (Go_on, [Published ''policy.proposal.decision'' [(''session_id'', JStr sid), (''policy_id'', JStr n),
        (''proposal_intent'', JStr ''No action proposed''), (''risk_level'', JStr ''LOW''), (''action_count'', JNum 0)]])"
proof -
  have "\<not> contains ''budget exhausted'' (str_lower ''No action proposed'')" by code_simp
  moreover have "passes (mk_proposal ''No action proposed'')" by (rule passes_mk) (simp_all add: is_space_def)
  ultimately show ?thesis by (simp add: judge_proposal_def passes_def mk_proposal_def Let_def risk_value_def)
qed

lemma example_run:
  "\<exists>tr. execute_agent (example_env react_propose) example_args example_registry ()
     = (Inr \<lparr>rn_agent_name = ''build'', rn_response = ''hi'', rn_parts = [Text_part ''hi'', Text_part ''hi''], rn_metadata = [],
             rn_tools_used = [], rn_tokens_used = Some (no_tokens\<lparr>tu_input := 14\<rparr>), rn_duration = 0, rn_error = None,
             rn_task_id = None\<rparr>, tr, example_registry, ())"
proof -
  have got: "get_agent (Inr []) ''build'' example_registry = (Some (example_agent ''build'' True), example_registry)"
    by (simp add: get_agent_def ensure_seeded_def example_registry_def normalize_examples)
  have check: "policy_check react_propose n sid i = judge_proposal n sid (mk_proposal ''No action proposed'')" for n sid i
    by (simp add: policy_check_def react_propose_def)
  show ?thesis
    by (simp add: execute_agent_def example_args_def got find_session_for_def run_body_def choose_key_def announce_def
        chosen_provider_def chosen_model_def option_text_def MAX_TOOL_LOOPS_def check judge_plain turn_message_def
        finish_run_def absorb_def lp_init_def no_tokens_def add_tokens_def token_count_def add_tool_def
        is_tool_part_def tool_hooks_def example_agent_def eval_nat_numeral Let_def
        example_env_def)
qed

theorem run_counts_last_twice_witness:
  "\<exists>res tr. execute_agent (example_env react_propose) example_args example_registry () = (Inr res, tr, example_registry, ())
     \<and> rn_tokens_used res = Some (no_tokens\<lparr>tu_input := 14\<rparr>)
     \<and> 1 \<le> length (exchanges tr) \<and> length (exchanges tr) \<le> 10"
proof -
  from example_run obtain res tr where run:
    "execute_agent (example_env react_propose) example_args example_registry () = (Inr res, tr, example_registry, ())"
    "rn_error res = None" "rn_tokens_used res = Some (no_tokens\<lparr>tu_input := 14\<rparr>)" by force
  from run_counts_last_twice [OF run(1,2)] have "1 \<le> length (exchanges tr) \<and> length (exchanges tr) \<le> 10" by auto
  with run show ?thesis by blast
qed

subsection \<open>The rules engine in the loop\<close>

lemma judge_exhausted: "fst (judge_proposal n sid exhausted_proposal) = Stop"
proof -
  have "contains ''budget exhausted'' (str_lower ''Budget exhausted - no further actions possible'')" by code_simp
  then show ?thesis
    by (simp add: judge_proposal_def exhausted_proposal_def mk_proposal_def Let_def)
qed

lemma judge_approval: "fst (judge_proposal n sid (approval_proposal i)) = Stop"
  by (simp add: judge_proposal_def approval_proposal_def mk_proposal_def is_approval_def action_type_def Let_def)

lemma rules_stop:
  assumes "9 \<le> it"
  shows "fst (policy_check rules_propose n sid (build_policy_input t g ts it tools summary)) = Stop"
proof -
  let ?i = "build_policy_input t g ts it tools summary"
  have "(9::rat) \<le> of_nat it" using assms by (metis of_nat_le_iff of_nat_numeral)
  then have "budget_critical (pi_budgets ?i)"
    by (simp add: budget_critical_def at_critical_def build_policy_input_def MAX_TOOL_LOOPS_def)
  then have "rules_propose ?i = Inr exhausted_proposal \<or> rules_propose ?i = Inr (approval_proposal ?i)"
    by (simp add: rules_propose_def high_risk_def)
  then show ?thesis using judge_exhausted judge_approval by (auto simp: policy_check_def)
qed

lemma rules_loop:
  assumes "re_engine env = rules_propose" "re_policy_enabled env"
    and "tool_loop env sid msg opts it n lp tr w = (e, lp', tr', w')"
  shows "length (exchanges tr') \<le> length (exchanges tr) + (9 - it)"
  using assms(3)
proof (induction n arbitrary: it lp tr w)
  case (Suc n)
  let ?i = "build_policy_input (re_now_text env w) (take 200 msg) [] it (lp_tools lp) (lp_summary lp)"
  obtain v evs where chk: "policy_check rules_propose (re_engine_name env) sid ?i = (v, evs)" by fastforce
  have ex: "exchanges evs = []" using exchanges_check [of rules_propose "re_engine_name env" sid ?i] chk by simp
  show ?case
  proof (cases "v = Go_on")
    case False
    with Suc.prems ex assms(1,2) show ?thesis by (auto simp: chk Let_def split: verdict.splits)
  next
    case True
    with rules_stop [of it] chk have it: "it < 9" by (metis fst_conv not_le verdict.distinct(1))
    let ?rq = "\<lparr>rq_message = turn_message it msg (take 200 msg) (lp_summary lp), rq_options = opts\<rparr>"
    obtain r w1 where send: "re_send env ?rq w = (r, w1)" by fastforce
    show ?thesis
    proof (cases r)
      case (Inl err)
      with True Suc.prems ex assms(1,2) send show ?thesis by (auto simp: chk Let_def)
    next
      case (Inr resp)
      show ?thesis
      proof (cases "list_ex is_tool_part (rs_parts resp)")
        case False
        with True Suc.prems ex assms(1,2) send Inr it show ?thesis by (auto simp: chk Let_def)
      next
        case more: True
        with True Suc.prems ex assms(1,2) send Inr have "length (exchanges tr')
            \<le> length (exchanges (tr @ evs @ Exchanged ?rq resp # tool_hooks (re_hooks env) (rs_parts resp))) + (9 - Suc it)"
          by (intro Suc.IH) (simp add: chk Let_def)
        with ex it show ?thesis by simp
      qed
    qed
  qed
qed simp

text \<open>With the rules engine a run sends at most nine messages: at the tenth turn nine tenths of the iterations are
  used, which the engine takes for a critical budget, so it asks for an approval and the loop ends.\<close>

theorem rules_engine_bounds_run:
  assumes "execute_agent env x reg w = (Inr res, tr, reg', w')" "rn_error res = None"
    and "re_engine env = rules_propose" "re_policy_enabled env"
  shows "length (exchanges tr) \<le> 9"
proof -
  from execute_agent_cases [OF assms(1)] obtain a s tr0 w0 r tr1 w1 where
    quiet: "exchanges tr0 = []"
    and body: "run_body env a (ra_session x) s (ra_tools x) (ra_task x) (re_now env w) (ra_message x) (ra_options x) tr0 w0 = (r, tr1, w1)"
    and out: "case r of Inr res' \<Rightarrow> res = res' \<and> tr = tr1
       | Inl e \<Rightarrow> (let (res', ev) = failed_run env (ag_name a) (ra_session x) (ra_task x) (re_now env w) e w1
                  in res = res' \<and> tr = tr1 @ [ev])" by metis
  from out assms(2) have r: "r = Inr res" "tr = tr1"
    by (auto simp: failed_run_def Let_def split: sum.splits)
  let ?eo = "execution_options a (ra_options x)"
  from body [unfolded r] obtain evs w2 lp tr2 w3 where plain: "plain_events evs"
    and loop: "tool_loop env (ra_session x) (ra_message x) ?eo 0 MAX_TOOL_LOOPS lp_init (tr0 @ evs) w2 = (None, lp, tr2, w3)"
    and fin: "finish_run env (ag_name a) (ra_session x) (ra_task x) (re_now env w) (ra_message x) ?eo lp tr2 w3 = (Inr res, tr1, w1)"
    by (cases rule: run_body_cases) auto
  have few: "length (exchanges tr2) \<le> 9"
    using rules_loop [OF assms(3,4) loop] plain_no_exchange [OF plain] quiet by simp
  from tool_loop_trace [OF loop] plain_no_exchange [OF plain] quiet
  have none: "lp_response lp = None \<Longrightarrow> exchanges tr2 = []" by (auto simp: lp_init_def split: if_splits)
  show ?thesis
  proof (cases "lp_response lp")
    case None
    with finish_run_InrD [OF fin] none have "length (exchanges tr1) = 1" by auto
    with r(2) show ?thesis by simp
  next
    case (Some r')
    with finish_run_InrD [OF fin] few r(2) show ?thesis by auto
  qed
qed

lemma example_rules_run:
  "\<exists>res tr. execute_agent (example_env rules_propose) example_args example_registry () = (Inr res, tr, example_registry, ())
     \<and> rn_error res = None"
proof -
  have got: "get_agent (Inr []) ''build'' example_registry = (Some (example_agent ''build'' True), example_registry)"
    by (simp add: get_agent_def ensure_seeded_def example_registry_def normalize_examples)
  obtain evs where check: "policy_check rules_propose ''E'' ''s1'' (build_policy_input ''0'' ''hello'' [] 0 [] []) = (Go_on, evs)"
  proof -
    let ?p = "(mk_proposal ''No pending TODOs to address'')\<lparr>sp_notes := ''All TODOs are completed or no TODOs defined.''\<rparr>"
    have p: "rules_propose (build_policy_input ''0'' ''hello'' [] 0 [] []) = Inr ?p"
      by (simp add: rules_propose_def budget_spent_def high_risk_def has_hard_def budget_critical_def at_critical_def
          build_policy_input_def MAX_TOOL_LOOPS_def mk_input_def default_budget_def todo_proposal_def first_pending_def)
    then have "passes ?p" by (rule rules_passes)
    moreover have "\<not> contains ''budget exhausted'' (str_lower ''No pending TODOs to address'')" by code_simp
    ultimately have "fst (judge_proposal ''E'' ''s1'' ?p) = Go_on"
      by (simp add: judge_proposal_def passes_def Let_def mk_proposal_def)
    then obtain evs where "judge_proposal ''E'' ''s1'' ?p = (Go_on, evs)" by (cases "judge_proposal ''E'' ''s1'' ?p") auto
    then show thesis by (intro that [of evs]) (simp only: policy_check_def p sum.case)
  qed
  have "Suc 9 = MAX_TOOL_LOOPS" by (simp add: MAX_TOOL_LOOPS_def)
  note loops = tool_loop.simps(2) [where n = 9, unfolded this]
  show ?thesis
    by (simp add: execute_agent_def example_args_def got find_session_for_def run_body_def choose_key_def announce_def
        chosen_provider_def chosen_model_def option_text_def loops turn_message_def check
        finish_run_def absorb_def lp_init_def no_tokens_def add_tokens_def token_count_def add_tool_def
        is_tool_part_def tool_hooks_def example_agent_def Let_def example_env_def)
qed

theorem rules_engine_bounds_run_witness:
  "\<exists>tr. fst (snd (execute_agent (example_env rules_propose) example_args example_registry ())) = tr
     \<and> length (exchanges tr) \<le> 9"
proof -
  from example_rules_run obtain res tr where run:
    "execute_agent (example_env rules_propose) example_args example_registry () = (Inr res, tr, example_registry, ())"
    "rn_error res = None" by blast
  from rules_engine_bounds_run [OF run] run(1) show ?thesis by (simp add: example_env_def)
qed

subsection \<open>The engines of the package are accepted\<close>

definition packaged :: "engine \<Rightarrow> bool" where
  "packaged e \<longleftrightarrow> e \<in> {default_propose, react_propose, fsm_propose, rules_propose, plan_propose}
     \<or> (\<exists>mode. e = (\<lambda>i. fst (router_propose sub_engine mode i)))"

lemma packaged_loop:
  assumes "packaged (re_engine env)" "tool_loop env sid msg opts it n lp tr w = (e, lp', tr', w')" "rejection_free tr"
  shows "rejection_free tr'"
proof -
  have plain: "pi_todos i = [] \<Longrightarrow> plain_todos i" for i by (simp add: plain_todos_def)
  note laws = default.loop_accepted [OF _ TrueI assms(2,3)] react.loop_accepted [OF _ TrueI assms(2,3)]
    fsm_bridge.loop_accepted [OF _ TrueI assms(2,3)] rules.loop_accepted [OF _ TrueI assms(2,3)]
    plan.loop_accepted [OF _ plain assms(2,3)] router.loop_accepted [OF _ plain assms(2,3)]
  from assms(1) laws show ?thesis unfolding packaged_def by auto
qed

lemma plain_lacks: "plain_events evs \<Longrightarrow> n \<notin> {''agent.ready'', ''agent.executing'', ''agent.initialized''} \<Longrightarrow> lacks n evs"
  by (induction evs) (auto simp: plain_events_def)

lemma finish_lacks:
  assumes "finish_run env name sid task start msg opts lp tr w = (r, tr', w')" "lacks n tr" "n \<noteq> ''agent.cleanup''"
  shows "lacks n tr'"
  using assms by (auto simp: finish_run_def Let_def split: option.splits sum.splits prod.splits if_splits)

lemma run_start_plain:
  "\<forall>ev \<in> set tr. \<exists>d. ev = Published ''agent.initialized'' d \<or> ev = Lifecycle_updated d \<Longrightarrow> plain_events tr"
  by (auto simp: plain_events_def list_all_iff)

text \<open>With any engine of the package no proposal of a run is ever rejected by the validator or the gate, whatever the
  model answers and wherever the run ends: the checks of the runtime are never exercised by its own engines.\<close>

theorem packaged_engines_accepted:
  assumes "execute_agent env x reg w = (Inr res, tr, reg', w')" "packaged (re_engine env)"
  shows "Published ''policy.proposal.rejection'' d \<notin> set tr"
proof -
  from execute_agent_cases [OF assms(1)] obtain a s tr0 w0 r tr1 w1 where
    start: "\<forall>ev \<in> set tr0. \<exists>d. ev = Published ''agent.initialized'' d \<or> ev = Lifecycle_updated d"
    and body: "run_body env a (ra_session x) s (ra_tools x) (ra_task x) (re_now env w) (ra_message x) (ra_options x) tr0 w0 = (r, tr1, w1)"
    and out: "case r of Inr res' \<Rightarrow> res = res' \<and> tr = tr1
       | Inl e \<Rightarrow> (let (res', ev) = failed_run env (ag_name a) (ra_session x) (ra_task x) (re_now env w) e w1
                  in res = res' \<and> tr = tr1 @ [ev])" by metis
  have tr0: "rejection_free tr0" by (intro plain_lacks run_start_plain start) simp
  from body have "rejection_free tr1"
  proof (cases rule: run_body_cases)
    case (early e evs)
    with tr0 show ?thesis by (simp add: plain_lacks)
  next
    case (failed e evs w1 lp)
    with tr0 show ?thesis by (intro packaged_loop [OF assms(2) failed(3)]) (simp add: plain_lacks)
  next
    case (late evs w1 lp tr2 w2)
    have "rejection_free tr2" using tr0 late(1) by (intro packaged_loop [OF assms(2) late(2)]) (simp add: plain_lacks)
    with finish_lacks [OF late(3)] show ?thesis by simp
  qed
  with out have "rejection_free tr"
    by (auto simp: failed_run_def Let_def split: sum.splits)
  then show ?thesis by (simp add: lacks_def)
qed

theorem packaged_engines_accepted_witness:
  "\<exists>tr. fst (snd (execute_agent (example_env rules_propose) example_args example_registry ())) = tr
     \<and> Published ''policy.proposal.rejection'' [] \<notin> set tr"
proof -
  from example_rules_run obtain res tr where run:
    "execute_agent (example_env rules_propose) example_args example_registry () = (Inr res, tr, example_registry, ())" by blast
  from packaged_engines_accepted [OF run, of "[]"] run show ?thesis by (simp add: example_env_def packaged_def)
qed

subsection \<open>How failures are reported\<close>

definition session_manager_answers :: "('t, 'm, 'w) rt_env \<Rightarrow> bool" where
  "session_manager_answers env \<longleftrightarrow>
     (\<forall>sid w. \<exists>l w'. re_get_session env sid w = (Inr l, w') \<and> (\<forall>m. l \<noteq> Lookup_result (Pass m)))"

lemma find_session_error:
  assumes "session_manager_answers env" "find_session_for env name sid w = ((Inl e, tr), w')"
  shows "exn_type e = ''ValueError'' \<and> (\<exists>d. tr = [Published ''agent.error'' d])"
proof -
  obtain l w1 where l: "re_get_session env sid w = (Inr l, w1)" "\<forall>m. l \<noteq> Lookup_result (Pass m)"
    using assms(1) unfolding session_manager_answers_def by blast
  with assms(2) show ?thesis
    by (auto simp: find_session_for_def refuse_def unwrap_def Let_def
        split: session_lookup.splits result.splits option.splits if_splits)
qed

lemma check_lacks_error: "lacks ''agent.error'' (snd (policy_check eng n sid i))"
  by (simp add: policy_check_def judge_proposal_def Let_def split: sum.splits)

lemma loop_lacks_error:
  assumes "tool_loop env sid msg opts it n lp tr w = (e, lp', tr', w')" "lacks ''agent.error'' tr"
  shows "lacks ''agent.error'' tr'"
  using assms
proof (induction n arbitrary: it lp tr w)
  case (Suc n)
  let ?i = "build_policy_input (re_now_text env w) (take 200 msg) [] it (lp_tools lp) (lp_summary lp)"
  note ok = check_lacks_error [of "re_engine env" "re_engine_name env" sid ?i]
  show ?case
    using Suc.prems ok Suc.IH
    by (auto simp: Let_def split: prod.splits if_splits verdict.splits sum.splits; fastforce)
qed simp

lemma execute_agent_raises:
  assumes "execute_agent env x reg w = (Inl e, tr, reg', w')" "session_manager_answers env"
  shows "exn_type e = ''ValueError'' \<and> (\<exists>d. tr = [Published ''agent.error'' d])"
proof -
  obtain found reg1 where g: "get_agent (re_plugins env) (ra_agent x) reg = (found, reg1)" by fastforce
  show ?thesis
  proof (cases found)
    case None
    with assms(1) g show ?thesis by (auto simp: execute_agent_def refuse_def Let_def)
  next
    case (Some a)
    obtain q tr0 w0 where f: "find_session_for env (ra_agent x) (ra_session x) w = ((q, tr0), w0)" by (metis surj_pair)
    with assms(1) g Some have "q = Inl e \<and> tr = tr0"
      by (auto simp: execute_agent_def Let_def split: sum.splits prod.splits)
    with find_session_error [OF assms(2)] f show ?thesis by blast
  qed
qed

text \<open>How a run fails. With a session manager that answers, a call raises only a \<open>ValueError\<close>, after exactly one
  \<open>agent.error\<close> event and before any exchange: the agent or the session is missing or the session is
  incomplete. Every later exception becomes a result that carries its text and neither parts nor tokens, whatever
  was exchanged before, and an \<open>agent.error\<close> event that is the last event; a run without error publishes
  none.\<close>

theorem runtime_reports_errors:
  assumes "execute_agent env x reg w = (r, tr, reg', w')" "session_manager_answers env"
  shows "case r of
      Inl e \<Rightarrow> exn_type e = ''ValueError'' \<and> (\<exists>d. tr = [Published ''agent.error'' d])
    | Inr res \<Rightarrow> (case rn_error res of
        Some m \<Rightarrow> rn_parts res = [] \<and> rn_tokens_used res = None
          \<and> (\<exists>before d. tr = before @ [Published ''agent.error'' d] \<and> map_of d ''error'' = Some (JStr m)
               \<and> (\<forall>d. Published ''agent.error'' d \<notin> set before))
      | None \<Rightarrow> \<forall>d. Published ''agent.error'' d \<notin> set tr)"
proof (cases r)
  case (Inl e)
  with execute_agent_raises [OF assms(1) [unfolded Inl] assms(2)] show ?thesis by simp
next
  case (Inr res)
  from execute_agent_cases [OF assms(1) [unfolded Inr]] obtain a s tr0 w0 q tr1 w1 where
    quiet: "exchanges tr0 = []"
    and start: "\<forall>ev \<in> set tr0. \<exists>d. ev = Published ''agent.initialized'' d \<or> ev = Lifecycle_updated d"
    and body: "run_body env a (ra_session x) s (ra_tools x) (ra_task x) (re_now env w) (ra_message x) (ra_options x) tr0 w0 = (q, tr1, w1)"
    and out: "case q of Inr res' \<Rightarrow> res = res' \<and> tr = tr1
       | Inl e \<Rightarrow> (let (res', ev) = failed_run env (ag_name a) (ra_session x) (ra_task x) (re_now env w) e w1
                  in res = res' \<and> tr = tr1 @ [ev])" by metis
  have tr0: "lacks ''agent.error'' tr0" by (intro plain_lacks run_start_plain start) simp
  from body have lack: "lacks ''agent.error'' tr1"
  proof (cases rule: run_body_cases)
    case (early e evs)
    with tr0 show ?thesis by (simp add: plain_lacks)
  next
    case (failed e evs w1 lp)
    with tr0 show ?thesis by (intro loop_lacks_error [OF failed(3)]) (simp add: plain_lacks)
  next
    case (late evs w1 lp tr2 w2)
    have "lacks ''agent.error'' tr2" using tr0 late(1) by (intro loop_lacks_error [OF late(2)]) (simp add: plain_lacks)
    with finish_lacks [OF late(3)] show ?thesis by simp
  qed
  show ?thesis
  proof (cases q)
    case (Inl e)
    with out have "res = fst (failed_run env (ag_name a) (ra_session x) (ra_task x) (re_now env w) e w1)"
      "tr = tr1 @ [snd (failed_run env (ag_name a) (ra_session x) (ra_task x) (re_now env w) e w1)]"
      by (simp_all add: split_beta Let_def)
    with lack Inr show ?thesis
      by (auto simp: failed_run_def Let_def lacks_def with_task_def split: option.splits list.splits)
  next
    case (Inr res')
    with out body run_body_InrD quiet have "rn_error res = None \<and> tr = tr1" by fastforce
    with lack \<open>r = Inr res\<close> show ?thesis by (simp add: lacks_def)
  qed
qed

theorem runtime_reports_errors_witness:
  "\<exists>r tr w. execute_agent (example_env react_propose) (example_args\<lparr>ra_agent := ''mine''\<rparr>) example_registry () = (r, tr, w)
     \<and> (case r of Inl e \<Rightarrow> exn_type e = ''ValueError'' | Inr res \<Rightarrow> False)"
proof -
  let ?x = "example_args\<lparr>ra_agent := ''mine''\<rparr>"
  obtain r tr reg w where run: "execute_agent (example_env react_propose) ?x example_registry () = (r, tr, reg, w)"
    by (metis prod_cases4)
  have "fst (get_agent (Inr []) ''mine'' example_registry) = None"
    by (simp add: get_agent_def ensure_seeded_def example_registry_def normalize_examples)
  with run obtain e where "r = Inl e"
    by (cases "get_agent (Inr []) ''mine'' example_registry")
      (auto simp: execute_agent_def example_args_def example_env_def refuse_def Let_def)
  moreover have "session_manager_answers (example_env react_propose)"
    by (simp add: session_manager_answers_def example_env_def)
  ultimately show ?thesis using runtime_reports_errors [OF run] run by auto
qed

end
