(* ===== verification/MultiAgent.thy ===== *)
theory MultiAgent
  imports Results "HOL-Library.Sublist"
begin

text \<open>
  Workflows of several agents, \<open>workflow/multi_agent.py\<close>: the check that the dependencies have no cycle, the four
  modes of execution, the aggregation of results and the aggregator of findings.

  What an agent does when it is executed is a function of its name (\<open>run\<close>): no agent runs twice in a workflow and
  none is given the results of others, so this is what any interleaving of the tasks of a \<open>gather\<close> can observe.
\<close>

declare map_of_eq_Some_iff [simp del] Some_eq_map_of_iff [simp del]

subsection \<open>Data\<close>

datatype execution_mode = SEQUENTIAL | PARALLEL | DAG | CONDITIONAL
datatype execution_status = PENDING | RUNNING | COMPLETED | FAILED | SKIPPED
datatype aggregation_strategy = MERGE | FIRST_SUCCESS | VOTE | WEIGHTED | PRIORITY
datatype conflict_resolution = CR_FAIL | CR_FIRST | CR_HIGHEST_SEVERITY | CR_MERGE | CR_VOTE

type_synonym wf_context = "(string \<times> json) list"

text \<open>A condition is a function that may raise. The fields \<open>retry_count\<close>, \<open>weight\<close> and \<open>priority\<close> are read nowhere.\<close>

record agent_spec =
  as_name :: string
  as_dependencies :: "string list"
  as_condition :: "(wf_context \<Rightarrow> bool raising) option"
  as_timeout :: rat
  as_retry_count :: int
  as_weight :: rat
  as_priority :: int

definition is_relevant :: "wf_context \<Rightarrow> agent_spec \<Rightarrow> bool raising" where
  "is_relevant ctx s = (case as_condition s of None \<Rightarrow> Inr True | Some c \<Rightarrow> c ctx)"

record aggregation_spec =
  gs_strategy :: aggregation_strategy
  gs_conflict_resolution :: conflict_resolution
  gs_weights :: "(string \<times> rat) list"
  gs_priority_order :: "string list"

record 'o exec_result =
  xr_agent_name :: string
  xr_status :: execution_status
  xr_output :: "'o option"
  xr_error :: "string option"
  xr_duration :: rat
  xr_metadata :: "(string \<times> json) list"

definition is_success :: "'o exec_result \<Rightarrow> bool" where
  "is_success r \<longleftrightarrow> xr_status r = COMPLETED"

type_synonym agents = "(string \<times> agent_spec) list"

definition agents_of :: "agent_spec list \<Rightarrow> agents" where
  "agents_of specs = fold (\<lambda>s. AList.update (as_name s) s) specs []"

subsection \<open>The check for cycles\<close>

definition deps_of :: "agents \<Rightarrow> string \<Rightarrow> string list" where
  "deps_of ags n = (case map_of ags n of Some s \<Rightarrow> as_dependencies s | None \<Rightarrow> [])"

text \<open>\<open>has_cycle\<close> and the loop over the dependencies in it. The recursion stack is handed down instead of being
  restored; \<open>None\<close> is the depth of the recursion running out.\<close>

fun has_cycle :: "(string \<Rightarrow> string list) \<Rightarrow> nat \<Rightarrow> string \<Rightarrow> string set \<Rightarrow> string set \<Rightarrow> (bool \<times> string set) option"
  and any_cycle :: "(string \<Rightarrow> string list) \<Rightarrow> nat \<Rightarrow> string list \<Rightarrow> string set \<Rightarrow> string set \<Rightarrow> (bool \<times> string set) option" where
  "has_cycle g 0 n visited stack = None"
| "has_cycle g (Suc f) n visited stack = any_cycle g f (g n) (insert n visited) (insert n stack)"
| "any_cycle g f [] visited stack = Some (False, visited)"
| "any_cycle g f (d # ds) visited stack =
     (if d \<notin> visited
      then (case has_cycle g f d visited stack of
          Some (False, visited) \<Rightarrow> any_cycle g f ds visited stack
        | r \<Rightarrow> r)
      else if d \<in> stack then Some (True, visited)
      else any_cycle g f ds visited stack)"

fun validate_names :: "(string \<Rightarrow> string list) \<Rightarrow> nat \<Rightarrow> string list \<Rightarrow> string set \<Rightarrow> unit raising option" where
  "validate_names g f [] visited = Some (Inr ())"
| "validate_names g f (n # ns) visited =
     (if n \<in> visited then validate_names g f ns visited
      else case has_cycle g f n visited {} of
          None \<Rightarrow> None
        | Some (True, _) \<Rightarrow> Some (Inl (Exn ''ValueError'' (''Circular dependency detected involving agent: '' @ n)))
        | Some (False, visited) \<Rightarrow> validate_names g f ns visited)"

definition dag_fuel :: "agents \<Rightarrow> nat" where
  "dag_fuel ags = length (keys ags @ concat (map (as_dependencies \<circ> snd) ags))"

definition validate_dag :: "agents \<Rightarrow> unit raising option" where
  "validate_dag ags = validate_names (deps_of ags) (dag_fuel ags) (keys ags) {}"

subsection \<open>The execution of one agent\<close>

text \<open>How the call of an agent ends: with an output, with a result that is not \<open>Ok\<close> and its text, by the timeout, by an
  exception, or by one that is not an \<open>Exception\<close>, such as a cancellation.\<close>

datatype 'o agent_outcome = Output 'o | Not_ok string | Timed_out | Raised_exn exn | Raised_base exn

type_synonym 'o runner = "string \<Rightarrow> 'o agent_outcome \<times> rat"

definition exec_result :: "string \<Rightarrow> execution_status \<Rightarrow> 'o option \<Rightarrow> string option \<Rightarrow> rat \<Rightarrow> 'o exec_result" where
  "exec_result n st out err d = \<lparr>xr_agent_name = n, xr_status = st, xr_output = out, xr_error = err, xr_duration = d, xr_metadata = []\<rparr>"

definition skipped :: "string \<Rightarrow> string \<Rightarrow> 'o exec_result" where
  "skipped n reason = (exec_result n SKIPPED None None 0)\<lparr>xr_metadata := [(''reason'', JStr reason)]\<rparr>"

text \<open>\<open>txt\<close> is the text of a float.\<close>

definition execute_one :: "(rat \<Rightarrow> string) \<Rightarrow> 'o runner \<Rightarrow> wf_context \<Rightarrow> string \<Rightarrow> agent_spec \<Rightarrow> 'o exec_result raising" where
  "execute_one txt run ctx n s = (case is_relevant ctx s of
     Inl e \<Rightarrow> Inl e
   | Inr False \<Rightarrow> Inr (skipped n ''condition_not_met'')
   | Inr True \<Rightarrow> (case run n of
       (Output out, d) \<Rightarrow> Inr (exec_result n COMPLETED (Some out) None d)
     | (Not_ok msg, d) \<Rightarrow> Inr (exec_result n FAILED None (Some msg) d)
     | (Timed_out, d) \<Rightarrow> Inr (exec_result n FAILED None (Some (''Timeout after '' @ txt (as_timeout s) @ ''s'')) (as_timeout s))
     | (Raised_exn e, d) \<Rightarrow> Inr (exec_result n FAILED None (Some (exn_msg e)) d)
     | (Raised_base e, d) \<Rightarrow> Inl e))"

text \<open>What \<open>gather\<close> with \<open>return_exceptions\<close> and the loop after it make of it.\<close>

definition settled :: "string \<Rightarrow> 'o exec_result raising \<Rightarrow> 'o exec_result" where
  "settled n r = (case r of Inr x \<Rightarrow> x | Inl e \<Rightarrow> exec_result n FAILED None (Some (exn_msg e)) 0)"

type_synonym 'o results = "(string \<times> 'o exec_result) list"

definition run_all :: "(rat \<Rightarrow> string) \<Rightarrow> 'o runner \<Rightarrow> wf_context \<Rightarrow> agents \<Rightarrow> string list \<Rightarrow> 'o results \<Rightarrow> 'o results" where
  "run_all txt run ctx ags ns rs =
     fold (\<lambda>n. AList.update n (settled n (execute_one txt run ctx n (the (map_of ags n))))) ns rs"

fun run_sequential :: "(rat \<Rightarrow> string) \<Rightarrow> 'o runner \<Rightarrow> wf_context \<Rightarrow> agents \<Rightarrow> 'o results \<Rightarrow> 'o results raising" where
  "run_sequential txt run ctx [] rs = Inr rs"
| "run_sequential txt run ctx ((n, s) # ags) rs = (case execute_one txt run ctx n s of
     Inl e \<Rightarrow> Inl e
   | Inr x \<Rightarrow> run_sequential txt run ctx ags (AList.update n x rs))"

subsection \<open>Execution in the order of the dependencies\<close>

fun relevant_names :: "wf_context \<Rightarrow> (string \<times> agent_spec \<Rightarrow> bool) \<Rightarrow> agents \<Rightarrow> string list raising" where
  "relevant_names ctx P [] = Inr []"
| "relevant_names ctx P (a # ags) =
     (if \<not> P a then relevant_names ctx P ags
      else case is_relevant ctx (snd a) of
          Inl e \<Rightarrow> Inl e
        | Inr b \<Rightarrow> (case relevant_names ctx P ags of
            Inl e \<Rightarrow> Inl e
          | Inr ns \<Rightarrow> Inr (if b then fst a # ns else ns)))"

definition dag_ready :: "wf_context \<Rightarrow> agents \<Rightarrow> string list \<Rightarrow> string list raising" where
  "dag_ready ctx ags completed = relevant_names ctx
     (\<lambda>(n, s). n \<notin> set completed \<and> list_all (\<lambda>d. d \<in> set completed) (as_dependencies s)) ags"

text \<open>\<open>_execute_dag\<close>: the completed agents in the order of their execution. The agents that remain at a deadlock are
  skipped in the order of the dictionary (the code iterates over a set).\<close>

fun dag_rounds :: "(rat \<Rightarrow> string) \<Rightarrow> 'o runner \<Rightarrow> wf_context \<Rightarrow> agents \<Rightarrow> nat \<Rightarrow> string list \<Rightarrow> 'o results
    \<Rightarrow> (string list \<times> 'o results) raising option" where
  "dag_rounds txt run ctx ags fuel completed rs =
     (if length ags \<le> length completed then Some (Inr (completed, rs))
      else case fuel of
        0 \<Rightarrow> None
      | Suc fuel \<Rightarrow> (case dag_ready ctx ags completed of
          Inl e \<Rightarrow> Some (Inl e)
        | Inr [] \<Rightarrow> Some (Inr (completed,
            fold (\<lambda>n. AList.update n (skipped n ''dependency_not_satisfied'')) (filter (\<lambda>n. n \<notin> set completed) (keys ags)) rs))
        | Inr (n # ns) \<Rightarrow> dag_rounds txt run ctx ags fuel (completed @ n # ns) (run_all txt run ctx ags (n # ns) rs)))"

declare dag_rounds.simps [simp del]

subsection \<open>Aggregation and the workflow\<close>

datatype ('o, 'r) aggregate = Agg_none | Agg_first 'o | Agg_merged "(string \<times> 'o) list"
  | Agg_weighted "(string \<times> 'o \<times> rat) list" | Agg_custom 'r

record ('o, 'r) workflow =
  wk_agents :: agents
  wk_mode :: execution_mode
  wk_aggregation :: aggregation_spec
  wk_aggregator :: "('o results \<Rightarrow> aggregation_spec \<Rightarrow> 'r raising) option"

record ('o, 'r) workflow_result =
  wr_success :: bool
  wr_agent_results :: "'o results"
  wr_aggregated :: "('o, 'r) aggregate"
  wr_execution_order :: "string list"
  wr_errors :: "(string \<times> string) list"
  wr_timing :: "(string \<times> rat) list"

definition workflow_init :: "agent_spec list \<Rightarrow> execution_mode \<Rightarrow> aggregation_spec
    \<Rightarrow> ('o results \<Rightarrow> aggregation_spec \<Rightarrow> 'r raising) option \<Rightarrow> ('o, 'r) workflow raising option" where
  "workflow_init specs mode agg aggregator =
     (let wk = \<lparr>wk_agents = agents_of specs, wk_mode = mode, wk_aggregation = agg, wk_aggregator = aggregator\<rparr>
      in if mode = DAG
         then (case validate_dag (wk_agents wk) of
             None \<Rightarrow> None | Some (Inl e) \<Rightarrow> Some (Inl e) | Some (Inr u) \<Rightarrow> Some (Inr wk))
         else Some (Inr wk))"

definition failed_agents :: "('o, 'r) workflow_result \<Rightarrow> string list" where
  "failed_agents w = map fst (filter (\<lambda>(n, r). xr_status r = FAILED) (wr_agent_results w))"

definition skipped_agents :: "('o, 'r) workflow_result \<Rightarrow> string list" where
  "skipped_agents w = map fst (filter (\<lambda>(n, r). xr_status r = SKIPPED) (wr_agent_results w))"

definition successful_results :: "'o results \<Rightarrow> (string \<times> 'o) list" where
  "successful_results rs = concat (map (\<lambda>(n, r). case xr_output r of
     Some x \<Rightarrow> if is_success r then [(n, x)] else [] | None \<Rightarrow> []) rs)"

definition weight_of :: "aggregation_spec \<Rightarrow> string \<Rightarrow> rat" where
  "weight_of g n = (case map_of (gs_weights g) n of Some w \<Rightarrow> w | None \<Rightarrow> 1)"

definition aggregate_results :: "('o, 'r) workflow \<Rightarrow> 'o results \<Rightarrow> ('o, 'r) aggregate raising" where
  "aggregate_results wk rs = (case wk_aggregator wk of
     Some agg \<Rightarrow> (case agg rs (wk_aggregation wk) of Inl e \<Rightarrow> Inl e | Inr r \<Rightarrow> Inr (Agg_custom r))
   | None \<Rightarrow>
       (let ok = successful_results rs; g = wk_aggregation wk
        in case ok of
             [] \<Rightarrow> Inr Agg_none
           | (n, x) # _ \<Rightarrow>
               if gs_strategy g = FIRST_SUCCESS then Inr (Agg_first x)
               else if gs_strategy g = MERGE then Inr (Agg_merged ok)
               else if gs_strategy g = WEIGHTED
               then (let total = sum_list (map (\<lambda>(n, x). weight_of g n) ok)
                     in if total = 0 then Inl (Exn ''ZeroDivisionError'' ''float division by zero'')
                        else Inr (Agg_weighted (map (\<lambda>(n, x). (n, x, weight_of g n / total)) ok)))
               else Inr (Agg_merged ok)))"

definition run_mode :: "(rat \<Rightarrow> string) \<Rightarrow> 'o runner \<Rightarrow> wf_context \<Rightarrow> agents \<Rightarrow> execution_mode
    \<Rightarrow> (string list \<times> 'o results) raising option" where
  "run_mode txt run ctx ags mode = (case mode of
     SEQUENTIAL \<Rightarrow> Some (case run_sequential txt run ctx ags [] of Inl e \<Rightarrow> Inl e | Inr rs \<Rightarrow> Inr (keys ags, rs))
   | PARALLEL \<Rightarrow> Some (Inr (keys ags, run_all txt run ctx ags (keys ags) []))
   | DAG \<Rightarrow> dag_rounds txt run ctx ags (length ags) [] []
   | CONDITIONAL \<Rightarrow> Some (case relevant_names ctx (\<lambda>_. True) ags of
       Inl e \<Rightarrow> Inl e | Inr ns \<Rightarrow> Inr (ns, run_all txt run ctx ags ns [])))"

definition error_entries :: "'o results \<Rightarrow> (string \<times> string) list" where
  "error_entries rs = concat (map (\<lambda>(n, r). case xr_error r of Some (c # m) \<Rightarrow> [(n, c # m)] | _ \<Rightarrow> []) rs)"

definition execute_workflow :: "(rat \<Rightarrow> string) \<Rightarrow> 'o runner \<Rightarrow> wf_context \<Rightarrow> ('o, 'r) workflow
    \<Rightarrow> ('o, 'r) workflow_result raising option" where
  "execute_workflow txt run ctx wk = (case run_mode txt run ctx (wk_agents wk) (wk_mode wk) of
     None \<Rightarrow> None
   | Some (Inl e) \<Rightarrow> Some (Inl e)
   | Some (Inr (order, rs)) \<Rightarrow> Some (case aggregate_results wk rs of
       Inl e \<Rightarrow> Inl e
     | Inr agg \<Rightarrow> Inr \<lparr>wr_success = (length (error_entries rs) = 0), wr_agent_results = rs, wr_aggregated = agg,
                      wr_execution_order = order, wr_errors = error_entries rs,
                      wr_timing = map (\<lambda>(n, r). (n, xr_duration r)) rs\<rparr>))"

subsection \<open>The check for cycles is right\<close>

definition dep_rel :: "(string \<Rightarrow> string list) \<Rightarrow> (string \<times> string) set" where
  "dep_rel g = {(a, b). b \<in> set (g a)}"

text \<open>What a search without a cycle leaves: the finished names are closed under dependencies and on no cycle.\<close>

definition finished :: "(string \<Rightarrow> string list) \<Rightarrow> string set \<Rightarrow> bool" where
  "finished g B \<longleftrightarrow> (\<forall>a \<in> B. set (g a) \<subseteq> B \<and> (a, a) \<notin> (dep_rel g)\<^sup>+)"

lemma finished_reach:
  assumes "finished g B" "(a, b) \<in> (dep_rel g)\<^sup>+" "a \<in> B"
  shows "b \<in> B"
  using assms(2,3) by (induction rule: trancl_induct) (use assms(1) in \<open>auto simp: finished_def dep_rel_def\<close>)

lemma finished_insert:
  assumes "finished g B" "set (g n) \<subseteq> B" "n \<notin> B"
  shows "finished g (insert n B)"
proof -
  have "(n, n) \<notin> (dep_rel g)\<^sup>+"
  proof
    assume "(n, n) \<in> (dep_rel g)\<^sup>+"
    then obtain d where "(n, d) \<in> dep_rel g" "d = n \<or> (d, n) \<in> (dep_rel g)\<^sup>+"
      by (metis converse_tranclE)
    with assms(2) have "d \<in> B" "d = n \<or> (d, n) \<in> (dep_rel g)\<^sup>+" by (auto simp: dep_rel_def)
    with finished_reach [OF assms(1)] assms(3) show False by blast
  qed
  with assms show ?thesis by (auto simp: finished_def)
qed

lemma no_cycle_found:
  "has_cycle g f n visited stack = Some (False, visited') \<Longrightarrow> n \<notin> visited \<Longrightarrow> stack \<subseteq> visited
     \<Longrightarrow> finished g (visited - stack)
     \<Longrightarrow> visited \<subseteq> visited' \<and> n \<in> visited' - stack \<and> finished g (visited' - stack)"
  "any_cycle g f ds visited stack = Some (False, visited') \<Longrightarrow> stack \<subseteq> visited \<Longrightarrow> finished g (visited - stack)
     \<Longrightarrow> visited \<subseteq> visited' \<and> set ds \<subseteq> visited' - stack \<and> finished g (visited' - stack)"
proof (induction g f n visited stack and g f ds visited stack arbitrary: visited' and visited'
    rule: has_cycle_any_cycle.induct)
  case (2 g f n visited stack)
  let ?S = "insert n stack"
  have eq: "insert n visited - ?S = visited - stack" using "2.prems"(2,3) by auto
  from "2.IH" [of visited'] "2.prems" have r: "insert n visited \<subseteq> visited'" "set (g n) \<subseteq> visited' - ?S"
    "finished g (visited' - ?S)"
    by (auto simp: eq)
  have "visited' - stack = insert n (visited' - ?S)" using r(1) "2.prems"(2,3) by auto
  with finished_insert [OF r(3,2)] r(1) show ?case by auto
next
  case (4 g f d ds visited stack)
  show ?case
  proof (cases "d \<in> visited")
    case True
    with "4.prems" have "d \<notin> stack" "any_cycle g f ds visited stack = Some (False, visited')"
      by (auto split: if_splits)
    with True "4.IH"(3) "4.prems" show ?thesis by fastforce
  next
    case False
    with "4.prems"(1) obtain v1 where v1: "has_cycle g f d visited stack = Some (False, v1)"
      "any_cycle g f ds v1 stack = Some (False, visited')"
      by (auto split: option.splits prod.splits bool.splits)
    from "4.IH"(1) [OF False v1(1) False "4.prems"(2,3)]
    have r: "visited \<subseteq> v1" "d \<in> v1 - stack" "finished g (v1 - stack)" by auto
    with "4.prems"(2) have "stack \<subseteq> v1" by auto
    with "4.IH"(2) [OF False v1(1) refl _ v1(2)] r show ?thesis by fastforce
  qed
qed auto

lemma cycle_found:
  "has_cycle g f n visited stack = Some (True, visited') \<Longrightarrow> \<forall>s \<in> stack. (s, n) \<in> (dep_rel g)\<^sup>+
     \<Longrightarrow> \<exists>x. (x, x) \<in> (dep_rel g)\<^sup>+"
  "any_cycle g f ds visited stack = Some (True, visited') \<Longrightarrow> set ds \<subseteq> set (g n)
     \<Longrightarrow> \<forall>s \<in> stack. s = n \<or> (s, n) \<in> (dep_rel g)\<^sup>+ \<Longrightarrow> \<exists>x. (x, x) \<in> (dep_rel g)\<^sup>+"
proof (induction g f n visited stack and g f ds visited stack arbitrary: visited' and visited' n
    rule: has_cycle_any_cycle.induct)
  case (2 g f n visited stack)
  then show ?case by (auto intro: "2.IH" [of visited' n])
next
  case (4 g f d ds visited stack)
  have step: "(n, d) \<in> dep_rel g" using "4.prems"(2) by (auto simp: dep_rel_def)
  with "4.prems"(3) have reach: "\<forall>s \<in> stack. (s, d) \<in> (dep_rel g)\<^sup>+"
    by (auto intro: trancl_into_trancl)
  show ?case
  proof (cases "d \<in> visited")
    case True
    show ?thesis
    proof (cases "d \<in> stack")
      case True
      with reach show ?thesis by blast
    next
      case False
      with True "4.prems" "4.IH"(3) show ?thesis by auto
    qed
  next
    case False
    obtain b v1 where h: "has_cycle g f d visited stack = Some (b, v1)"
      using "4.prems"(1) False by (auto split: option.splits)
    show ?thesis
    proof (cases b)
      case True
      with "4.IH"(1) [OF False, of v1] h reach show ?thesis by auto
    next
      case nb: False
      with h False "4.prems"(1) have "any_cycle g f ds v1 stack = Some (True, visited')" by auto
      with "4.IH"(2) [OF False h refl] nb "4.prems"(2,3) show ?thesis by auto
    qed
  qed
qed auto

lemma visited_grows:
  "has_cycle g f n visited stack = Some (b, visited') \<Longrightarrow> visited \<subseteq> visited'"
  "any_cycle g f ds visited stack = Some (b, visited') \<Longrightarrow> visited \<subseteq> visited'"
proof (induction g f n visited stack and g f ds visited stack arbitrary: b visited' and b visited'
    rule: has_cycle_any_cycle.induct)
  case (4 g f d ds visited stack)
  show ?case
  proof (cases "d \<in> visited")
    case True
    with 4 show ?thesis by (auto split: if_splits)
  next
    case False
    with "4.prems" obtain b1 v1 where h: "has_cycle g f d visited stack = Some (b1, v1)"
      by (auto split: option.splits)
    from "4.IH"(1) [OF False h] have v1: "visited \<subseteq> v1" .
    show ?thesis
    proof (cases b1)
      case True
      with "4.prems" False h v1 show ?thesis by simp
    next
      case nb: False
      with "4.prems" False h have "any_cycle g f ds v1 stack = Some (b, visited')" by simp
      from "4.IH"(2) [OF False h refl _ this] nb v1 show ?thesis by auto
    qed
  qed
qed auto

text \<open>The depth suffices: the names on the stack are different and belong to the finite set \<open>V\<close> of all names.\<close>

lemma enough_depth:
  "finite V \<Longrightarrow> (\<And>a. a \<in> V \<Longrightarrow> set (g a) \<subseteq> V) \<Longrightarrow> n \<in> V - visited \<Longrightarrow> stack \<subseteq> visited \<Longrightarrow> card (V - stack) \<le> f
     \<Longrightarrow> has_cycle g f n visited stack \<noteq> None"
  "finite V \<Longrightarrow> (\<And>a. a \<in> V \<Longrightarrow> set (g a) \<subseteq> V) \<Longrightarrow> set ds \<subseteq> V \<Longrightarrow> stack \<subseteq> visited \<Longrightarrow> card (V - stack) \<le> f
     \<Longrightarrow> any_cycle g f ds visited stack \<noteq> None"
proof (induction g f n visited stack and g f ds visited stack rule: has_cycle_any_cycle.induct)
  case (1 g n visited stack)
  then have "n \<in> V - stack" by auto
  with 1 show ?case by auto
next
  case (2 g f n visited stack)
  then have n: "n \<in> V - stack" by auto
  have "V - insert n stack = (V - stack) - {n}" by auto
  with n "2.prems"(1,5) have card: "card (V - insert n stack) \<le> f" by (simp add: card_Diff_singleton)
  have "set (g n) \<subseteq> V" "insert n stack \<subseteq> insert n visited" using n "2.prems"(2,4) by auto
  with "2.IH" [OF "2.prems"(1,2) _ _ card] show ?case by simp
next
  case (4 g f d ds visited stack)
  show ?case
  proof (cases "d \<in> visited")
    case True
    with 4 show ?thesis by auto
  next
    case False
    with 4 obtain b v1 where h: "has_cycle g f d visited stack = Some (b, v1)"
      by (cases "has_cycle g f d visited stack") auto
    have "stack \<subseteq> v1" if "\<not> b"
    proof -
      have "visited \<subseteq> v1" using visited_grows(1) [OF h] .
      with "4.prems"(4) show ?thesis by auto
    qed
    then show ?thesis
      using "4.IH"(2) [OF False h refl] "4.prems" False h by (cases b) auto
  qed
qed auto

lemma validate_names_spec:
  assumes "finite V" "\<And>a. a \<in> V \<Longrightarrow> set (g a) \<subseteq> V" "card V \<le> f"
  shows "set ns \<subseteq> V \<Longrightarrow> finished g visited \<Longrightarrow>
    (validate_names g f ns visited = Some (Inr ()) \<and> (\<exists>B. visited \<union> set ns \<subseteq> B \<and> finished g B))
    \<or> (\<exists>e. validate_names g f ns visited = Some (Inl e) \<and> exn_type e = ''ValueError'' \<and> (\<exists>x. (x, x) \<in> (dep_rel g)\<^sup>+))"
proof (induction ns arbitrary: visited)
  case Nil
  then show ?case by auto
next
  case (Cons n ns)
  show ?case
  proof (cases "n \<in> visited")
    case True
    from Cons.prems have "set ns \<subseteq> V" "finished g visited" by simp_all
    from Cons.IH [OF this] have "(validate_names g f (n # ns) visited = Some (Inr ()) \<and> (\<exists>B. visited \<union> set ns \<subseteq> B \<and> finished g B))
      \<or> (\<exists>e. validate_names g f (n # ns) visited = Some (Inl e) \<and> exn_type e = ''ValueError'' \<and> (\<exists>x. (x, x) \<in> (dep_rel g)\<^sup>+))"
      using True by simp
    moreover have "visited \<union> set (n # ns) = visited \<union> set ns" using True by auto
    ultimately show ?thesis by metis
  next
    case False
    with Cons.prems have "n \<in> V - visited" by auto
    have "has_cycle g f n visited {} \<noteq> None" using assms(3) by (intro enough_depth(1) [OF assms(1,2) \<open>n \<in> V - visited\<close>]) simp_all
    then
    obtain b v1 where h: "has_cycle g f n visited {} = Some (b, v1)" by auto
    show ?thesis
    proof (cases b)
      case True
      with cycle_found(1) [of g f n visited "{}" v1] h False show ?thesis by auto
    next
      case nb: False
      with no_cycle_found(1) [of g f n visited "{}" v1] h False Cons.prems
      have v1: "visited \<subseteq> v1" "n \<in> v1" "finished g v1" by auto
      have "set ns \<subseteq> V" using Cons.prems(1) by simp
      from Cons.IH [OF this v1(3)] have "(validate_names g f (n # ns) visited = Some (Inr ()) \<and> (\<exists>B. v1 \<union> set ns \<subseteq> B \<and> finished g B))
        \<or> (\<exists>e. validate_names g f (n # ns) visited = Some (Inl e) \<and> exn_type e = ''ValueError'' \<and> (\<exists>x. (x, x) \<in> (dep_rel g)\<^sup>+))"
        using False h nb by simp
      moreover have "visited \<union> set (n # ns) \<subseteq> v1 \<union> set ns" using v1(1,2) by auto
      ultimately show ?thesis by (meson order_trans)
    qed
  qed
qed

lemma agents_of_wf: "wf_dict (agents_of specs)"
proof -
  have "wf_dict d \<Longrightarrow> wf_dict (fold (\<lambda>s. AList.update (as_name s) s) specs d)" for d :: agents
    by (induction specs arbitrary: d) (simp_all add: wf_update)
  from this [of "[]"] show ?thesis by (simp add: agents_of_def)
qed

text \<open>C16. The check for cycles is exact: constructing a workflow in the mode \<open>DAG\<close> raises a \<open>ValueError\<close> exactly when the
  relation from agents to their dependencies has a cycle, whatever names the dependencies mention. The recursion
  is never deeper than the number of names.\<close>

theorem validate_dag_spec:
  "\<exists>r. validate_dag (agents_of specs) = Some r \<and> (r = Inr () \<longleftrightarrow> acyclic (dep_rel (deps_of (agents_of specs))))
     \<and> (case r of Inl e \<Rightarrow> exn_type e = ''ValueError'' | Inr _ \<Rightarrow> True)"
proof -
  let ?ags = "agents_of specs" let ?g = "deps_of ?ags"
  define V where "V = set (keys ?ags @ concat (map (as_dependencies \<circ> snd) ?ags))"
  have fin: "finite V" by (simp add: V_def)
  have closed: "set (?g a) \<subseteq> V" for a
  proof (cases "map_of ?ags a")
    case (Some s)
    from map_of_SomeD [OF this] have "set (as_dependencies s) \<subseteq> V" unfolding V_def by force
    with Some show ?thesis by (simp add: deps_of_def)
  qed (simp add: deps_of_def)
  have card: "card V \<le> dag_fuel ?ags" unfolding V_def dag_fuel_def by (rule card_length)
  have sub: "set (keys ?ags) \<subseteq> V" by (auto simp: V_def)
  from validate_names_spec [where g = ?g and V = V and visited = "{}", OF fin closed card sub]
  consider B where "validate_dag ?ags = Some (Inr ())" "set (keys ?ags) \<subseteq> B" "finished ?g B"
    | e where "validate_dag ?ags = Some (Inl e)" "exn_type e = ''ValueError''" "\<exists>x. (x, x) \<in> (dep_rel ?g)\<^sup>+"
    by (auto simp: validate_dag_def finished_def)
  then show ?thesis
  proof cases
    case (1 B)
    have "(x, x) \<notin> (dep_rel ?g)\<^sup>+" for x
    proof
      assume c: "(x, x) \<in> (dep_rel ?g)\<^sup>+"
      then obtain d where "(x, d) \<in> dep_rel ?g" by (meson tranclD)
      then have "x \<in> set (keys ?ags)"
        by (cases "map_of ?ags x") (auto simp: dep_rel_def deps_of_def intro: map_of_in_keys [simplified])
      with 1 c show False by (auto simp: finished_def)
    qed
    with 1(1) show ?thesis by (simp add: acyclic_def)
  next
    case (2 e)
    then show ?thesis by (auto simp: acyclic_def)
  qed
qed

subsection \<open>The execution in the order of the dependencies is right\<close>

definition total_conditions :: "wf_context \<Rightarrow> agents \<Rightarrow> bool" where
  "total_conditions ctx ags \<longleftrightarrow> (\<forall>n s. map_of ags n = Some s \<longrightarrow> (\<exists>b. is_relevant ctx s = Inr b))"

text \<open>The agents that can run: relevant ones all of whose dependencies can run.\<close>

inductive runnable :: "wf_context \<Rightarrow> agents \<Rightarrow> string \<Rightarrow> bool" for ctx ags where
  "map_of ags n = Some s \<Longrightarrow> is_relevant ctx s = Inr True \<Longrightarrow> (\<And>d. d \<in> set (as_dependencies s) \<Longrightarrow> runnable ctx ags d)
     \<Longrightarrow> runnable ctx ags n"

inductive_cases runnableE: "runnable ctx ags n"

lemma relevant_names_spec:
  "wf_dict ags \<Longrightarrow> \<forall>a \<in> set ags. \<exists>b. is_relevant ctx (snd a) = Inr b \<Longrightarrow>
   \<exists>ns. relevant_names ctx P ags = Inr ns \<and> distinct ns
     \<and> set ns = {n. \<exists>s. (n, s) \<in> set ags \<and> P (n, s) \<and> is_relevant ctx s = Inr True}"
proof (induction ags)
  case (Cons a ags)
  then obtain ns where ns: "relevant_names ctx P ags = Inr ns" "distinct ns"
    "set ns = {n. \<exists>s. (n, s) \<in> set ags \<and> P (n, s) \<and> is_relevant ctx s = Inr True}" by auto
  obtain b where b: "is_relevant ctx (snd a) = Inr b" using Cons.prems(2) by auto
  have "fst a \<notin> set ns" using Cons.prems(1) ns(3) by (force simp: image_iff)
  with ns b show ?case by (cases a) auto
qed simp

lemma total_conditions_set:
  "wf_dict ags \<Longrightarrow> total_conditions ctx ags \<Longrightarrow> \<forall>a \<in> set ags. \<exists>b. is_relevant ctx (snd a) = Inr b"
  by (force simp: total_conditions_def dest: map_of_is_SomeI)

lemma dag_ready_spec:
  assumes "wf_dict ags" "total_conditions ctx ags"
  obtains ns where "dag_ready ctx ags completed = Inr ns" "distinct ns"
    "\<And>n. n \<in> set ns \<longleftrightarrow> (\<exists>s. map_of ags n = Some s \<and> n \<notin> set completed
       \<and> set (as_dependencies s) \<subseteq> set completed \<and> is_relevant ctx s = Inr True)"
proof -
  have mem: "(n, s) \<in> set ags \<longleftrightarrow> map_of ags n = Some s" for n s
    using map_of_is_SomeI [OF assms(1)] map_of_SomeD [of ags n s] by blast
  let ?P = "\<lambda>(n, s). n \<notin> set completed \<and> list_all (\<lambda>d. d \<in> set completed) (as_dependencies s)"
  from relevant_names_spec [OF assms(1) total_conditions_set [OF assms], of ?P]
  obtain ns where ns: "relevant_names ctx ?P ags = Inr ns" "distinct ns"
    "set ns = {n. \<exists>s. (n, s) \<in> set ags \<and> ?P (n, s) \<and> is_relevant ctx s = Inr True}" by blast
  show thesis
    by (rule that [OF ns(1) [folded dag_ready_def] ns(2)]) (auto simp: ns(3) mem list_all_iff)
qed

definition dependency_order :: "agents \<Rightarrow> string list \<Rightarrow> bool" where
  "dependency_order ags order \<longleftrightarrow>
     (\<forall>pre n post. order = pre @ n # post \<longrightarrow> set (deps_of ags n) \<subseteq> set pre)"

lemma dependency_order_append:
  assumes "dependency_order ags xs" "\<And>n. n \<in> set ys \<Longrightarrow> set (deps_of ags n) \<subseteq> set xs"
  shows "dependency_order ags (xs @ ys)"
  unfolding dependency_order_def
proof (intro allI impI)
  fix pre n post assume "xs @ ys = pre @ n # post"
  then obtain us where "xs @ us = pre \<and> ys = us @ n # post \<or> xs = pre @ us \<and> us @ ys = n # post"
    by (auto simp: append_eq_append_conv2)
  then show "set (deps_of ags n) \<subseteq> set pre"
  proof
    assume "xs @ us = pre \<and> ys = us @ n # post"
    with assms(2) [of n] show ?thesis by auto
  next
    assume us: "xs = pre @ us \<and> us @ ys = n # post"
    show ?thesis
    proof (cases us)
      case Nil
      with us assms(2) [of n] show ?thesis by auto
    next
      case (Cons u us')
      with us have "xs = pre @ n # us'" by simp
      with assms(1) show ?thesis by (simp add: dependency_order_def)
    qed
  qed
qed

lemma map_of_fold_update:
  "map_of (fold (\<lambda>n. AList.update n (f n)) ns rs) n = (if n \<in> set ns then Some (f n) else map_of rs n)"
  by (induction ns arbitrary: rs) auto

definition agent_answer :: "(rat \<Rightarrow> string) \<Rightarrow> 'o runner \<Rightarrow> wf_context \<Rightarrow> agents \<Rightarrow> string \<Rightarrow> 'o exec_result" where
  "agent_answer txt run ctx ags n = settled n (execute_one txt run ctx n (the (map_of ags n)))"

lemma run_all_map: "map_of (run_all txt run ctx ags ns rs) n
    = (if n \<in> set ns then Some (agent_answer txt run ctx ags n) else map_of rs n)"
  unfolding run_all_def agent_answer_def by (rule map_of_fold_update)

definition dag_state :: "(rat \<Rightarrow> string) \<Rightarrow> 'o runner \<Rightarrow> wf_context \<Rightarrow> agents \<Rightarrow> string list \<Rightarrow> 'o results \<Rightarrow> bool" where
  "dag_state txt run ctx ags completed rs \<longleftrightarrow> distinct completed \<and> (\<forall>n \<in> set completed. runnable ctx ags n)
     \<and> dependency_order ags completed
     \<and> (\<forall>n. map_of rs n = (if n \<in> set completed then Some (agent_answer txt run ctx ags n) else None))"

lemma runnable_key: "runnable ctx ags n \<Longrightarrow> n \<in> set (keys ags)"
  by (erule runnableE) (rule map_of_in_keys)

lemma dag_state_round:
  assumes "dag_state txt run ctx ags completed rs" "distinct ns"
    and new: "\<And>n. n \<in> set ns \<longleftrightarrow> (\<exists>s. map_of ags n = Some s \<and> n \<notin> set completed
       \<and> set (as_dependencies s) \<subseteq> set completed \<and> is_relevant ctx s = Inr True)"
  shows "dag_state txt run ctx ags (completed @ ns) (run_all txt run ctx ags ns rs)"
proof -
  have "runnable ctx ags n" if "n \<in> set ns" for n
  proof -
    from that new obtain s where s: "map_of ags n = Some s" "set (as_dependencies s) \<subseteq> set completed"
      "is_relevant ctx s = Inr True" by blast
    show ?thesis
      by (rule runnable.intros [OF s(1,3)]) (use s(2) assms(1) in \<open>auto simp: dag_state_def\<close>)
  qed
  moreover have "dependency_order ags (completed @ ns)"
  proof (rule dependency_order_append)
    show "dependency_order ags completed" using assms(1) by (simp add: dag_state_def)
    fix n assume "n \<in> set ns"
    with new show "set (deps_of ags n) \<subseteq> set completed" by (auto simp: deps_of_def)
  qed
  moreover have "set completed \<inter> set ns = {}" using new by blast
  ultimately show ?thesis
    using assms(1,2) by (auto simp: dag_state_def run_all_map)
qed

lemma deadlock_complete:
  assumes "\<And>n. \<not> (\<exists>s. map_of ags n = Some s \<and> n \<notin> set completed
       \<and> set (as_dependencies s) \<subseteq> set completed \<and> is_relevant ctx s = Inr True)"
  shows "runnable ctx ags n \<Longrightarrow> n \<in> set completed"
proof (induction rule: runnable.induct)
  case (1 n s)
  then have "set (as_dependencies s) \<subseteq> set completed" by blast
  with 1 assms [of n] show ?case by blast
qed

lemma dag_rounds_spec:
  assumes wf: "wf_dict ags" and tot: "total_conditions ctx ags"
  shows "dag_state txt run ctx ags completed rs \<Longrightarrow> length ags \<le> length completed + fuel \<Longrightarrow>
    \<exists>order rs'. dag_rounds txt run ctx ags fuel completed rs = Some (Inr (order, rs')) \<and> distinct order
      \<and> set order = {n. runnable ctx ags n} \<and> dependency_order ags order
      \<and> (\<forall>n. map_of rs' n = (if n \<in> set order then Some (agent_answer txt run ctx ags n)
                             else if n \<in> set (keys ags) then Some (skipped n ''dependency_not_satisfied'') else None))"
proof (induction fuel arbitrary: completed rs)
  case fuel: (0 completed rs)
  have sub: "set completed \<subseteq> set (keys ags)"
    using fuel.prems(1) runnable_key by (fastforce simp: dag_state_def simp del: set_map)
  have "card (set (keys ags)) = length ags" using distinct_card [OF wf] by (simp del: set_map)
  moreover have "card (set completed) = length completed" using fuel.prems(1) by (simp add: dag_state_def distinct_card)
  ultimately have eq: "set completed = set (keys ags)"
    using sub fuel.prems(2) by (metis List.finite_set add_0_right card_mono card_subset_eq dual_order.antisym)
  then have "set completed = {n. runnable ctx ags n}"
    using fuel.prems(1) runnable_key by (auto simp: dag_state_def simp del: set_map)
  with fuel.prems eq show ?case by (auto simp: dag_rounds.simps dag_state_def simp del: set_map)
next
  case (Suc fuel)
  show ?case
  proof (cases "length ags \<le> length completed")
    case True
    with Suc.prems(1) Suc.IH [of completed rs] show ?thesis by (simp add: dag_rounds.simps)
  next
    case False
    obtain ns where ns: "dag_ready ctx ags completed = Inr ns" "distinct ns"
      "\<And>n. n \<in> set ns \<longleftrightarrow> (\<exists>s. map_of ags n = Some s \<and> n \<notin> set completed
       \<and> set (as_dependencies s) \<subseteq> set completed \<and> is_relevant ctx s = Inr True)"
      using dag_ready_spec [OF wf tot] by metis
    show ?thesis
    proof (cases ns)
      case (Cons m ms)
      have "dag_state txt run ctx ags (completed @ ns) (run_all txt run ctx ags ns rs)"
        by (rule dag_state_round [OF Suc.prems(1) ns(2,3)])
      moreover have "length ags \<le> length (completed @ ns) + fuel" using Suc.prems(2) Cons by simp
      ultimately show ?thesis
        using Suc.IH [of "completed @ ns" "run_all txt run ctx ags ns rs"] False ns(1) Cons
        by (simp add: dag_rounds.simps [of _ _ _ _ "Suc fuel"])
    next
      case Nil
      then have none: "\<not> (\<exists>s. map_of ags n = Some s \<and> n \<notin> set completed
         \<and> set (as_dependencies s) \<subseteq> set completed \<and> is_relevant ctx s = Inr True)" for n
        using ns(3) [of n] by simp
      have eq: "set completed = {n. runnable ctx ags n}"
        using deadlock_complete [OF none] Suc.prems(1) by (auto simp: dag_state_def)
      let ?skip = "fold (\<lambda>n. AList.update n (skipped n ''dependency_not_satisfied'')) (filter (\<lambda>n. n \<notin> set completed) (keys ags)) rs"
      have "map_of ?skip n = (if n \<in> set completed then Some (agent_answer txt run ctx ags n)
          else if n \<in> set (keys ags) then Some (skipped n ''dependency_not_satisfied'') else None)" for n
        using Suc.prems(1) by (simp add: map_of_fold_update dag_state_def del: set_map)
      moreover have "dag_rounds txt run ctx ags (Suc fuel) completed rs = Some (Inr (completed, ?skip))"
        using False ns(1) Nil by (simp add: dag_rounds.simps [of _ _ _ _ "Suc fuel"])
      ultimately show ?thesis using eq Suc.prems(1) by (auto simp: dag_state_def simp del: set_map)
    qed
  qed
qed

lemma dag_state_init: "dag_state txt run ctx ags [] []"
  by (simp add: dag_state_def dependency_order_def)

lemma all_runnable:
  assumes "acyclic (dep_rel (deps_of ags))" "\<forall>n. set (deps_of ags n) \<subseteq> set (keys ags)"
    and "\<forall>n s. map_of ags n = Some s \<longrightarrow> is_relevant ctx s = Inr True" "n \<in> set (keys ags)"
  shows "runnable ctx ags n"
proof -
  have "dep_rel (deps_of ags) \<subseteq> set (keys ags) \<times> set (keys ags)"
  proof (rule subrelI)
    fix a d assume ad: "(a, d) \<in> dep_rel (deps_of ags)"
    then have "map_of ags a \<noteq> None" by (cases "map_of ags a") (simp_all add: dep_rel_def deps_of_def)
    then have "a \<in> set (keys ags)" by (simp only: map_of_eq_None_keys not_not)
    moreover have "d \<in> set (keys ags)" using ad assms(2) by (auto simp: dep_rel_def simp del: set_map)
    ultimately show "(a, d) \<in> set (keys ags) \<times> set (keys ags)" by blast
  qed
  then have "finite (dep_rel (deps_of ags))" by (rule finite_subset) simp
  then have wf: "wf ((dep_rel (deps_of ags))\<inverse>)" by (rule finite_acyclic_wf_converse [OF _ assms(1)])
  then show ?thesis using assms(4)
  proof (induction n rule: wf_induct_rule)
    case (less n)
    then obtain s where s: "map_of ags n = Some s" using map_of_eq_None_keys [of ags n] by (cases "map_of ags n") auto
    have "runnable ctx ags d" if "d \<in> set (as_dependencies s)" for d
    proof (rule less.IH)
      have d: "d \<in> set (deps_of ags n)" using that s by (simp add: deps_of_def)
      then show "(d, n) \<in> (dep_rel (deps_of ags))\<inverse>" by (simp add: dep_rel_def)
      show "d \<in> set (keys ags)" using d assms(2) by (auto simp del: set_map)
    qed
    with s assms(3) show ?case by (blast intro: runnable.intros)
  qed
qed

text \<open>C17. Execution in the order of the dependencies. When the conditions do not raise, the run ends and executes exactly
  the agents that can run, each once and after its dependencies, whatever these answered: an agent is run also
  when a dependency failed. The others, whose condition is false or one of whose dependencies is unknown, irrelevant or
  itself skipped, are recorded as skipped. If the dependencies are known and without a cycle and every agent is relevant,
  all agents are executed.\<close>

theorem dag_execution_spec:
  assumes "ags = agents_of specs" "total_conditions ctx ags"
  shows "\<exists>order rs. run_mode txt run ctx ags DAG = Some (Inr (order, rs)) \<and> distinct order
    \<and> set order = {n. runnable ctx ags n} \<and> dependency_order ags order
    \<and> (\<forall>n. map_of rs n = (if n \<in> set order then Some (agent_answer txt run ctx ags n)
             else if n \<in> set (keys ags) then Some (skipped n ''dependency_not_satisfied'') else None))
    \<and> (acyclic (dep_rel (deps_of ags)) \<and> (\<forall>n. set (deps_of ags n) \<subseteq> set (keys ags))
        \<and> (\<forall>n s. map_of ags n = Some s \<longrightarrow> is_relevant ctx s = Inr True) \<longrightarrow> set order = set (keys ags))"
proof -
  have wf: "wf_dict ags" unfolding assms(1) by (rule agents_of_wf)
  have "length ags \<le> length ([] :: string list) + length ags" by simp
  from dag_rounds_spec [OF wf assms(2) dag_state_init this, of "txt" run]
  obtain order rs where d: "dag_rounds txt run ctx ags (length ags) [] [] = Some (Inr (order, rs))"
    and r: "distinct order" "set order = {n. runnable ctx ags n}" "dependency_order ags order"
      "\<forall>n. map_of rs n = (if n \<in> set order then Some (agent_answer txt run ctx ags n)
             else if n \<in> set (keys ags) then Some (skipped n ''dependency_not_satisfied'') else None)"
    by blast
  have "run_mode txt run ctx ags DAG = Some (Inr (order, rs))" using d by (simp add: run_mode_def)
  moreover have "acyclic (dep_rel (deps_of ags)) \<and> (\<forall>n. set (deps_of ags n) \<subseteq> set (keys ags))
        \<and> (\<forall>n s. map_of ags n = Some s \<longrightarrow> is_relevant ctx s = Inr True) \<longrightarrow> set order = set (keys ags)"
    using all_runnable [of ags ctx] runnable_key [of ctx ags] r(2) by blast
  ultimately show ?thesis using r by blast
qed

definition example_spec :: "string \<Rightarrow> string list \<Rightarrow> agent_spec" where
  "example_spec n ds = \<lparr>as_name = n, as_dependencies = ds, as_condition = None, as_timeout = 300, as_retry_count = 0,
     as_weight = 1, as_priority = 1\<rparr>"

theorem dag_execution_spec_witness:
  "\<exists>order rs. run_mode (\<lambda>_. []) (\<lambda>n. (if n = ''b'' then Raised_exn (Exn ''E'' ''no'') else Output (1::nat), 0)) []
       (agents_of [example_spec ''a'' [''b''], example_spec ''b'' [], example_spec ''c'' [''d'']]) DAG = Some (Inr (order, rs))
     \<and> dependency_order (agents_of [example_spec ''a'' [''b''], example_spec ''b'' [], example_spec ''c'' [''d'']]) order
     \<and> map_of rs ''a'' = Some (exec_result ''a'' COMPLETED (Some 1) None 0)"
proof -
  let ?ags = "agents_of [example_spec ''a'' [''b''], example_spec ''b'' [], example_spec ''c'' [''d'']]"
  let ?run = "\<lambda>n. (if n = ''b'' then Raised_exn (Exn ''E'' ''no'') else Output (1::nat), 0::rat)"
  have tot: "total_conditions [] ?ags"
    by (auto simp: total_conditions_def is_relevant_def agents_of_def example_spec_def split: if_splits)
  have b: "runnable [] ?ags ''b''"
    by (rule runnable.intros [of _ _ "example_spec ''b'' []"]) (simp_all add: agents_of_def example_spec_def is_relevant_def)
  have a: "runnable [] ?ags ''a''"
    by (rule runnable.intros [of _ _ "example_spec ''a'' [''b'']"])
      (use b in \<open>simp_all add: agents_of_def example_spec_def is_relevant_def\<close>)
  have ans: "agent_answer (\<lambda>_. []) ?run [] ?ags ''a'' = exec_result ''a'' COMPLETED (Some 1) None 0"
    by (simp add: agent_answer_def execute_one_def settled_def agents_of_def example_spec_def is_relevant_def)
  from dag_execution_spec [OF refl tot, of "\<lambda>_. []" ?run] a ans show ?thesis by auto
qed

subsection \<open>Success\<close>

definition consistent :: "'o exec_result \<Rightarrow> bool" where
  "consistent r \<longleftrightarrow> (xr_status r = FAILED \<longleftrightarrow> xr_error r \<noteq> None)"

lemma consistent_one: "execute_one txt run ctx n s = Inr r \<Longrightarrow> consistent r"
  by (auto simp: execute_one_def consistent_def exec_result_def skipped_def
      split: sum.splits bool.splits prod.splits agent_outcome.splits)

lemma consistent_settled: "consistent (settled n (execute_one txt run ctx n s))"
  using consistent_one [of "txt" run ctx n s]
  by (auto simp: settled_def consistent_def exec_result_def split: sum.splits)

definition all_consistent :: "'o results \<Rightarrow> bool" where
  "all_consistent rs \<longleftrightarrow> (\<forall>(n, r) \<in> set rs. consistent r)"

lemma all_consistent_update: "all_consistent rs \<Longrightarrow> consistent r \<Longrightarrow> all_consistent (AList.update n r rs)"
  by (induction rs) (auto simp: all_consistent_def)

lemma all_consistent_fold: "(\<And>n. consistent (f n)) \<Longrightarrow> all_consistent rs \<Longrightarrow> all_consistent (fold (\<lambda>n. AList.update n (f n)) ns rs)"
  by (induction ns arbitrary: rs) (simp_all add: all_consistent_update)

lemma all_consistent_Nil [simp]: "all_consistent []"
  by (simp add: all_consistent_def)

lemma run_all_consistent: "all_consistent rs \<Longrightarrow> all_consistent (run_all txt run ctx ags ns rs)"
  unfolding run_all_def by (rule all_consistent_fold [OF consistent_settled])

lemma sequential_consistent:
  "run_sequential txt run ctx ags rs = Inr rs' \<Longrightarrow> all_consistent rs \<Longrightarrow> all_consistent rs'"
proof (induction ags arbitrary: rs)
  case (Cons a ags)
  then show ?case
    by (cases a) (auto split: sum.splits intro: all_consistent_update consistent_one)
qed simp

lemma consistent_skipped: "consistent (skipped n m)"
  by (simp add: consistent_def skipped_def exec_result_def)

lemma dag_consistent:
  "dag_rounds txt run ctx ags fuel completed rs = Some (Inr (order, rs')) \<Longrightarrow> all_consistent rs \<Longrightarrow> all_consistent rs'"
proof (induction fuel arbitrary: completed rs)
  case 0
  then show ?case by (auto simp: dag_rounds.simps split: if_splits)
next
  case (Suc fuel)
  show ?case
  proof (cases "length ags \<le> length completed")
    case True
    with Suc.prems show ?thesis by (simp add: dag_rounds.simps)
  next
    case False
    with Suc.prems(1) obtain ns where ns: "dag_ready ctx ags completed = Inr ns"
      by (cases "dag_ready ctx ags completed") (auto simp: dag_rounds.simps [of _ _ _ _ "Suc fuel"])
    show ?thesis
    proof (cases ns)
      case Nil
      with False ns Suc.prems show ?thesis
        by (auto simp: dag_rounds.simps [of _ _ _ _ "Suc fuel"] intro: all_consistent_fold consistent_skipped)
    next
      case (Cons m ms)
      with False ns Suc.prems(1) have "dag_rounds txt run ctx ags fuel (completed @ m # ms) (run_all txt run ctx ags (m # ms) rs)
          = Some (Inr (order, rs'))"
        by (simp add: dag_rounds.simps [of _ _ _ _ "Suc fuel"])
      then show ?thesis by (rule Suc.IH) (rule run_all_consistent [OF Suc.prems(2)])
    qed
  qed
qed

lemma run_mode_consistent: "run_mode txt run ctx ags mode = Some (Inr (order, rs)) \<Longrightarrow> all_consistent rs"
  by (cases mode) (auto simp: run_mode_def split: sum.splits intro: run_all_consistent sequential_consistent dag_consistent)

text \<open>When a workflow counts as a success, in every mode: exactly when every agent that failed did so with an empty error
  text. An agent that raises an exception without a text is a failed agent of a successful workflow, and skipped
  agents never matter.\<close>

theorem workflow_success_spec:
  assumes "execute_workflow txt run ctx wk = Some (Inr w)"
  shows "wr_success w \<longleftrightarrow> (\<forall>n r. (n, r) \<in> set (wr_agent_results w) \<and> xr_status r = FAILED \<longrightarrow> xr_error r = Some [])"
proof -
  from assms obtain order where m: "run_mode txt run ctx (wk_agents wk) (wk_mode wk) = Some (Inr (order, wr_agent_results w))"
    and s: "wr_success w \<longleftrightarrow> error_entries (wr_agent_results w) = []"
    by (auto simp: execute_workflow_def split: option.splits sum.splits prod.splits)
  have "error_entries rs = [] \<longleftrightarrow> (\<forall>(n, r) \<in> set rs. xr_error r = None \<or> xr_error r = Some [])" for rs :: "'a results"
    by (induction rs) (auto simp: error_entries_def split: option.splits list.splits)
  with s run_mode_consistent [OF m] show ?thesis
    by (fastforce simp: all_consistent_def consistent_def)
qed

theorem workflow_success_spec_witness:
  "\<exists>w :: (nat, nat) workflow_result. execute_workflow (\<lambda>_. []) (\<lambda>n. (Raised_exn (Exn ''ValueError'' []), 0)) []
     \<lparr>wk_agents = agents_of [example_spec ''a'' []], wk_mode = PARALLEL,
      wk_aggregation = \<lparr>gs_strategy = MERGE, gs_conflict_resolution = CR_FIRST, gs_weights = [], gs_priority_order = []\<rparr>,
      wk_aggregator = None\<rparr> = Some (Inr w) \<and> wr_success w \<and> failed_agents w = [''a'']"
proof -
  let ?wk = "\<lparr>wk_agents = agents_of [example_spec ''a'' []], wk_mode = PARALLEL,
      wk_aggregation = \<lparr>gs_strategy = MERGE, gs_conflict_resolution = CR_FIRST, gs_weights = [], gs_priority_order = []\<rparr>,
      wk_aggregator = None\<rparr> :: (nat, nat) workflow"
  let ?run = "\<lambda>n. (Raised_exn (Exn ''ValueError'' []), 0) :: nat agent_outcome \<times> rat"
  obtain w where w: "execute_workflow (\<lambda>_. []) ?run [] ?wk = Some (Inr w)"
    "wr_agent_results w = [(''a'', exec_result ''a'' FAILED None (Some []) 0)]"
    by (simp add: execute_workflow_def run_mode_def run_all_def execute_one_def settled_def agents_of_def example_spec_def
        is_relevant_def aggregate_results_def successful_results_def exec_result_def)
  with workflow_success_spec [OF w(1)] show ?thesis by (intro exI [of _ w]) (simp add: failed_agents_def exec_result_def)
qed

end
