(* ===== verification/Findings.thy ===== *)
theory Findings
  imports MultiAgent
begin

text \<open>
  \<open>FindingsAggregator\<close> of \<open>workflow/multi_agent.py\<close>: findings are collected from the answers of the agents,
  deduplicated by their identifier and, on request, reduced to the most severe of each group. \<open>txt\<close> is \<open>str\<close>
  of a value.
\<close>

definition py_key :: "json \<Rightarrow> json" where
  "py_key j = (case j of JBool b \<Rightarrow> JNum (if b then 1 else 0) | _ \<Rightarrow> j)"

definition hash_key :: "json \<Rightarrow> json raising" where
  "hash_key j = (case j of
     JArr _ \<Rightarrow> Inl (Exn ''TypeError'' (''unhashable type: '' @ CHR 0x27 # ''list'' @ [CHR 0x27]))
   | JObj _ \<Rightarrow> Inl (Exn ''TypeError'' (''unhashable type: '' @ CHR 0x27 # ''dict'' @ [CHR 0x27]))
   | _ \<Rightarrow> Inr (py_key j))"

definition first_true :: "json list \<Rightarrow> json \<Rightarrow> json" where
  "first_true js d = (case filter jtrue js of [] \<Rightarrow> d | j # _ \<Rightarrow> j)"

subsection \<open>Collecting\<close>

text \<open>What a list is extended by.\<close>

definition iterated :: "json \<Rightarrow> json list raising" where
  "iterated j = (case j of
     JArr xs \<Rightarrow> Inr xs
   | JStr s \<Rightarrow> Inr (map (\<lambda>c. JStr [c]) s)
   | JObj fs \<Rightarrow> Inr (map (JStr \<circ> fst) fs)
   | _ \<Rightarrow> Inl (Exn ''TypeError'' ''object is not iterable''))"

definition findings_in :: "json exec_result \<Rightarrow> json list raising" where
  "findings_in r = (case xr_output r of
     None \<Rightarrow> Inr []
   | Some out \<Rightarrow>
       if \<not> is_success r \<or> \<not> jtrue out then Inr []
       else (case out of
           JObj fs \<Rightarrow> (case map_of fs ''findings'' of None \<Rightarrow> Inr [] | Some v \<Rightarrow> iterated v)
         | JArr xs \<Rightarrow> Inr xs
         | _ \<Rightarrow> Inr []))"

fun collect_findings :: "json results \<Rightarrow> json list raising" where
  "collect_findings [] = Inr []"
| "collect_findings ((n, r) # rs) = (case findings_in r of
     Inl e \<Rightarrow> Inl e
   | Inr xs \<Rightarrow> (case collect_findings rs of Inl e \<Rightarrow> Inl e | Inr ys \<Rightarrow> Inr (xs @ ys)))"

subsection \<open>Duplicates\<close>

definition finding_id :: "(json \<Rightarrow> string) \<Rightarrow> json \<Rightarrow> json" where
  "finding_id txt f = (case f of
     JObj fs \<Rightarrow> first_true [jget fs ''id'', jget fs ''hash'', jget fs ''fingerprint''] (JStr (txt f))
   | _ \<Rightarrow> JStr (txt f))"

fun deduplicate :: "(json \<Rightarrow> string) \<Rightarrow> json set \<Rightarrow> json list \<Rightarrow> json list raising" where
  "deduplicate txt seen [] = Inr []"
| "deduplicate txt seen (f # fs) = (case hash_key (finding_id txt f) of
     Inl e \<Rightarrow> Inl e
   | Inr k \<Rightarrow>
       if k \<in> seen then deduplicate txt seen fs
       else (case deduplicate txt (insert k seen) fs of Inl e \<Rightarrow> Inl e | Inr us \<Rightarrow> Inr (f # us)))"

subsection \<open>Severity\<close>

definition group_key :: "(json \<Rightarrow> string) \<Rightarrow> json \<Rightarrow> json" where
  "group_key txt f = (case f of
     JObj fs \<Rightarrow> first_true [jget fs ''location'', jget fs ''code''] (JStr (txt f))
   | _ \<Rightarrow> JStr (txt f))"

type_synonym groups = "(json \<times> json list) list"

definition add_finding :: "json \<Rightarrow> json \<Rightarrow> groups \<Rightarrow> groups" where
  "add_finding k f g = AList.update k ((case map_of g k of Some fs \<Rightarrow> fs | None \<Rightarrow> []) @ [f]) g"

fun group_findings :: "(json \<Rightarrow> string) \<Rightarrow> json list \<Rightarrow> groups \<Rightarrow> groups raising" where
  "group_findings txt [] g = Inr g"
| "group_findings txt (f # fs) g = (case hash_key (group_key txt f) of
     Inl e \<Rightarrow> Inl e
   | Inr k \<Rightarrow> group_findings txt fs (add_finding k f g))"

definition severity_order :: "string list" where
  "severity_order = [''critical'', ''high'', ''medium'', ''low'', ''info'']"

fun index_of :: "'a \<Rightarrow> 'a list \<Rightarrow> nat option" where
  "index_of x [] = None"
| "index_of x (y # ys) = (if x = y then Some 0 else map_option Suc (index_of x ys))"

definition severity_rank :: "json \<Rightarrow> nat raising" where
  "severity_rank f = (case f of
     JObj fs \<Rightarrow>
       (case index_of (case map_of fs ''severity'' of Some v \<Rightarrow> v | None \<Rightarrow> JStr ''info'') (map JStr severity_order) of
          Some i \<Rightarrow> Inr i
        | None \<Rightarrow> Inl (Exn ''ValueError'' ''is not in list''))
   | _ \<Rightarrow> Inr 99)"

fun ranked :: "json list \<Rightarrow> (nat \<times> json) list raising" where
  "ranked [] = Inr []"
| "ranked (f # fs) = (case severity_rank f of
     Inl e \<Rightarrow> Inl e
   | Inr r \<Rightarrow> (case ranked fs of Inl e \<Rightarrow> Inl e | Inr rs \<Rightarrow> Inr ((r, f) # rs)))"

text \<open>A group is never empty; \<open>sorted\<close> is stable.\<close>

definition most_severe :: "json list \<Rightarrow> json raising" where
  "most_severe fs = (if length fs = 1 then Inr (hd fs)
     else case ranked fs of Inl e \<Rightarrow> Inl e | Inr rs \<Rightarrow> Inr (snd (hd (sort_key fst rs))))"

fun resolve_groups :: "groups \<Rightarrow> json list raising" where
  "resolve_groups [] = Inr []"
| "resolve_groups ((k, fs) # gs) = (case most_severe fs of
     Inl e \<Rightarrow> Inl e
   | Inr f \<Rightarrow> (case resolve_groups gs of Inl e \<Rightarrow> Inl e | Inr us \<Rightarrow> Inr (f # us)))"

definition resolve_by_severity :: "(json \<Rightarrow> string) \<Rightarrow> json list \<Rightarrow> json list raising" where
  "resolve_by_severity txt fs = (case group_findings txt fs [] of Inl e \<Rightarrow> Inl e | Inr g \<Rightarrow> resolve_groups g)"

definition aggregate_findings :: "(json \<Rightarrow> string) \<Rightarrow> json results \<Rightarrow> aggregation_spec \<Rightarrow> json raising" where
  "aggregate_findings txt rs spec = (case collect_findings rs of
     Inl e \<Rightarrow> Inl e
   | Inr xs \<Rightarrow> (case deduplicate txt {} xs of
       Inl e \<Rightarrow> Inl e
     | Inr us \<Rightarrow> (case (if gs_conflict_resolution spec = CR_HIGHEST_SEVERITY then resolve_by_severity txt us else Inr us) of
         Inl e \<Rightarrow> Inl e
       | Inr vs \<Rightarrow> Inr (JObj [(''findings'', JArr vs), (''total_count'', JNum (of_nat (length vs))),
                              (''sources'', JArr (map JStr (keys rs)))]))))"

subsection \<open>What is kept\<close>

lemma deduplicate_kept:
  "deduplicate txt seen fs = Inr us \<Longrightarrow> subseq us fs \<and> distinct (map (hash_key \<circ> finding_id txt) us)
     \<and> (\<forall>u \<in> set us. \<exists>k. hash_key (finding_id txt u) = Inr k \<and> k \<notin> seen)
     \<and> (\<forall>f \<in> set fs. \<exists>k. hash_key (finding_id txt f) = Inr k \<and> (k \<in> seen \<or> Inr k \<in> (hash_key \<circ> finding_id txt) ` set us))"
proof (induction fs arbitrary: seen us)
  case (Cons f fs)
  obtain k where k: "hash_key (finding_id txt f) = Inr k"
    using Cons.prems by (cases "hash_key (finding_id txt f)") auto
  show ?case
  proof (cases "k \<in> seen")
    case True
    with Cons.IH [of seen us] Cons.prems k show ?thesis by auto
  next
    case False
    with Cons.prems k obtain vs where vs: "deduplicate txt (insert k seen) fs = Inr vs" "us = f # vs"
      by (auto split: sum.splits)
    note IH = Cons.IH [OF vs(1)]
    have "Inr k \<notin> set (map (hash_key \<circ> finding_id txt) vs)" using IH by fastforce
    with IH vs(2) k False show ?thesis by fastforce
  qed
qed simp

abbreviation group_of :: "groups \<Rightarrow> json \<Rightarrow> json list" where
  "group_of g k \<equiv> (case map_of g k of Some fs \<Rightarrow> fs | None \<Rightarrow> [])"

lemma update_values: "snd ` set (AList.update k v d) \<subseteq> insert v (snd ` set d)"
  by (induction d) auto

lemma group_findings_spec:
  "group_findings txt fs g = Inr g' \<Longrightarrow> wf_dict g \<and> [] \<notin> snd ` set g \<Longrightarrow>
     wf_dict g' \<and> [] \<notin> snd ` set g' \<and> (\<forall>f \<in> set fs. \<exists>k. hash_key (group_key txt f) = Inr k)
     \<and> (\<forall>k. group_of g' k = group_of g k @ filter (\<lambda>f. hash_key (group_key txt f) = Inr k) fs)"
proof (induction fs arbitrary: g)
  case (Cons f fs)
  from Cons.prems(1) obtain k where k: "hash_key (group_key txt f) = Inr k" "group_findings txt fs (add_finding k f g) = Inr g'"
    by (auto split: sum.splits)
  have "snd ` set (add_finding k f g) \<subseteq> insert (group_of g k @ [f]) (snd ` set g)"
    unfolding add_finding_def by (rule update_values)
  with Cons.prems(2) have "wf_dict (add_finding k f g) \<and> [] \<notin> snd ` set (add_finding k f g)"
    by (auto simp: add_finding_def wf_update)
  from Cons.IH [OF k(2) this] k(1) show ?case by (simp add: add_finding_def)
qed simp

lemma ranked_spec: "ranked fs = Inr rs \<Longrightarrow> map snd rs = fs \<and> (\<forall>(r, f) \<in> set rs. severity_rank f = Inr r)"
  by (induction fs arbitrary: rs) (auto split: sum.splits)

lemma most_severe_spec:
  assumes "most_severe fs = Inr v" "fs \<noteq> []"
  shows "v \<in> set fs \<and> (\<forall>u \<in> set fs. u \<noteq> v \<longrightarrow> (\<exists>a b. severity_rank v = Inr a \<and> severity_rank u = Inr b \<and> a \<le> b))"
proof (cases "length fs = 1")
  case True
  with assms show ?thesis by (auto simp: most_severe_def length_Suc_conv)
next
  case False
  with assms(1) obtain rs where rs: "ranked fs = Inr rs" "v = snd (hd (sort_key fst rs))"
    by (auto simp: most_severe_def split: sum.splits)
  note R = ranked_spec [OF rs(1)]
  with assms(2) have "sort_key fst rs \<noteq> []" by (metis list.simps(8) set_empty set_sort)
  then obtain a ps where s: "sort_key fst rs = (a, v) # ps" using rs(2) by (cases "sort_key fst rs") auto
  then have set: "set rs = insert (a, v) (set ps)" by (metis list.simps(15) set_sort)
  have "sorted (map fst (sort_key fst rs))" by simp
  with s have le: "\<forall>(b, u) \<in> set ps. a \<le> b" by auto
  have fs: "set fs = insert v (snd ` set ps)" using R set by (metis image_insert image_set snd_conv)
  moreover have "\<exists>a b. severity_rank v = Inr a \<and> severity_rank u = Inr b \<and> a \<le> b" if "u \<in> snd ` set ps" for u
    using that R set le by fastforce
  ultimately show ?thesis by auto
qed

lemma resolve_groups_spec:
  "resolve_groups gs = Inr vs \<Longrightarrow> list_all2 (\<lambda>(k, fs) v. most_severe fs = Inr v) gs vs"
  by (induction gs arbitrary: vs rule: resolve_groups.induct) (auto split: sum.splits)

lemma resolve_by_severity_spec:
  assumes "resolve_by_severity txt us = Inr vs"
  shows "set vs \<subseteq> set us \<and> distinct (map (hash_key \<circ> group_key txt) vs)
    \<and> (\<forall>u \<in> set us. \<exists>v \<in> set vs. hash_key (group_key txt v) = hash_key (group_key txt u))
    \<and> (\<forall>v \<in> set vs. \<forall>u \<in> set us. u \<noteq> v \<and> hash_key (group_key txt v) = hash_key (group_key txt u)
         \<longrightarrow> (\<exists>a b. severity_rank v = Inr a \<and> severity_rank u = Inr b \<and> a \<le> b))"
proof -
  let ?K = "\<lambda>f. hash_key (group_key txt f)"
  from assms obtain g where g: "group_findings txt us [] = Inr g" "resolve_groups g = Inr vs"
    by (auto simp: resolve_by_severity_def split: sum.splits)
  from group_findings_spec [OF g(1)]
  have wf: "wf_dict g" and ne: "[] \<notin> snd ` set g" and ok: "\<forall>f \<in> set us. \<exists>k. ?K f = Inr k"
    and members: "\<And>k. group_of g k = filter (\<lambda>f. ?K f = Inr k) us" by auto
  have group: "fs = filter (\<lambda>f. ?K f = Inr k) us" if "(k, fs) \<in> set g" for k fs
    using members [of k] that wf by (simp add: map_of_is_SomeI)
  note all2 = resolve_groups_spec [OF g(2)]
  have sel: "v \<in> set fs \<and> ?K v = Inr k \<and> v \<in> set us
      \<and> (\<forall>u \<in> set fs. u \<noteq> v \<longrightarrow> (\<exists>a b. severity_rank v = Inr a \<and> severity_rank u = Inr b \<and> a \<le> b))"
    if "((k, fs), v) \<in> set (zip g vs)" for k fs v
  proof -
    have m: "most_severe fs = Inr v" using all2 that by (auto simp: list_all2_iff)
    have k: "(k, fs) \<in> set g" using that by (rule set_zip_leftD)
    then have "fs \<noteq> []" using ne by force
    from most_severe_spec [OF m this] group [OF k] show ?thesis by auto
  qed
  have len: "length g = length vs" using all2 by (rule list_all2_lengthD)
  have "map (\<lambda>v. ?K v) vs = map (\<lambda>(k, fs). Inr k) g"
    by (rule nth_equalityI) (use len sel in \<open>fastforce simp: in_set_zip split: prod.splits\<close>)+
  then have keys: "map ?K vs = map Inr (keys g)" by (simp add: comp_def case_prod_beta)
  have 1: "set vs \<subseteq> set us"
  proof
    fix v assume "v \<in> set vs"
    then obtain x where "(x, v) \<in> set (zip g vs)" using len by (metis in_set_impl_in_set_zip2)
    with sel show "v \<in> set us" by (cases x) blast
  qed
  have 2: "distinct (map ?K vs)" unfolding keys using wf by (simp add: distinct_map inj_on_def)
  have 3: "\<exists>v \<in> set vs. ?K v = ?K u" if u: "u \<in> set us" for u
  proof -
    from ok u obtain k where k: "?K u = Inr k" by blast
    then have "group_of g k \<noteq> []" using members [of k] u by (auto simp: filter_empty_conv)
    then have "k \<in> set (keys g)" using map_of_eq_None_keys [of g k] by (auto split: option.splits simp del: set_map)
    then have "Inr k \<in> set (map ?K vs)" unfolding keys by auto
    with k show ?thesis by auto
  qed
  have 4: "\<exists>a b. severity_rank v = Inr a \<and> severity_rank u = Inr b \<and> a \<le> b"
    if v: "v \<in> set vs" and u: "u \<in> set us" "u \<noteq> v" "?K v = ?K u" for v u
  proof -
    from v len obtain x where "(x, v) \<in> set (zip g vs)" by (metis in_set_impl_in_set_zip2)
    moreover obtain k fs where x: "x = (k, fs)" by (cases x)
    ultimately have z: "((k, fs), v) \<in> set (zip g vs)" by simp
    have "fs = filter (\<lambda>f. ?K f = Inr k) us" using group [OF set_zip_leftD [OF z]] .
    with sel [OF z] u show ?thesis by auto
  qed
  from 1 2 3 4 show ?thesis by (auto simp: comp_def)
qed


definition example_finding :: "string \<Rightarrow> string \<Rightarrow> json" where
  "example_finding i sev = JObj [(''id'', JStr i), (''location'', JStr ''f.py:1''), (''severity'', JStr sev)]"


text \<open>A severity outside the list is an error as soon as its group has a second member, and only then: the aggregation
  of the whole workflow then fails.\<close>

lemma unknown_severity_raises:
  assumes "map_of fs ''severity'' = Some (JStr sev)" "sev \<notin> set severity_order" "JObj fs \<in> set gs" "length gs \<noteq> 1"
  shows "raises (most_severe gs)"
proof -
  have "index_of x xs = None \<longleftrightarrow> x \<notin> set xs" for x :: json and xs
    by (induction xs) auto
  then have bad: "raises (severity_rank (JObj fs))" using assms(1,2) by (auto simp: severity_rank_def split: option.splits)
  have "raises (ranked hs)" if "JObj fs \<in> set hs" for hs
    using that bad by (induction hs) (auto split: sum.splits)
  with assms(3,4) show ?thesis by (force simp: most_severe_def split: sum.splits)
qed

end
