(* ===== verification/Orchestrator.thy ===== *)
theory Orchestrator
  imports AgentRuntime
begin

text \<open>
  \<open>agents/orchestrator.py\<close> with \<open>core/agent_task.py\<close> and \<open>agents/execution_queue.py\<close>: tasks that are delegated
  to the agent runtime, their status and results, and the parallel execution of a batch.

  A task is a mutable object which the caller, the table of tasks and the results share: it lives in a store and is
  known by its place there. A delegation is split at its suspension points, the call of the bus before the run and the run
  itself; what other coroutines do in between are steps of their own. The bus swallows the exceptions of its
  subscribers, so publishing is recording an event.
\<close>

subsection \<open>Tasks\<close>

datatype task_status = PENDING | RUNNING | COMPLETED | FAILED | CANCELLED

record agent_task =
  at_id :: string
  at_parent :: "string option"
  at_agent :: string
  at_description :: string
  at_tool_ids :: "string list"
  at_skills :: "string list"
  at_options :: dict
  at_status :: task_status
  at_result_id :: "string option"
  at_result_agent :: "string option"
  at_error :: "string option"
  at_metadata :: dict

definition has_dependencies :: "agent_task \<Rightarrow> bool" where
  "has_dependencies t \<longleftrightarrow> at_parent t \<noteq> None"

definition is_complete :: "agent_task \<Rightarrow> bool" where
  "is_complete t \<longleftrightarrow> at_status t \<in> {COMPLETED, FAILED, CANCELLED}"

definition is_active :: "agent_task \<Rightarrow> bool" where
  "is_active t \<longleftrightarrow> at_status t \<in> {PENDING, RUNNING}"

definition can_start :: "agent_task \<Rightarrow> bool" where
  "can_start t \<longleftrightarrow> at_status t = PENDING"

text \<open>The identifier is the fresh \<open>uuid4\<close>.\<close>

definition create_agent_task :: "string \<Rightarrow> string \<Rightarrow> string \<Rightarrow> string list \<Rightarrow> string list \<Rightarrow> dict \<Rightarrow> string option \<Rightarrow> dict
    \<Rightarrow> agent_task" where
  "create_agent_task uuid agent description tool_ids skills options parent metadata =
     \<lparr>at_id = uuid, at_parent = parent, at_agent = agent, at_description = description, at_tool_ids = tool_ids,
      at_skills = skills, at_options = options, at_status = PENDING, at_result_id = None, at_result_agent = None,
      at_error = None, at_metadata = metadata\<rparr>"

record task_result =
  tr_task :: nat
  tr_result :: "run_result option"
  tr_error :: "string option"
  tr_started_at :: rat
  tr_completed_at :: rat

record orchestrator =
  or_objs :: "agent_task list"
  or_tasks :: "(string \<times> nat) list"
  or_results :: "(string \<times> task_result) list"
  or_events :: "(string \<times> dict) list"

definition or_init :: orchestrator where
  "or_init = \<lparr>or_objs = [], or_tasks = [], or_results = [], or_events = []\<rparr>"

abbreviation obj :: "orchestrator \<Rightarrow> nat \<Rightarrow> agent_task" where
  "obj s r \<equiv> or_objs s ! r"

definition new_task :: "agent_task \<Rightarrow> orchestrator \<Rightarrow> nat \<times> orchestrator" where
  "new_task t s = (length (or_objs s), s\<lparr>or_objs := or_objs s @ [t]\<rparr>)"

definition set_obj :: "nat \<Rightarrow> (agent_task \<Rightarrow> agent_task) \<Rightarrow> orchestrator \<Rightarrow> orchestrator" where
  "set_obj r f s = s\<lparr>or_objs := (or_objs s)[r := f (or_objs s ! r)]\<rparr>"

definition announce_task :: "string \<Rightarrow> dict \<Rightarrow> orchestrator \<Rightarrow> orchestrator" where
  "announce_task name d s = s\<lparr>or_events := or_events s @ [(name, d)]\<rparr>"

subsection \<open>Delegation\<close>

definition task_status_text :: "task_status \<Rightarrow> string" where
  "task_status_text st = (case st of PENDING \<Rightarrow> ''TaskStatus.PENDING'' | RUNNING \<Rightarrow> ''TaskStatus.RUNNING''
     | COMPLETED \<Rightarrow> ''TaskStatus.COMPLETED'' | FAILED \<Rightarrow> ''TaskStatus.FAILED'' | CANCELLED \<Rightarrow> ''TaskStatus.CANCELLED'')"

text \<open>Up to the first suspension point; then \<open>task.status = RUNNING\<close>; then the end of the run, with its result or
  the exception that the \<open>except\<close> clause sees.\<close>

definition begin_task :: "nat \<Rightarrow> string \<Rightarrow> orchestrator \<Rightarrow> unit raising \<times> orchestrator" where
  "begin_task r sid s = (let t = obj s r in
     if at_status t \<noteq> PENDING
     then (Inl (Exn ''ValueError'' (''Task '' @ at_id t @ '' is not pending: '' @ task_status_text (at_status t))), s)
     else (Inr (), announce_task ''task.started''
       [(''task_id'', JStr (at_id t)), (''agent_name'', JStr (at_agent t)), (''session_id'', JStr sid), (''parent_id'', opt_str (at_parent t))]
       (s\<lparr>or_tasks := AList.update (at_id t) r (or_tasks s)\<rparr>)))"

definition run_task :: "nat \<Rightarrow> orchestrator \<Rightarrow> orchestrator" where
  "run_task r s = set_obj r (\<lambda>t. t\<lparr>at_status := RUNNING\<rparr>) s"

definition end_task :: "nat \<Rightarrow> string \<Rightarrow> rat \<Rightarrow> run_result raising \<Rightarrow> orchestrator \<Rightarrow> orchestrator" where
  "end_task r sid now out s = (let t = obj s r in
     case out of
       Inr res \<Rightarrow>
         announce_task ''task.completed''
           [(''task_id'', JStr (at_id t)), (''agent_name'', JStr (at_agent t)), (''session_id'', JStr sid), (''duration'', JNum (rn_duration res))]
           ((set_obj r (\<lambda>t. t\<lparr>at_status := COMPLETED, at_result_id := Some (at_id t), at_result_agent := Some (rn_agent_name res)\<rparr>) s)
             \<lparr>or_results := AList.update (at_id t) \<lparr>tr_task = r, tr_result = Some res, tr_error = None,
                tr_started_at = now - rn_duration res, tr_completed_at = now\<rparr> (or_results s)\<rparr>)
     | Inl e \<Rightarrow>
         announce_task ''task.failed''
           [(''task_id'', JStr (at_id t)), (''agent_name'', JStr (at_agent t)), (''session_id'', JStr sid), (''error'', JStr (exn_msg e))]
           ((set_obj r (\<lambda>t. t\<lparr>at_status := FAILED, at_error := Some (exn_msg e)\<rparr>) s)
             \<lparr>or_results := AList.update (at_id t) \<lparr>tr_task = r, tr_result = None, tr_error = Some (exn_msg e),
                tr_started_at = 0, tr_completed_at = 0\<rparr> (or_results s)\<rparr>))"

text \<open>A delegation that nothing interrupts. \<open>tools\<close> is \<open>None\<close> when the argument is not a \<open>ToolRegistry\<close>.\<close>

definition agent_args :: "agent_task \<Rightarrow> string \<Rightarrow> string \<Rightarrow> ('t, 'm) registry \<Rightarrow> ('t, 'm) run_args" where
  "agent_args t sid message tools = \<lparr>ra_agent = at_agent t, ra_session = sid, ra_message = message, ra_tools = Some tools,
     ra_options = at_options t, ra_task = Some (at_id t)\<rparr>"

definition delegate_task :: "('t, 'm, 'w) rt_env \<Rightarrow> nat \<Rightarrow> string \<Rightarrow> string \<Rightarrow> ('t, 'm) registry option \<Rightarrow> orchestrator
    \<Rightarrow> agent_registry \<Rightarrow> 'w \<Rightarrow> string raising \<times> orchestrator \<times> agent_registry \<times> 'w" where
  "delegate_task env r sid message tools s reg w = (case begin_task r sid s of
     (Inl e, s) \<Rightarrow> (Inl e, s, reg, w)
   | (Inr u, s) \<Rightarrow>
       (let s = run_task r s;
            (out, reg, w) = (case tools of
                None \<Rightarrow> (Inl (Exn ''ValueError'' ''tools must be a ToolRegistry instance''), reg, w)
              | Some ts \<Rightarrow> (case execute_agent env (agent_args (obj s r) sid message ts) reg w of (out, tr, reg, w) \<Rightarrow> (out, reg, w)));
            s = end_task r sid (re_now env w) out s
        in (case out of Inl e \<Rightarrow> Inl e | Inr res \<Rightarrow> Inr (at_id (obj s r)), s, reg, w)))"

definition get_result :: "string \<Rightarrow> orchestrator \<Rightarrow> task_result option" where
  "get_result k s = map_of (or_results s) k"

text \<open>\<open>tool_ids\<close> are the keys of the registry \<open>tools\<close> in their order.\<close>

definition execute_task_via_task :: "('t, 'm, 'w) rt_env \<Rightarrow> ('t, 'm) registry \<Rightarrow> string \<Rightarrow> string \<Rightarrow> string \<Rightarrow> string
    \<Rightarrow> ('t, 'm) registry option \<Rightarrow> string list \<Rightarrow> string list \<Rightarrow> dict \<Rightarrow> string option \<Rightarrow> orchestrator \<Rightarrow> agent_registry \<Rightarrow> 'w
    \<Rightarrow> task_result raising \<times> orchestrator \<times> agent_registry \<times> 'w" where
  "execute_task_via_task env empty_registry uuid agent sid message tools tool_ids skills options parent s reg w =
     (let (r, s) = new_task (create_agent_task uuid agent (take 100 message)
                     (case tools of Some ts \<Rightarrow> tool_ids | None \<Rightarrow> []) skills options parent [(''session_id'', JStr sid)]) s
      in case delegate_task env r sid message (Some (case tools of Some ts \<Rightarrow> ts | None \<Rightarrow> empty_registry)) s reg w of
           (out, s, reg, w) \<Rightarrow>
             (case get_result uuid s of
                Some tr \<Rightarrow> Inr tr
              | None \<Rightarrow> (case out of Inl e \<Rightarrow> Inl e | Inr u \<Rightarrow> Inl (Exn ''ValueError'' (''Task result not found for '' @ uuid))), s, reg, w))"

subsection \<open>The other operations\<close>

text \<open>One round of the loop of \<open>cancel_tasks\<close>, which publishes and may be suspended there.\<close>

definition cancel_one :: "string \<Rightarrow> orchestrator \<Rightarrow> nat \<times> orchestrator" where
  "cancel_one k s = (case map_of (or_tasks s) k of
     Some r \<Rightarrow> if is_active (obj s r)
       then (1, announce_task ''task.cancelled'' [(''task_id'', JStr k), (''agent_name'', JStr (at_agent (obj s r)))]
              (set_obj r (\<lambda>t. t\<lparr>at_status := CANCELLED\<rparr>) s))
       else (0, s)
   | None \<Rightarrow> (0, s))"

fun cancel_tasks :: "string list \<Rightarrow> orchestrator \<Rightarrow> nat \<times> orchestrator" where
  "cancel_tasks [] s = (0, s)"
| "cancel_tasks (k # ks) s = (let (m, s) = cancel_one k s; (n, s) = cancel_tasks ks s in (m + n, s))"

definition get_status :: "string \<Rightarrow> orchestrator \<Rightarrow> task_status option" where
  "get_status k s = map_option (at_status \<circ> obj s) (map_of (or_tasks s) k)"

definition get_active_tasks :: "orchestrator \<Rightarrow> nat list" where
  "get_active_tasks s = filter (\<lambda>r. is_active (obj s r)) (map snd (or_tasks s))"

definition get_child_tasks :: "string \<Rightarrow> orchestrator \<Rightarrow> nat list" where
  "get_child_tasks p s = filter (\<lambda>r. at_parent (obj s r) = Some p) (map snd (or_tasks s))"

definition list_tasks :: "task_status option \<Rightarrow> orchestrator \<Rightarrow> nat list" where
  "list_tasks st s = (case st of
     None \<Rightarrow> map snd (or_tasks s)
   | Some st \<Rightarrow> filter (\<lambda>r. at_status (obj s r) = st) (map snd (or_tasks s)))"

definition list_results :: "orchestrator \<Rightarrow> task_result list" where
  "list_results s = map snd (or_results s)"

definition clear_completed_tasks :: "orchestrator \<Rightarrow> nat \<times> orchestrator" where
  "clear_completed_tasks s =
     (let gone = (\<lambda>k. case map_of (or_tasks s) k of Some r \<Rightarrow> is_complete (obj s r) | None \<Rightarrow> False);
          ks = filter gone (keys (or_tasks s))
      in (length ks, s\<lparr>or_tasks := filter (\<lambda>(k, r). \<not> gone k) (or_tasks s),
                     or_results := filter (\<lambda>(k, r). \<not> gone k) (or_results s)\<rparr>))"

subsection \<open>A batch in parallel\<close>

text \<open>\<open>run_jobs\<close>: \<open>finished\<close> are the jobs whose processing ended, in this order, with the identifier or the
  exception of each; \<open>completion\<close> is what \<open>wait_for_completion\<close> answered. The queue is unbounded, so \<open>enqueue\<close>
  does not fail. The workers are those of the worker pool.\<close>

type_synonym batch = "string option list \<times> (nat \<times> string) list"

definition job_workers :: "int \<Rightarrow> nat \<Rightarrow> int" where
  "job_workers max_workers jobs = min (max 1 max_workers) (max 1 (int jobs))"

definition process_job :: "nat \<times> string raising \<Rightarrow> batch \<Rightarrow> batch" where
  "process_job f b = (case f of
     (i, Inl e) \<Rightarrow> (fst b, AList.update i (exn_msg e) (snd b))
   | (i, Inr k) \<Rightarrow> ((fst b)[i := Some k], snd b))"

definition time_out_job :: "string \<Rightarrow> nat \<Rightarrow> batch \<Rightarrow> batch" where
  "time_out_job msg i b = (if fst b ! i = None \<and> map_of (snd b) i = None then (fst b, AList.update i msg (snd b)) else b)"

definition run_jobs :: "nat \<Rightarrow> (nat \<times> string raising) list \<Rightarrow> unit result \<Rightarrow> string list \<times> (nat \<times> string) list" where
  "run_jobs n finished completion =
     (let b = fold process_job finished (replicate n None, []);
          b = (case completion of
                 Ok u \<Rightarrow> b
               | Err msg c x \<Rightarrow> fold (time_out_job msg) [0..<n] b
               | Pass m \<Rightarrow> b)
      in (map the (filter (\<lambda>k. k \<noteq> None) (fst b)), snd b))"

definition run_parallel_agents :: "nat \<Rightarrow> nat \<Rightarrow> (nat \<times> string raising) list \<Rightarrow> unit result \<Rightarrow> string list raising" where
  "run_parallel_agents tasks messages finished completion =
     (if tasks \<noteq> messages
      then Inl (Exn ''ValueError'' (''Number of tasks ('' @ str_nat tasks @ '') must match number of messages ('' @ str_nat messages @ '')''))
      else Inr (fst (run_jobs tasks finished completion)))"

subsection \<open>Interleavings\<close>

text \<open>Where a delegation is: it has announced the task; the agent runs; it has stored a result; or it was abandoned by an
  exception that no \<open>except\<close> clause sees, such as the cancellation of its coroutine. The delegations are numbered
  in the order in which they began.\<close>

datatype stage = Announced | In_run | Finished | Abandoned

type_synonym orch_state = "orchestrator \<times> (nat \<times> stage) list"

inductive orch_step :: "orch_state \<Rightarrow> orch_state \<Rightarrow> bool" where
  create: "orch_step (s, ds) (snd (new_task (create_agent_task k a d ts sk os p md) s), ds)"
| started: "r < length (or_objs s) \<Longrightarrow> begin_task r sid s = (Inr (), s') \<Longrightarrow> orch_step (s, ds) (s', ds @ [(r, Announced)])"
| run: "i < length ds \<Longrightarrow> ds ! i = (r, Announced) \<Longrightarrow> orch_step (s, ds) (run_task r s, ds[i := (r, In_run)])"
| finish: "i < length ds \<Longrightarrow> ds ! i = (r, In_run) \<Longrightarrow> orch_step (s, ds) (end_task r sid now out s, ds[i := (r, Finished)])"
| abandon: "i < length ds \<Longrightarrow> ds ! i = (r, g) \<Longrightarrow> g \<noteq> Finished \<Longrightarrow> orch_step (s, ds) (s, ds[i := (r, Abandoned)])"
| cancel: "orch_step (s, ds) (snd (cancel_one k s), ds)"
| clear: "orch_step (s, ds) (snd (clear_completed_tasks s), ds)"

abbreviation orch_reachable :: "orch_state \<Rightarrow> bool" where
  "orch_reachable \<equiv> orch_step\<^sup>*\<^sup>* (or_init, [])"

definition in_flight :: "(nat \<times> stage) list \<Rightarrow> nat \<Rightarrow> bool" where
  "in_flight ds r \<longleftrightarrow> (\<exists>g. (r, g) \<in> set ds \<and> g \<noteq> Finished)"

definition orch_inv :: "orch_state \<Rightarrow> bool" where
  "orch_inv x \<longleftrightarrow> (case x of (s, ds) \<Rightarrow>
     (\<forall>(k, r) \<in> set (or_tasks s). r < length (or_objs s) \<and> at_id (obj s r) = k \<and> r \<in> fst ` set ds)
     \<and> (\<forall>(r, g) \<in> set ds. r < length (or_objs s))
     \<and> (\<forall>(k, tr) \<in> set (or_results s). (tr_task tr, Finished) \<in> set ds)
     \<and> (\<forall>r < length (or_objs s). case at_status (obj s r) of
          PENDING \<Rightarrow> \<forall>g. (r, g) \<in> set ds \<longrightarrow> g \<noteq> Finished
        | RUNNING \<Rightarrow> in_flight ds r
        | CANCELLED \<Rightarrow> in_flight ds r
        | _ \<Rightarrow> (r, Finished) \<in> set ds))"

lemma stage_move:
  assumes "i < length ds" "ds ! i = (r, g)" "g \<noteq> Finished"
  shows "fst ` set (ds[i := (r, h)]) = fst ` set ds"
    and "(q, Finished) \<in> set (ds[i := (r, h)]) \<longleftrightarrow> (q, Finished) \<in> set ds \<or> q = r \<and> h = Finished"
    and "in_flight ds q \<Longrightarrow> h \<noteq> Finished \<or> q \<noteq> r \<Longrightarrow> in_flight (ds[i := (r, h)]) q"
    and "(q, k) \<in> set (ds[i := (r, h)]) \<Longrightarrow> (q, k) = (r, h) \<or> (q, k) \<in> set ds"
proof -
  have "map fst (ds[i := (r, h)]) = map fst ds" using assms by (metis fst_conv list_update_id map_update)
  then show "fst ` set (ds[i := (r, h)]) = fst ` set ds" by (metis set_map)
  have mem: "x \<in> set (ds[i := (r, h)])" if "x \<in> set ds" "x \<noteq> (r, g)" for x
    using that assms(1,2) by (metis in_set_conv_nth length_list_update nth_list_update_neq)
  have new: "(r, h) \<in> set (ds[i := (r, h)])" using assms(1) by (rule set_update_memI)
  show "(q, k) \<in> set (ds[i := (r, h)]) \<Longrightarrow> (q, k) = (r, h) \<or> (q, k) \<in> set ds" for q k
    using set_update_subset_insert [of ds i "(r, h)"] by auto
  then show "(q, Finished) \<in> set (ds[i := (r, h)]) \<longleftrightarrow> (q, Finished) \<in> set ds \<or> q = r \<and> h = Finished"
    using mem new assms(3) by auto
  show "in_flight ds q \<Longrightarrow> h \<noteq> Finished \<or> q \<noteq> r \<Longrightarrow> in_flight (ds[i := (r, h)]) q"
    using mem new by (fastforce simp: in_flight_def)
qed

lemma orch_frames [simp]:
  "or_tasks (announce_task n d s) = or_tasks s" "or_objs (announce_task n d s) = or_objs s" "or_results (announce_task n d s) = or_results s"
  "or_tasks (set_obj r f s) = or_tasks s" "or_results (set_obj r f s) = or_results s"
  "or_objs (set_obj r f s) = (or_objs s)[r := f (or_objs s ! r)]"
  by (simp_all add: announce_task_def set_obj_def)

lemma orch_inv_init: "orch_inv (or_init, [])"
  by (simp add: orch_inv_def or_init_def)

definition status_ok :: "(nat \<times> stage) list \<Rightarrow> nat \<Rightarrow> task_status \<Rightarrow> bool" where
  "status_ok ds r st \<longleftrightarrow> (case st of
     PENDING \<Rightarrow> \<forall>g. (r, g) \<in> set ds \<longrightarrow> g \<noteq> Finished
   | RUNNING \<Rightarrow> in_flight ds r
   | CANCELLED \<Rightarrow> in_flight ds r
   | _ \<Rightarrow> (r, Finished) \<in> set ds)"

lemma orch_invI:
  assumes "\<And>k r. (k, r) \<in> set (or_tasks s) \<Longrightarrow> r < length (or_objs s) \<and> at_id (obj s r) = k \<and> r \<in> fst ` set ds"
    and "\<And>r g. (r, g) \<in> set ds \<Longrightarrow> r < length (or_objs s)"
    and "\<And>k tr. (k, tr) \<in> set (or_results s) \<Longrightarrow> (tr_task tr, Finished) \<in> set ds"
    and "\<And>r. r < length (or_objs s) \<Longrightarrow> status_ok ds r (at_status (obj s r))"
  shows "orch_inv (s, ds)"
  using assms by (auto simp: orch_inv_def status_ok_def)

lemma orch_invD:
  assumes "orch_inv (s, ds)"
  shows "(k, r) \<in> set (or_tasks s) \<Longrightarrow> r < length (or_objs s) \<and> at_id (obj s r) = k \<and> r \<in> fst ` set ds"
    and "(r, g) \<in> set ds \<Longrightarrow> r < length (or_objs s)"
    and "(k, tr) \<in> set (or_results s) \<Longrightarrow> (tr_task tr, Finished) \<in> set ds"
    and "r < length (or_objs s) \<Longrightarrow> status_ok ds r (at_status (obj s r))"
  using assms by (auto simp: orch_inv_def status_ok_def)

lemma status_ok_move:
  assumes "i < length ds" "ds ! i = (r, g)" "g \<noteq> Finished" "status_ok ds q st" "h \<noteq> Finished \<or> q \<noteq> r"
  shows "status_ok (ds[i := (r, h)]) q st"
  using assms stage_move [OF assms(1-3)] by (cases st) (fastforce simp: status_ok_def)+

lemma set_update_subset: "set (AList.update k v d) \<subseteq> insert (k, v) (set d)"
  by (induction d) auto

lemma orch_inv_create: "orch_inv (s, ds) \<Longrightarrow> at_status t = PENDING \<Longrightarrow> orch_inv (snd (new_task t s), ds)"
proof -
  assume inv: "orch_inv (s, ds)" and t: "at_status t = PENDING"
  note D = orch_invD [OF inv]
  show ?thesis
  proof (rule orch_invI)
    fix r assume "r < length (or_objs (snd (new_task t s)))"
    then consider "r < length (or_objs s)" | "r = length (or_objs s)" by (auto simp: new_task_def less_Suc_eq)
    then show "status_ok ds r (at_status (obj (snd (new_task t s)) r))"
    proof cases
      case 2
      then show ?thesis using D(2) t by (auto simp: new_task_def status_ok_def)
    qed (use D(4) in \<open>simp add: new_task_def nth_append\<close>)
  qed (use D in \<open>fastforce simp: new_task_def nth_append\<close>)+
qed

lemma orch_inv_begin:
  assumes "orch_inv (s, ds)" "r < length (or_objs s)" "begin_task r sid s = (Inr (), s')"
  shows "orch_inv (s', ds @ [(r, Announced)])"
proof -
  note D = orch_invD [OF assms(1)]
  from assms(3) have s': "or_objs s' = or_objs s" "or_results s' = or_results s" "or_tasks s' = AList.update (at_id (obj s r)) r (or_tasks s)"
    and "at_status (obj s r) = PENDING"
    by (auto simp: begin_task_def Let_def split: if_splits)
  show ?thesis
  proof (rule orch_invI)
    fix k q assume "(k, q) \<in> set (or_tasks s')"
    then have "(k, q) = (at_id (obj s r), r) \<or> (k, q) \<in> set (or_tasks s)" using s'(3) set_update_subset [of "at_id (obj s r)" r "or_tasks s"] by auto
    with D(1) [of k q] assms(2) show "q < length (or_objs s') \<and> at_id (obj s' q) = k \<and> q \<in> fst ` set (ds @ [(r, Announced)])"
      by (auto simp: s')
  next
    fix q assume "q < length (or_objs s')"
    with D(4) [of q] show "status_ok (ds @ [(r, Announced)]) q (at_status (obj s' q))"
      by (auto simp: s' status_ok_def in_flight_def split: task_status.splits)
  qed (use D assms(2) in \<open>auto simp: s'\<close>)
qed

lemma orch_inv_move:
  assumes inv: "orch_inv (s, ds)" and i: "i < length ds" "ds ! i = (r, g)" "g \<noteq> Finished"
    and o: "or_objs s' = (or_objs s)[r := t]" "at_id t = at_id (obj s r)" "or_tasks s' = or_tasks s"
    and res: "\<And>k y. (k, y) \<in> set (or_results s') \<Longrightarrow> (k, y) \<in> set (or_results s) \<or> tr_task y = r \<and> h = Finished"
    and st: "status_ok (ds[i := (r, h)]) r (at_status t)"
  shows "orch_inv (s', ds[i := (r, h)])"
proof -
  note D = orch_invD [OF inv] note M = stage_move [OF i, where h = h]
  have r: "r < length (or_objs s)" using D(2) i(1,2) nth_mem by metis
  have len: "length (or_objs s') = length (or_objs s)" by (simp add: o)
  have id: "at_id (obj s' q) = at_id (obj s q)" if "q < length (or_objs s)" for q
    using that o by (cases "q = r") simp_all
  show ?thesis
  proof (rule orch_invI)
    fix k q assume "(k, q) \<in> set (or_tasks s')"
    then have "(k, q) \<in> set (or_tasks s)" by (simp add: o(3))
    from D(1) [OF this] show "q < length (or_objs s') \<and> at_id (obj s' q) = k \<and> q \<in> fst ` set (ds[i := (r, h)])"
      using id len M(1) by simp
  next
    fix q k assume "(q, k) \<in> set (ds[i := (r, h)])"
    then show "q < length (or_objs s')" using M(4) D(2) r len by fastforce
  next
    fix k y assume "(k, y) \<in> set (or_results s')"
    then show "(tr_task y, Finished) \<in> set (ds[i := (r, h)])" using res D(3) M(2) by blast
  next
    fix q assume "q < length (or_objs s')"
    with len D(4) have q: "q < length (or_objs s)" "status_ok ds q (at_status (obj s q))" by auto
    show "status_ok (ds[i := (r, h)]) q (at_status (obj s' q))"
    proof (cases "q = r")
      case True
      with st r show ?thesis by (simp add: o)
    next
      case False
      with status_ok_move [OF i q(2), where h = h] show ?thesis by (simp add: o)
    qed
  qed
qed

lemma in_flight_new: "i < length ds \<Longrightarrow> h \<noteq> Finished \<Longrightarrow> in_flight (ds[i := (r, h)]) r"
  unfolding in_flight_def using set_update_memI by fast

lemma orch_inv_run:
  assumes "orch_inv (s, ds)" "i < length ds" "ds ! i = (r, Announced)"
  shows "orch_inv (run_task r s, ds[i := (r, In_run)])"
  by (rule orch_inv_move [OF assms _ _ _ _ _ , where t = "(obj s r)\<lparr>at_status := RUNNING\<rparr>"])
    (use in_flight_new [OF assms(2), of In_run] in \<open>simp_all add: run_task_def status_ok_def\<close>)

lemma end_task_sel:
  "or_tasks (end_task r sid now out s) = or_tasks s"
  "\<exists>t. or_objs (end_task r sid now out s) = (or_objs s)[r := t] \<and> at_id t = at_id (obj s r) \<and> at_status t \<in> {COMPLETED, FAILED}"
  "\<exists>tr. or_results (end_task r sid now out s) = AList.update (at_id (obj s r)) tr (or_results s) \<and> tr_task tr = r"
  by (cases out; force simp: end_task_def Let_def)+

lemma orch_inv_finish:
  assumes "orch_inv (s, ds)" "i < length ds" "ds ! i = (r, In_run)"
  shows "orch_inv (end_task r sid now out s, ds[i := (r, Finished)])"
proof -
  let ?s = "end_task r sid now out s"
  from end_task_sel [of r sid now out s] obtain t tr where
    o: "or_objs ?s = (or_objs s)[r := t]" "at_id t = at_id (obj s r)" "at_status t \<in> {COMPLETED, FAILED}" and
    tr: "or_results ?s = AList.update (at_id (obj s r)) tr (or_results s)" "tr_task tr = r" by blast
  show ?thesis
  proof (rule orch_inv_move [OF assms _ o(1,2) end_task_sel(1)])
    fix k y assume "(k, y) \<in> set (or_results ?s)"
    then show "(k, y) \<in> set (or_results s) \<or> tr_task y = r \<and> Finished = Finished"
      using tr set_update_subset [of "at_id (obj s r)" tr "or_results s"] by auto
  next
    show "status_ok (ds[i := (r, Finished)]) r (at_status t)"
      using o(3) set_update_memI [OF assms(2), of "(r, Finished)"] by (auto simp: status_ok_def)
  qed simp
qed

lemma orch_inv_abandon:
  assumes "orch_inv (s, ds)" "i < length ds" "ds ! i = (r, g)" "g \<noteq> Finished"
  shows "orch_inv (s, ds[i := (r, Abandoned)])"
proof (rule orch_inv_move [OF assms, where t = "obj s r"])
  have "r < length (or_objs s)" using orch_invD(2) [OF assms(1)] assms(2,3) nth_mem by metis
  from orch_invD(4) [OF assms(1) this] show "status_ok (ds[i := (r, Abandoned)]) r (at_status (obj s r))"
    using status_ok_move [OF assms(2-4)] by blast
qed simp_all

lemma orch_inv_cancel:
  assumes "orch_inv (s, ds)"
  shows "orch_inv (snd (cancel_one k s), ds)"
proof (cases "\<exists>r. map_of (or_tasks s) k = Some r \<and> is_active (obj s r)")
  case True
  then obtain r where r: "map_of (or_tasks s) k = Some r" "is_active (obj s r)" by blast
  let ?t = "(obj s r)\<lparr>at_status := CANCELLED\<rparr>" let ?s = "snd (cancel_one k s)"
  have o: "or_objs ?s = (or_objs s)[r := ?t]" "or_tasks ?s = or_tasks s" "or_results ?s = or_results s"
    using r by (simp_all add: cancel_one_def)
  note D = orch_invD [OF assms]
  have k: "r < length (or_objs s)" "r \<in> fst ` set ds" using D(1) map_of_SomeD [OF r(1)] by blast+
  from k(2) obtain g where g: "(r, g) \<in> set ds" by auto
  have fl: "in_flight ds r"
  proof (cases "at_status (obj s r) = PENDING")
    case True
    with D(4) [OF k(1)] g show ?thesis unfolding status_ok_def in_flight_def by force
  next
    case False
    with D(4) [OF k(1)] r(2) show ?thesis by (simp add: is_active_def status_ok_def)
  qed
  then obtain g i where i: "i < length ds" "ds ! i = (r, g)" "g \<noteq> Finished" by (metis in_flight_def in_set_conv_nth)
  have "orch_inv (?s, ds[i := (r, g)])"
    by (rule orch_inv_move [OF assms i o(1) _ o(2)]) (use in_flight_new [OF i(1,3), of r] in \<open>simp_all add: o status_ok_def\<close>)
  moreover have "ds[i := (r, g)] = ds" using i by (metis list_update_id)
  ultimately show ?thesis by simp
next
  case False
  then have "snd (cancel_one k s) = s" by (auto simp: cancel_one_def split: option.splits)
  with assms show ?thesis by simp
qed

lemma orch_inv_clear: "orch_inv (s, ds) \<Longrightarrow> orch_inv (snd (clear_completed_tasks s), ds)"
  by (auto simp: orch_inv_def clear_completed_tasks_def Let_def)

lemma orch_inv_step: "orch_step x y \<Longrightarrow> orch_inv x \<Longrightarrow> orch_inv y"
  by (induction rule: orch_step.induct)
    (simp_all add: orch_inv_create orch_inv_begin orch_inv_run orch_inv_finish orch_inv_abandon orch_inv_cancel orch_inv_clear
      create_agent_task_def)

lemma orch_inv_reachable: "orch_reachable x \<Longrightarrow> orch_inv x"
  by (induction rule: rtranclp_induct) (auto intro: orch_inv_init orch_inv_step)


definition example_task :: agent_task where
  "example_task = create_agent_task ''t1'' ''build'' ''d'' [] [] [] None []"

definition cancelled_example :: orchestrator where
  "cancelled_example = snd (cancel_one ''t1'' (snd (begin_task 0 ''s1'' (snd (new_task example_task or_init)))))"


subsection \<open>A delegation and its result\<close>

lemma delegate_task_run:
  assumes "begin_task r sid s = (Inr (), sb)" "at_id (obj (run_task r sb) r) = at_id (obj s r)"
    and "r < length (or_objs (run_task r sb))" "delegate_task env r sid message tools s reg w = (out, s', reg', w')"
  shows "\<exists>res now. out = (case res of Inl e \<Rightarrow> Inl e | Inr u \<Rightarrow> Inr (at_id (obj s r)))
    \<and> s' = end_task r sid now res (run_task r sb)
    \<and> (session_manager_answers env \<longrightarrow> (\<forall>e. res = Inl e \<longrightarrow> exn_type e = ''ValueError''))"
proof (cases tools)
  case None
  with assms show ?thesis
    by (intro exI [of _ "Inl (Exn ''ValueError'' ''tools must be a ToolRegistry instance'')"]) (auto simp: delegate_task_def Let_def)
next
  case (Some ts)
  let ?sr = "run_task r sb"
  obtain o1 tr1 reg1 w1 where e: "execute_agent env (agent_args (obj ?sr r) sid message ts) reg w = (o1, tr1, reg1, w1)"
    by (metis prod_cases4)
  have "at_id (obj (end_task r sid (re_now env w1) o1 ?sr) r) = at_id (obj s r)"
    using end_task_sel(2) [of r sid "re_now env w1" o1 ?sr] assms(2,3) by fastforce
  with assms(1,4) Some e have "out = (case o1 of Inl e \<Rightarrow> Inl e | Inr u \<Rightarrow> Inr (at_id (obj s r)))"
    "s' = end_task r sid (re_now env w1) o1 ?sr"
    by (auto simp: delegate_task_def Let_def split: sum.splits)
  moreover have "session_manager_answers env \<longrightarrow> exn_type x = ''ValueError''" if "o1 = Inl x" for x
    using execute_agent_raises [OF e [unfolded that]] by blast
  ultimately show ?thesis by blast
qed



text \<open>Executing through a task never raises: every exception of the delegation has been stored as the result of the new task,
  and this result is returned. The task is failed exactly when its result carries an error instead of an answer of the runtime.\<close>

theorem execute_via_task_total:
  "case execute_task_via_task env reg0 uuid agent sid message tools ids skills options parent s reg w of (out, s', reg', w') \<Rightarrow>
    \<exists>tr. out = Inr tr \<and> tr_task tr = length (or_objs s) \<and> get_result uuid s' = Some tr \<and> get_status uuid s' =
      Some (if tr_result tr = None then FAILED else COMPLETED) \<and> (tr_result tr = None \<longleftrightarrow> tr_error tr \<noteq> None)"
proof -
  let ?r = "length (or_objs s)"
  define t where "t = create_agent_task uuid agent (take 100 message) (case tools of Some ts \<Rightarrow> ids | None \<Rightarrow> []) skills options parent
    [(''session_id'', JStr sid)]"
  let ?s = "s\<lparr>or_objs := or_objs s @ [t]\<rparr>"
  have t: "at_id t = uuid" "at_status t = PENDING" by (simp_all add: t_def create_agent_task_def)
  obtain o1 s1 reg1 w1 where d: "delegate_task env ?r sid message (Some (case tools of Some ts \<Rightarrow> ts | None \<Rightarrow> reg0)) ?s reg w = (o1, s1, reg1, w1)"
    by (metis prod_cases4)
  define sb where "sb = snd (begin_task ?r sid ?s)"
  have b: "begin_task ?r sid ?s = (Inr (), sb)" "at_id (obj (run_task ?r sb) ?r) = at_id (obj ?s ?r)"
    "?r < length (or_objs (run_task ?r sb))" "map_of (or_tasks (run_task ?r sb)) uuid = Some ?r"
    using t by (simp_all add: sb_def begin_task_def run_task_def Let_def)
  from delegate_task_run [OF b(1-3) d] obtain res now where s1: "s1 = end_task ?r sid now res (run_task ?r sb)" by blast
  have "\<exists>tr. get_result uuid s1 = Some tr \<and> tr_task tr = ?r \<and> get_status uuid s1 = Some (if tr_result tr = None then FAILED else COMPLETED)
      \<and> (tr_result tr = None \<longleftrightarrow> tr_error tr \<noteq> None)"
    using b(2-4) t by (cases res) (simp_all add: s1 end_task_def Let_def get_result_def get_status_def)
  with d show ?thesis
    by (auto simp: execute_task_via_task_def new_task_def Let_def simp flip: t_def)
qed

subsection \<open>The batch\<close>

lemma process_all:
  "distinct (map fst fs) \<Longrightarrow>
     length (fst (fold process_job fs b)) = length (fst b)
     \<and> (\<forall>i < length (fst b). fst (fold process_job fs b) ! i = (case map_of fs i of Some (Inr k) \<Rightarrow> Some k | _ \<Rightarrow> fst b ! i))
     \<and> (\<forall>i. map_of (snd (fold process_job fs b)) i = (case map_of fs i of Some (Inl e) \<Rightarrow> Some (exn_msg e) | _ \<Rightarrow> map_of (snd b) i))"
proof (induction fs arbitrary: b)
  case (Cons f fs)
  obtain j r where f: "f = (j, r)" by (cases f)
  from Cons.prems f have "map_of fs j = None" by (simp add: map_of_eq_None_iff)
  with Cons.IH [of "process_job f b"] Cons.prems f show ?case
    by (cases r) (auto simp: process_job_def nth_list_update split: option.splits sum.splits)
qed simp

lemma time_out_all:
  "distinct ns \<Longrightarrow>
     fst (fold (time_out_job msg) ns b) = fst b
     \<and> (\<forall>i. map_of (snd (fold (time_out_job msg) ns b)) i =
          (if i \<in> set ns \<and> fst b ! i = None \<and> map_of (snd b) i = None then Some msg else map_of (snd b) i))"
proof (induction ns arbitrary: b)
  case (Cons n ns)
  note IH = Cons.IH [of "time_out_job msg n b"]
  show ?case
  proof (cases "fst b ! n = None \<and> map_of (snd b) n = None")
    case True
    then have "time_out_job msg n b = (fst b, AList.update n msg (snd b))" by (simp add: time_out_job_def)
    with IH True Cons.prems show ?thesis by simp
  next
    case False
    then have "time_out_job msg n b = b" by (auto simp: time_out_job_def)
    with IH False Cons.prems show ?thesis by auto
  qed
qed simp

text \<open>What a parallel batch reports, whatever the order in which its jobs end. The identifiers of the jobs that succeeded
  are returned in the order of the tasks, not of the ends. A job that raised has its text as error. A job that did not end
  has the text of the failed wait as error; when the wait was answered \<open>Ok\<close>, such a job is in neither list.\<close>

theorem parallel_batch_spec:
  assumes "distinct (map fst finished)" "run_jobs n finished completion = (ids, errors)"
  shows "ids = List.map_filter (\<lambda>i. case map_of finished i of Some (Inr k) \<Rightarrow> Some k | _ \<Rightarrow> None) [0..<n]
    \<and> (\<forall>i < n. map_of errors i = (case map_of finished i of
         Some (Inl e) \<Rightarrow> Some (exn_msg e)
       | Some (Inr k) \<Rightarrow> None
       | None \<Rightarrow> (case completion of Err msg c x \<Rightarrow> Some msg | _ \<Rightarrow> None)))
    \<and> run_parallel_agents n n finished completion = Inr ids"
proof -
  let ?b = "fold process_job finished (replicate n None, [])"
  let ?c = "case completion of Ok u \<Rightarrow> ?b | Err msg c x \<Rightarrow> fold (time_out_job msg) [0..<n] ?b | Pass m \<Rightarrow> ?b"
  note P = process_all [OF assms(1), of "(replicate n None, [])", simplified]
  have c: "fst ?c = fst ?b"
    using time_out_all [of "[0..<n]"] by (cases completion) simp_all
  have r: "ids = map the (filter (\<lambda>k. k \<noteq> None) (fst ?b))" "errors = snd ?c"
    using assms(2) c by (auto simp: run_jobs_def Let_def)
  have "fst ?b = map (\<lambda>i. case map_of finished i of Some (Inr k) \<Rightarrow> Some k | _ \<Rightarrow> None) [0..<n]"
    using P by (intro nth_equalityI) (auto split: option.splits sum.splits)
  then have ids: "ids = List.map_filter (\<lambda>i. case map_of finished i of Some (Inr k) \<Rightarrow> Some k | _ \<Rightarrow> None) [0..<n]"
    by (simp add: r(1) List.map_filter_def filter_map comp_def)
  have err: "map_of errors i = (case map_of finished i of Some (Inl e) \<Rightarrow> Some (exn_msg e) | Some (Inr k) \<Rightarrow> None
       | None \<Rightarrow> (case completion of Err msg c x \<Rightarrow> Some msg | _ \<Rightarrow> None))" if "i < n" for i
  proof (cases completion)
    case (Err msg c x)
    with time_out_all [of "[0..<n]" msg ?b] P that show ?thesis by (auto simp: r(2) split: option.splits sum.splits)
  qed (use P that in \<open>auto simp: r(2) split: option.splits sum.splits\<close>)
  with ids assms(2) show ?thesis by (simp add: run_parallel_agents_def)
qed

theorem parallel_batch_spec_witness:
  "run_jobs 4 [(2, Inr ''c''), (0, Inr ''a''), (1, Inl (Exn ''E'' ''no''))] (Ok ()) = ([''a'', ''c''], [(1, ''no'')])
   \<and> run_parallel_agents 4 4 [(2, Inr ''c''), (0, Inr ''a''), (1, Inl (Exn ''E'' ''no''))] (Ok ()) = Inr [''a'', ''c'']"
proof -
  have r: "run_jobs 4 [(2, Inr ''c''), (0, Inr ''a''), (1, Inl (Exn ''E'' ''no''))] (Ok ()) = ([''a'', ''c''], [(1, ''no'')])"
    by code_simp
  show ?thesis using parallel_batch_spec [OF _ r] r by simp
qed

subsection \<open>Clearing\<close>

text \<open>Clearing leaves exactly the active tasks and tells how many it removed. The results of tasks that are not in the table
  stay: a task that was cancelled and cleared while it ran leaves its result there for good.\<close>

lemma clear_spec:
  assumes "clear_completed_tasks s = (n, s')" "wf_dict (or_tasks s)"
  shows "or_tasks s' = filter (\<lambda>(k, r). \<not> is_complete (obj s r)) (or_tasks s) \<and> n + length (or_tasks s') = length (or_tasks s)"
    and "(k, tr) \<in> set (or_results s) \<Longrightarrow> map_of (or_tasks s) k = None \<Longrightarrow> (k, tr) \<in> set (or_results s')"
proof -
  let ?gone = "\<lambda>k. case map_of (or_tasks s) k of Some r \<Rightarrow> is_complete (obj s r) | None \<Rightarrow> False"
  have eq: "filter (\<lambda>(k, r). \<not> ?gone k) (or_tasks s) = filter (\<lambda>(k, r). \<not> is_complete (obj s r)) (or_tasks s)"
  proof (rule filter_cong [OF refl])
    fix x assume x: "x \<in> set (or_tasks s)"
    then have "map_of (or_tasks s) (fst x) = Some (snd x)" using assms(2) by (simp add: map_of_is_SomeI)
    then show "(case x of (k, r) \<Rightarrow> \<not> ?gone k) = (case x of (k, r) \<Rightarrow> \<not> is_complete (obj s r))"
      by (cases x) simp
  qed
  have "length (filter ?gone (keys (or_tasks s))) + length (filter (\<lambda>(k, r). \<not> ?gone k) (or_tasks s)) = length (or_tasks s)"
    using sum_length_filter_compl [of "\<lambda>(k, r). ?gone k" "or_tasks s"] by (simp add: filter_map comp_def case_prod_beta')
  with eq assms(1) show "or_tasks s' = filter (\<lambda>(k, r). \<not> is_complete (obj s r)) (or_tasks s) \<and> n + length (or_tasks s') = length (or_tasks s)"
    by (auto simp: clear_completed_tasks_def Let_def)
  show "(k, tr) \<in> set (or_results s) \<Longrightarrow> map_of (or_tasks s) k = None \<Longrightarrow> (k, tr) \<in> set (or_results s')"
    using assms(1) by (auto simp: clear_completed_tasks_def Let_def)
qed

end
