(* ===== verification/AgentStates.thy ===== *)
theory AgentStates
  imports Results "HOL-Library.Sublist"
begin

text \<open>
  The life of an agent, \<open>agents/state.py\<close>: the states, the default table of transitions and the machine that checks
  them.
\<close>

datatype agent_state = IDLE | INITIALIZING | READY | RUNNING | PAUSED | COMPLETED | FAILED

definition state_value :: "agent_state \<Rightarrow> string" where
  "state_value st = (case st of IDLE \<Rightarrow> ''idle'' | INITIALIZING \<Rightarrow> ''initializing'' | READY \<Rightarrow> ''ready'' | RUNNING \<Rightarrow> ''running''
     | PAUSED \<Rightarrow> ''paused'' | COMPLETED \<Rightarrow> ''completed'' | FAILED \<Rightarrow> ''failed'')"

text \<open>The targets of a state are a set; they are listed here in the order in which the source writes them.\<close>

type_synonym transition_map = "(agent_state \<times> agent_state list) list"

definition FSM_TRANSITIONS :: transition_map where
  "FSM_TRANSITIONS =
    [(IDLE, [INITIALIZING]), (INITIALIZING, [READY, FAILED]), (READY, [RUNNING, FAILED]),
     (RUNNING, [PAUSED, COMPLETED, FAILED]), (PAUSED, [RUNNING, COMPLETED, FAILED]), (COMPLETED, []), (FAILED, [])]"

record machine =
  am_state :: agent_state
  am_transitions :: transition_map

definition am_init :: "transition_map option \<Rightarrow> machine" where
  "am_init ts = \<lparr>am_state = IDLE, am_transitions = (case ts of Some ts \<Rightarrow> ts | None \<Rightarrow> FSM_TRANSITIONS)\<rparr>"

definition valid_targets :: "machine \<Rightarrow> agent_state \<Rightarrow> agent_state list" where
  "valid_targets m st = (case map_of (am_transitions m) st of Some ts \<Rightarrow> ts | None \<Rightarrow> [])"

definition is_valid_transition :: "machine \<Rightarrow> agent_state \<Rightarrow> agent_state \<Rightarrow> bool" where
  "is_valid_transition m a b \<longleftrightarrow> b \<in> set (valid_targets m a)"

text \<open>\<open>show_list\<close> is the text of a list of texts.\<close>

definition transition_to :: "(string list \<Rightarrow> string) \<Rightarrow> agent_state \<Rightarrow> machine \<Rightarrow> agent_state result \<times> machine" where
  "transition_to show_list b m =
     (if is_valid_transition m (am_state m) b then (Ok b, m\<lparr>am_state := b\<rparr>)
      else (Err (''Invalid transition: '' @ state_value (am_state m) @ '' -> '' @ state_value b @ ''. Valid transitions from ''
                 @ state_value (am_state m) @ '': '' @ show_list (map state_value (valid_targets m (am_state m))))
              (Some ''INVALID_TRANSITION'') False, m))"

definition can_transition_to :: "agent_state \<Rightarrow> machine \<Rightarrow> bool" where
  "can_transition_to b m = is_valid_transition m (am_state m) b"

definition am_reset :: "machine \<Rightarrow> machine" where
  "am_reset m = m\<lparr>am_state := IDLE\<rparr>"

subsection \<open>Runs\<close>

datatype am_op = Transition agent_state | Reset

text \<open>A run, with the targets that were answered \<open>Ok\<close> since the last reset.\<close>

fun am_run :: "(string list \<Rightarrow> string) \<Rightarrow> am_op list \<Rightarrow> machine \<Rightarrow> agent_state list \<Rightarrow> machine \<times> agent_state list" where
  "am_run sl [] m hist = (m, hist)"
| "am_run sl (Reset # ops) m hist = am_run sl ops (am_reset m) []"
| "am_run sl (Transition b # ops) m hist = (case transition_to sl b m of
     (Ok c, m) \<Rightarrow> am_run sl ops m (hist @ [c])
   | (_, m) \<Rightarrow> am_run sl ops m hist)"

text \<open>What the history of a machine in a state looks like: the path of an agent starts with its initialization and its
  readiness, and then alternates between running and paused.\<close>

definition life :: "agent_state \<Rightarrow> agent_state list \<Rightarrow> bool" where
  "life st hist \<longleftrightarrow> (case st of
     IDLE \<Rightarrow> hist = []
   | INITIALIZING \<Rightarrow> hist = [INITIALIZING]
   | READY \<Rightarrow> hist = [INITIALIZING, READY]
   | FAILED \<Rightarrow> \<exists>pre. hist = INITIALIZING # pre @ [FAILED] \<and> COMPLETED \<notin> set pre \<and> FAILED \<notin> set pre
   | _ \<Rightarrow> \<exists>mid. hist = [INITIALIZING, READY, RUNNING] @ mid \<and> last (RUNNING # mid) = st
            \<and> set (butlast mid) \<subseteq> {RUNNING, PAUSED})"

lemma valid_default:
  "am_transitions m = FSM_TRANSITIONS \<Longrightarrow> is_valid_transition m a b \<longleftrightarrow>
     (a, b) \<in> {(IDLE, INITIALIZING), (INITIALIZING, READY), (INITIALIZING, FAILED), (READY, RUNNING), (READY, FAILED),
       (RUNNING, PAUSED), (RUNNING, COMPLETED), (RUNNING, FAILED), (PAUSED, RUNNING), (PAUSED, COMPLETED), (PAUSED, FAILED)}"
  by (cases a) (auto simp: is_valid_transition_def valid_targets_def FSM_TRANSITIONS_def)

lemma life_running:
  assumes "life a hist" "a \<in> {RUNNING, PAUSED}" "b \<in> {RUNNING, PAUSED, COMPLETED}"
  shows "life b (hist @ [b])"
proof -
  from assms(1,2) obtain mid where mid: "hist = [INITIALIZING, READY, RUNNING] @ mid" "last (RUNNING # mid) = a"
    "set (butlast mid) \<subseteq> {RUNNING, PAUSED}" by (auto simp: life_def)
  have "set mid \<subseteq> {RUNNING, PAUSED}"
    using mid(2,3) assms(2) by (cases mid rule: rev_cases) auto
  with mid(1) have "\<exists>mid. hist @ [b] = [INITIALIZING, READY, RUNNING] @ mid \<and> last (RUNNING # mid) = b \<and> set (butlast mid) \<subseteq> {RUNNING, PAUSED}"
    by (intro exI [of _ "mid @ [b]"]) simp
  with assms(3) show ?thesis by (auto simp: life_def)
qed

lemma life_failed:
  assumes "life a hist" "a \<in> {INITIALIZING, READY, RUNNING, PAUSED}"
  shows "life FAILED (hist @ [FAILED])"
proof -
  have "\<exists>pre. hist = INITIALIZING # pre \<and> COMPLETED \<notin> set pre \<and> FAILED \<notin> set pre"
  proof (cases "a \<in> {RUNNING, PAUSED}")
    case True
    with assms(1) obtain mid where mid: "hist = [INITIALIZING, READY, RUNNING] @ mid" "last (RUNNING # mid) = a"
      "set (butlast mid) \<subseteq> {RUNNING, PAUSED}" by (auto simp: life_def)
    then have "set mid \<subseteq> {RUNNING, PAUSED}" using True by (cases mid rule: rev_cases) auto
    with mid(1) show ?thesis by auto
  qed (use assms in \<open>auto simp: life_def\<close>)
  then show ?thesis by (auto simp: life_def)
qed

lemma life_step:
  assumes "am_transitions m = FSM_TRANSITIONS" "is_valid_transition m (am_state m) b" "life (am_state m) hist"
  shows "life b (hist @ [b])"
proof -
  have ab: "(am_state m, b) \<in> {(IDLE, INITIALIZING), (INITIALIZING, READY), (INITIALIZING, FAILED), (READY, RUNNING), (READY, FAILED),
       (RUNNING, PAUSED), (RUNNING, COMPLETED), (RUNNING, FAILED), (PAUSED, RUNNING), (PAUSED, COMPLETED), (PAUSED, FAILED)}"
    using assms(1,2) valid_default by blast
  show ?thesis
  proof (cases "am_state m \<in> {RUNNING, PAUSED}")
    case True
    with ab have "b \<in> {RUNNING, PAUSED, COMPLETED} \<or> b = FAILED" by auto
    then show ?thesis using True life_running [OF assms(3) True] life_failed [OF assms(3)] by auto
  next
    case False
    with ab assms(3) show ?thesis using life_failed [OF assms(3)] by (auto simp: life_def)
  qed
qed

lemma am_run_life:
  "am_transitions m = FSM_TRANSITIONS \<Longrightarrow> life (am_state m) hist \<Longrightarrow> am_run sl ops m hist = (m', hist') \<Longrightarrow>
     am_transitions m' = FSM_TRANSITIONS \<and> life (am_state m') hist'"
proof (induction sl ops m hist rule: am_run.induct)
  case (2 sl ops m hist)
  then show ?case by (simp add: am_reset_def life_def)
next
  case (3 sl b ops m hist)
  show ?case
  proof (cases "is_valid_transition m (am_state m) b")
    case True
    with 3 life_step [OF "3.prems"(1) True "3.prems"(2)] show ?thesis by (simp add: transition_to_def)
  next
    case False
    with 3 show ?thesis by (simp add: transition_to_def)
  qed
qed simp

text \<open>The life of an agent with the default table, over every sequence of requested transitions and resets: since the last
  reset the accepted states are those of an agent that was initialized, became ready, ran, and was paused and
  resumed any number of times. It completes only after it ran, at most once, and neither a completed nor a failed agent accepts
  anything but a reset.\<close>

theorem agent_life:
  "case am_run show_list ops (am_init None) [] of (m, hist) \<Rightarrow> life (am_state m) hist
     \<and> (am_state m = COMPLETED \<longrightarrow> subseq [INITIALIZING, READY, RUNNING, COMPLETED] hist)
     \<and> count_list hist COMPLETED + count_list hist FAILED \<le> 1
     \<and> (am_state m \<in> {COMPLETED, FAILED} \<longrightarrow> (\<forall>b. \<not> can_transition_to b m \<and> is_err (fst (transition_to show_list b m))))"
proof -
  obtain m hist where run: "am_run show_list ops (am_init None) [] = (m, hist)" by fastforce
  have init: "am_transitions (am_init None) = FSM_TRANSITIONS" "life (am_state (am_init None)) []"
    by (simp_all add: am_init_def life_def)
  from am_run_life [OF init run] have ts: "am_transitions m = FSM_TRANSITIONS" and life: "life (am_state m) hist" by auto
  have mid: "count_list xs COMPLETED = 0 \<and> count_list xs FAILED = 0" if "set xs \<subseteq> {RUNNING, PAUSED}" for xs
    using that by (intro conjI count_notin) auto
  have "count_list hist COMPLETED + count_list hist FAILED \<le> 1"
  proof (cases "am_state m \<in> {RUNNING, PAUSED, COMPLETED}")
    case True
    with life obtain ms where ms: "hist = [INITIALIZING, READY, RUNNING] @ ms" "last (RUNNING # ms) = am_state m"
      "set (butlast ms) \<subseteq> {RUNNING, PAUSED}" by (auto simp: life_def)
    show ?thesis
    proof (cases ms rule: rev_cases)
      case (snoc ys y)
      with ms mid [of ys] show ?thesis by (simp add: count_list_append)
    qed (simp add: ms(1))
  qed (use life in \<open>auto simp: life_def count_list_append count_notin split: agent_state.splits\<close>)
  moreover have "subseq [INITIALIZING, READY, RUNNING, COMPLETED] hist" if st: "am_state m = COMPLETED"
  proof -
    from life st obtain ms where ms: "hist = [INITIALIZING, READY, RUNNING] @ ms" "last (RUNNING # ms) = COMPLETED"
      by (auto simp: life_def)
    from ms(2) have "COMPLETED \<in> set ms" by (cases ms rule: rev_cases) auto
    then have "subseq [COMPLETED] ms" by (simp add: subseq_singleton_left)
    with ms(1) show ?thesis by simp
  qed
  moreover have "\<not> can_transition_to b m \<and> is_err (fst (transition_to show_list b m))" if "am_state m \<in> {COMPLETED, FAILED}" for b
  proof -
    have "\<not> is_valid_transition m (am_state m) b" using that valid_default [OF ts, of "am_state m" b] by auto
    then show ?thesis by (simp add: can_transition_to_def transition_to_def)
  qed
  ultimately show ?thesis using life unfolding run prod.case by blast
qed

theorem agent_life_witness:
  "case am_run (\<lambda>_. []) [Transition INITIALIZING, Transition READY, Transition COMPLETED, Transition RUNNING, Transition PAUSED,
       Transition COMPLETED, Transition RUNNING] (am_init None) [] of (m, hist) \<Rightarrow>
     am_state m = COMPLETED \<and> hist = [INITIALIZING, READY, RUNNING, PAUSED, COMPLETED] \<and> \<not> can_transition_to RUNNING m"
proof -
  let ?ops = "[Transition INITIALIZING, Transition READY, Transition COMPLETED, Transition RUNNING, Transition PAUSED,
       Transition COMPLETED, Transition RUNNING]"
  have run: "am_run (\<lambda>_. []) ?ops (am_init None) [] = (\<lparr>am_state = COMPLETED, am_transitions = FSM_TRANSITIONS\<rparr>,
      [INITIALIZING, READY, RUNNING, PAUSED, COMPLETED])"
    by code_simp
  with agent_life [of "\<lambda>_. []" ?ops] show ?thesis by simp
qed

end
