(* ===== verification/ProviderLimits.thy ===== *)
theory ProviderLimits
  imports Results Accounts Retry Texts
begin

text \<open>
  The limits of the providers, \<open>llm/provider_limits.py\<close>, and the tracker that keeps them over Redis,
  \<open>llm/distributed_limiter.py\<close>. A draw of \<open>random.uniform\<close> is an argument, and so is what the email and float
  parsers make of a header.
\<close>

declare map_of_eq_Some_iff [simp del] Some_eq_map_of_iff [simp del]

subsection \<open>Limits\<close>

record provider_limit =
  pv_rpm :: int
  pv_tpm :: int
  pv_concurrent :: int
  pv_multiplier :: rat
  pv_jitter :: "rat \<times> rat"
  pv_base :: rat
  pv_max :: rat

definition default_limit :: provider_limit where
  "default_limit = \<lparr>pv_rpm = 60, pv_tpm = 100000, pv_concurrent = 5, pv_multiplier = 3/2, pv_jitter = (1/10, 1/2),
     pv_base = 1, pv_max = 60\<rparr>"

definition jitter :: "provider_limit \<Rightarrow> rat \<Rightarrow> rat" where
  "jitter l u = uniform u (fst (pv_jitter l)) (snd (pv_jitter l))"

definition backoff_with_jitter :: "provider_limit \<Rightarrow> nat \<Rightarrow> rat \<Rightarrow> rat" where
  "backoff_with_jitter l attempt u = min (pv_base l * 2 ^ attempt) (pv_max l) + jitter l u"

text \<open>\<open>float_of\<close> is \<open>float\<close> on texts of finite numbers, \<open>date_of\<close> the time stamp of a parsed date.\<close>

definition parse_retry_after :: "(string \<Rightarrow> rat option) \<Rightarrow> (string \<Rightarrow> rat option) \<Rightarrow> rat \<Rightarrow> provider_limit \<Rightarrow> string option \<Rightarrow> rat" where
  "parse_retry_after float_of date_of now l header = (case header of
     Some (c # cs) \<Rightarrow> (case float_of (c # cs) of
         Some seconds \<Rightarrow> seconds * pv_multiplier l
       | None \<Rightarrow> (case date_of (c # cs) of
           Some t \<Rightarrow> max 0 ((t - now) * pv_multiplier l)
         | None \<Rightarrow> pv_base l * pv_multiplier l))
   | _ \<Rightarrow> pv_base l * pv_multiplier l)"

definition PROVIDER_LIMITS :: "(string \<times> provider_limit) list" where
  "PROVIDER_LIMITS =
    [(''openai'', default_limit\<lparr>pv_rpm := 500, pv_tpm := 200000, pv_concurrent := 10\<rparr>),
     (''anthropic'', default_limit), (''zai'', default_limit),
     (''zai_coding_plan'', default_limit\<lparr>pv_concurrent := 3\<rparr>),
     (''github_copilot'', default_limit\<lparr>pv_rpm := 100, pv_tpm := 50000\<rparr>)]"

definition provider_key :: "string \<Rightarrow> string" where
  "provider_key p = map (\<lambda>c. if c = CHR ''-'' then CHR ''_'' else c) (str_lower p)"

definition get_provider_limit :: "string \<Rightarrow> provider_limit" where
  "get_provider_limit p = (case map_of PROVIDER_LIMITS (provider_key p) of Some l \<Rightarrow> l | None \<Rightarrow> default_limit)"

subsection \<open>The local tracker\<close>

record bucket =
  bk_tokens :: rat
  bk_last :: rat
  bk_rate :: rat
  bk_capacity :: rat

record tracker =
  lt_limits :: "(string \<times> provider_limit) list"
  lt_default :: provider_limit
  lt_buckets :: "string \<rightharpoonup> bucket"
  lt_counts :: "string \<rightharpoonup> nat"
  lt_last :: "string \<rightharpoonup> rat"

definition lt_init :: "(string \<times> provider_limit) list option \<Rightarrow> provider_limit option \<Rightarrow> tracker" where
  "lt_init limits d = \<lparr>lt_limits = (case limits of Some (l # ls) \<Rightarrow> l # ls | _ \<Rightarrow> PROVIDER_LIMITS),
     lt_default = (case d of Some l \<Rightarrow> l | None \<Rightarrow> default_limit),
     lt_buckets = Map.empty, lt_counts = Map.empty, lt_last = Map.empty\<rparr>"

definition lt_limit :: "tracker \<Rightarrow> string \<Rightarrow> provider_limit" where
  "lt_limit t k = (case map_of (lt_limits t) k of Some l \<Rightarrow> l | None \<Rightarrow> lt_default t)"

definition new_bucket :: "provider_limit \<Rightarrow> rat \<Rightarrow> bucket" where
  "new_bucket l now = \<lparr>bk_tokens = of_int (pv_rpm l), bk_last = now, bk_rate = of_int (pv_rpm l) / 60, bk_capacity = of_int (pv_rpm l)\<rparr>"

definition refill :: "rat \<Rightarrow> bucket \<Rightarrow> bucket" where
  "refill now b = b\<lparr>bk_tokens := min (bk_capacity b) (bk_tokens b + (now - bk_last b) * bk_rate b), bk_last := now\<rparr>"

definition check_allowed :: "string \<Rightarrow> int \<Rightarrow> rat \<Rightarrow> rat \<Rightarrow> tracker \<Rightarrow> (bool \<times> rat) result raising \<times> tracker" where
  "check_allowed k c now u t =
     (let l = lt_limit t k;
          b = refill now (case lt_buckets t k of Some b \<Rightarrow> b | None \<Rightarrow> new_bucket l now)
      in if of_int c \<le> bk_tokens b
         then (Inr (Ok (True, 0)), t\<lparr>lt_buckets := (lt_buckets t)(k \<mapsto> b\<lparr>bk_tokens := bk_tokens b - of_int c\<rparr>)\<rparr>)
         else (if bk_rate b = 0 then Inl (Exn ''ZeroDivisionError'' ''float division by zero'')
               else Inr (Ok (False, (of_int c - bk_tokens b) / bk_rate b + jitter l u)),
               t\<lparr>lt_buckets := (lt_buckets t)(k \<mapsto> b)\<rparr>))"

definition record_429 :: "string \<Rightarrow> rat \<Rightarrow> tracker \<Rightarrow> tracker" where
  "record_429 k now t =
     (let old = (case lt_last t k of Some t0 \<Rightarrow> if 300 < now - t0 then 0 else (case lt_counts t k of Some n \<Rightarrow> n | None \<Rightarrow> 0)
                 | None \<Rightarrow> (case lt_counts t k of Some n \<Rightarrow> n | None \<Rightarrow> 0))
      in t\<lparr>lt_counts := (lt_counts t)(k \<mapsto> Suc old), lt_last := (lt_last t)(k \<mapsto> now)\<rparr>)"

definition lt_reset :: "string \<Rightarrow> tracker \<Rightarrow> tracker" where
  "lt_reset k t = t\<lparr>lt_buckets := (lt_buckets t)(k := None), lt_counts := (lt_counts t)(k := None), lt_last := (lt_last t)(k := None)\<rparr>"

definition get_429_count :: "string \<Rightarrow> tracker \<Rightarrow> nat" where
  "get_429_count k t = (case lt_counts t k of Some n \<Rightarrow> n | None \<Rightarrow> 0)"

datatype backend = Local_tracker | Redis_tracker

text \<open>\<open>redis_installed\<close>: the import of the Redis tracker and its constructor succeed.\<close>

definition create_rate_limit_tracker :: "string \<Rightarrow> string option \<Rightarrow> bool \<Rightarrow> backend" where
  "create_rate_limit_tracker kind url redis_installed =
     (if kind = ''redis'' \<and> (case url of Some (c # cs) \<Rightarrow> True | _ \<Rightarrow> False) \<and> redis_installed then Redis_tracker else Local_tracker)"

subsection \<open>The tracker over Redis\<close>

text \<open>The script that Redis runs: the entry of a key is its tokens and the time of its last refill, and expires
  \<open>ttl\<close> seconds after it was written. The clock of Redis is the one of the process. A wait that is
  infinite, for a rate of zero, is \<open>None\<close>.\<close>

type_synonym redis_store = "string \<rightharpoonup> rat \<times> rat \<times> rat"

definition TTL :: rat where
  "TTL = 3600"

definition live_entry :: "rat \<Rightarrow> string \<Rightarrow> redis_store \<Rightarrow> (rat \<times> rat) option" where
  "live_entry now k st = (case st k of Some (tokens, t0, dies) \<Rightarrow> if now < dies then Some (tokens, t0) else None | None \<Rightarrow> None)"

definition lua_bucket :: "string \<Rightarrow> rat \<Rightarrow> rat \<Rightarrow> rat \<Rightarrow> rat \<Rightarrow> redis_store \<Rightarrow> (bool \<times> rat option) \<times> redis_store" where
  "lua_bucket k capacity rate requested now st =
     (let (tokens, t0) = (case live_entry now k st of Some e \<Rightarrow> e | None \<Rightarrow> (capacity, now));
          tokens = min capacity (tokens + (now - t0) * rate)
      in if requested \<le> tokens then ((True, Some 0), st(k \<mapsto> (tokens - requested, now, now + TTL)))
         else ((False, if rate = 0 then None else Some ((requested - tokens) / rate)), st(k \<mapsto> (tokens, now, now + TTL))))"

record redis_tracker =
  rk_local :: tracker
  rk_prefix :: string
  rk_fallback :: bool
  rk_connected :: bool
  rk_script :: bool
  rk_available :: bool
  rk_counts :: "string \<rightharpoonup> nat"
  rk_last :: "string \<rightharpoonup> rat"

text \<open>What the connection, the load of the script and the call of it do, should they be reached: each succeeds or not.\<close>

record redis_luck =
  ru_connects :: bool
  ru_loads :: bool
  ru_evaluates :: bool

definition fall_back :: "string \<Rightarrow> int \<Rightarrow> rat \<Rightarrow> rat \<Rightarrow> redis_tracker \<Rightarrow> (bool \<times> rat option) result raising \<times> redis_tracker" where
  "fall_back k c now u t = (case check_allowed k c now u (rk_local t) of
     (r, l) \<Rightarrow> (case r of Inl e \<Rightarrow> Inl e | Inr x \<Rightarrow> Inr (map_result x (\<lambda>(g, w). (g, Some w))), t\<lparr>rk_local := l\<rparr>))"

definition redis_check :: "redis_luck \<Rightarrow> string \<Rightarrow> int \<Rightarrow> rat \<Rightarrow> rat \<Rightarrow> redis_tracker \<Rightarrow> redis_store
    \<Rightarrow> (bool \<times> rat option) result raising \<times> redis_tracker \<times> redis_store" where
  "redis_check luck k c now u t st =
     (let local = (\<lambda>t. case fall_back k c now u t of (r, t) \<Rightarrow> (r, t, st)) in
      if \<not> rk_available t \<or> \<not> rk_fallback t then local t
      else if \<not> rk_connected t \<and> \<not> ru_connects luck then local (t\<lparr>rk_connected := True, rk_available := False\<rparr>)
      else let t = t\<lparr>rk_connected := True\<rparr> in
      if \<not> rk_script t \<and> \<not> ru_loads luck then local t
      else let t = t\<lparr>rk_script := True\<rparr> in
      if \<not> ru_evaluates luck then local (t\<lparr>rk_available := False\<rparr>)
      else let l = lt_limit (rk_local t) k;
               ((allowed, wait), st) = lua_bucket (rk_prefix t @ k) (of_int (pv_rpm l)) (of_int (pv_rpm l) / 60) (of_int c) now st
           in (Inr (Ok (allowed, if allowed then wait else map_option (\<lambda>w. w + jitter l u) wait)), t, st))"

subsection \<open>The tracker keeps the rate\<close>

type_synonym check_request = "string \<times> rat \<times> int \<times> rat"

definition was_allowed :: "(bool \<times> 'a) result raising \<Rightarrow> bool" where
  "was_allowed r \<longleftrightarrow> (case r of Inr (Ok (g, w)) \<Rightarrow> g | _ \<Rightarrow> False)"

definition trk_request :: "check_request \<Rightarrow> tracker \<Rightarrow> bool \<times> tracker" where
  "trk_request q t = (case q of (k, now, c, u) \<Rightarrow> (case check_allowed k c now u t of (r, t) \<Rightarrow> (was_allowed r, t)))"

text \<open>The account of one key among requests for all keys: other requests cost nothing.\<close>

definition trk_cost :: "string \<Rightarrow> check_request \<Rightarrow> rat" where
  "trk_cost key q = (case q of (k, now, c, u) \<Rightarrow> if k = key then of_int c else 0)"

definition trk_time :: "check_request \<Rightarrow> rat" where
  "trk_time q = (case q of (k, now, c, u) \<Rightarrow> now)"

definition trk_balance :: "string \<Rightarrow> tracker \<Rightarrow> rat" where
  "trk_balance k t = (case lt_buckets t k of Some b \<Rightarrow> bk_tokens b | None \<Rightarrow> of_int (pv_rpm (lt_limit t k)))"

definition trk_stamp :: "string \<Rightarrow> rat \<Rightarrow> tracker \<Rightarrow> rat" where
  "trk_stamp k t0 t = (case lt_buckets t k of Some b \<Rightarrow> bk_last b | None \<Rightarrow> t0)"

definition trk_rate :: "string \<Rightarrow> tracker \<Rightarrow> rat" where
  "trk_rate k t = of_int (pv_rpm (lt_limit t k)) / 60"

definition trk_inv :: "string \<Rightarrow> tracker \<Rightarrow> bool" where
  "trk_inv k t \<longleftrightarrow> 0 \<le> pv_rpm (lt_limit t k) \<and> (case lt_buckets t k of
     Some b \<Rightarrow> 0 \<le> bk_tokens b \<and> bk_tokens b \<le> bk_capacity b \<and> bk_rate b = trk_rate k t \<and> bk_capacity b = of_int (pv_rpm (lt_limit t k))
   | None \<Rightarrow> True)"

lemma check_cases:
  assumes "check_allowed k c now u t = (r, t')"
  defines "b \<equiv> refill now (case lt_buckets t k of Some b \<Rightarrow> b | None \<Rightarrow> new_bucket (lt_limit t k) now)"
  shows "t' = t\<lparr>lt_buckets := (lt_buckets t)(k \<mapsto> if was_allowed r then b\<lparr>bk_tokens := bk_tokens b - of_int c\<rparr> else b)\<rparr>"
    and "was_allowed r \<longleftrightarrow> of_int c \<le> bk_tokens b"
  using assms by (auto simp: check_allowed_def was_allowed_def Let_def split: if_splits)

lemma limit_buckets [simp]: "lt_limit (t\<lparr>lt_buckets := bs\<rparr>) k = lt_limit t k"
  by (cases "map_of (lt_limits t) k") (simp_all add: lt_limit_def)

text \<open>The bucket of the key, refilled, holds what the account had and what the time added, and not more than the capacity.\<close>

lemma refilled:
  assumes "trk_inv k t" "trk_stamp k t0 t \<le> now"
  defines "b \<equiv> refill now (case lt_buckets t k of Some b \<Rightarrow> b | None \<Rightarrow> new_bucket (lt_limit t k) now)"
  shows "0 \<le> bk_tokens b" "bk_tokens b \<le> bk_capacity b" "bk_rate b = trk_rate k t" "bk_last b = now"
    "bk_capacity b = of_int (pv_rpm (lt_limit t k))"
    "bk_tokens b \<le> trk_balance k t + trk_rate k t * (now - trk_stamp k t0 t)"
proof -
  have rate: "0 \<le> trk_rate k t" using assms(1) by (simp add: trk_inv_def trk_rate_def)
  have "0 \<le> bk_tokens b \<and> bk_tokens b \<le> bk_capacity b \<and> bk_rate b = trk_rate k t \<and> bk_last b = now
     \<and> bk_capacity b = of_int (pv_rpm (lt_limit t k)) \<and> bk_tokens b \<le> trk_balance k t + trk_rate k t * (now - trk_stamp k t0 t)"
  proof (cases "lt_buckets t k")
    case None
    have "0 \<le> trk_rate k t * (now - t0)" using rate assms(2) None by (simp add: trk_stamp_def)
    with None assms(1) show ?thesis
      by (simp add: b_def refill_def new_bucket_def trk_balance_def trk_stamp_def trk_inv_def) (simp add: trk_rate_def)
  next
    case (Some c)
    then have "0 \<le> (now - bk_last c) * trk_rate k t" using rate assms(2) by (simp add: trk_stamp_def)
    with Some assms(1) show ?thesis
      by (auto simp: b_def refill_def trk_inv_def trk_balance_def trk_stamp_def min_def mult.commute)
  qed
  then show "0 \<le> bk_tokens b" "bk_tokens b \<le> bk_capacity b" "bk_rate b = trk_rate k t" "bk_last b = now"
    "bk_capacity b = of_int (pv_rpm (lt_limit t k))"
    "bk_tokens b \<le> trk_balance k t + trk_rate k t * (now - trk_stamp k t0 t)" by auto
qed

lemma trk_request_account:
  assumes "trk_inv k t" "trk_stamp k t0 t \<le> trk_time q" "0 \<le> trk_cost k q" "trk_request q t = (g, t')"
  shows "trk_inv k t'" "trk_stamp k t0 t \<le> trk_stamp k t0 t'" "trk_stamp k t0 t' \<le> trk_time q" "trk_rate k t' = trk_rate k t"
    "(if g then trk_cost k q else 0) + trk_balance k t' \<le> trk_balance k t + trk_rate k t * (trk_stamp k t0 t' - trk_stamp k t0 t)"
proof -
  obtain kq now c u where q: "q = (kq, now, c, u)" by (cases q)
  obtain r where r: "check_allowed kq c now u t = (r, t')" "g = was_allowed r"
    using assms(4) by (auto simp: trk_request_def q split: prod.splits)
  note C = check_cases [OF r(1)]
  have lim: "lt_limit t' = lt_limit t" unfolding C(1) by (rule ext) simp
  then show rate: "trk_rate k t' = trk_rate k t" by (simp add: trk_rate_def)
  have "trk_inv k t' \<and> trk_stamp k t0 t \<le> trk_stamp k t0 t' \<and> trk_stamp k t0 t' \<le> trk_time q
     \<and> (if g then trk_cost k q else 0) + trk_balance k t' \<le> trk_balance k t + trk_rate k t * (trk_stamp k t0 t' - trk_stamp k t0 t)"
  proof (cases "kq = k")
    case False
    then have "lt_buckets t' k = lt_buckets t k" by (subst C(1)) simp
    with lim False assms(1,2) show ?thesis
      by (cases "lt_buckets t k") (simp_all add: trk_inv_def trk_stamp_def trk_balance_def trk_cost_def q trk_time_def trk_rate_def)
  next
    case True
    have stamp: "trk_stamp k t0 t \<le> now" using assms(2) by (simp add: q trk_time_def)
    note R = refilled [OF assms(1) stamp]
    define b where "b = refill now (case lt_buckets t k of Some b \<Rightarrow> b | None \<Rightarrow> new_bucket (lt_limit t k) now)"
    have b: "lt_buckets t' k = Some (if g then b\<lparr>bk_tokens := bk_tokens b - of_int c\<rparr> else b)" "g \<longleftrightarrow> of_int c \<le> bk_tokens b"
      by (subst C(1) [unfolded True, folded b_def], simp add: r(2)) (simp add: r(2) C(2) [unfolded True, folded b_def])
    have "0 \<le> (of_int c :: rat)" using assms(3) True by (simp add: trk_cost_def q)
    with b R [folded b_def] lim rate stamp assms(1) True show ?thesis
      by (auto simp: trk_inv_def trk_stamp_def trk_balance_def trk_cost_def q trk_time_def)
  qed
  then show "trk_inv k t'" "trk_stamp k t0 t \<le> trk_stamp k t0 t'" "trk_stamp k t0 t' \<le> trk_time q"
    "(if g then trk_cost k q else 0) + trk_balance k t' \<le> trk_balance k t + trk_rate k t * (trk_stamp k t0 t' - trk_stamp k t0 t)"
    by auto
qed

interpretation pl: token_account trk_request "trk_cost k" trk_time "trk_balance k" "trk_stamp k t0" "trk_rate k" "trk_inv k" for k t0
proof (unfold_locales, goal_cases)
  case (1 t q)
  then show ?case using trk_request_account(1) [of k t t0 q] by (metis prod.collapse)
next
  case (2 t q)
  then show ?case using trk_request_account(2,3) [of k t t0 q] by (metis prod.collapse)
next
  case (3 q t)
  have "lt_limit (snd (trk_request q t)) = lt_limit t"
    by (rule ext) (auto simp: trk_request_def check_allowed_def Let_def split: prod.splits)
  then show ?case by (simp add: trk_rate_def)
next
  case (4 t)
  then show ?case by (simp add: trk_inv_def trk_rate_def)
next
  case (5 t)
  then show ?case by (auto simp: trk_inv_def trk_balance_def split: option.splits)
next
  case (6 t q)
  then show ?case using trk_request_account(5) [of k t t0 q] by (metis prod.collapse)
qed

text \<open>The tracker keeps the rate of a provider: whatever requests for whatever providers arrive in the order of their clock
  readings, those granted to one provider that had no bucket yet cost at most its requests per minute at once and
  that rate for the time since.\<close>

theorem tracker_rate_bound:
  assumes "lt_buckets t k = None" "0 \<le> pv_rpm (lt_limit t k)" "timed trk_time (trk_cost k) t0 qs"
  shows "granted (trk_cost k) qs (fst (serve trk_request t qs))
    \<le> of_int (pv_rpm (lt_limit t k)) * (1 + (last_time trk_time t0 qs - t0) / 60)"
proof -
  have "trk_inv k t" "trk_stamp k t0 t = t0" "trk_balance k t = of_int (pv_rpm (lt_limit t k))"
    using assms(1,2) by (simp_all add: trk_inv_def trk_stamp_def trk_balance_def)
  with pl.granted_bound [of k t t0 qs] assms(3) show ?thesis
    by (simp add: trk_rate_def algebra_simps)
qed

theorem tracker_rate_bound_witness:
  "granted (trk_cost ''zai'') [(''zai'', 0, 60, 0), (''openai'', 0, 1, 0), (''zai'', 1, 1, 0), (''zai'', 2, 2, 0)]
     (fst (serve trk_request (lt_init None None) [(''zai'', 0, 60, 0), (''openai'', 0, 1, 0), (''zai'', 1, 1, 0), (''zai'', 2, 2, 0)]))
     \<le> 60 * (1 + 2 / 60)"
proof -
  let ?qs = "[(''zai'', 0, 60, 0), (''openai'', 0, 1, 0), (''zai'', 1, 1, 0), (''zai'', 2, 2, 0)] :: check_request list"
  have l: "pv_rpm (lt_limit (lt_init None None) ''zai'') = 60" by code_simp
  have "timed trk_time (trk_cost ''zai'') 0 ?qs" by (simp add: trk_time_def trk_cost_def)
  moreover have "last_time trk_time 0 ?qs = 2" by (simp add: last_time_def trk_time_def)
  ultimately show ?thesis using tracker_rate_bound [of "lt_init None None" "''zai''" 0 ?qs] l by (simp add: lt_init_def)
qed

subsection \<open>The tracker over Redis takes the same decisions\<close>

fun answers :: "('q \<Rightarrow> 's \<Rightarrow> 'a \<times> 's) \<Rightarrow> 's \<Rightarrow> 'q list \<Rightarrow> 'a list" where
  "answers step s [] = []"
| "answers step s (q # qs) = (let (a, s) = step q s in a # answers step s qs)"

type_synonym key_request = "rat \<times> int \<times> rat"

definition redis_step :: "redis_luck \<Rightarrow> string \<Rightarrow> key_request \<Rightarrow> redis_tracker \<times> redis_store
    \<Rightarrow> (bool \<times> rat option) result raising \<times> redis_tracker \<times> redis_store" where
  "redis_step luck k q s = (case q of (now, c, u) \<Rightarrow> redis_check luck k c now u (fst s) (snd s))"

definition local_step :: "string \<Rightarrow> key_request \<Rightarrow> redis_tracker \<Rightarrow> (bool \<times> rat option) result raising \<times> redis_tracker" where
  "local_step k q t = (case q of (now, c, u) \<Rightarrow> fall_back k c now u t)"

definition key_cost :: "key_request \<Rightarrow> rat" where
  "key_cost q = of_int (fst (snd q))"

definition working :: redis_luck where
  "working = \<lparr>ru_connects = True, ru_loads = True, ru_evaluates = True\<rparr>"

text \<open>The entry of Redis and the local bucket of a key agree; an entry that expired is as good as a full bucket, since
  a bucket refills within a minute.\<close>

definition same_bucket :: "provider_limit \<Rightarrow> rat \<Rightarrow> (rat \<times> rat \<times> rat) option \<Rightarrow> bucket option \<Rightarrow> bool" where
  "same_bucket l t0 e b \<longleftrightarrow> (case b of
     None \<Rightarrow> e = None
   | Some b \<Rightarrow> e = Some (bk_tokens b, bk_last b, bk_last b + TTL) \<and> bk_rate b = of_int (pv_rpm l) / 60 \<and> bk_capacity b = of_int (pv_rpm l)
       \<and> 0 \<le> bk_tokens b \<and> bk_last b \<le> t0)"

lemma lua_tokens:
  assumes "same_bucket l now (st k) b" "0 < pv_rpm l"
  shows "(case live_entry now k st of Some (tokens, t0) \<Rightarrow> min (of_int (pv_rpm l)) (tokens + (now - t0) * (of_int (pv_rpm l) / 60))
          | None \<Rightarrow> of_int (pv_rpm l))
    = bk_tokens (refill now (case b of Some b \<Rightarrow> b | None \<Rightarrow> new_bucket l now))"
proof (cases b)
  case None
  with assms show ?thesis by (simp add: same_bucket_def live_entry_def refill_def new_bucket_def)
next
  case (Some c)
  with assms(1) have st: "st k = Some (bk_tokens c, bk_last c, bk_last c + TTL)" and c: "bk_rate c = of_int (pv_rpm l) / 60"
    "bk_capacity c = of_int (pv_rpm l)" "0 \<le> bk_tokens c" by (auto simp: same_bucket_def)
  show ?thesis
  proof (cases "now < bk_last c + TTL")
    case True
    with st Some show ?thesis by (simp add: live_entry_def refill_def c(1,2))
  next
    case False
    then have "60 * (of_int (pv_rpm l) / 60) \<le> (now - bk_last c) * (of_int (pv_rpm l) / 60 :: rat)"
      using assms(2) by (intro mult_right_mono) (auto simp: TTL_def)
    with c have "of_int (pv_rpm l) \<le> bk_tokens c + (now - bk_last c) * bk_rate c"
      unfolding c(1) by linarith
    with False st c Some show ?thesis by (simp add: live_entry_def refill_def)
  qed
qed

definition ready :: "redis_tracker \<Rightarrow> bool" where
  "ready t \<longleftrightarrow> rk_available t \<and> rk_fallback t"

lemma redis_check_working:
  fixes now :: rat and st :: redis_store
  assumes "ready t" "0 < pv_rpm l" "lt_limit (rk_local t) k = l"
  defines "b \<equiv> (case live_entry now (rk_prefix t @ k) st of Some (tokens, t0) \<Rightarrow>
      min (of_int (pv_rpm l)) (tokens + (now - t0) * (of_int (pv_rpm l) / 60)) | None \<Rightarrow> of_int (pv_rpm l))"
  shows "redis_check working k c now u t st =
    (Inr (Ok (if of_int c \<le> b then (True, Some 0) else (False, Some ((of_int c - b) / (of_int (pv_rpm l) / 60) + jitter l u)))),
     t\<lparr>rk_connected := True, rk_script := True\<rparr>,
     st(rk_prefix t @ k \<mapsto> (if of_int c \<le> b then b - of_int c else b, now, now + TTL)))"
  using assms(1-3) unfolding b_def
  by (cases "live_entry now (rk_prefix t @ k) st")
    (auto simp: redis_check_def working_def ready_def lua_bucket_def Let_def)

lemma fall_back_answer:
  assumes "0 < pv_rpm l" "lt_limit (rk_local t) k = l" "fall_back k c now u t = (r, t')"
    and rate: "\<And>b. lt_buckets (rk_local t) k = Some b \<Longrightarrow> bk_rate b = of_int (pv_rpm l) / 60"
  defines "b \<equiv> refill now (case lt_buckets (rk_local t) k of Some b \<Rightarrow> b | None \<Rightarrow> new_bucket l now)"
  shows "r = Inr (Ok (if of_int c \<le> bk_tokens b then (True, Some 0)
               else (False, Some ((of_int c - bk_tokens b) / (of_int (pv_rpm l) / 60) + jitter l u))))"
    and "t' = t\<lparr>rk_local := (rk_local t)\<lparr>lt_buckets := (lt_buckets (rk_local t))(k \<mapsto>
            if of_int c \<le> bk_tokens b then b\<lparr>bk_tokens := bk_tokens b - of_int c\<rparr> else b)\<rparr>\<rparr>"
proof -
  have br: "bk_rate b = of_int (pv_rpm l) / 60"
    using rate by (cases "lt_buckets (rk_local t) k") (simp_all add: b_def refill_def new_bucket_def)
  have "fall_back k c now u t = (Inr (Ok (if of_int c \<le> bk_tokens b then (True, Some 0)
               else (False, Some ((of_int c - bk_tokens b) / (of_int (pv_rpm l) / 60) + jitter l u)))),
      t\<lparr>rk_local := (rk_local t)\<lparr>lt_buckets := (lt_buckets (rk_local t))(k \<mapsto>
            if of_int c \<le> bk_tokens b then b\<lparr>bk_tokens := bk_tokens b - of_int c\<rparr> else b)\<rparr>\<rparr>)"
    using assms(1) by (simp add: fall_back_def check_allowed_def Let_def map_result_def assms(2) br flip: b_def)
  with assms(3) show "r = Inr (Ok (if of_int c \<le> bk_tokens b then (True, Some 0)
               else (False, Some ((of_int c - bk_tokens b) / (of_int (pv_rpm l) / 60) + jitter l u))))"
    and "t' = t\<lparr>rk_local := (rk_local t)\<lparr>lt_buckets := (lt_buckets (rk_local t))(k \<mapsto>
            if of_int c \<le> bk_tokens b then b\<lparr>bk_tokens := bk_tokens b - of_int c\<rparr> else b)\<rparr>\<rparr>" by auto
qed

lemma same_answers:
  "ready t \<Longrightarrow> 0 < pv_rpm l \<Longrightarrow> lt_limit (rk_local t) k = l \<Longrightarrow> lt_limit (rk_local t') k = l
     \<Longrightarrow> same_bucket l t0 (st (rk_prefix t @ k)) (lt_buckets (rk_local t') k) \<Longrightarrow> timed fst key_cost t0 qs
     \<Longrightarrow> answers (redis_step working k) (t, st) qs = answers (local_step k) t' qs"
proof (induction qs arbitrary: t t' st t0)
  case (Cons q qs)
  obtain now c u where q: "q = (now, c, u)" by (cases q)
  let ?b = "refill now (case lt_buckets (rk_local t') k of Some b \<Rightarrow> b | None \<Rightarrow> new_bucket l now)"
  from Cons.prems(6) have t0: "t0 \<le> now" "timed fst key_cost now qs" by (simp_all add: q)
  have same: "same_bucket l now (st (rk_prefix t @ k)) (lt_buckets (rk_local t') k)"
    using Cons.prems(5) t0(1) by (auto simp: same_bucket_def split: option.splits)
  note tokens = lua_tokens [of l now st "rk_prefix t @ k", OF same Cons.prems(2)]
  note R = redis_check_working [OF Cons.prems(1,2,3), where now = now and st = st and c = c and u = u, unfolded tokens]
  obtain r t2 where f: "fall_back k c now u t' = (r, t2)" by fastforce
  have rate: "bk_rate b = of_int (pv_rpm l) / 60" if "lt_buckets (rk_local t') k = Some b" for b
    using same that by (simp add: same_bucket_def)
  note F = fall_back_answer [OF Cons.prems(2,4) f rate]
  have pos: "0 \<le> bk_tokens ?b"
    using same Cons.prems(2) t0(1)
    by (cases "lt_buckets (rk_local t') k") (auto simp: same_bucket_def refill_def new_bucket_def)
  have b: "bk_rate ?b = of_int (pv_rpm l) / 60" "bk_capacity ?b = of_int (pv_rpm l)" "bk_last ?b = now"
    using same by (cases "lt_buckets (rk_local t') k"; simp add: same_bucket_def refill_def new_bucket_def)+
  let ?t = "t\<lparr>rk_connected := True, rk_script := True\<rparr>"
  let ?st = "st(rk_prefix t @ k \<mapsto> (if of_int c \<le> bk_tokens ?b then bk_tokens ?b - of_int c else bk_tokens ?b, now, now + TTL))"
  have "answers (redis_step working k) (?t, ?st) qs = answers (local_step k) t2 qs"
  proof (rule Cons.IH [OF _ Cons.prems(2) _ _ _ t0(2)])
    show "ready ?t" using Cons.prems(1) by (simp add: ready_def)
    show "lt_limit (rk_local ?t) k = l" using Cons.prems(3) by simp
    show "lt_limit (rk_local t2) k = l" using Cons.prems(4) by (simp add: F(2))
    show "same_bucket l now (?st (rk_prefix ?t @ k)) (lt_buckets (rk_local t2) k)"
      using pos b by (simp add: F(2) same_bucket_def)
  qed
  moreover have "redis_step working k q (t, st) = (r, ?t, ?st)" by (simp add: q redis_step_def R F(1))
  moreover have "local_step k q t' = (r, t2)" by (simp add: q local_step_def f)
  ultimately show ?case by (simp only: answers.simps Let_def prod.case)
qed simp

text \<open>The tracker over Redis and the local tracker are equivalent: when Redis works, both give the same answers with the same
  waits to every sequence of requests in the order of their clock readings, although Redis forgets an entry after an hour.\<close>

theorem redis_tracker_equivalent:
  assumes "rk_available t" "rk_fallback t" "0 < pv_rpm (lt_limit (rk_local t) k)"
    and "st (rk_prefix t @ k) = None" "lt_buckets (rk_local t) k = None" "timed fst key_cost t0 qs"
  shows "answers (redis_step working k) (t, st) qs = answers (local_step k) t qs"
  by (rule same_answers [OF _ assms(3) refl refl _ assms(6)]) (use assms in \<open>simp_all add: ready_def same_bucket_def\<close>)

theorem redis_tracker_equivalent_witness:
  "answers (redis_step working ''zai'')
     (\<lparr>rk_local = lt_init None None, rk_prefix = ''dk:ratelimit:'', rk_fallback = True, rk_connected = False, rk_script = False,
       rk_available = True, rk_counts = Map.empty, rk_last = Map.empty\<rparr>, Map.empty) [(0, 60, 0), (1, 2, 0), (5000, 60, 0)]
   = [Inr (Ok (True, Some 0)), Inr (Ok (False, Some (1 + 1/10))), Inr (Ok (True, Some 0))]"
proof -
  let ?t = "\<lparr>rk_local = lt_init None None, rk_prefix = ''dk:ratelimit:'', rk_fallback = True, rk_connected = False, rk_script = False,
       rk_available = True, rk_counts = Map.empty, rk_last = Map.empty\<rparr>"
  let ?qs = "[(0, 60, 0), (1, 2, 0), (5000, 60, 0)] :: key_request list"
  have "answers (redis_step working ''zai'') (?t, Map.empty) ?qs = answers (local_step ''zai'') ?t ?qs"
  proof (rule redis_tracker_equivalent)
    show "0 < pv_rpm (lt_limit (rk_local ?t) ''zai'')" by code_simp
    show "timed fst key_cost 0 ?qs" by (simp add: key_cost_def)
  qed (simp_all add: lt_init_def)
  also have "\<dots> = [Inr (Ok (True, Some 0)), Inr (Ok (False, Some (1 + 1/10))), Inr (Ok (True, Some 0))]"
    by code_simp
  finally show ?thesis .
qed

end
