(* ===== verification/ProviderBus.thy ===== *)
theory ProviderBus
  imports ProviderLimits
begin

text \<open>
  \<open>ProviderBus\<close> of \<open>llm/provider_bus.py\<close> over the local tracker: the admission of a request, the semaphore of a
  provider, the attempts of an operation and the end of a request. A request is split at its suspension points; an
  operation is a function of the world. Every event is published under the same name, so an event is the provider and the
  kind that its data carry.
\<close>

record bus_stats =
  bs_total :: nat
  bs_successful :: nat
  bs_limited :: nat
  bs_errors429 :: nat
  bs_wait_ms :: int

text \<open>A semaphore is the number of its free permits.\<close>

record pbus =
  pb_tracker :: tracker
  pb_permits :: "string \<rightharpoonup> int"
  pb_active :: "string \<rightharpoonup> int"
  pb_stats :: bus_stats
  pb_events :: "(string \<times> string) list"

definition pb_init :: "tracker \<Rightarrow> pbus" where
  "pb_init t = \<lparr>pb_tracker = t, pb_permits = Map.empty, pb_active = Map.empty,
     pb_stats = \<lparr>bs_total = 0, bs_successful = 0, bs_limited = 0, bs_errors429 = 0, bs_wait_ms = 0\<rparr>, pb_events = []\<rparr>"

text \<open>\<open>get_instance\<close>: the backend that the settings choose.\<close>

definition instance_backend :: "string \<Rightarrow> string option \<Rightarrow> bool \<Rightarrow> backend" where
  "instance_backend backend url redis_installed =
     create_rate_limit_tracker (case url of Some (c # cs) \<Rightarrow> if backend = ''local'' then ''redis'' else backend | _ \<Rightarrow> backend)
       url redis_installed"

definition emit :: "string \<Rightarrow> string \<Rightarrow> pbus \<Rightarrow> pbus" where
  "emit k kind b = b\<lparr>pb_events := pb_events b @ [(k, kind)]\<rparr>"

definition get_semaphore :: "string \<Rightarrow> pbus \<Rightarrow> pbus" where
  "get_semaphore k b = (if pb_permits b k = None
     then b\<lparr>pb_permits := (pb_permits b)(k \<mapsto> pv_concurrent (get_provider_limit k))\<rparr> else b)"

subsection \<open>A request\<close>

datatype 'a admission = Rejected "'a result" | Admitted | Admitted_after rat

text \<open>Up to the semaphore. \<open>key\<close> is the normalized provider; a wait is slept before the semaphore is acquired. An
  exception of the tracker leaves \<open>execute\<close>. Streams do not count the time of the wait.\<close>

definition admit :: "bool \<Rightarrow> string \<Rightarrow> rat \<Rightarrow> rat \<Rightarrow> pbus \<Rightarrow> 'a admission raising \<times> pbus" where
  "admit stream key now u b =
     (let b = get_semaphore key b;
          b = b\<lparr>pb_stats := (pb_stats b)\<lparr>bs_total := Suc (bs_total (pb_stats b))\<rparr>\<rparr>
      in case check_allowed key 1 now u (pb_tracker b) of
           (r, t) \<Rightarrow> (let b = b\<lparr>pb_tracker := t\<rparr> in
             case r of
               Inl e \<Rightarrow> (Inl e, b)
             | Inr (Ok (ok, wait)) \<Rightarrow>
                 if ok then (Inr Admitted, b)
                 else (Inr (Admitted_after wait), emit key ''rate_limited''
                        (b\<lparr>pb_stats := (pb_stats b)\<lparr>bs_limited := Suc (bs_limited (pb_stats b)),
                             bs_wait_ms := bs_wait_ms (pb_stats b) + (if stream then 0 else trunc (wait * 1000))\<rparr>\<rparr>))
             | Inr _ \<Rightarrow> (Inr (Rejected (Err ''Rate limit check failed'' (Some ''RATE_LIMIT_CHECK_ERROR'') False)), b)))"

definition active_count :: "string \<Rightarrow> pbus \<Rightarrow> int" where
  "active_count k b = (case pb_active b k of Some n \<Rightarrow> n | None \<Rightarrow> 0)"

text \<open>Entering needs a free permit; \<open>None\<close>: the request waits.\<close>

definition enter :: "string \<Rightarrow> pbus \<Rightarrow> pbus option" where
  "enter k b = (case pb_permits b k of
     Some n \<Rightarrow> if 0 < n
       then Some (emit k ''started'' (b\<lparr>pb_permits := (pb_permits b)(k \<mapsto> n - 1), pb_active := (pb_active b)(k \<mapsto> active_count k b + 1)\<rparr>))
       else None
   | None \<Rightarrow> None)"

definition leave :: "string \<Rightarrow> pbus \<Rightarrow> pbus" where
  "leave k b = (emit k ''completed'' (b\<lparr>pb_active := (pb_active b)(k \<mapsto> max 0 (active_count k b - 1))\<rparr>))
     \<lparr>pb_permits := (pb_permits b)(k := map_option (\<lambda>n. n + 1) (pb_permits b k))\<rparr>"

definition is_429 :: "exn \<Rightarrow> bool" where
  "is_429 e \<longleftrightarrow> (let m = str_lower (exn_msg e) in contains ''rate limit'' m \<or> contains ''1302'' m \<or> contains ''429'' m)"

text \<open>The loop over the attempts: \<open>attempt\<close> is the next one and \<open>left\<close> the number of those after it.\<close>

definition provider_error :: "int \<Rightarrow> string \<Rightarrow> 'a result" where
  "provider_error retries msg =
     Err (''Provider operation failed after '' @ str_int retries @ '' retries: '' @ msg) (Some ''PROVIDER_ERROR'') True"

definition count_success :: "pbus \<Rightarrow> pbus" where
  "count_success b = b\<lparr>pb_stats := (pb_stats b)\<lparr>bs_successful := Suc (bs_successful (pb_stats b))\<rparr>\<rparr>"

definition count_429 :: "string \<Rightarrow> rat \<Rightarrow> pbus \<Rightarrow> pbus" where
  "count_429 k now b = b\<lparr>pb_stats := (pb_stats b)\<lparr>bs_errors429 := Suc (bs_errors429 (pb_stats b))\<rparr>,
     pb_tracker := record_429 k now (pb_tracker b)\<rparr>"

fun attempts :: "('w \<Rightarrow> 'a raising \<times> 'w) \<Rightarrow> ('w \<Rightarrow> rat) \<Rightarrow> (nat \<Rightarrow> rat) \<Rightarrow> string \<Rightarrow> int \<Rightarrow> nat \<Rightarrow> nat \<Rightarrow> pbus \<Rightarrow> 'w
    \<Rightarrow> 'a result \<times> rat list \<times> pbus \<times> 'w" where
  "attempts oper clock draw k retries attempt left b w = (case oper w of
     (Inr x, w) \<Rightarrow> (Ok x, [], count_success b, w)
   | (Inl e, w) \<Rightarrow>
       (case left of
          0 \<Rightarrow> (provider_error retries (exn_msg e), [], b, w)
        | Suc left \<Rightarrow>
            if is_429 e
            then (let backoff = backoff_with_jitter (get_provider_limit k) attempt (draw attempt);
                      (r, sleeps, b, w) = attempts oper clock draw k retries (Suc attempt) left
                                            (emit k ''rate_limited'' (count_429 k (clock w) b)) w
                  in (r, backoff # sleeps, b, w))
            else (provider_error retries (exn_msg e), [], b, w)))"

declare attempts.simps [simp del]

definition run_attempts :: "('w \<Rightarrow> 'a raising \<times> 'w) \<Rightarrow> ('w \<Rightarrow> rat) \<Rightarrow> (nat \<Rightarrow> rat) \<Rightarrow> string \<Rightarrow> int \<Rightarrow> pbus \<Rightarrow> 'w
    \<Rightarrow> 'a result \<times> rat list \<times> pbus \<times> 'w" where
  "run_attempts oper clock draw k retries b w =
     (if retries < 0 then (provider_error retries ''Unknown error'', [], b, w)
      else attempts oper clock draw k retries 0 (nat retries) b w)"

text \<open>A request that nothing interrupts; \<open>None\<close>: it waits for a permit.\<close>

definition pb_execute :: "string \<Rightarrow> ('w \<Rightarrow> 'a raising \<times> 'w) \<Rightarrow> ('w \<Rightarrow> rat) \<Rightarrow> rat \<Rightarrow> (nat \<Rightarrow> rat) \<Rightarrow> int \<Rightarrow> pbus \<Rightarrow> 'w
    \<Rightarrow> ('a result raising \<times> rat list \<times> pbus \<times> 'w) option" where
  "pb_execute provider oper clock u draw retries b w =
     (let k = provider_key provider in
      case admit False k (clock w) u b of
        (Inl e, b) \<Rightarrow> Some (Inl e, [], b, w)
      | (Inr (Rejected r), b) \<Rightarrow> Some (Inr r, [], b, w)
      | (Inr a, b) \<Rightarrow> (case enter k b of
          None \<Rightarrow> None
        | Some b \<Rightarrow> (case run_attempts oper clock draw k retries b w of
            (r, sleeps, b, w) \<Rightarrow> Some (Inr r, (case a of Admitted_after t \<Rightarrow> [t] | _ \<Rightarrow> []) @ sleeps, leave k b, w))))"

text \<open>A stream that is read to its end: the items it yields before it ends or raises. Opening it may raise too, which is a stream
  without items that raises.\<close>

definition stream_results :: "string \<Rightarrow> rat \<Rightarrow> 'a list \<times> exn option \<Rightarrow> pbus \<Rightarrow> 'a result list \<times> pbus" where
  "stream_results k now out b = (case out of
     (xs, None) \<Rightarrow> (map Ok xs, count_success b)
   | (xs, Some e) \<Rightarrow>
       if is_429 e
       then (map Ok xs @ [Err (''Rate limit hit during stream: '' @ exn_msg e) (Some ''RATE_LIMIT_EXCEEDED'') True], count_429 k now b)
       else (map Ok xs @ [Err (''Stream error: '' @ exn_msg e) (Some ''PROVIDER_ERROR'') False], b))"

definition pb_execute_stream :: "string \<Rightarrow> ('w \<Rightarrow> ('a list \<times> exn option) \<times> 'w) \<Rightarrow> ('w \<Rightarrow> rat) \<Rightarrow> rat \<Rightarrow> pbus \<Rightarrow> 'w
    \<Rightarrow> ('a result list raising \<times> pbus \<times> 'w) option" where
  "pb_execute_stream provider oper clock u b w =
     (let k = provider_key provider in
      case admit True k (clock w) u b of
        (Inl e, b) \<Rightarrow> Some (Inl e, b, w)
      | (Inr (Rejected r), b) \<Rightarrow> Some (Inr [r], b, w)
      | (Inr a, b) \<Rightarrow> (case enter k b of
          None \<Rightarrow> None
        | Some b \<Rightarrow> (case oper w of (out, w) \<Rightarrow>
            (case stream_results k (clock w) out b of (rs, b) \<Rightarrow> Some (Inr rs, leave k b, w)))))"

subsection \<open>The other operations\<close>

record provider_stats =
  ps_active :: int
  ps_concurrent :: int
  ps_rpm :: int

definition get_provider_stats :: "string \<Rightarrow> pbus \<Rightarrow> provider_stats" where
  "get_provider_stats provider b = (let k = provider_key provider; l = get_provider_limit k
     in \<lparr>ps_active = active_count k b, ps_concurrent = pv_concurrent l, ps_rpm = pv_rpm l\<rparr>)"

definition get_stats :: "pbus \<Rightarrow> bus_stats \<times> (string \<rightharpoonup> int)" where
  "get_stats b = (pb_stats b, pb_active b)"

definition reset_rate_limits :: "string option \<Rightarrow> pbus \<Rightarrow> pbus" where
  "reset_rate_limits provider b = b\<lparr>pb_tracker := (case provider of
     Some (c # cs) \<Rightarrow> lt_reset (provider_key (c # cs)) (pb_tracker b)
   | _ \<Rightarrow> fold lt_reset (keys PROVIDER_LIMITS) (pb_tracker b))\<rparr>"

subsection \<open>The attempts of an operation\<close>

definition retried :: "'a raising \<Rightarrow> bool" where
  "retried r \<longleftrightarrow> (case r of Inl e \<Rightarrow> is_429 e | Inr x \<Rightarrow> False)"

lemma count_frames [simp]:
  "pb_permits (count_success b) = pb_permits b" "pb_active (count_success b) = pb_active b"
  "pb_permits (count_429 k now b) = pb_permits b" "pb_active (count_429 k now b) = pb_active b"
  "pb_permits (emit k kind b) = pb_permits b" "pb_active (emit k kind b) = pb_active b"
  "pb_stats (emit k kind b) = pb_stats b" "pb_tracker (emit k kind b) = pb_tracker b"
  by (simp_all add: count_success_def count_429_def emit_def)

lemma attempts_spec:
  "attempts oper clock draw k retries a left b w = (r, sleeps, b', w') \<Longrightarrow>
     \<exists>n \<le> left. w' = iter_world oper (Suc n) w \<and> (\<forall>i < n. retried (nth_outcome oper w i))
       \<and> (n < left \<longrightarrow> \<not> retried (nth_outcome oper w n))
       \<and> r = (case nth_outcome oper w n of Inr x \<Rightarrow> Ok x | Inl e \<Rightarrow> provider_error retries (exn_msg e))
       \<and> sleeps = map (\<lambda>i. backoff_with_jitter (get_provider_limit k) i (draw i)) [a..<a + n]
       \<and> bs_errors429 (pb_stats b') = bs_errors429 (pb_stats b) + n
       \<and> bs_successful (pb_stats b') = bs_successful (pb_stats b) + (if is_ok r then 1 else 0)
       \<and> bs_total (pb_stats b') = bs_total (pb_stats b) \<and> pb_permits b' = pb_permits b \<and> pb_active b' = pb_active b
       \<and> lt_buckets (pb_tracker b') = lt_buckets (pb_tracker b)"
proof (induction left arbitrary: a b w r sleeps)
  case 0
  then show ?case
    by (intro exI [of _ 0])
      (auto simp: attempts.simps iter_world_def provider_error_def count_success_def split: prod.splits sum.splits)
next
  case (Suc left)
  obtain o1 w1 where o1: "oper w = (o1, w1)" by fastforce
  show ?case
  proof (cases "retried o1")
    case False
    with Suc.prems o1 show ?thesis
      by (intro exI [of _ 0]) (auto simp: attempts.simps [of _ _ _ _ _ _ "Suc left"] iter_world_def provider_error_def retried_def count_success_def
          split: sum.splits)
  next
    case True
    let ?b = "emit k ''rate_limited'' (count_429 k (clock w1) b)"
    from True obtain e where e: "o1 = Inl e" "is_429 e" by (auto simp: retried_def split: sum.splits)
    obtain ss where ss: "attempts oper clock draw k retries (Suc a) left ?b w1 = (r, ss, b', w')"
      "sleeps = backoff_with_jitter (get_provider_limit k) a (draw a) # ss"
      using Suc.prems o1 e by (auto simp: attempts.simps [of _ _ _ _ _ _ "Suc left"] Let_def split: prod.splits)
    from Suc.IH [OF ss(1)] obtain n where n: "n \<le> left" "w' = iter_world oper (Suc n) w1"
      "\<forall>i < n. retried (nth_outcome oper w1 i)" "n < left \<longrightarrow> \<not> retried (nth_outcome oper w1 n)"
      "r = (case nth_outcome oper w1 n of Inr x \<Rightarrow> Ok x | Inl e \<Rightarrow> provider_error retries (exn_msg e))"
      "ss = map (\<lambda>i. backoff_with_jitter (get_provider_limit k) i (draw i)) [Suc a..<Suc a + n]"
      "bs_errors429 (pb_stats b') = bs_errors429 (pb_stats ?b) + n"
      "bs_successful (pb_stats b') = bs_successful (pb_stats ?b) + (if is_ok r then 1 else 0)"
      "bs_total (pb_stats b') = bs_total (pb_stats ?b)" "pb_permits b' = pb_permits ?b" "pb_active b' = pb_active ?b"
      "lt_buckets (pb_tracker b') = lt_buckets (pb_tracker ?b)" by blast
    have "retried (nth_outcome oper w i)" if "i < Suc n" for i
      using that True o1 n(3) by (cases i) (simp_all add: nth_outcome_Suc)
    moreover have "iter_world oper (Suc (Suc n)) w = iter_world oper (Suc n) w1" "nth_outcome oper w (Suc n) = nth_outcome oper w1 n"
      using o1 by (simp_all add: iter_world_Suc nth_outcome_Suc)
    moreover have "[a..<a + Suc n] = a # [Suc a..<Suc a + n]" by (simp add: upt_conv_Cons del: upt_Suc)
    ultimately show ?thesis using n ss(2)
      by (intro exI [of _ "Suc n"]) (simp add: count_429_def record_429_def Let_def del: upt_Suc)
  qed
qed

text \<open>C23. What the bus does with an admitted operation. It is called at most once more than the retries allow; every call but the
  last raised a rate limit error, and the last one did not, or no retry is left. Its value or error is the answer, the
  sleeps are the backoffs of the attempts, a retry neither asks the rate limit again nor takes a token, and the count
  of active requests and the permits of the semaphores are as before.\<close>

theorem bus_execute_spec:
  fixes oper :: "'w \<Rightarrow> 'a raising \<times> 'w" and a :: "'a admission"
  assumes "pb_execute provider oper clock u draw (int n) b w = Some (res, sleeps, b', w')"
    and "admit False (provider_key provider) (clock w) u b = (Inr a, ba)" "\<And>r. a \<noteq> Rejected r"
    and "0 \<le> active_count (provider_key provider) b"
  shows "\<exists>m \<le> n. w' = iter_world oper (Suc m) w \<and> (\<forall>i < m. retried (nth_outcome oper w i))
     \<and> (m < n \<longrightarrow> \<not> retried (nth_outcome oper w m))
     \<and> res = Inr (case nth_outcome oper w m of Inr x \<Rightarrow> Ok x | Inl e \<Rightarrow> provider_error (int n) (exn_msg e))
     \<and> sleeps = (case a of Admitted_after t \<Rightarrow> [t] | _ \<Rightarrow> [])
          @ map (\<lambda>i. backoff_with_jitter (get_provider_limit (provider_key provider)) i (draw i)) [0..<m]
     \<and> lt_buckets (pb_tracker b') = lt_buckets (pb_tracker ba)
     \<and> active_count (provider_key provider) b' = active_count (provider_key provider) b
     \<and> pb_permits b' = pb_permits ba
     \<and> bs_total (pb_stats b') = Suc (bs_total (pb_stats b))"
proof -
  let ?k = "provider_key provider"
  have adm: "pb_active ba = pb_active b" "bs_total (pb_stats ba) = Suc (bs_total (pb_stats b))"
    using assms(2) by (auto simp: admit_def get_semaphore_def Let_def emit_def split: prod.splits sum.splits result.splits if_splits)
  obtain bb where e: "enter ?k ba = Some bb"
    using assms(1-3) by (cases a; cases "enter ?k ba") (auto simp: pb_execute_def Let_def)
  obtain r ss b2 w2 where l: "attempts oper clock draw ?k (int n) 0 n bb w = (r, ss, b2, w2)" by (metis prod_cases4)
  have x: "res = Inr r" "sleeps = (case a of Admitted_after t \<Rightarrow> [t] | _ \<Rightarrow> []) @ ss" "b' = leave ?k b2" "w' = w2"
    using assms(1-3) e l by (cases a; auto simp: pb_execute_def run_attempts_def Let_def)+
  from e obtain p where p: "pb_permits ba ?k = Some p" "pb_permits bb = (pb_permits ba)(?k \<mapsto> p - 1)"
    "pb_active bb = (pb_active ba)(?k \<mapsto> active_count ?k ba + 1)" "pb_tracker bb = pb_tracker ba" "pb_stats bb = pb_stats ba"
    by (auto simp: enter_def emit_def split: option.splits if_splits)
  have act: "active_count ?k ba = active_count ?k b" by (simp add: active_count_def adm)
  from attempts_spec [OF l] obtain m where m: "m \<le> n" "w2 = iter_world oper (Suc m) w" "\<forall>i < m. retried (nth_outcome oper w i)"
    "m < n \<longrightarrow> \<not> retried (nth_outcome oper w m)"
    "r = (case nth_outcome oper w m of Inr x \<Rightarrow> Ok x | Inl e \<Rightarrow> provider_error (int n) (exn_msg e))"
    "ss = map (\<lambda>i. backoff_with_jitter (get_provider_limit ?k) i (draw i)) [0..<m]"
    "bs_total (pb_stats b2) = bs_total (pb_stats bb)" "pb_permits b2 = pb_permits bb" "pb_active b2 = pb_active bb"
    "lt_buckets (pb_tracker b2) = lt_buckets (pb_tracker bb)" by auto
  have "active_count ?k b' = active_count ?k b"
    using assms(4) by (simp add: x(3) leave_def emit_def active_count_def m(9) p(3) act [unfolded active_count_def])
  moreover have "pb_permits b' = pb_permits ba"
    using p(1) by (simp add: x(3) leave_def emit_def m(8) p(2) fun_eq_iff)
  moreover have "lt_buckets (pb_tracker b') = lt_buckets (pb_tracker ba)" "bs_total (pb_stats b') = Suc (bs_total (pb_stats b))"
    by (simp_all add: x(3) leave_def emit_def m p adm)
  ultimately show ?thesis using m x by blast
qed

definition example_bus :: pbus where
  "example_bus = pb_init (lt_init None None)"

definition example_oper :: "nat \<Rightarrow> nat raising \<times> nat" where
  "example_oper w = (if w = 0 then Inl (Exn ''APIError'' ''HTTP 429'') else Inr w, Suc w)"

theorem bus_execute_spec_witness:
  "\<exists>b'. pb_execute ''ZAI'' example_oper (\<lambda>_. 0) 0 (\<lambda>_. 0) 3 example_bus 0 = Some (Inr (Ok 1), [1 + 1/10], b', 2)
     \<and> pb_permits b' ''zai'' = Some 5 \<and> bs_total (pb_stats b') = 1"
proof -
  define x where "x = the (pb_execute ''ZAI'' example_oper (\<lambda>_. 0) 0 (\<lambda>_. 0) (int 3) example_bus 0)"
  obtain res sleeps b' w' where x4: "x = (res, sleeps, b', w')" by (metis prod_cases4)
  have vals: "fst x = Inr (Ok 1)" "fst (snd x) = [1 + 1/10]" "snd (snd (snd x)) = 2" unfolding x_def by code_simp+
  have "pb_execute ''ZAI'' example_oper (\<lambda>_. 0) 0 (\<lambda>_. 0) (int 3) example_bus 0 \<noteq> None" by code_simp
  then have run: "pb_execute ''ZAI'' example_oper (\<lambda>_. 0) 0 (\<lambda>_. 0) (int 3) example_bus 0 = Some (res, sleeps, b', w')"
    using x4 by (auto simp: x_def)
  define y :: "nat admission raising \<times> pbus" where "y = admit False (provider_key ''ZAI'') 0 0 example_bus"
  have "fst y = Inr Admitted" "pb_permits (snd y) ''zai'' = Some 5" "bs_total (pb_stats example_bus) = 0"
    "0 \<le> active_count (provider_key ''ZAI'') example_bus"
    unfolding y_def by code_simp+
  then have "admit False (provider_key ''ZAI'') 0 0 example_bus = (Inr (Admitted :: nat admission), snd y)"
    by (simp add: y_def flip: surjective_pairing) (metis prod.collapse)
  from bus_execute_spec [OF run this] \<open>0 \<le> active_count (provider_key ''ZAI'') example_bus\<close> \<open>pb_permits (snd y) ''zai'' = Some 5\<close>
    \<open>bs_total (pb_stats example_bus) = 0\<close> run vals x4
  show ?thesis by auto
qed

subsection \<open>The semaphores bound the active requests\<close>

datatype stage = At_semaphore | Inside | Gone

type_synonym bus_state = "pbus \<times> (string \<times> stage) list"

text \<open>A request is admitted (or rejected), enters, does its attempts, which change the tracker, the statistics and the events only,
  and leaves; or it is cancelled before it enters.\<close>

inductive bus_step :: "bus_state \<Rightarrow> bus_state \<Rightarrow> bool" where
  arrive: "admit stream k now u b = (r :: unit admission raising, b') \<Longrightarrow> bus_step (b, ds) (b', ds @ [(k, case r of Inr (Rejected _) \<Rightarrow> Gone | Inr _ \<Rightarrow> At_semaphore | Inl _ \<Rightarrow> Gone)])"
| enters: "i < length ds \<Longrightarrow> ds ! i = (k, At_semaphore) \<Longrightarrow> enter k b = Some b' \<Longrightarrow> bus_step (b, ds) (b', ds[i := (k, Inside)])"
| works: "bus_step (b, ds) (b\<lparr>pb_tracker := t, pb_stats := st, pb_events := ev\<rparr>, ds)"
| leaves: "i < length ds \<Longrightarrow> ds ! i = (k, Inside) \<Longrightarrow> bus_step (b, ds) (leave k b, ds[i := (k, Gone)])"
| cancelled: "i < length ds \<Longrightarrow> ds ! i = (k, At_semaphore) \<Longrightarrow> bus_step (b, ds) (b, ds[i := (k, Gone)])"

definition inside :: "string \<Rightarrow> (string \<times> stage) list \<Rightarrow> nat" where
  "inside k ds = count_list ds (k, Inside)"

definition key_ok :: "string \<Rightarrow> int \<Rightarrow> int option \<Rightarrow> nat \<Rightarrow> bool" where
  "key_ok k active permits n \<longleftrightarrow> active = int n \<and> (case permits of
     None \<Rightarrow> n = 0
   | Some p \<Rightarrow> 0 \<le> p \<and> p + int n = pv_concurrent (get_provider_limit k))"

definition bus_inv :: "bus_state \<Rightarrow> bool" where
  "bus_inv x \<longleftrightarrow> (\<forall>k. key_ok k (active_count k (fst x)) (pb_permits (fst x) k) (inside k (snd x)))"

lemma bus_invI: "(\<And>k. key_ok k (active_count k b) (pb_permits b k) (inside k ds)) \<Longrightarrow> bus_inv (b, ds)"
  by (simp add: bus_inv_def)

lemma bus_invD: "bus_inv (b, ds) \<Longrightarrow> key_ok k (active_count k b) (pb_permits b k) (inside k ds)"
  by (simp add: bus_inv_def)

lemma count_list_upd:
  "i < length xs \<Longrightarrow> count_list (xs[i := y]) x + (if xs ! i = x then 1 else 0) = count_list xs x + (if y = x then 1 else 0)"
proof (induction xs arbitrary: i)
  case (Cons a xs)
  show ?case
  proof (cases i)
    case (Suc j)
    with Cons.prems Cons.IH [of j] show ?thesis by (cases "y = x"; cases "xs ! j = x") auto
  qed simp
qed simp

lemma limit_positive: "0 < pv_concurrent (get_provider_limit k)"
proof -
  have "\<forall>(p, l) \<in> set PROVIDER_LIMITS. 0 < pv_concurrent l" by code_simp
  then show ?thesis by (auto simp: get_provider_limit_def default_limit_def split: option.splits dest!: map_of_SomeD)
qed

lemma bus_inv_step: "bus_step x y \<Longrightarrow> bus_inv x \<Longrightarrow> bus_inv y"
proof (induction rule: bus_step.induct)
  case (arrive stream k now u b r b' ds)
  have perm: "pb_permits b' = (if pb_permits b k = None then (pb_permits b)(k \<mapsto> pv_concurrent (get_provider_limit k)) else pb_permits b)"
    "pb_active b' = pb_active b"
    using arrive.hyps by (auto simp: admit_def get_semaphore_def Let_def split: prod.splits sum.splits result.splits if_splits)
  have "inside q (ds @ [(k, st)]) = inside q ds" if "st \<noteq> Inside" for q st
    using that by (simp add: inside_def count_list_append)
  then have "inside q (ds @ [(k, case r of Inr (Rejected _) \<Rightarrow> Gone | Inr _ \<Rightarrow> At_semaphore | Inl _ \<Rightarrow> Gone)]) = inside q ds" for q
    by (cases r) (auto split: admission.splits)
  moreover have "key_ok q (active_count q b') (pb_permits b' q) (inside q ds)" for q
    using bus_invD [OF arrive.prems, of q] perm limit_positive [of k]
    by (cases "q = k"; cases "pb_permits b k") (simp_all add: key_ok_def active_count_def)
  ultimately show ?case by (intro bus_invI) simp
next
  case (enters i ds k b b')
  from enters.hyps(3) obtain p where p: "pb_permits b k = Some p" "0 < p" "pb_permits b' = (pb_permits b)(k \<mapsto> p - 1)"
    "pb_active b' = (pb_active b)(k \<mapsto> active_count k b + 1)"
    by (auto simp: enter_def split: option.splits if_splits)
  have c: "inside q (ds[i := (k, Inside)]) = inside q ds + (if q = k then 1 else 0)" for q
    using count_list_upd [OF enters.hyps(1), of "(k, Inside)" "(q, Inside)"] enters.hyps(2) by (auto simp: inside_def)
  show ?case
  proof (rule bus_invI)
    fix q show "key_ok q (active_count q b') (pb_permits b' q) (inside q (ds[i := (k, Inside)]))"
      using bus_invD [OF enters.prems, of q] p by (cases "q = k") (simp_all add: c key_ok_def active_count_def)
  qed
next
  case (works b ds t st ev)
  then show ?case by (simp add: bus_inv_def active_count_def)
next
  case (leaves i ds k b)
  have c: "inside q ds = inside q (ds[i := (k, Gone)]) + (if q = k then 1 else 0)" for q
    using count_list_upd [OF leaves.hyps(1), of "(k, Gone)" "(q, Inside)"] leaves.hyps(2) by (auto simp: inside_def)
  show ?case
  proof (rule bus_invI)
    fix q show "key_ok q (active_count q (leave k b)) (pb_permits (leave k b) q) (inside q (ds[i := (k, Gone)]))"
      using bus_invD [OF leaves.prems, of q] c [of q]
      by (cases "q = k") (auto simp: key_ok_def leave_def emit_def active_count_def split: option.splits)
  qed
next
  case (cancelled i ds k b)
  have c: "inside q (ds[i := (k, Gone)]) = inside q ds" for q
    using count_list_upd [OF cancelled.hyps(1), of "(k, Gone)" "(q, Inside)"] cancelled.hyps(2) by (auto simp: inside_def)
  with cancelled.prems show ?case by (simp add: bus_inv_def)
qed



subsection \<open>The rate is not enforced\<close>

fun admit_all :: "string \<Rightarrow> rat \<Rightarrow> rat list \<Rightarrow> pbus \<Rightarrow> unit admission raising list \<times> pbus" where
  "admit_all k now [] b = ([], b)"
| "admit_all k now (u # us) b = (let (a, b) = admit False k now u b; (as, b) = admit_all k now us b in (a # as, b))"



end
