(* ===== verification/EvidenceCache.thy ===== *)
theory EvidenceCache
  imports Results
begin

text \<open>
  The sharing of answers between equal requests, \<open>llm/evidence_sharing.py\<close>: a bounded store of responses in the order of
  their last use. The digest of a request is an argument; an entry is a response, and equal keys are the same request to the store.
\<close>

declare map_of_eq_Some_iff [simp del] Some_eq_map_of_iff [simp del]

record 'o fingerprint =
  fp_provider :: string
  fp_model :: string
  fp_messages :: "json list"
  fp_tools :: "json list option"
  fp_options :: "(string \<times> 'o) list"

datatype 'o request_options = No_options | Option_dict "(string \<times> 'o) list" | Option_object "(string \<times> 'o option) list"

text \<open>\<open>LLMRequestOptions.to_dict\<close>: the fields that are set.\<close>

definition options_dict :: "(string \<times> 'o option) list \<Rightarrow> (string \<times> 'o) list" where
  "options_dict fs = map (\<lambda>(k, v). (k, the v)) (filter (\<lambda>(k, v). v \<noteq> None) fs)"

definition normalized_options :: "'o request_options \<Rightarrow> (string \<times> 'o) list" where
  "normalized_options os = (case os of No_options \<Rightarrow> [] | Option_dict d \<Rightarrow> d | Option_object fs \<Rightarrow> options_dict fs)"

definition create_request_fingerprint :: "string \<Rightarrow> string \<Rightarrow> json list \<Rightarrow> json list option \<Rightarrow> 'o request_options \<Rightarrow> 'o fingerprint" where
  "create_request_fingerprint provider model messages tools os = \<lparr>fp_provider = provider, fp_model = model, fp_messages = messages,
     fp_tools = tools, fp_options = normalized_options os\<rparr>"

record 'r evidence_store =
  ev_store :: "(string \<times> 'r) list"
  ev_max :: int

datatype 'r strategy = No_sharing | Sharing "'r evidence_store"

definition ev_init :: "int \<Rightarrow> 'r evidence_store" where
  "ev_init m = \<lparr>ev_store = [], ev_max = max 1 m\<rparr>"

definition move_to_end :: "string \<Rightarrow> (string \<times> 'r) list \<Rightarrow> (string \<times> 'r) list" where
  "move_to_end k d = (case map_of d k of Some r \<Rightarrow> AList.delete k d @ [(k, r)] | None \<Rightarrow> d)"

definition ev_get :: "string \<Rightarrow> 'r evidence_store \<Rightarrow> 'r option \<times> 'r evidence_store" where
  "ev_get k s = (case map_of (ev_store s) k of
     None \<Rightarrow> (None, s)
   | Some r \<Rightarrow> (Some r, s\<lparr>ev_store := move_to_end k (ev_store s)\<rparr>))"

text \<open>The loop that drops the oldest entries.\<close>

fun pop_oldest :: "int \<Rightarrow> (string \<times> 'r) list \<Rightarrow> (string \<times> 'r) list" where
  "pop_oldest m [] = []"
| "pop_oldest m (e # es) = (if m < int (length (e # es)) then pop_oldest m es else e # es)"

definition ev_set :: "string \<Rightarrow> 'r \<Rightarrow> 'r evidence_store \<Rightarrow> 'r evidence_store" where
  "ev_set k r s = s\<lparr>ev_store := pop_oldest (ev_max s) (move_to_end k (AList.update k r (ev_store s)))\<rparr>"

definition ev_clear :: "'r evidence_store \<Rightarrow> 'r evidence_store" where
  "ev_clear s = s\<lparr>ev_store := []\<rparr>"

definition strategy_get :: "string \<Rightarrow> 'r strategy \<Rightarrow> 'r option \<times> 'r strategy" where
  "strategy_get k st = (case st of No_sharing \<Rightarrow> (None, st) | Sharing s \<Rightarrow> (case ev_get k s of (r, s) \<Rightarrow> (r, Sharing s)))"

definition strategy_set :: "string \<Rightarrow> 'r \<Rightarrow> 'r strategy \<Rightarrow> 'r strategy" where
  "strategy_set k r st = (case st of No_sharing \<Rightarrow> st | Sharing s \<Rightarrow> Sharing (ev_set k r s))"

definition strategy_clear :: "'r strategy \<Rightarrow> 'r strategy" where
  "strategy_clear st = (case st of No_sharing \<Rightarrow> st | Sharing s \<Rightarrow> Sharing (ev_clear s))"

subsection \<open>The store is a cache of the least recently used entries\<close>

datatype 'r ev_op = Get string | Set string 'r | Clear

definition ev_do :: "'r ev_op \<Rightarrow> 'r evidence_store \<Rightarrow> 'r evidence_store" where
  "ev_do oper s = (case oper of Get k \<Rightarrow> snd (ev_get k s) | Set k r \<Rightarrow> ev_set k r s | Clear \<Rightarrow> ev_clear s)"

text \<open>The reference: the whole history of the keys, with what is stored under each, latest use last. A \<open>Get\<close> of a key
  that the bounded store has dropped is not a use.\<close>

definition touch :: "string \<Rightarrow> 'r \<Rightarrow> (string \<times> 'r) list \<Rightarrow> (string \<times> 'r) list" where
  "touch k r h = filter (\<lambda>(k', _). k' \<noteq> k) h @ [(k, r)]"

definition recent :: "int \<Rightarrow> 'a list \<Rightarrow> 'a list" where
  "recent m h = drop (length h - nat m) h"

definition lru_do :: "int \<Rightarrow> 'r ev_op \<Rightarrow> (string \<times> 'r) list \<Rightarrow> (string \<times> 'r) list" where
  "lru_do m oper h = (case oper of
     Get k \<Rightarrow> (case map_of (recent m h) k of Some r \<Rightarrow> touch k r h | None \<Rightarrow> h)
   | Set k r \<Rightarrow> touch k r h
   | Clear \<Rightarrow> [])"

lemma pop_oldest_recent: "0 \<le> m \<Longrightarrow> pop_oldest m es = recent m es"
  by (induction es) (auto simp: recent_def Suc_diff_le not_less nat_less_iff le_nat_iff)

lemma delete_filter: "AList.delete k d = filter (\<lambda>(k', _). k' \<noteq> k) d"
  by (auto simp: AList.delete_eq intro: filter_cong)

lemma move_update: "move_to_end k (AList.update k r d) = touch k r d"
proof -
  have "filter (\<lambda>(k', _). k' \<noteq> k) (AList.update k r d) = filter (\<lambda>(k', _). k' \<noteq> k) d"
    by (induction d) auto
  then show ?thesis by (simp add: move_to_end_def touch_def delete_filter)
qed

lemma map_of_suffix: "map_of (xs @ ys) k = (case map_of xs k of Some r \<Rightarrow> Some r | None \<Rightarrow> map_of ys k)"
  by (induction xs) auto

lemma recent_append: "nat m \<le> length ys \<Longrightarrow> recent m (xs @ ys) = recent m ys"
  by (simp add: recent_def)

lemma recent_short: "length h \<le> nat m \<Longrightarrow> recent m h = h"
  by (simp add: recent_def)

lemma recent_split: "\<exists>old. h = old @ recent m h \<and> (old = [] \<or> length (recent m h) = nat m)"
proof -
  have "h = take (length h - nat m) h @ recent m h" by (simp add: recent_def)
  moreover have "take (length h - nat m) h = [] \<or> length (recent m h) = nat m" by (auto simp: recent_def)
  ultimately show ?thesis by blast
qed

lemma wf_touch: "wf_dict h \<Longrightarrow> wf_dict (touch k r h)"
  by (auto simp: touch_def distinct_map_filter)

lemma length_touch: "wf_dict h \<Longrightarrow> length (touch k r h) = (if k \<in> set (keys h) then length h else Suc (length h))"
proof (induction h)
  case (Cons a h)
  have "k \<notin> set (keys h) \<Longrightarrow> filter (\<lambda>(k', _). k' \<noteq> k) h = h" by (rule filter_True) force
  with Cons show ?case by (cases a) (auto simp: touch_def)
qed (simp add: touch_def)

lemma touch_append: "touch k r (xs @ ys) = filter (\<lambda>(k', _). k' \<noteq> k) xs @ touch k r ys"
  by (simp add: touch_def)

lemma recent_touch:
  assumes "wf_dict h" "1 \<le> m"
  shows "recent m (touch k r (recent m h)) = recent m (touch k r h)"
proof -
  obtain old where old: "h = old @ recent m h" "old = [] \<or> length (recent m h) = nat m" using recent_split by blast
  show ?thesis
  proof (cases "old = []")
    case True
    with old(1) show ?thesis by simp
  next
    case False
    have "wf_dict (recent m h)" using assms(1) old(1) by (metis distinct_append map_append)
    from length_touch [OF this, of k r] False old(2) have "nat m \<le> length (touch k r (recent m h))" by auto
    from recent_append [OF this, of "filter (\<lambda>(k', _). k' \<noteq> k) old"] show ?thesis
      by (subst (2) old(1)) (simp add: touch_append)
  qed
qed

lemma recent_touch_hit:
  assumes "wf_dict h" "1 \<le> m" "map_of (recent m h) k = Some r"
  shows "touch k r (recent m h) = recent m (touch k r h)"
proof -
  have "wf_dict (recent m h)" using assms(1) by (simp add: recent_def drop_map [symmetric] distinct_drop)
  then have "length (touch k r (recent m h)) = length (recent m h)"
    using length_touch [of "recent m h" k r] map_of_in_keys [OF assms(3)] by simp
  then have "length (touch k r (recent m h)) \<le> nat m" by (simp add: recent_def)
  from recent_short [OF this] recent_touch [OF assms(1,2), of k r] show ?thesis by simp
qed

lemma ev_do_lru:
  assumes "wf_dict h" "1 \<le> ev_max s" "ev_store s = recent (ev_max s) h"
  shows "wf_dict (lru_do (ev_max s) oper h) \<and> ev_max (ev_do oper s) = ev_max s
    \<and> ev_store (ev_do oper s) = recent (ev_max s) (lru_do (ev_max s) oper h)"
proof (cases oper)
  case (Get k)
  show ?thesis
  proof (cases "map_of (recent (ev_max s) h) k")
    case None
    with Get assms show ?thesis by (simp add: ev_do_def lru_do_def ev_get_def)
  next
    case (Some r)
    with Get assms recent_touch_hit [OF assms(1,2) Some] show ?thesis
      using wf_touch [OF assms(1), of k r]
      by (simp add: ev_do_def lru_do_def ev_get_def move_to_end_def delete_filter flip: touch_def)
  qed
next
  case (Set k r)
  with assms show ?thesis
    by (simp add: ev_do_def lru_do_def ev_set_def move_update pop_oldest_recent recent_touch wf_touch)
next
  case Clear
  with assms show ?thesis by (simp add: ev_do_def lru_do_def ev_clear_def recent_def)
qed

lemma ev_set_get:
  assumes "1 \<le> ev_max s"
  shows "map_of (ev_store (ev_set k r s)) k = Some r"
proof -
  let ?f = "filter (\<lambda>(k', _). k' \<noteq> k) (ev_store s)" let ?old = "drop (length ?f + 1 - nat (ev_max s)) ?f"
  have "ev_store (ev_set k r s) = ?old @ [(k, r)]"
    using assms by (simp add: ev_set_def move_update pop_oldest_recent) (simp add: recent_def touch_def)
  moreover have "map_of ?old k = None" by (auto simp: map_of_eq_None_iff dest!: in_set_dropD)
  ultimately show ?thesis by (simp only: map_of_suffix) simp
qed

text \<open>The store of shared answers is a cache of the most recently used entries: after any operations it holds exactly the
  last entries, as many as its limit, of the history of the uses, so a lookup answers with what was stored last
  under its key as long as fewer than the limit other keys were used since, and with nothing otherwise.\<close>

theorem evidence_store_lru:
  "let m = max 1 n; s = fold ev_do ops (ev_init n); h = fold (lru_do m) ops []
   in ev_store s = recent m h \<and> wf_dict h \<and> int (length (ev_store s)) \<le> m
    \<and> fst (ev_get k s) = map_of (recent m h) k \<and> fst (ev_get k (ev_set k r s)) = Some r"
proof -
  have "wf_dict (fold (lru_do m) ops h) \<and> ev_max (fold ev_do ops s) = m \<and> ev_store (fold ev_do ops s) = recent m (fold (lru_do m) ops h)"
    if "wf_dict h" "ev_max s = m" "1 \<le> m" "ev_store s = recent m h" for m s h and h' :: "(string \<times> 'a) list"
    using that
  proof (induction ops arbitrary: s h)
    case (Cons a ops)
    from ev_do_lru [of h s a] Cons.prems have "wf_dict (lru_do m a h)" "ev_max (ev_do a s) = m" "ev_store (ev_do a s) = recent m (lru_do m a h)"
      by auto
    from Cons.IH [OF this(1,2) Cons.prems(3) this(3)] show ?case by simp
  qed simp
  from this [of "[]" "ev_init n" "max 1 n"]
  have inv: "wf_dict (fold (lru_do (max 1 n)) ops [])" "ev_max (fold ev_do ops (ev_init n)) = max 1 n"
    "ev_store (fold ev_do ops (ev_init n)) = recent (max 1 n) (fold (lru_do (max 1 n)) ops [])"
    by (auto simp: ev_init_def recent_def)
  let ?s = "fold ev_do ops (ev_init n)" let ?h = "fold (lru_do (max 1 n)) ops []"
  have "int (length (ev_store ?s)) \<le> max 1 n" by (simp add: inv(3) recent_def)
  moreover have "fst (ev_get k ?s) = map_of (recent (max 1 n) ?h) k"
    by (simp add: ev_get_def inv(3) split: option.splits)
  moreover have "map_of (ev_store (ev_set k r ?s)) k = Some r" by (rule ev_set_get) (simp add: inv(2))
  ultimately show ?thesis using inv by (simp add: Let_def ev_get_def)
qed

end
