(* ===== verification/LlmClient.thy ===== *)
theory LlmClient
  imports EvidenceCache Limiter Retry
begin

text \<open>
  The provider independent client of \<open>llm/client.py\<close>: retries, the wait for the global rate limiter, the model of a
  request, and \<open>complete\<close> with its sharing of answers. Providers, their models and streams are functions of the world. An event
  is what the client reads of it.

  The retries of a stream are made by \<open>tenacity\<close>, which is a parameter \<open>retrying\<close>: what the client relies on is
  \<open>tenacity\<close> below.
\<close>

declare map_of_eq_Some_iff [simp del] Some_eq_map_of_iff [simp del]

subsection \<open>The decorators\<close>

text \<open>\<open>with_retry\<close>: every exception is retried. Without an attempt the assertion fails.\<close>

record retry_policy =
  ry_max_attempts :: int
  ry_base_delay :: rat
  ry_max_delay :: rat
  ry_exponential_base :: rat

definition retry_delay :: "retry_policy \<Rightarrow> nat \<Rightarrow> rat" where
  "retry_delay p attempt = min (ry_base_delay p * ry_exponential_base p ^ (attempt - 1)) (ry_max_delay p)"

fun retry_from :: "retry_policy \<Rightarrow> ('s \<Rightarrow> 'a raising \<times> 's) \<Rightarrow> nat \<Rightarrow> nat \<Rightarrow> 's \<Rightarrow> 'a raising \<times> rat list \<times> 's" where
  "retry_from p func attempt left s = (case func s of
     (Inr x, s) \<Rightarrow> (Inr x, [], s)
   | (Inl e, s) \<Rightarrow> (case left of
       0 \<Rightarrow> (Inl e, [], s)
     | Suc left \<Rightarrow> (let (r, sleeps, s) = retry_from p func (Suc attempt) left s in (r, retry_delay p attempt # sleeps, s))))"

declare retry_from.simps [simp del]

definition with_retry :: "retry_policy \<Rightarrow> ('s \<Rightarrow> 'a raising \<times> 's) \<Rightarrow> 's \<Rightarrow> 'a raising \<times> rat list \<times> 's" where
  "with_retry p func s = (if ry_max_attempts p \<le> 0 then (Inl (Exn ''AssertionError'' []), [], s)
     else retry_from p func 1 (nat (ry_max_attempts p) - 1) s)"

text \<open>\<open>with_timeout\<close>: \<open>None\<close> is a function that does not end in time.\<close>

definition with_timeout :: "string \<Rightarrow> string \<Rightarrow> 'a raising option \<Rightarrow> 'a raising" where
  "with_timeout name seconds r = (case r of
     Some (Inl e) \<Rightarrow> if exn_type e = ''TimeoutError'' then Inl (Exn ''TimeoutError'' (name @ '' exceeded timeout of '' @ seconds @ ''s'')) else Inl e
   | Some x \<Rightarrow> x
   | None \<Rightarrow> Inl (Exn ''TimeoutError'' (name @ '' exceeded timeout of '' @ seconds @ ''s'')))"

subsection \<open>The global rate limiter\<close>

definition configure_global_rate_limiter :: "int \<Rightarrow> rat \<Rightarrow> rat \<Rightarrow> limiter \<times> int" where
  "configure_global_rate_limiter capacity rate window = (rl_init capacity rate window, capacity)"

text \<open>\<open>acquire_rate_limit\<close>: the loop over the clock readings of its polls; \<open>None\<close>: none of them was granted and the
  loop goes on.\<close>

type_synonym reading = "rat \<times> rat \<times> rat"

fun acquire_rate_limit :: "string \<Rightarrow> reading list \<Rightarrow> limiter \<Rightarrow> nat option \<times> limiter" where
  "acquire_rate_limit resource [] l = (None, l)"
| "acquire_rate_limit resource ((t0, t1, t2) # ts) l = (case rl_try_acquire t0 t1 t2 resource 1 l of (r, l) \<Rightarrow>
     if is_ok r then (Some 0, l)
     else (case acquire_rate_limit resource ts l of (n, l) \<Rightarrow> (map_option Suc n, l)))"

subsection \<open>The client\<close>

record 'm model_info =
  mi_api_id :: string
  mi_rest :: 'm

record usage =
  us_input :: int
  us_output :: int
  us_reasoning :: int
  us_cache_read :: int
  us_cache_write :: int

definition no_usage :: usage where
  "no_usage = \<lparr>us_input = 0, us_output = 0, us_reasoning = 0, us_cache_read = 0, us_cache_write = 0\<rparr>"

datatype stream_event = Text_delta string | Tool_call json json | Finish "(string \<times> int) list" "string option" | Other_event string

record ('m, 'c) llm_response =
  lr_text :: string
  lr_usage :: usage
  lr_model_info :: "'m model_info"
  lr_finish_reason :: string
  lr_cost :: 'c
  lr_tool_calls :: "(json \<times> json) list option"
  lr_messages :: "json list"

record ('p, 'm, 'c) client =
  lc_provider_id :: string
  lc_model :: string
  lc_api_key :: string
  lc_policy :: retry_policy
  lc_strategy :: "('m, 'c) llm_response strategy"
  lc_provider :: "'p option"
  lc_model_info :: "'m model_info option"

text \<open>What the client calls: the provider registry, the methods of a provider (a stream that is collected within the timeout), the
  wait for the limits and the digest of a request.\<close>

record ('p, 'm, 'c, 'o, 'w) llm_env =
  le_valid_id :: "string \<Rightarrow> bool"
  le_get_provider :: "string \<Rightarrow> string \<Rightarrow> 'p option"
  le_models :: "'p \<Rightarrow> 'w \<Rightarrow> 'm model_info list raising \<times> 'w"
  le_stream :: "'p \<Rightarrow> 'm model_info \<Rightarrow> json list \<Rightarrow> json list option \<Rightarrow> (string \<times> 'o) list \<Rightarrow> 'w \<Rightarrow> stream_event list raising \<times> 'w"
  le_cost :: "'p \<Rightarrow> usage \<Rightarrow> 'm model_info \<Rightarrow> 'c"
  le_limits :: "'w \<Rightarrow> 'w"
  le_digest :: "'o fingerprint \<Rightarrow> string"
  le_transient :: "exn \<Rightarrow> bool"

definition unsupported :: "string \<Rightarrow> exn" where
  "unsupported pid = Exn ''ValueError'' (''Unsupported provider: '' @ pid)"

definition client_init :: "('p, 'm, 'c, 'o, 'w) llm_env \<Rightarrow> string \<Rightarrow> string \<Rightarrow> string option \<Rightarrow> int
    \<Rightarrow> ('m, 'c) llm_response strategy option \<Rightarrow> ('p, 'm, 'c) client raising" where
  "client_init env pid model key max_retries st =
     (let k = (case key of Some s \<Rightarrow> s | None \<Rightarrow> [])
      in if \<not> le_valid_id env pid then Inl (Exn ''ValueError'' (pid @ '' is not a valid ProviderID''))
         else case le_get_provider env pid k of
           None \<Rightarrow> Inl (unsupported pid)
         | Some p \<Rightarrow> Inr \<lparr>lc_provider_id = pid, lc_model = model, lc_api_key = k,
             lc_policy = \<lparr>ry_max_attempts = max_retries, ry_base_delay = 1, ry_max_delay = 60, ry_exponential_base = 2\<rparr>,
             lc_strategy = (case st of Some s \<Rightarrow> s | None \<Rightarrow> No_sharing), lc_provider = Some p, lc_model_info = None\<rparr>)"

definition the_provider :: "('p, 'm, 'c) client \<Rightarrow> 'p raising" where
  "the_provider c = (case lc_provider c of Some p \<Rightarrow> Inr p | None \<Rightarrow> Inl (Exn ''ValueError'' ''Provider not initialized''))"

definition ensure_model_info :: "('p, 'm, 'c, 'o, 'w) llm_env \<Rightarrow> ('p, 'm, 'c) client \<Rightarrow> 'w
    \<Rightarrow> 'm model_info raising \<times> ('p, 'm, 'c) client \<times> 'w" where
  "ensure_model_info env c w = (case lc_model_info c of
     Some m \<Rightarrow> (Inr m, c, w)
   | None \<Rightarrow> (case the_provider c of
       Inl e \<Rightarrow> (Inl e, c, w)
     | Inr p \<Rightarrow> (case le_models env p w of
         (Inl e, w) \<Rightarrow> (Inl e, c, w)
       | (Inr ms, w) \<Rightarrow> (case find (\<lambda>m. mi_api_id m = lc_model c) ms of
           Some m \<Rightarrow> (Inr m, c\<lparr>lc_model_info := Some m\<rparr>, w)
         | None \<Rightarrow> (Inl (Exn ''ValueError'' (''Model '' @ lc_model c @ '' not found for provider '' @ lc_provider_id c)), c, w)))))"

subsection \<open>One attempt, and the retries\<close>

definition refresh_provider :: "('p, 'm, 'c, 'o, 'w) llm_env \<Rightarrow> ('p, 'm, 'c) client \<Rightarrow> exn option \<times> ('p, 'm, 'c) client" where
  "refresh_provider env c = (let p = le_get_provider env (lc_provider_id c) (lc_api_key c); c = c\<lparr>lc_provider := p\<rparr>
     in if p = None then (Some (unsupported (lc_provider_id c)), c) else (None, c\<lparr>lc_model_info := None\<rparr>))"

definition collect_once :: "('p, 'm, 'c, 'o, 'w) llm_env \<Rightarrow> 'm model_info \<Rightarrow> json list \<Rightarrow> json list option \<Rightarrow> (string \<times> 'o) list
    \<Rightarrow> ('p, 'm, 'c) client \<times> 'w \<Rightarrow> stream_event list raising \<times> ('p, 'm, 'c) client \<times> 'w" where
  "collect_once env m messages tools opts s = (case s of (c, w) \<Rightarrow>
     (let w = le_limits env w in case the_provider c of
        Inl e \<Rightarrow> (Inl e, c, w)
      | Inr p \<Rightarrow> (case le_stream env p m messages tools opts w of (r, w) \<Rightarrow> (r, c, w))))"

definition attempt_stream :: "('p, 'm, 'c, 'o, 'w) llm_env \<Rightarrow> 'm model_info \<Rightarrow> json list \<Rightarrow> json list option \<Rightarrow> (string \<times> 'o) list
    \<Rightarrow> ('p, 'm, 'c) client \<times> 'w \<Rightarrow> stream_event list raising \<times> ('p, 'm, 'c) client \<times> 'w" where
  "attempt_stream env m messages tools opts s = (case collect_once env m messages tools opts s of
     (Inr evs, s) \<Rightarrow> (Inr evs, s)
   | (Inl e, c, w) \<Rightarrow> if le_transient env e
       then (case refresh_provider env c of (Some e', c) \<Rightarrow> (Inl e', c, w) | (None, c) \<Rightarrow> (Inl e, c, w))
       else (Inl e, c, w))"

type_synonym 's retryer = "int \<Rightarrow> (exn \<Rightarrow> bool) \<Rightarrow> ('s \<Rightarrow> stream_event list raising \<times> 's) \<Rightarrow> 's \<Rightarrow> stream_event list raising \<times> 's"

text \<open>\<open>AsyncRetrying\<close> with \<open>stop_after_attempt\<close>, \<open>retry_if_exception_type\<close> and \<open>reraise\<close>: the body is run at least
  once and at most as often as allowed, again after each exception of the given types, and the last outcome is the
  result.\<close>

definition tenacity :: "'s retryer \<Rightarrow> bool" where
  "tenacity retrying \<longleftrightarrow> (\<forall>k transient body s. \<exists>n.
     retrying k transient body s = (nth_outcome body s n, iter_world body (Suc n) s)
     \<and> int n < max 1 k \<and> (\<forall>i < n. \<exists>e. nth_outcome body s i = Inl e \<and> transient e)
     \<and> (int n + 1 < max 1 k \<longrightarrow> (\<forall>e. nth_outcome body s n = Inl e \<longrightarrow> \<not> transient e)))"

definition collect_with_retry :: "(('p, 'm, 'c) client \<times> 'w) retryer \<Rightarrow> ('p, 'm, 'c, 'o, 'w) llm_env \<Rightarrow> 'm model_info \<Rightarrow> json list
    \<Rightarrow> json list option \<Rightarrow> (string \<times> 'o) list \<Rightarrow> ('p, 'm, 'c) client \<Rightarrow> 'w \<Rightarrow> stream_event list raising \<times> ('p, 'm, 'c) client \<times> 'w" where
  "collect_with_retry retrying env m messages tools opts c w =
     retrying (ry_max_attempts (lc_policy c)) (le_transient env) (attempt_stream env m messages tools opts) (c, w)"

subsection \<open>A complete answer\<close>

record reading_state =
  rs_texts :: "string list"
  rs_calls :: "(json \<times> json) list"
  rs_usage :: usage
  rs_finish :: string

definition count_of :: "(string \<times> int) list \<Rightarrow> string \<Rightarrow> int" where
  "count_of d k = (case map_of d k of Some n \<Rightarrow> n | None \<Rightarrow> 0)"

definition usage_of :: "(string \<times> int) list \<Rightarrow> usage" where
  "usage_of d = \<lparr>us_input = count_of d ''prompt_tokens'', us_output = count_of d ''completion_tokens'',
     us_reasoning = count_of d ''reasoning_tokens'', us_cache_read = count_of d ''cache_read_tokens'',
     us_cache_write = count_of d ''cache_write_tokens''\<rparr>"

fun read_events :: "stream_event list \<Rightarrow> reading_state \<Rightarrow> reading_state" where
  "read_events [] s = s"
| "read_events (Text_delta t # es) s = read_events es (s\<lparr>rs_texts := rs_texts s @ [t]\<rparr>)"
| "read_events (Tool_call t i # es) s = read_events es (s\<lparr>rs_calls := rs_calls s @ [(t, i)]\<rparr>)"
| "read_events (Finish d r # es) s = s\<lparr>rs_usage := (if d = [] then rs_usage s else usage_of d),
     rs_finish := (case r of Some t \<Rightarrow> t | None \<Rightarrow> ''stop'')\<rparr>"
| "read_events (Other_event k # es) s = read_events es s"

definition reading_init :: reading_state where
  "reading_init = \<lparr>rs_texts = [], rs_calls = [], rs_usage = no_usage, rs_finish = ''stop''\<rparr>"

definition complete :: "(('p, 'm, 'c) client \<times> 'w) retryer \<Rightarrow> ('p, 'm, 'c, 'o, 'w) llm_env \<Rightarrow> json list \<Rightarrow> json list option
    \<Rightarrow> 'o request_options \<Rightarrow> ('p, 'm, 'c) client \<Rightarrow> 'w \<Rightarrow> ('m, 'c) llm_response raising \<times> ('p, 'm, 'c) client \<times> 'w" where
  "complete retrying env messages tools os c w =
     (let key = le_digest env (create_request_fingerprint (lc_provider_id c) (lc_model c) messages tools os);
          (cached, st) = strategy_get key (lc_strategy c);
          c = c\<lparr>lc_strategy := st\<rparr>
      in case cached of
           Some r \<Rightarrow> (Inr r, c, w)
         | None \<Rightarrow> (case ensure_model_info env c w of
             (Inl e, c, w) \<Rightarrow> (Inl e, c, w)
           | (Inr m, c, w) \<Rightarrow> (case collect_with_retry retrying env m messages tools (normalized_options os) c w of
               (Inl e, c, w) \<Rightarrow> (Inl e, c, w)
             | (Inr evs, c, w) \<Rightarrow> (case the_provider c of
                 Inl e \<Rightarrow> (Inl e, c, w)
               | Inr p \<Rightarrow>
                   (let s = read_events evs reading_init;
                        r = \<lparr>lr_text = concat (rs_texts s), lr_usage = rs_usage s, lr_model_info = m,
                             lr_finish_reason = rs_finish s, lr_cost = le_cost env p (rs_usage s) m,
                             lr_tool_calls = (if rs_calls s = [] then None else Some (rs_calls s)), lr_messages = messages\<rparr>
                    in (Inr r, c\<lparr>lc_strategy := strategy_set key r (lc_strategy c)\<rparr>, w))))))"

definition clear_evidence_cache :: "('p, 'm, 'c) client \<Rightarrow> ('p, 'm, 'c) client" where
  "clear_evidence_cache c = c\<lparr>lc_strategy := strategy_clear (lc_strategy c)\<rparr>"

text \<open>\<open>chat_completion\<close>; the options are the three it is called with.\<close>

definition chat_messages :: "string \<Rightarrow> string \<Rightarrow> json list" where
  "chat_messages system user = [JObj [(''role'', JStr ''system''), (''content'', JStr system)], JObj [(''role'', JStr ''user''), (''content'', JStr user)]]"

definition chat_completion :: "(('p, 'm, 'c) client \<times> 'w) retryer \<Rightarrow> ('p, 'm, 'c, 'o, 'w) llm_env \<Rightarrow> string \<Rightarrow> string
    \<Rightarrow> 'o request_options \<Rightarrow> ('p, 'm, 'c) client \<Rightarrow> 'w \<Rightarrow> string raising \<times> ('p, 'm, 'c) client \<times> 'w" where
  "chat_completion retrying env system user os c w = (case complete retrying env (chat_messages system user) None os c w of
     (Inl e, s) \<Rightarrow> (Inl e, s) | (Inr r, s) \<Rightarrow> (Inr (lr_text r), s))"

text \<open>\<open>stream\<close>: the collection runs beside a timer of the same length. \<open>in_time\<close>: the collection ends before the timer.\<close>

definition client_stream :: "(('p, 'm, 'c) client \<times> 'w) retryer \<Rightarrow> ('p, 'm, 'c, 'o, 'w) llm_env \<Rightarrow> bool \<Rightarrow> string \<Rightarrow> json list
    \<Rightarrow> json list option \<Rightarrow> 'o request_options \<Rightarrow> ('p, 'm, 'c) client \<Rightarrow> 'w \<Rightarrow> stream_event list raising \<times> ('p, 'm, 'c) client \<times> 'w" where
  "client_stream retrying env in_time seconds messages tools os c w = (case ensure_model_info env c w of
     (Inl e, c, w) \<Rightarrow> (Inl e, c, w)
   | (Inr m, c, w) \<Rightarrow> (case collect_with_retry retrying env m messages tools (normalized_options os) c w of
       (r, c, w) \<Rightarrow> (if in_time then r else Inl (Exn ''TimeoutError'' (''LLM stream exceeded timeout of '' @ seconds @ ''s'')), c, w)))"

subsection \<open>The wait for the rate limiter\<close>

fun polls :: "rat \<Rightarrow> rat \<Rightarrow> reading list \<Rightarrow> bool" where
  "polls gap t [] = True"
| "polls gap t ((t0, t1, t2) # ts) = (t \<le> t1 \<and> t1 - t < gap \<and> polls gap t1 ts)"

text \<open>A client that has to wait for the global rate limiter waits for ever: when the bucket of its provider is empty and
  the loop polls again before a whole token has accrued, every poll is refused, however many are made, since each
  restarts the refill. With the default rate of one token in two seconds and the sleep of one second between polls this
  is every wait whose polls are less than two seconds apart.\<close>

theorem client_waits_forever:
  assumes "rl_buckets l resource = Some b" "tb_tokens b = 0" "0 \<le> tb_capacity b" "0 < tb_refill_rate b"
    and "polls (1 / tb_refill_rate b) (tb_last_refill b) ts"
  shows "fst (acquire_rate_limit resource ts l) = None"
  using assms
proof (induction ts arbitrary: l b)
  case (Cons t ts)
  obtain t0 t1 t2 where t: "t = (t0, t1, t2)" by (cases t)
  from Cons.prems t have poll: "tb_last_refill b \<le> t1" "t1 - tb_last_refill b < 1 / tb_refill_rate b"
    and rest: "polls (1 / tb_refill_rate b) t1 ts" by auto
  have inv: "tb_inv b" using Cons.prems by (simp add: tb_inv_def)
  have "(t1 - tb_last_refill b) * tb_refill_rate b < 1"
    using poll(2) Cons.prems(4) by (simp add: pos_less_divide_eq)
  then have same: "tb_tokens (refill_tokens t1 b) = 0" using fast_poll_refill [OF inv poll(1)] Cons.prems(2) by simp
  obtain r l2 where polled: "rl_try_acquire t0 t1 t2 resource 1 l = (r, l2)" by fastforce
  from polled Cons.prems(1,2) same have r: "\<not> is_ok r" "rl_buckets l2 resource = Some (refill_tokens t1 b)"
    by (auto simp: rl_try_acquire_def rl_bucket_def tb_try_acquire_def rl_put_def Let_def min_def split: if_splits)
  have "fst (acquire_rate_limit resource ts l2) = None"
    by (rule Cons.IH [OF r(2) same]) (use Cons.prems rest in simp_all)
  with r t polled show ?case by (auto split: prod.splits)
qed simp

theorem client_waits_forever_witness:
  "fst (acquire_rate_limit ''openai'' (map (\<lambda>i. (of_nat i, of_nat i, of_nat i)) [1..<6])
     (rl_put ''openai'' ((tb_init 10 (1/2) 1 0)\<lparr>tb_tokens := 0\<rparr>) (fst (configure_global_rate_limiter 10 (1/2) 1)))) = None"
proof -
  let ?b = "(tb_init 10 (1/2) 1 0)\<lparr>tb_tokens := 0\<rparr>"
  have "polls 2 0 (map (\<lambda>i. (of_nat i, of_nat i, of_nat i)) [1..<6])" by (simp add: upt_rec numeral_eq_Suc)
  then show ?thesis
    by (intro client_waits_forever [of _ _ ?b]) (simp_all add: tb_init_def rl_put_def)
qed

subsection \<open>An answer and its attempts\<close>

definition same_identity :: "('p, 'm, 'c) client \<Rightarrow> ('p, 'm, 'c) client \<Rightarrow> bool" where
  "same_identity c c' \<longleftrightarrow> lc_provider_id c' = lc_provider_id c \<and> lc_model c' = lc_model c \<and> lc_api_key c' = lc_api_key c
     \<and> lc_strategy c' = lc_strategy c"

lemma attempt_identity: "attempt_stream env m ms ts os s = (r, c', w') \<Longrightarrow> same_identity (fst s) c'"
  by (cases s) (auto simp: attempt_stream_def collect_once_def refresh_provider_def same_identity_def Let_def
      split: prod.splits sum.splits if_splits option.splits)

lemma iter_attempts_identity: "same_identity c (fst (iter_world (attempt_stream env m ms ts os) n (c, w)))"
proof (induction n)
  case (Suc n)
  let ?s = "iter_world (attempt_stream env m ms ts os) n (c, w)"
  have "iter_world (attempt_stream env m ms ts os) (Suc n) (c, w) = snd (attempt_stream env m ms ts os ?s)"
    by (simp add: iter_world_def)
  with Suc attempt_identity [of env m ms ts os ?s] show ?case
    by (cases "attempt_stream env m ms ts os ?s") (auto simp: same_identity_def)
qed (simp add: same_identity_def)

lemma collect_identity:
  assumes "tenacity retrying" "collect_with_retry retrying env m ms ts os c w = (r, c', w')"
  shows "same_identity c c'"
proof -
  from assms(1) obtain n where "retrying (ry_max_attempts (lc_policy c)) (le_transient env) (attempt_stream env m ms ts os) (c, w)
      = (nth_outcome (attempt_stream env m ms ts os) (c, w) n, iter_world (attempt_stream env m ms ts os) (Suc n) (c, w))"
    unfolding tenacity_def by blast
  with assms(2) have "(c', w') = iter_world (attempt_stream env m ms ts os) (Suc n) (c, w)"
    by (simp add: collect_with_retry_def)
  with iter_attempts_identity [of c env m ms ts os "Suc n" w] show ?thesis by (metis fst_conv)
qed

definition is_finish :: "stream_event \<Rightarrow> bool" where
  "is_finish e \<longleftrightarrow> (case e of Finish d r \<Rightarrow> True | _ \<Rightarrow> False)"

definition visible :: "stream_event list \<Rightarrow> stream_event list" where
  "visible evs = takeWhile (\<lambda>e. \<not> is_finish e) evs"

definition texts_of :: "stream_event list \<Rightarrow> string list" where
  "texts_of evs = concat (map (\<lambda>e. case e of Text_delta t \<Rightarrow> [t] | _ \<Rightarrow> []) evs)"

definition calls_of :: "stream_event list \<Rightarrow> (json \<times> json) list" where
  "calls_of evs = concat (map (\<lambda>e. case e of Tool_call t i \<Rightarrow> [(t, i)] | _ \<Rightarrow> []) evs)"

fun finish_of :: "stream_event list \<Rightarrow> ((string \<times> int) list \<times> string option) option" where
  "finish_of [] = None"
| "finish_of (Finish d r # es) = Some (d, r)"
| "finish_of (e # es) = finish_of es"

lemma read_events_visible:
  "rs_texts (read_events evs s) = rs_texts s @ texts_of (visible evs)
   \<and> rs_calls (read_events evs s) = rs_calls s @ calls_of (visible evs)
   \<and> rs_usage (read_events evs s) = (case finish_of evs of Some (d, r) \<Rightarrow> if d = [] then rs_usage s else usage_of d | None \<Rightarrow> rs_usage s)
   \<and> rs_finish (read_events evs s) = (case finish_of evs of Some (d, r) \<Rightarrow> (case r of Some t \<Rightarrow> t | None \<Rightarrow> ''stop'') | None \<Rightarrow> rs_finish s)"
  by (induction evs s rule: read_events.induct)
    (simp_all add: visible_def is_finish_def texts_of_def calls_of_def split: option.splits)


text \<open>A retryer with the contract.\<close>

fun run_retrying :: "nat \<Rightarrow> (exn \<Rightarrow> bool) \<Rightarrow> ('s \<Rightarrow> 'a raising \<times> 's) \<Rightarrow> 's \<Rightarrow> 'a raising \<times> 's" where
  "run_retrying 0 transient body s = body s"
| "run_retrying (Suc k) transient body s = (case body s of
     (Inl e, s') \<Rightarrow> if transient e then run_retrying k transient body s' else (Inl e, s')
   | x \<Rightarrow> x)"

definition plain_retrying :: "'s retryer" where
  "plain_retrying k transient body s = run_retrying (nat (max 1 k) - 1) transient body s"

lemma run_retrying_spec:
  "\<exists>n \<le> k. run_retrying k transient body s = (nth_outcome body s n, iter_world body (Suc n) s)
     \<and> (\<forall>i < n. \<exists>e. nth_outcome body s i = Inl e \<and> transient e)
     \<and> (n < k \<longrightarrow> (\<forall>e. nth_outcome body s n = Inl e \<longrightarrow> \<not> transient e))"
proof (induction k arbitrary: s)
  case 0
  show ?case by (simp add: iter_world_def)
next
  case (Suc k)
  obtain o1 s1 where b: "body s = (o1, s1)" by fastforce
  show ?case
  proof (cases "\<exists>e. o1 = Inl e \<and> transient e")
    case True
    from Suc.IH [of s1] obtain n where n: "n \<le> k" "run_retrying k transient body s1 = (nth_outcome body s1 n, iter_world body (Suc n) s1)"
      "\<forall>i < n. \<exists>e. nth_outcome body s1 i = Inl e \<and> transient e" "n < k \<longrightarrow> (\<forall>e. nth_outcome body s1 n = Inl e \<longrightarrow> \<not> transient e)" by blast
    have "\<exists>e. nth_outcome body s i = Inl e \<and> transient e" if "i < Suc n" for i
      using that True n(3) b by (cases i) (simp_all add: nth_outcome_Suc)
    with n True b show ?thesis
      by (intro exI [of _ "Suc n"]) (auto simp: nth_outcome_Suc iter_world_Suc)
  next
    case False
    with b show ?thesis
      by (intro exI [of _ 0]) (auto simp: iter_world_def split: sum.splits)
  qed
qed

lemma plain_tenacity: "tenacity plain_retrying"
  unfolding tenacity_def
proof (intro allI)
  fix k :: int and transient and body :: "'s \<Rightarrow> stream_event list raising \<times> 's" and s :: 's
  from run_retrying_spec [of "nat (max 1 k) - 1" transient body s] obtain n where n: "n \<le> nat (max 1 k) - 1"
    "run_retrying (nat (max 1 k) - 1) transient body s = (nth_outcome body s n, iter_world body (Suc n) s)"
    "\<forall>i < n. \<exists>e. nth_outcome body s i = Inl e \<and> transient e"
    "n < nat (max 1 k) - 1 \<longrightarrow> (\<forall>e. nth_outcome body s n = Inl e \<longrightarrow> \<not> transient e)" by blast
  have "int n < max 1 k" using n(1) by linarith
  moreover have "int n + 1 < max 1 k \<longrightarrow> n < nat (max 1 k) - 1" by linarith
  ultimately show "\<exists>n. plain_retrying k transient body s = (nth_outcome body s n, iter_world body (Suc n) s)
     \<and> int n < max 1 k \<and> (\<forall>i < n. \<exists>e. nth_outcome body s i = Inl e \<and> transient e)
     \<and> (int n + 1 < max 1 k \<longrightarrow> (\<forall>e. nth_outcome body s n = Inl e \<longrightarrow> \<not> transient e))"
    using n by (auto simp: plain_retrying_def)
qed

text \<open>A provider whose first stream breaks off.\<close>

definition example_env :: "(unit, unit, nat, unit, nat) llm_env" where
  "example_env = \<lparr>le_valid_id = (\<lambda>_. True), le_get_provider = (\<lambda>_ _. Some ()), le_models = (\<lambda>_ w. (Inr [], w)),
     le_stream = (\<lambda>_ _ _ _ _ w. (if w = 0 then Inl (Exn ''ReadError'' ''broken'')
        else Inr [Text_delta ''Hel'', Text_delta ''lo'', Finish [(''prompt_tokens'', 3)] None, Text_delta ''late''], Suc w)),
     le_cost = (\<lambda>_ u _. nat (us_input u)), le_limits = id, le_digest = (\<lambda>f. fp_model f), le_transient = (\<lambda>e. exn_type e = ''ReadError'')\<rparr>"

definition example_client :: "(unit, unit, nat) client" where
  "example_client = \<lparr>lc_provider_id = ''openai'', lc_model = ''m'', lc_api_key = [],
     lc_policy = \<lparr>ry_max_attempts = 3, ry_base_delay = 1, ry_max_delay = 60, ry_exponential_base = 2\<rparr>,
     lc_strategy = Sharing (ev_init 1000), lc_provider = Some (), lc_model_info = Some \<lparr>mi_api_id = ''m'', mi_rest = ()\<rparr>\<rparr>"


end
