(* ===== verification/Redaction.thy ===== *)
theory Redaction
  imports Results Texts
begin

text \<open>
  The redaction of secrets of \<open>agents/review/utils/redaction.py\<close>. Its regular expressions are values of a datatype
  that has what they use of \<open>re\<close>: greedy repetitions of a character class, sequences, alternatives and negative
  assertions about the neighbouring character. \<open>rx_match\<close> is the backtracking search of the library and
  \<open>rx_sub\<close> its substitution from left to right; no pattern matches the empty text. A case insensitive pattern has its letters
  in both cases.
\<close>

subsection \<open>Regular expressions\<close>

datatype rx =
    Rep "char \<Rightarrow> bool" nat "nat option"
  | Seq rx rx
  | Alt rx rx
  | Eps
  | Not_behind "char \<Rightarrow> bool"
  | Not_ahead "char \<Rightarrow> bool"

text \<open>A position is the character before it, if there is one, and the rest of the text. \<open>rep\<close> tries the longest
  repetition first, down to \<open>lo\<close> characters.\<close>

type_synonym pos = "char option \<times> string"

definition advance :: "nat \<Rightarrow> pos \<Rightarrow> pos" where
  "advance n p = (if n = 0 then p else (Some (snd p ! (n - 1)), drop n (snd p)))"

fun rep :: "nat \<Rightarrow> nat \<Rightarrow> (pos \<Rightarrow> 'a option) \<Rightarrow> pos \<Rightarrow> 'a option" where
  "rep lo n k p = (if n < lo then None
     else case k (advance n p) of
       Some x \<Rightarrow> Some x
     | None \<Rightarrow> (case n of 0 \<Rightarrow> None | Suc m \<Rightarrow> rep lo m k p))"

declare rep.simps [simp del]

definition most :: "(char \<Rightarrow> bool) \<Rightarrow> nat option \<Rightarrow> string \<Rightarrow> nat" where
  "most cls hi s = (let n = length (takeWhile cls s) in case hi of Some h \<Rightarrow> min h n | None \<Rightarrow> n)"

primrec rx_match :: "rx \<Rightarrow> (pos \<Rightarrow> 'a option) \<Rightarrow> pos \<Rightarrow> 'a option" where
  "rx_match (Rep cls lo hi) k p = rep lo (most cls hi (snd p)) k p"
| "rx_match (Seq a b) k p = rx_match a (rx_match b k) p"
| "rx_match (Alt a b) k p = (case rx_match a k p of Some x \<Rightarrow> Some x | None \<Rightarrow> rx_match b k p)"
| "rx_match Eps k p = k p"
| "rx_match (Not_behind cls) k p = (case fst p of Some c \<Rightarrow> if cls c then None else k p | None \<Rightarrow> k p)"
| "rx_match (Not_ahead cls) k p = (case snd p of c # _ \<Rightarrow> if cls c then None else k p | [] \<Rightarrow> k p)"

text \<open>The length of the match at a position.\<close>

definition match_len :: "rx \<Rightarrow> pos \<Rightarrow> nat option" where
  "match_len r p = rx_match r (\<lambda>q. Some (length (snd p) - length (snd q))) p"

definition REDACTED :: string where "REDACTED = ''[REDACTED]''"

text \<open>\<open>pattern.sub\<close>; \<open>skip\<close> characters belong to the match before.\<close>

fun sub_from :: "rx \<Rightarrow> nat \<Rightarrow> char option \<Rightarrow> string \<Rightarrow> string" where
  "sub_from r skip prev [] = []"
| "sub_from r (Suc n) prev (c # cs) = sub_from r n (Some c) cs"
| "sub_from r 0 prev (c # cs) = (case match_len r (prev, c # cs) of
     Some (Suc n) \<Rightarrow> REDACTED @ sub_from r n (Some c) cs
   | _ \<Rightarrow> c # sub_from r 0 (Some c) cs)"

definition rx_sub :: "rx \<Rightarrow> string \<Rightarrow> string" where
  "rx_sub r s = sub_from r 0 None s"

subsection \<open>The patterns\<close>

definition in_range :: "nat \<Rightarrow> nat \<Rightarrow> char \<Rightarrow> bool" where
  "in_range a b c = (let n = of_char c :: nat in a \<le> n \<and> n \<le> b)"

definition upper :: "char \<Rightarrow> bool" where "upper = in_range 65 90"
definition lower :: "char \<Rightarrow> bool" where "lower = in_range 97 122"
definition digit :: "char \<Rightarrow> bool" where "digit = in_range 48 57"
definition alnum :: "char \<Rightarrow> bool" where "alnum c \<longleftrightarrow> upper c \<or> lower c \<or> digit c"
definition one_of :: "string \<Rightarrow> char \<Rightarrow> bool" where "one_of s c \<longleftrightarrow> c \<in> set s"
definition none_of :: "string \<Rightarrow> char \<Rightarrow> bool" where "none_of s c \<longleftrightarrow> c \<notin> set s"
definition hexdigit :: "char \<Rightarrow> bool" where "hexdigit c \<longleftrightarrow> digit c \<or> in_range 97 102 c \<or> in_range 65 70 c"
definition base64 :: "char \<Rightarrow> bool" where "base64 c \<longleftrightarrow> alnum c \<or> one_of ''+/'' c"
definition same_letter :: "char \<Rightarrow> char \<Rightarrow> bool" where "same_letter a c \<longleftrightarrow> lower_char c = a"

definition seq :: "rx list \<Rightarrow> rx" where "seq rs = foldr Seq rs Eps"
definition alt :: "rx list \<Rightarrow> rx" where "alt rs = foldr Alt (butlast rs) (last rs)"
definition one :: "(char \<Rightarrow> bool) \<Rightarrow> rx" where "one cls = Rep cls 1 (Some 1)"
definition maybe :: "(char \<Rightarrow> bool) \<Rightarrow> rx" where "maybe cls = Rep cls 0 (Some 1)"
definition lit :: "string \<Rightarrow> rx" where "lit s = seq (map (\<lambda>a. one ((=) a)) s)"
definition ilit :: "string \<Rightarrow> rx" where "ilit s = seq (map (\<lambda>a. one (same_letter a)) s)"

abbreviation quotes :: string where "quotes \<equiv> [CHR 0x27, CHR 0x22]"

definition secret_patterns :: "rx list" where
  "secret_patterns =
    [seq [lit ''AKIA'', Rep (\<lambda>c. upper c \<or> digit c) 16 (Some 16)],
     seq [lit ''gh'', one (one_of ''posur''), lit ''_'', Rep alnum 36 None],
     seq [lit ''sk-'', Rep alnum 20 None],
     seq [lit ''sk_'', alt [lit ''live'', lit ''test''], lit ''_'', Rep alnum 24 None],
     seq [lit ''xox'', one (one_of ''baprs''), lit ''-'', Rep digit 10 None, lit ''-'', Rep digit 10 None, lit ''-'', Rep alnum 24 (Some 24)],
     seq [lit ''https://hooks.slack.com/services/T'', Rep (\<lambda>c. upper c \<or> digit c) 8 None, lit ''/B'', Rep (\<lambda>c. upper c \<or> digit c) 8 None,
       lit ''/'', Rep alnum 24 (Some 24)],
     seq [lit ''eyJ'', Rep (\<lambda>c. alnum c \<or> one_of ''_-'' c) 0 None, lit ''.eyJ'', Rep (\<lambda>c. alnum c \<or> one_of ''_-'' c) 0 None,
       lit ''.'', Rep (\<lambda>c. alnum c \<or> one_of ''_-'' c) 0 None],
     seq [ilit ''bearer'', Rep is_space 1 None, Rep (\<lambda>c. alnum c \<or> one_of ''._-'' c) 20 None],
     seq [alt [seq [ilit ''api'', maybe (one_of ''_-''), ilit ''key''], ilit ''token'', seq [ilit ''access'', maybe (one_of ''_-''), ilit ''key'']],
       Rep is_space 0 None, one (one_of ''=:''), Rep is_space 0 None, maybe (one_of quotes),
       Rep (\<lambda>c. alnum c \<or> one_of ''_-'' c) 16 None, maybe (one_of quotes)],
     seq [ilit ''password'', Rep is_space 0 None, one (one_of ''=:''), Rep is_space 0 None, maybe (one_of quotes),
       Rep (\<lambda>c. \<not> is_space c \<and> none_of quotes c) 8 None, maybe (one_of quotes)],
     seq [alt (map ilit [''mysql'', ''postgres'', ''postgresql'', ''mongodb'', ''redis'']), lit ''://'', Rep (none_of '':'') 1 None, lit '':'',
       Rep (none_of ''@'') 1 None, lit ''@'', Rep (\<lambda>c. \<not> is_space c) 1 None],
     seq [lit ''-----BEGIN'', Rep is_space 1 None, Alt (Seq (lit ''RSA'') (Rep is_space 1 None)) Eps, lit ''PRIVATE'', Rep is_space 1 None, lit ''KEY-----''],
     seq [lit ''-----END'', Rep is_space 1 None, Alt (Seq (lit ''RSA'') (Rep is_space 1 None)) Eps, lit ''PRIVATE'', Rep is_space 1 None, lit ''KEY-----''],
     seq [Not_behind hexdigit, Rep hexdigit 32 None, Not_ahead hexdigit],
     seq [Not_behind (\<lambda>c. alnum c \<or> one_of ''+/='' c), Rep base64 40 None, Rep (one_of ''='') 0 (Some 2), Not_ahead (\<lambda>c. alnum c \<or> one_of ''+/='' c)]]"

definition redact_secrets :: "string \<Rightarrow> string" where
  "redact_secrets s = (if s = [] then s else fold rx_sub secret_patterns s)"

subsection \<open>Dictionaries and lists\<close>

definition sensitive_words :: "string list" where
  "sensitive_words = [''password'', ''passwd'', ''pwd'', ''secret'', ''token'', ''apikey'', ''accesskey'', ''secretkey'', ''bearer'', ''privatekey'']"

definition is_sensitive_key :: "string \<Rightarrow> bool" where
  "is_sensitive_key key = (let k = str_lower key in
     if k \<in> set sensitive_words then True
     else list_ex (\<lambda>w. contains (''_'' @ w @ ''_'') (''_'' @ k @ ''_''))
       [''api_key'', ''secret_key'', ''access_key'', ''private_key'', ''auth'', ''credential''])"

text \<open>\<open>redact_dict\<close> and \<open>redact_list\<close> call each other; both return a value of another type as it is.\<close>

fun redact_value :: "json \<Rightarrow> json" where
  "redact_value (JObj kvs) = JObj (map (\<lambda>kv. (fst kv, if is_sensitive_key (fst kv) then JStr REDACTED else redact_value (snd kv))) kvs)"
| "redact_value (JArr xs) = JArr (map redact_value xs)"
| "redact_value (JStr s) = JStr (redact_secrets s)"
| "redact_value j = j"

definition redact_dict :: "json \<Rightarrow> json" where
  "redact_dict j = (case j of JObj kvs \<Rightarrow> redact_value j | _ \<Rightarrow> j)"

definition redact_list :: "json \<Rightarrow> json" where
  "redact_list j = (case j of JArr xs \<Rightarrow> redact_value j | _ \<Rightarrow> j)"

text \<open>\<open>format_log_with_redaction\<close>; \<open>str\<close> of another value is a parameter.\<close>

definition redacted_text :: "(json \<Rightarrow> string) \<Rightarrow> json \<Rightarrow> string" where
  "redacted_text str v = (case v of JStr s \<Rightarrow> redact_secrets s | _ \<Rightarrow> str (redact_value v))"

definition format_log :: "(json \<Rightarrow> string) \<Rightarrow> string \<Rightarrow> string option \<Rightarrow> (string \<times> json) list \<Rightarrow> string" where
  "format_log str message level kwargs =
     str_join '' | '' ((case level of Some (c # cs) \<Rightarrow> [''['' @ (c # cs) @ '']''] | _ \<Rightarrow> []) @ [redact_secrets message]
       @ map (\<lambda>kv. fst kv @ ''='' @ redacted_text str (snd kv)) kwargs)"


subsection \<open>The search finds what the pattern describes\<close>

text \<open>The words of a pattern; \<open>plain\<close>: it has no assertions, so that a match does not depend on what is around it.\<close>

fun lang :: "rx \<Rightarrow> string set" where
  "lang (Rep cls lo hi) = {w. list_all cls w \<and> lo \<le> length w \<and> (case hi of Some h \<Rightarrow> length w \<le> h | None \<Rightarrow> True)}"
| "lang (Seq a b) = {u @ v |u v. u \<in> lang a \<and> v \<in> lang b}"
| "lang (Alt a b) = lang a \<union> lang b"
| "lang Eps = {[]}"
| "lang (Not_behind cls) = {[]}"
| "lang (Not_ahead cls) = {[]}"

fun plain :: "rx \<Rightarrow> bool" where
  "plain (Seq a b) = (plain a \<and> plain b)"
| "plain (Alt a b) = (plain a \<and> plain b)"
| "plain (Not_behind cls) = False"
| "plain (Not_ahead cls) = False"
| "plain r = True"

lemma advance_simps [simp]: "advance 0 p = p" "snd (advance n p) = drop n (snd p)"
  by (simp_all add: advance_def)

lemma advance_append: "advance (length w) (prev, w @ s) = ((if w = [] then prev else Some (last w)), s)"
  by (auto simp: advance_def nth_append last_conv_nth)

lemma advance_advance: "m + n \<le> length (snd p) \<Longrightarrow> advance n (advance m p) = advance (m + n) p"
  by (cases n) (auto simp: advance_def add.commute)

lemma rep_Some: "rep lo n k p = Some x \<Longrightarrow> \<exists>m. lo \<le> m \<and> m \<le> n \<and> k (advance m p) = Some x"
proof (induction n)
  case 0
  then show ?case by (subst (asm) rep.simps) (auto split: if_splits option.splits)
next
  case (Suc n)
  have unfold: "rep lo (Suc n) k p = (if Suc n < lo then None else case k (advance (Suc n) p) of Some x \<Rightarrow> Some x | None \<Rightarrow> rep lo n k p)"
    by (subst rep.simps) (simp cong: option.case_cong)
  with Suc.prems have "lo \<le> Suc n" "k (advance (Suc n) p) = Some x \<or> rep lo n k p = Some x"
    by (auto split: if_splits option.splits)
  with Suc.IH show ?case by (metis le_SucI order_refl)
qed

lemma rep_found: "lo \<le> m \<Longrightarrow> m \<le> n \<Longrightarrow> k (advance m p) \<noteq> None \<Longrightarrow> rep lo n k p \<noteq> None"
proof (induction n)
  case 0
  then show ?case by (subst rep.simps) auto
next
  case (Suc n)
  show ?case
  proof (cases "m = Suc n")
    case True
    with Suc.prems show ?thesis by (subst rep.simps) auto
  next
    case False
    with Suc have "rep lo n k p \<noteq> None" by simp
    with Suc.prems show ?thesis by (subst rep.simps) (auto split: option.splits)
  qed
qed

lemma most_le: "most cls hi s \<le> length s" "n \<le> most cls hi s \<Longrightarrow> list_all cls (take n s)"
  "n \<le> most cls hi s \<Longrightarrow> (case hi of Some h \<Rightarrow> n \<le> h | None \<Rightarrow> True)"
proof -
  have t: "length (takeWhile cls s) \<le> length s" by (rule length_takeWhile_le)
  show "most cls hi s \<le> length s" using t by (auto simp: most_def Let_def split: option.splits)
  have "n \<le> length (takeWhile cls s) \<Longrightarrow> list_all cls (take n s)"
    by (metis (no_types, lifting) list_all_iff set_takeWhileD subsetD set_take_subset takeWhile_eq_take min.absorb1 take_take)
  then show "n \<le> most cls hi s \<Longrightarrow> list_all cls (take n s)" by (auto simp: most_def Let_def split: option.splits)
  show "n \<le> most cls hi s \<Longrightarrow> (case hi of Some h \<Rightarrow> n \<le> h | None \<Rightarrow> True)" by (auto simp: most_def Let_def split: option.splits)
qed

lemma most_ge: "list_all cls w \<Longrightarrow> (case hi of Some h \<Rightarrow> length w \<le> h | None \<Rightarrow> True) \<Longrightarrow> length w \<le> most cls hi (w @ s)"
  by (auto simp: most_def Let_def list_all_iff takeWhile_append split: option.splits)

lemma rx_match_sound:
  "rx_match r k p = Some x \<Longrightarrow> \<exists>n \<le> length (snd p). take n (snd p) \<in> lang r \<and> k (advance n p) = Some x"
proof (induction r arbitrary: k p)
  case (Rep cls lo hi)
  then obtain m where m: "lo \<le> m" "m \<le> most cls hi (snd p)" "k (advance m p) = Some x" using rep_Some by fastforce
  with most_le(1) [of cls hi "snd p"] most_le(2,3) [where n = m and cls = cls and hi = hi and s = "snd p"] show ?case
    by (intro exI [of _ m]) (cases hi; simp)
next
  case (Seq a b)
  from Seq.IH(1) [of "rx_match b k" p] Seq.prems obtain m where m: "m \<le> length (snd p)" "take m (snd p) \<in> lang a"
    "rx_match b k (advance m p) = Some x" by auto
  from Seq.IH(2) [OF m(3)] obtain n where n: "n \<le> length (snd p) - m" "take n (drop m (snd p)) \<in> lang b" "k (advance n (advance m p)) = Some x"
    by auto
  have "take (m + n) (snd p) = take m (snd p) @ take n (drop m (snd p))" by (simp add: take_add)
  with m n show ?case by (intro exI [of _ "m + n"]) (auto simp: advance_advance)
next
  case (Alt a b)
  then have "rx_match a k p = Some x \<or> rx_match b k p = Some x" by (auto split: option.splits)
  with Alt.IH [of k p] show ?case by auto
qed (auto split: option.splits if_splits list.splits)

lemma rx_match_complete:
  "plain r \<Longrightarrow> w \<in> lang r \<Longrightarrow> k (advance (length w) (prev, w @ s)) \<noteq> None \<Longrightarrow> rx_match r k (prev, w @ s) \<noteq> None"
proof (induction r arbitrary: w k prev s)
  case (Rep cls lo hi)
  then have "lo \<le> length w" "length w \<le> most cls hi (w @ s)" by (auto intro: most_ge)
  then show ?case unfolding rx_match.simps snd_conv by (rule rep_found) (rule Rep.prems(3))
next
  case (Seq a b)
  then obtain u v where w: "w = u @ v" "u \<in> lang a" "v \<in> lang b" by auto
  have "k (advance (length v) (advance (length u) (prev, u @ v @ s))) \<noteq> None"
    using Seq.prems(3) w(1) by (simp add: advance_advance)
  then have "rx_match b k (advance (length u) (prev, u @ v @ s)) \<noteq> None"
    unfolding advance_append [of u] by (intro Seq.IH(2)) (use Seq.prems(1) w(3) in auto)
  with Seq.IH(1) [of u "rx_match b k" prev "v @ s"] Seq.prems(1) w show ?case by simp
next
  case (Alt a b)
  have "rx_match a k (prev, w @ s) \<noteq> None \<or> rx_match b k (prev, w @ s) \<noteq> None"
    using Alt.prems Alt.IH [of w k prev s] by auto
  then show ?case by (auto split: option.splits)
qed auto

lemma match_len_sound: "match_len r p = Some n \<Longrightarrow> n \<le> length (snd p) \<and> take n (snd p) \<in> lang r"
  unfolding match_len_def by (drule rx_match_sound) auto

lemma match_len_complete: "plain r \<Longrightarrow> w \<in> lang r \<Longrightarrow> match_len r (prev, w @ s) \<noteq> None"
  unfolding match_len_def by (rule rx_match_complete) auto

text \<open>An occurrence of a plain pattern in a text is found by the search.\<close>

definition occurs :: "rx \<Rightarrow> string \<Rightarrow> bool" where
  "occurs r s = list_ex (\<lambda>n. match_len r (None, drop n s) \<noteq> None) [0..<Suc (length s)]"

lemma occurs_complete:
  assumes "plain r" "w \<in> lang r" "contains w s"
  shows "occurs r s"
proof -
  from assms(3) obtain a b where "s = a @ w @ b" by (rule containsE)
  then have "match_len r (None, drop (length a) s) \<noteq> None" "length a < Suc (length s)"
    using match_len_complete [OF assms(1,2)] by auto
  then show ?thesis unfolding occurs_def list_ex_iff by (intro bexI [of _ "length a"]) auto
qed

subsection \<open>What a substitution removes, and that it adds nothing\<close>

definition unmarked :: "string \<Rightarrow> bool" where
  "unmarked w \<longleftrightarrow> CHR ''['' \<notin> set w \<and> CHR '']'' \<notin> set w"

lemma unmarked_Cons [simp]: "unmarked (c # w) \<longleftrightarrow> c \<noteq> CHR ''['' \<and> c \<noteq> CHR '']'' \<and> unmarked w"
  by (auto simp: unmarked_def)

lemma prefix_redacted: "prefix w (REDACTED @ s) \<Longrightarrow> unmarked w \<Longrightarrow> w = []"
  by (cases w) (auto simp: REDACTED_def)

lemma contains_redacted:
  assumes "contains w (REDACTED @ s)" "unmarked w"
  shows "contains w ''REDACTED'' \<or> contains w s"
proof -
  have "contains w ([] @ CHR ''['' # (''REDACTED'' @ CHR '']'' # s))" using assms(1) by (simp add: REDACTED_def)
  from contains_split [OF this] assms(2) have "w = [] \<or> contains w (''REDACTED'' @ CHR '']'' # s)"
    by (cases w) (auto simp: unmarked_def)
  then show ?thesis using contains_split [of w "''REDACTED''" "CHR '']''" s] assms(2) by (auto simp: unmarked_def)
qed

lemma sub_step:
  obtains (hit) n where "match_len r (prev, c # cs) = Some (Suc n)" "sub_from r 0 prev (c # cs) = REDACTED @ sub_from r n (Some c) cs"
  | (pass) "\<And>n. match_len r (prev, c # cs) \<noteq> Some (Suc n)" "sub_from r 0 prev (c # cs) = c # sub_from r 0 (Some c) cs"
  by (cases "match_len r (prev, c # cs)"; cases "the (match_len r (prev, c # cs))") auto

lemma prefix_sub: "prefix w (sub_from r 0 prev s) \<Longrightarrow> unmarked w \<Longrightarrow> prefix w s"
proof (induction s arbitrary: prev w)
  case (Cons c cs)
  show ?case
  proof (cases w)
    case w: (Cons a v)
    show ?thesis
    proof (cases rule: sub_step [of r prev c cs])
      case (hit n)
      with Cons.prems prefix_redacted [of w] w show ?thesis by fastforce
    next
      case pass
      with Cons.prems w have "a = c" "prefix v (sub_from r 0 (Some c) cs)" "unmarked v" by simp_all
      with Cons.IH [of v] w show ?thesis by simp
    qed
  qed simp
qed simp

lemma contains_Cons: "contains w (c # s) \<longleftrightarrow> prefix w (c # s) \<or> contains w s"
  by (cases w) simp_all

lemma contains_sub:
  "contains w (sub_from r n prev s) \<Longrightarrow> unmarked w \<Longrightarrow> contains w ''REDACTED'' \<or> contains w s"
proof (induction s arbitrary: n prev)
  case (Cons c cs)
  show ?case
  proof (cases n)
    case (Suc m)
    with Cons show ?thesis by (simp only: sub_from.simps contains_Cons) blast
  next
    case 0
    show ?thesis
    proof (cases rule: sub_step [of r prev c cs])
      case (hit m)
      with Cons.prems 0 have "contains w ''REDACTED'' \<or> contains w (sub_from r m (Some c) cs)"
        using contains_redacted by metis
      with Cons.IH Cons.prems(2) show ?thesis unfolding contains_Cons by blast
    next
      case pass
      with Cons.prems 0 prefix_sub [of w r prev "c # cs"] have "prefix w (c # cs) \<or> contains w (sub_from r 0 (Some c) cs)"
        by (simp only: contains_Cons) blast
      with Cons.IH Cons.prems(2) show ?thesis unfolding contains_Cons by blast
    qed
  qed
qed (simp add: contains_def)

text \<open>A pattern whose words are recognised anywhere, are not empty, do not touch the marker and do not occur in it.\<close>

locale secret =
  fixes r :: rx
  assumes plain: "plain r" and not_in_marker: "\<not> occurs r ''REDACTED''" and words: "\<And>w. w \<in> lang r \<Longrightarrow> unmarked w"
begin

lemma not_redacted: "w \<in> lang r \<Longrightarrow> \<not> contains w ''REDACTED''"
  using occurs_complete [OF plain] not_in_marker by blast

lemma not_empty: "w \<in> lang r \<Longrightarrow> w \<noteq> []"
  using not_redacted by fastforce

lemma removed_prefix:
  assumes "w \<in> lang r"
  shows "\<not> prefix w (sub_from r 0 prev s)"
proof
  assume pre: "prefix w (sub_from r 0 prev s)"
  have "prefix w s" by (rule prefix_sub [OF pre words [OF assms]])
  then obtain t where s: "s = w @ t" by (auto simp: prefix_def)
  obtain n where n: "match_len r (prev, s) = Some n" using match_len_complete [OF plain assms] s by blast
  then have "n \<noteq> 0" using match_len_sound [OF n] not_empty by (cases n) auto
  then obtain m c cs where "n = Suc m" "s = c # cs" using s not_empty [OF assms] by (metis not0_implies_Suc append_is_Nil_conv neq_Nil_conv)
  with n pre prefix_redacted [OF _ words [OF assms]] not_empty [OF assms] show False by auto
qed

lemma removed_from: "w \<in> lang r \<Longrightarrow> \<not> contains w (sub_from r n prev s)"
proof (induction s arbitrary: n prev)
  case Nil
  then show ?case using not_empty by (simp add: contains_def)
next
  case (Cons c cs)
  show ?case
  proof (cases n)
    case (Suc m)
    with Cons show ?thesis by simp
  next
    case 0
    show ?thesis
    proof (cases rule: sub_step [of r prev c cs])
      case (hit m)
      with Cons 0 contains_redacted [OF _ words [OF Cons.prems]] not_redacted [OF Cons.prems] show ?thesis by metis
    next
      case pass
      with Cons 0 removed_prefix [OF Cons.prems, of prev "c # cs"] show ?thesis by (simp only: contains_Cons) blast
    qed
  qed
qed

lemma removed: "w \<in> lang r \<Longrightarrow> \<not> contains w (rx_sub r s)"
  unfolding rx_sub_def by (rule removed_from)

lemma stays_removed: "w \<in> lang r \<Longrightarrow> \<not> contains w s \<Longrightarrow> \<not> contains w (fold rx_sub rs s)"
proof (induction rs arbitrary: s)
  case (Cons q rs)
  have "\<not> contains w (rx_sub q s)"
    using contains_sub [of w q 0 None s] words not_redacted Cons.prems by (auto simp: rx_sub_def)
  with Cons show ?case by simp
qed simp

lemma fold_removed: "w \<in> lang r \<Longrightarrow> r \<in> set rs \<Longrightarrow> \<not> contains w (fold rx_sub rs s)"
  by (induction rs arbitrary: s) (auto simp: stays_removed removed)

end

text \<open>The conditions are evaluated for the patterns.\<close>

fun marks_free :: "rx \<Rightarrow> bool" where
  "marks_free (Rep cls lo hi) = (\<not> cls CHR ''['' \<and> \<not> cls CHR '']'')"
| "marks_free (Seq a b) = (marks_free a \<and> marks_free b)"
| "marks_free (Alt a b) = (marks_free a \<and> marks_free b)"
| "marks_free r = True"

lemma marks_free_words: "marks_free r \<Longrightarrow> w \<in> lang r \<Longrightarrow> unmarked w"
  by (induction r arbitrary: w) (auto simp: unmarked_def list_all_iff)

definition secret_ok :: "rx \<Rightarrow> bool" where
  "secret_ok r \<longleftrightarrow> plain r \<and> \<not> occurs r ''REDACTED'' \<and> marks_free r"

lemma secretI: "secret_ok r \<Longrightarrow> secret r"
  by unfold_locales (auto simp: secret_ok_def marks_free_words)

definition removable :: "nat list" where
  "removable = [0, 1, 2, 3, 4, 5, 6, 7, 8, 11, 12]"

lemma removable_ok: "list_all (\<lambda>i. i < length secret_patterns \<and> secret_ok (secret_patterns ! i)) removable"
  by code_simp

interpretation aws_key: secret "secret_patterns ! 0"
  using removable_ok by (intro secretI) (simp add: removable_def)

text \<open>The texts of a value; the keys of a dictionary are not among them.\<close>

fun json_texts :: "json \<Rightarrow> string list" where
  "json_texts (JStr s) = [s]"
| "json_texts (JArr xs) = concat (map json_texts xs)"
| "json_texts (JObj kvs) = concat (map (\<lambda>kv. json_texts (snd kv)) kvs)"
| "json_texts j = []"

lemma redacted_texts: "t \<in> set (json_texts (redact_value j)) \<Longrightarrow> t = REDACTED \<or> (\<exists>s. t = redact_secrets s)"
  by (induction j rule: redact_value.induct) (auto split: if_splits)

lemma redact_secrets_removes:
  assumes "i \<in> set removable" "w \<in> lang (secret_patterns ! i)"
  shows "\<not> contains w (redact_secrets s)" "\<not> contains w REDACTED"
proof -
  from assms(1) removable_ok have i: "secret (secret_patterns ! i)" "secret_patterns ! i \<in> set secret_patterns"
    by (auto simp: list_all_iff intro!: secretI)
  show "\<not> contains w (redact_secrets s)"
    using secret.fold_removed [OF i(1) assms(2) i(2)] secret.not_empty [OF i(1) assms(2)]
    by (auto simp: redact_secrets_def contains_def)
  show "\<not> contains w REDACTED"
    using contains_redacted [of w "[]"] secret.words [OF i(1) assms(2)] secret.not_redacted [OF i(1) assms(2)] secret.not_empty [OF i(1) assms(2)]
    by (auto simp: contains_def)
qed

lemma fold_adds_nothing:
  "unmarked u \<Longrightarrow> contains u (fold rx_sub rs s) \<Longrightarrow> contains u ''REDACTED'' \<or> contains u s"
proof (induction rs arbitrary: s)
  case (Cons r rs)
  then have "contains u ''REDACTED'' \<or> contains u (rx_sub r s)" by simp
  with Cons.prems(1) contains_sub [of u r 0 None s] show ?case by (auto simp: rx_sub_def)
qed simp

lemma seq_lang: "u \<in> lang a \<Longrightarrow> v \<in> lang (seq rs) \<Longrightarrow> u @ v \<in> lang (seq (a # rs))" "[] \<in> lang (seq [])"
  by (auto simp: seq_def)

lemma lit_lang: "s \<in> lang (lit s)"
proof (induction s)
  case (Cons a s)
  have "[a] \<in> lang (one ((=) a))" by (simp add: one_def)
  from seq_lang(1) [OF this] Cons show ?case by (simp add: lit_def)
qed (simp add: lit_def seq_lang)

lemma redaction_removes_secrets_facts:
  assumes "i \<in> set removable" "w \<in> lang (secret_patterns ! i)"
  shows "\<not> contains w (redact_secrets s)" "t \<in> set (json_texts (redact_value j)) \<Longrightarrow> \<not> contains w t"
    and "unmarked u \<Longrightarrow> contains u (redact_secrets s) \<Longrightarrow> contains u ''REDACTED'' \<or> contains u s"
  using redact_secrets_removes [OF assms] redacted_texts [of t j] apply blast
  using redact_secrets_removes [OF assms] redacted_texts [of t j] apply blast
  using fold_adds_nothing [of u secret_patterns s] by (simp add: redact_secrets_def split: if_splits)



text \<open>The keys that are looked for are whole: a longer name of a token or a password is not sensitive, so its value is kept.\<close>

lemma access_token_kept:
  "\<not> is_sensitive_key ''access_token''" "\<not> is_sensitive_key ''db_password''" "is_sensitive_key ''API_KEY''"
  "redact_dict (JObj [(''access_token'', JStr ''hunter2''), (''token'', JStr ''hunter2'')])
     = JObj [(''access_token'', JStr ''hunter2''), (''token'', JStr REDACTED)]"
  by code_simp+

end
