(* ===== verification/InputValidation.thy ===== *)
theory InputValidation
  imports Texts "HOL-Library.List_Lexorder" "HOL-Library.Char_ord"
begin

text \<open>
  The checks of \<open>core/security/input_validation.py\<close>: paths, commands, patterns, git hashes and URLs, and the two
  decorators. Every rejection is an exception \<open>SecurityError\<close>. \<open>shlex.split\<close> is the state machine of the standard
  library in its POSIX mode without comments. Resolving a path reads the file system and is a parameter.
\<close>

definition refuse :: "string \<Rightarrow> 'a raising" where
  "refuse msg = Inl (Exn ''SecurityError'' msg)"

lemma refuse_not [simp]: "refuse m \<noteq> Inr x" "Inr x \<noteq> refuse m"
  by (simp_all add: refuse_def)

subsection \<open>Paths\<close>

text \<open>What the path library and the file system answer: the names of the absolute path a text resolves to, or the
  exception of the resolution; \<open>Inr\<close> of the base directory.\<close>

definition path_is_absolute :: "string \<Rightarrow> bool" where
  "path_is_absolute s = prefix ''/'' s"

definition safe_path :: "(string \<Rightarrow> string list raising) \<Rightarrow> string \<Rightarrow> string list raising option \<Rightarrow> bool \<Rightarrow> string list raising" where
  "safe_path resolve s base allow_absolute =
     (if s = [] then refuse ''Path cannot be empty''
      else if contains ''..'' s \<or> contains (CHR 0x5C # ''..'') s then refuse (''Path traversal detected: '' @ s)
      else if contains [CHR 0x00] s then refuse (''Null byte detected in path: '' @ s)
      else case resolve s of
        Inl e \<Rightarrow> if exn_type e \<in> {''OSError'', ''RuntimeError''} then refuse (''Invalid path: '' @ s) else Inl e
      | Inr resolved \<Rightarrow>
          if path_is_absolute s \<and> \<not> allow_absolute then (case base of
              None \<Rightarrow> refuse (''Absolute path not allowed: '' @ s)
            | Some (Inl e) \<Rightarrow> Inl e
            | Some (Inr b) \<Rightarrow> if prefix b resolved then Inr resolved else refuse (''Absolute path not allowed: '' @ s))
          else Inr resolved)"

subsection \<open>The lexer of a command line\<close>

definition QUOTE :: char where "QUOTE = CHR 0x27"
definition DQUOTE :: char where "DQUOTE = CHR 0x22"
definition BACKSLASH :: char where "BACKSLASH = CHR 0x5C"

definition is_blank :: "char \<Rightarrow> bool" where
  "is_blank c \<longleftrightarrow> c \<in> {CHR '' '', CHR 0x09, CHR 0x0D, CHR 0x0A}"

definition is_quote :: "char \<Rightarrow> bool" where
  "is_quote c \<longleftrightarrow> c = QUOTE \<or> c = DQUOTE"

text \<open>The states: between tokens, in a word, in quotes, after a backslash with the quote it stands in.\<close>

datatype lex_state = Between | In_word | In_quotes char | Escaped "char option"

text \<open>The token read so far is kept with the flag that a part of it was quoted; an unquoted empty token is not emitted.\<close>

definition emit :: "string \<Rightarrow> bool \<Rightarrow> string list" where
  "emit token quoted = (if token \<noteq> [] \<or> quoted then [token] else [])"

fun lex :: "lex_state \<Rightarrow> string \<Rightarrow> bool \<Rightarrow> string \<Rightarrow> string list raising" where
  "lex Between token quoted [] = Inr (emit token quoted)"
| "lex In_word token quoted [] = Inr (emit token quoted)"
| "lex (In_quotes q) token quoted [] = Inl (Exn ''ValueError'' ''No closing quotation'')"
| "lex (Escaped q) token quoted [] = Inl (Exn ''ValueError'' ''No escaped character'')"
| "lex Between token quoted (c # cs) =
     (if is_blank c then (if token \<noteq> [] \<or> quoted then map_sum id ((#) token) (lex Between [] False cs) else lex Between [] False cs)
      else if c = BACKSLASH then lex (Escaped None) token quoted cs
      else if is_quote c then lex (In_quotes c) token quoted cs
      else lex In_word [c] quoted cs)"
| "lex In_word token quoted (c # cs) =
     (if is_blank c then map_sum id (\<lambda>ts. emit token quoted @ ts) (lex Between [] False cs)
      else if is_quote c then lex (In_quotes c) token quoted cs
      else if c = BACKSLASH then lex (Escaped None) token quoted cs
      else lex In_word (token @ [c]) quoted cs)"
| "lex (In_quotes q) token quoted (c # cs) =
     (if c = q then lex In_word token True cs
      else if c = BACKSLASH \<and> q = DQUOTE then lex (Escaped (Some q)) token True cs
      else lex (In_quotes q) (token @ [c]) True cs)"
| "lex (Escaped (Some q)) token quoted (c # cs) =
     (if c \<noteq> BACKSLASH \<and> c \<noteq> q then lex (In_quotes q) (token @ [BACKSLASH, c]) quoted cs
      else lex (In_quotes q) (token @ [c]) quoted cs)"
| "lex (Escaped None) token quoted (c # cs) = lex In_word (token @ [c]) quoted cs"

definition shlex_split :: "string \<Rightarrow> string list raising" where
  "shlex_split s = lex Between [] False s"

subsection \<open>Commands\<close>

definition injection_patterns :: "string list" where
  "injection_patterns = ['';'', ''&'', ''|'', ''&&'', ''||'', ''>'', ''<'', ''`'', ''$('', ''$`'', [CHR 0x0A], [CHR 0x0D]]"

definition is_letter :: "char \<Rightarrow> bool" where
  "is_letter c = (let n = of_char c :: nat in 65 \<le> n \<and> n \<le> 90 \<or> 97 \<le> n \<and> n \<le> 122)"

definition is_name_char :: "char \<Rightarrow> bool" where
  "is_name_char c = (let n = of_char c :: nat in is_letter c \<or> 48 \<le> n \<and> n \<le> 57 \<or> c = CHR ''_'' \<or> c = CHR ''-'')"

text \<open>The pattern \<open>^[a-zA-Z][a-zA-Z0-9_-]*$\<close>; the dollar also matches before a newline at the end.\<close>

definition chomp :: "string \<Rightarrow> string" where
  "chomp s = (if s \<noteq> [] \<and> last s = CHR 0x0A then butlast s else s)"

definition plain_name :: "string \<Rightarrow> bool" where
  "plain_name s = (case chomp s of [] \<Rightarrow> False | c # cs \<Rightarrow> is_letter c \<and> list_all is_name_char cs)"

definition suspicious :: "string \<Rightarrow> bool" where
  "suspicious arg \<longleftrightarrow> contains ''--'' arg \<and> list_ex (\<lambda>c. c \<in> set arg) [CHR '';'', CHR ''|'', CHR ''&'', CHR ''$'']"

text \<open>\<open>metachars\<close>: whether the environment variable that allows metacharacters has its default. The set of the
  allowed commands is a list.\<close>

definition validate_command :: "bool \<Rightarrow> string \<Rightarrow> string list option \<Rightarrow> string list raising" where
  "validate_command metachars command allowed_commands =
     (if command = [] then refuse ''Command cannot be empty''
      else case (if metachars then None else find (\<lambda>p. contains p command) injection_patterns) of
        Some p \<Rightarrow> refuse (''Shell metacharacter '' @ [QUOTE] @ p @ [QUOTE] @ '' not allowed in command: '' @ command)
      | None \<Rightarrow> (case shlex_split command of
          Inl e \<Rightarrow> refuse (''Invalid command syntax: '' @ command)
        | Inr [] \<Rightarrow> refuse ''Command produced no tokens''
        | Inr (cmd # args) \<Rightarrow>
            if (case allowed_commands of None \<Rightarrow> \<not> plain_name cmd | Some cs \<Rightarrow> cmd \<notin> set cs)
            then (case allowed_commands of
                None \<Rightarrow> refuse (''Command name must be alphanumeric: '' @ cmd @ ''. Use allowed_commands to explicitly permit specific commands.'')
              | Some cs \<Rightarrow> refuse (''Command not in allowlist: '' @ cmd @ ''. Allowed: '' @ str_join '', '' (sort (remdups cs))))
            else case find suspicious args of
                Some arg \<Rightarrow> refuse (''Suspicious argument detected: '' @ arg)
              | None \<Rightarrow> Inr (cmd # args)))"

subsection \<open>Patterns, hashes and addresses\<close>

definition literal_dangerous :: "string list" where
  "literal_dangerous = [''(?R)'', ''(?0)'', ''(.*?){100,}'', ''(.+?){100,}'', ''){100,}'', ''){50,}'']"

definition validate_pattern :: "string \<Rightarrow> int \<Rightarrow> string raising" where
  "validate_pattern pattern max_length =
     (if pattern = [] then refuse ''Pattern cannot be empty''
      else if max_length < int (length pattern)
        then refuse (''Pattern exceeds maximum length of '' @ str_int max_length @ '': '' @ str_nat (length pattern))
      else if list_ex (\<lambda>d. contains d pattern) literal_dangerous
        then refuse (''Pattern contains dangerous construct (ReDoS risk): '' @ pattern)
      else if contains [CHR 0x00] pattern then refuse ''Null byte detected in pattern''
      else Inr pattern)"

definition is_hex :: "char \<Rightarrow> bool" where
  "is_hex c = (let n = of_char c :: nat in 48 \<le> n \<and> n \<le> 57 \<or> 97 \<le> n \<and> n \<le> 102)"

definition hex_text :: "string \<Rightarrow> bool" where
  "hex_text s = (chomp s \<noteq> [] \<and> list_all is_hex (chomp s))"

definition validate_git_hash :: "string \<Rightarrow> string raising" where
  "validate_git_hash h =
     (if h = [] then refuse ''Git hash cannot be empty''
      else let h = str_strip h
        in if contains ''..'' h \<or> contains ''/'' h \<or> contains [BACKSLASH] h then refuse (''Path traversal detected in git hash: '' @ h)
           else if (length h \<notin> {40, 64} \<or> \<not> hex_text h) \<and> (length h < 7 \<or> \<not> hex_text h)
             then refuse (''Invalid git hash format: '' @ h)
           else Inr h)"

definition dangerous_patterns :: "string list" where
  "dangerous_patterns = [''localhost'', ''127.0.0.1'', ''0.0.0.0'', ''169.254.169.254'', ''file:///'', ''ftp://'',
     ''file:'' @ [BACKSLASH, BACKSLASH], ''ftp:'' @ [BACKSLASH, BACKSLASH]]"

definition validate_url :: "string \<Rightarrow> bool \<Rightarrow> int \<Rightarrow> string raising" where
  "validate_url url https_only max_length =
     (if url = [] then refuse ''URL cannot be empty''
      else if max_length < int (length url) then refuse (''URL exceeds maximum length of '' @ str_int max_length)
      else if list_ex (\<lambda>d. contains d (str_lower url)) dangerous_patterns
        then refuse (''URL contains blocked pattern (SSRF risk): '' @ url)
      else if https_only \<and> \<not> (prefix ''https://'' url \<or> prefix ''HTTPS://'' url) then refuse (''Only HTTPS URLs allowed: '' @ url)
      else Inr url)"

subsection \<open>The decorators\<close>

text \<open>A function with its keyword arguments; only these are looked at, and the function gets them as they were.\<close>

definition check_param :: "(string \<Rightarrow> 'b raising) \<Rightarrow> string \<Rightarrow> ((string \<times> string) list \<Rightarrow> 'w \<Rightarrow> 'a raising \<times> 'w) \<Rightarrow> (string \<times> string) list
    \<Rightarrow> 'w \<Rightarrow> 'a raising \<times> 'w" where
  "check_param check name func kwargs w = (case map_of kwargs name of
     None \<Rightarrow> (refuse (''Parameter '' @ [QUOTE] @ name @ [QUOTE] @ '' not found''), w)
   | Some v \<Rightarrow> (case check v of Inl e \<Rightarrow> (Inl e, w) | Inr _ \<Rightarrow> func kwargs w))"

definition validate_path_param :: "(string \<Rightarrow> string list raising) \<Rightarrow> string \<Rightarrow> string list raising option
    \<Rightarrow> ((string \<times> string) list \<Rightarrow> 'w \<Rightarrow> 'a raising \<times> 'w) \<Rightarrow> (string \<times> string) list \<Rightarrow> 'w \<Rightarrow> 'a raising \<times> 'w" where
  "validate_path_param resolve name base = check_param (\<lambda>v. safe_path resolve v base False) name"

definition validate_command_param :: "bool \<Rightarrow> string \<Rightarrow> string list option
    \<Rightarrow> ((string \<times> string) list \<Rightarrow> 'w \<Rightarrow> 'a raising \<times> 'w) \<Rightarrow> (string \<times> string) list \<Rightarrow> 'w \<Rightarrow> 'a raising \<times> 'w" where
  "validate_command_param metachars name allowed_commands = check_param (\<lambda>v. validate_command metachars v allowed_commands) name"

definition ALLOWED_SHELL_COMMANDS :: "string list" where
  "ALLOWED_SHELL_COMMANDS = [''ls'', ''cat'', ''head'', ''tail'', ''wc'', ''sort'', ''uniq'', ''cut'', ''pwd'',
     ''mkdir'', ''rmdir'', ''mv'', ''cp'', ''touch'', ''chmod'', ''ln'', ''file'',
     ''grep'', ''sed'', ''awk'', ''find'', ''xargs'', ''echo'', ''tee'',
     ''which'', ''env'', ''printenv'', ''uname'', ''date'', ''whoami'', ''id'',
     ''git'', ''python'', ''python3'', ''pip'', ''pip3'', ''uv'', ''node'', ''npm'', ''npx'', ''yarn'', ''pnpm'', ''cargo'', ''go'', ''make'',
     ''pytest'', ''ruff'', ''mypy'', ''black'', ''eslint'', ''prettier'', ''curl'', ''wget'']"


subsection \<open>Accepted paths\<close>

lemma contains_char [simp]: "contains [c] s \<longleftrightarrow> c \<in> set s"
  by (auto simp: contains_def sublist_def in_set_conv_decomp)

lemma not_dotdot: "\<not> contains ''..'' s \<Longrightarrow> \<not> contains (CHR 0x5C # ''..'') s"
  by (auto simp: contains_def sublist_def) (metis append_Cons append_assoc append_Nil)

text \<open>The resolution without symbolic links: the names below the working directory, or below the root.\<close>

fun split_on :: "char \<Rightarrow> string \<Rightarrow> string list" where
  "split_on c [] = [[]]"
| "split_on c (x # xs) = (if x = c then [] # split_on c xs
     else (case split_on c xs of w # ws \<Rightarrow> (x # w) # ws | [] \<Rightarrow> [[x]]))"

definition lexical :: "string list \<Rightarrow> string \<Rightarrow> string list raising" where
  "lexical cwd s = Inr ((if path_is_absolute s then [] else cwd) @ filter (\<lambda>n. n \<noteq> [] \<and> n \<noteq> ''.'') (split_on CHR ''/'' s))"

lemma safe_path_spec_facts:
  assumes "safe_path resolve s base allow_absolute = Inr p"
  shows "resolve s = Inr p" "\<not> contains ''..'' s" "CHR 0x00 \<notin> set s"
    and "path_is_absolute s \<Longrightarrow> \<not> allow_absolute \<Longrightarrow> \<exists>b. base = Some (Inr b) \<and> prefix b p"
    and "\<not> path_is_absolute s \<Longrightarrow> safe_path resolve s base' allow' = Inr p"
  using assms by (auto simp: safe_path_def not_dotdot split: if_splits sum.splits option.splits)

text \<open>What an accepted path is: it has no parent reference and no null byte and is what the path resolves to; an absolute
  one lies in the base directory unless absolute paths are allowed. For a relative path the base directory plays no
  part: it is resolved below the working directory and accepted with any base directory or none.\<close>

theorem safe_path_spec:
  assumes "safe_path resolve s base allow_absolute = Inr p"
  shows "(resolve s = Inr p)
    \<and> (\<not> contains ''..'' s)
    \<and> (CHR 0x00 \<notin> set s)
    \<and> (path_is_absolute s \<longrightarrow> \<not> allow_absolute \<longrightarrow> (\<exists>b. base = Some (Inr b) \<and> prefix b p))
    \<and> (\<not> path_is_absolute s \<longrightarrow> safe_path resolve s base' allow' = Inr p)"
  using safe_path_spec_facts(1) [OF assms] safe_path_spec_facts(2) [OF assms] safe_path_spec_facts(3) [OF assms] safe_path_spec_facts(4) [OF assms] safe_path_spec_facts(5) [OF assms] by blast

theorem safe_path_spec_witness:
  "safe_path (lexical [''home'', ''me'']) ''src/a.py'' (Some (Inr [''srv'', ''base''])) False = Inr [''home'', ''me'', ''src'', ''a.py'']
   \<and> safe_path (lexical [''home'', ''me'']) ''src/a.py'' None False = Inr [''home'', ''me'', ''src'', ''a.py'']
   \<and> \<not> prefix [''srv'', ''base''] [''home'', ''me'', ''src'', ''a.py'']
   \<and> (\<exists>b. Some (Inr [''srv''] :: string list raising) = Some (Inr b) \<and> prefix b [''srv'', ''x''])"
proof -
  have a: "safe_path (lexical [''home'', ''me'']) ''src/a.py'' (Some (Inr [''srv'', ''base''])) False = Inr [''home'', ''me'', ''src'', ''a.py'']"
    by code_simp
  have b: "safe_path (lexical [''home'', ''me'']) ''/srv/x'' (Some (Inr [''srv''])) False = Inr [''srv'', ''x'']"
    by code_simp
  have "\<not> path_is_absolute ''src/a.py''" "path_is_absolute ''/srv/x''" by (simp_all add: path_is_absolute_def)
  with safe_path_spec [OF a, of None False] safe_path_spec [OF b] a show ?thesis by simp
qed

subsection \<open>Accepted commands\<close>

text \<open>A token has only characters of the command.\<close>

lemma lex_chars:
  "lex st token quoted s = Inr ts \<Longrightarrow> (\<forall>c \<in> set token. P c) \<Longrightarrow> (\<forall>c \<in> set s. P c) \<Longrightarrow> P BACKSLASH
    \<Longrightarrow> t \<in> set ts \<Longrightarrow> c \<in> set t \<Longrightarrow> P c"
  by (induction st token quoted s arbitrary: ts rule: lex.induct)
    (auto simp: emit_def map_sum_Inr split: if_splits)

definition shell_char :: "char \<Rightarrow> bool" where
  "shell_char c \<longleftrightarrow> c \<in> set (CHR 0x0A # CHR 0x0D # '';&|<>`'')"

lemma strict_command_clean:
  assumes "find (\<lambda>p. contains p command) injection_patterns = None" "c \<in> set command"
  shows "\<not> shell_char c"
proof -
  from assms(1) have "\<forall>p \<in> set injection_patterns. \<not> contains p command" by (simp only: find_None_iff) blast
  then have "\<forall>p \<in> set injection_patterns. p = [c] \<longrightarrow> c \<notin> set command" by auto
  with assms(2) show ?thesis by (auto simp: injection_patterns_def shell_char_def)
qed

definition permitted :: "string list option \<Rightarrow> string \<Rightarrow> bool" where
  "permitted allowed_commands cmd = (case allowed_commands of None \<Rightarrow> plain_name cmd | Some cs \<Rightarrow> cmd \<in> set cs)"

text \<open>What an accepted command is: its tokens, of which the first is permitted and none of the others is suspicious. With
  the metacharacters forbidden no token has one.\<close>

lemma validate_command_accepts:
  "validate_command metachars command allowed_commands = Inr ts \<longleftrightarrow>
     command \<noteq> [] \<and> (metachars \<or> find (\<lambda>p. contains p command) injection_patterns = None)
     \<and> shlex_split command = Inr ts \<and> ts \<noteq> [] \<and> permitted allowed_commands (hd ts) \<and> find suspicious (tl ts) = None"
  unfolding validate_command_def permitted_def
  by (cases "shlex_split command"; cases "case shlex_split command of Inr ts \<Rightarrow> ts | _ \<Rightarrow> []")
    (auto split: option.splits list.splits if_splits)

lemma strict_tokens_clean:
  assumes "validate_command False command allowed_commands = Inr ts" "t \<in> set ts" "c \<in> set t"
  shows "\<not> shell_char c"
proof -
  from assms(1) have acc: "find (\<lambda>p. contains p command) injection_patterns = None" "lex Between [] False command = Inr ts"
    by (simp_all add: validate_command_accepts shlex_split_def)
  have "\<not> shell_char BACKSLASH" by (simp add: shell_char_def BACKSLASH_def)
  from lex_chars [where P = "\<lambda>c. \<not> shell_char c", OF acc(2) _ _ this assms(2,3)] strict_command_clean [OF acc(1)] show ?thesis by simp
qed

text \<open>Words without blanks, quotes and backslashes are lexed as they are.\<close>

definition plain_char :: "char \<Rightarrow> bool" where
  "plain_char c \<longleftrightarrow> \<not> is_blank c \<and> \<not> is_quote c \<and> c \<noteq> BACKSLASH"

definition plain_word :: "string \<Rightarrow> bool" where
  "plain_word w \<longleftrightarrow> w \<noteq> [] \<and> list_all plain_char w"

lemma lex_in_word: "list_all plain_char w \<Longrightarrow> lex In_word token quoted (w @ s) = lex In_word (token @ w) quoted s"
  by (induction w arbitrary: token) (auto simp: plain_char_def)

lemma lex_word:
  assumes "plain_word w"
  shows "lex Between [] False (w @ s) = lex In_word w False s"
proof -
  from assms obtain c cs where w: "w = c # cs" "plain_char c" "list_all plain_char cs" by (cases w) (auto simp: plain_word_def)
  then have "lex Between [] False (w @ s) = lex In_word [c] False (cs @ s)" by (auto simp: plain_char_def)
  then show ?thesis using lex_in_word [OF w(3), of "[c]" False s] w(1) by simp
qed

lemma shlex_split_words: "list_all plain_word ws \<Longrightarrow> shlex_split (str_join '' '' ws) = Inr ws"
  unfolding shlex_split_def
proof (induction "'' ''" ws rule: str_join.induct)
  case (2 x)
  then have x: "plain_word x" by simp
  from lex_word [OF x, of "[]"] x show ?case by (simp add: emit_def plain_word_def)
next
  case (3 x y zs)
  then have x: "plain_word x" and rest: "lex Between [] False (str_join '' '' (y # zs)) = Inr (y # zs)" by simp_all
  from lex_word [OF x] have "lex Between [] False (str_join '' '' (x # y # zs)) = lex In_word x False ('' '' @ str_join '' '' (y # zs))"
    by simp
  then show ?case using x rest by (simp add: is_blank_def emit_def plain_word_def)
qed (simp add: emit_def)

lemma str_join_eq_Nil: "list_all plain_word ws \<Longrightarrow> str_join '' '' ws = [] \<longleftrightarrow> ws = []"
  by (cases "('' '', ws)" rule: str_join.cases) (auto simp: plain_word_def)

text \<open>By default the metacharacters are allowed: a command of plain words is accepted, and returned as these words,
  exactly when its first word is permitted and no further one has two dashes and one of four of the characters.\<close>

lemma default_command_accepts:
  assumes "list_all plain_word ws"
  shows "validate_command True (str_join '' '' ws) allowed_commands = Inr ws \<longleftrightarrow>
    ws \<noteq> [] \<and> permitted allowed_commands (hd ws) \<and> (\<forall>w \<in> set (tl ws). \<not> suspicious w)"
  using assms by (auto simp: validate_command_accepts shlex_split_words str_join_eq_Nil find_None_iff)

subsection \<open>Accepted hashes and addresses\<close>

text \<open>A hash is accepted exactly when it is, without the spaces around it, a text of at least seven hexadecimal digits in lower case.\<close>

lemma chomp_strip: "str_strip s \<noteq> [] \<Longrightarrow> chomp (str_strip s) = str_strip s"
proof -
  assume ne: "str_strip s \<noteq> []"
  have "\<not> is_space (last (str_strip s))"
    using ne hd_dropWhile [of is_space "rev (dropWhile is_space s)"] by (simp add: str_strip_def last_rev)
  moreover have "is_space (CHR 0x0A)" by (simp add: is_space_def)
  ultimately show ?thesis by (auto simp: chomp_def)
qed

lemma hex_chars:
  assumes "list_all is_hex s"
  shows "\<not> contains ''..'' s" "\<not> contains ''/'' s" "\<not> contains [BACKSLASH] s"
proof -
  have no: "\<not> is_hex CHR ''.''" "\<not> is_hex CHR ''/''" "\<not> is_hex BACKSLASH"
    by (simp_all add: is_hex_def BACKSLASH_def)
  have "CHR ''.'' \<in> set s" if "contains ''..'' s" using that by (auto simp: contains_def sublist_def)
  with no assms show "\<not> contains ''..'' s" "\<not> contains ''/'' s" "\<not> contains [BACKSLASH] s" by (auto simp: list_all_iff)
qed

lemma validate_git_hash_spec:
  "validate_git_hash h = Inr r \<longleftrightarrow> r = str_strip h \<and> 7 \<le> length r \<and> list_all is_hex r"
proof (cases "str_strip h = []")
  case True
  then show ?thesis by (auto simp: validate_git_hash_def hex_text_def chomp_def)
next
  case False
  then have "h \<noteq> []" by (auto simp: str_strip_def)
  with False show ?thesis
    using chomp_strip [OF False] hex_chars [of "str_strip h"]
    by (auto simp: validate_git_hash_def Let_def hex_text_def)
qed

lemma validate_url_https:
  "validate_url url True n = Inr r \<Longrightarrow> r = url \<and> (prefix ''https://'' url \<or> prefix ''HTTPS://'' url) \<and> int (length url) \<le> n
     \<and> \<not> contains ''localhost'' (str_lower url) \<and> \<not> contains ''127.0.0.1'' (str_lower url)"
  by (auto simp: validate_url_def dangerous_patterns_def split: if_splits)

text \<open>Other names of the same machine pass.\<close>

lemma validate_url_passes_loopback:
  "validate_url ''https://127.1/admin'' True 2048 = Inr ''https://127.1/admin''"
  "validate_url ''https://[::1]/admin'' True 2048 = Inr ''https://[::1]/admin''"
  "raises (validate_url ''Https://example.com/'' True 2048)"
  by code_simp+

end
