(* ===== verification/BuiltinTools.thy ===== *)
theory BuiltinTools
  imports ToolExecution InputValidation
begin

text \<open>
  The tools of \<open>tools/builtin.py\<close>: bash, read, write, grep, glob and the search by syntax. Their arguments are the
  validated ones; starting a process is a function of the world, and resolving a path is the parameter of
  \<open>InputValidation\<close>. The disk is a dictionary of files and a set of directories, both named by the names
  from the root. A text file is read with universal newlines.
\<close>

declare map_of_eq_Some_iff [simp del] Some_eq_map_of_iff [simp del]

subsection \<open>Results\<close>

definition tool_answer :: "string \<Rightarrow> string \<Rightarrow> (string \<times> json) list \<Rightarrow> tool_result" where
  "tool_answer title text meta = \<lparr>tr_title = title, tr_output = text, tr_metadata = meta, tr_attachments = None\<rparr>"

definition rejected :: "string \<Rightarrow> string \<Rightarrow> exn \<Rightarrow> tool_result" where
  "rejected what arg e = tool_answer (''Security Error: '' @ arg) (what @ '' rejected by security policy: '' @ exn_msg e)
     [(''error'', JStr (exn_msg e)), (''security_error'', JBool True)]"

definition broken :: "string \<Rightarrow> string \<Rightarrow> exn \<Rightarrow> tool_result" where
  "broken title arg e = tool_answer (title @ arg) (exn_msg e) [(''error'', JStr (exn_msg e))]"

text \<open>The two handlers every tool ends with.\<close>

definition handled :: "string \<Rightarrow> string \<Rightarrow> string \<Rightarrow> exn \<Rightarrow> tool_result" where
  "handled what title arg e = (if exn_type e = ''SecurityError'' then rejected what arg e else broken title arg e)"

subsection \<open>Bash\<close>

datatype process = Shell string | Exec "string list"

record process_result =
  pr_code :: int
  pr_out :: string
  pr_err :: string

type_synonym 'w runner = "process \<Rightarrow> string option \<Rightarrow> 'w \<Rightarrow> process_result raising \<times> 'w"

definition newline :: string where "newline = [CHR 0x0A]"

definition nonempty :: "string option \<Rightarrow> bool" where
  "nonempty s = (case s of Some (c # cs) \<Rightarrow> True | _ \<Rightarrow> False)"

definition bash_execute :: "bool \<Rightarrow> 'w runner \<Rightarrow> string \<Rightarrow> string option \<Rightarrow> string option \<Rightarrow> 'w \<Rightarrow> tool_result \<times> 'w" where
  "bash_execute metachars run command description workdir w =
     (case validate_command metachars command (Some ALLOWED_SHELL_COMMANDS) of
        Inl e \<Rightarrow> (handled ''Command'' ''Error: '' command e, w)
      | Inr tokens \<Rightarrow> (case run (if metachars then Shell command else Exec tokens) workdir w of
          (Inl e, w) \<Rightarrow> (handled ''Command'' ''Error: '' command e, w)
        | (Inr p, w) \<Rightarrow> (tool_answer (if nonempty description then the description else command)
            (if pr_err p \<noteq> [] then pr_out p @ newline @ ''[Stderr]'' @ newline @ pr_err p else pr_out p)
            [(''exit_code'', JNum (of_int (pr_code p))), (''description'', opt_str description)], w)))"

subsection \<open>The disk\<close>

record disk =
  dk_files :: "(string list \<times> string) list"
  dk_dirs :: "string list set"

definition os_error :: "string \<Rightarrow> exn" where
  "os_error t = Exn t t"

definition path_exists :: "string list \<Rightarrow> disk \<Rightarrow> bool" where
  "path_exists p d \<longleftrightarrow> map_of (dk_files d) p \<noteq> None \<or> p \<in> dk_dirs d"

text \<open>Below a file there is nothing to open or to make.\<close>

definition under_file :: "string list \<Rightarrow> disk \<Rightarrow> bool" where
  "under_file p d \<longleftrightarrow> list_ex (\<lambda>q. q \<noteq> p \<and> map_of (dk_files d) q \<noteq> None) (prefixes p)"

definition open_read :: "string list \<Rightarrow> disk \<Rightarrow> string raising" where
  "open_read p d = (case map_of (dk_files d) p of
     Some s \<Rightarrow> Inr s
   | None \<Rightarrow> Inl (os_error (if p \<in> dk_dirs d then ''IsADirectoryError'' else ''FileNotFoundError'')))"

definition write_file :: "string list \<Rightarrow> string \<Rightarrow> disk \<Rightarrow> disk raising" where
  "write_file p text d =
     (if p \<in> dk_dirs d then Inl (os_error ''IsADirectoryError'')
      else if under_file p d then Inl (os_error ''NotADirectoryError'')
      else if butlast p \<notin> dk_dirs d then Inl (os_error ''FileNotFoundError'')
      else Inr (d\<lparr>dk_files := AList.update p text (dk_files d)\<rparr>))"

definition make_dirs :: "string list \<Rightarrow> disk \<Rightarrow> disk raising" where
  "make_dirs p d =
     (if map_of (dk_files d) p \<noteq> None then Inl (os_error ''FileExistsError'')
      else if under_file p d then Inl (os_error ''NotADirectoryError'')
      else Inr (d\<lparr>dk_dirs := dk_dirs d \<union> set (prefixes p)\<rparr>))"

fun universal :: "string \<Rightarrow> string" where
  "universal [] = []"
| "universal [c] = (if c = CHR 0x0D then newline else [c])"
| "universal (c # d # cs) = (if c = CHR 0x0D then (if d = CHR 0x0A then universal (d # cs) else CHR 0x0A # universal (d # cs)) else c # universal (d # cs))"

fun read_lines :: "string \<Rightarrow> string list" where
  "read_lines [] = []"
| "read_lines (c # cs) = (if c = CHR 0x0A then newline # read_lines cs
     else (case cs of [] \<Rightarrow> [[c]] | _ \<Rightarrow> (case read_lines cs of l # ls \<Rightarrow> (c # l) # ls | [] \<Rightarrow> [[c]])))"

text \<open>\<open>xs[a:b]\<close> for a bound \<open>a\<close> that is not negative.\<close>

definition slice :: "int \<Rightarrow> int \<Rightarrow> 'a list \<Rightarrow> 'a list" where
  "slice a b xs = (let n = int (length xs); b = (if b < 0 then max 0 (b + n) else min b n) in take (nat (b - a)) (drop (nat a) xs))"

subsection \<open>Read\<close>

definition window_start :: "int option \<Rightarrow> int" where
  "window_start offset = max 0 ((case offset of Some n \<Rightarrow> n | None \<Rightarrow> 0) - 1)"

definition window_end :: "int option \<Rightarrow> int option \<Rightarrow> nat \<Rightarrow> int" where
  "window_end offset limit n = min (window_start offset + (case limit of Some k \<Rightarrow> k | None \<Rightarrow> 2000)) (int n)"

definition read_execute :: "(string \<Rightarrow> string list raising) \<Rightarrow> string list raising \<Rightarrow> string \<Rightarrow> int option \<Rightarrow> int option \<Rightarrow> disk \<Rightarrow> tool_result" where
  "read_execute resolve base path offset limit d =
     (if path = [] then tool_answer ''No file specified'' [] [(''error'', JStr ''File path is required'')]
      else case safe_path resolve path (Some base) False of
        Inl e \<Rightarrow> handled ''Path'' ''Error reading: '' path e
      | Inr full \<Rightarrow>
          if \<not> path_exists full d then tool_answer ''File not found'' [] [(''path'', JStr path), (''error'', JStr ''File not found'')]
          else (case open_read full d of
              Inl e \<Rightarrow> handled ''Path'' ''Error reading: '' path e
            | Inr text \<Rightarrow>
                (let all_lines = read_lines (universal text); a = window_start offset; b = window_end offset limit (length all_lines);
                     lines = slice a b all_lines
                 in tool_answer (''Read: '' @ path) (concat lines)
                      [(''path'', JStr path), (''lines_read'', JNum (of_nat (length lines))), (''start_line'', JNum (of_int (a + 1))), (''end_line'', JNum (of_int b))])))"

subsection \<open>Write\<close>

text \<open>The state of the module: the times of the last writes of each session to each path.\<close>

record write_state =
  ws_disk :: disk
  ws_recent :: "(string \<times> rat) list"

definition path_text :: "string list \<Rightarrow> string" where
  "path_text p = ''/'' @ str_join ''/'' p"

definition write_key :: "string \<Rightarrow> string list \<Rightarrow> string" where
  "write_key sid p = sid @ '':'' @ path_text p"

definition write_execute :: "(string \<Rightarrow> string list raising) \<Rightarrow> string list raising \<Rightarrow> rat \<Rightarrow> string \<Rightarrow> string \<Rightarrow> string option \<Rightarrow> bool
    \<Rightarrow> write_state \<Rightarrow> tool_result \<times> write_state" where
  "write_execute resolve base now sid path content create s = (case content of
     None \<Rightarrow> (tool_answer (''Error writing: '' @ path) ''content is required for write tool calls'' [(''error'', JStr ''missing_content'')], s)
   | Some text \<Rightarrow> (case safe_path resolve path (Some base) False of
       Inl e \<Rightarrow> (handled ''Path'' ''Error writing: '' path e, s)
     | Inr full \<Rightarrow>
         (let key = write_key sid full in
          if (case map_of (ws_recent s) key of Some t \<Rightarrow> now - t < 8 | None \<Rightarrow> False)
          then (tool_answer (''Write skipped: '' @ path) ''Skipped duplicate write to the same file in a short window''
                  [(''path'', JStr (path_text full)), (''skipped_duplicate'', JBool True)], s)
          else case (if create then make_dirs (butlast full) (ws_disk s) else Inr (ws_disk s)) of
              Inl e \<Rightarrow> (handled ''Path'' ''Error writing: '' path e, s)
            | Inr d \<Rightarrow> (case write_file full text d of
                Inl e \<Rightarrow> (handled ''Path'' ''Error writing: '' path e, s\<lparr>ws_disk := d\<rparr>)
              | Inr d \<Rightarrow> (tool_answer (''Write: '' @ path) (''Wrote '' @ str_nat (length text) @ '' bytes'')
                    [(''path'', JStr (path_text full)), (''bytes'', JNum (of_nat (length text)))],
                  \<lparr>ws_disk = d, ws_recent = AList.update key now (ws_recent s)\<rparr>)))))"

subsection \<open>Searches\<close>

definition line_break :: "char \<Rightarrow> bool" where
  "line_break c = (let n = of_char c :: nat in 10 \<le> n \<and> n \<le> 13 \<or> 28 \<le> n \<and> n \<le> 30 \<or> n = 133)"

text \<open>\<open>str.splitlines\<close>: \<open>seen\<close> is the line that is being read, reversed; \<open>cr\<close>: the character before was a carriage return.\<close>

fun split_lines_from :: "string \<Rightarrow> bool \<Rightarrow> string \<Rightarrow> string list" where
  "split_lines_from seen cr [] = (if seen = [] then [] else [rev seen])"
| "split_lines_from seen cr (c # cs) =
     (if cr \<and> c = CHR 0x0A then split_lines_from seen False cs
      else if line_break c then rev seen # split_lines_from [] (c = CHR 0x0D) cs
      else split_lines_from (c # seen) False cs)"

definition splitlines :: "string \<Rightarrow> string list" where
  "splitlines s = split_lines_from [] False s"

definition result_lines :: "int \<Rightarrow> string \<Rightarrow> string list" where
  "result_lines max_results out = slice_to max_results (filter (\<lambda>l. l \<noteq> []) (splitlines out))"

definition search :: "'w runner \<Rightarrow> string \<Rightarrow> string \<Rightarrow> string list \<Rightarrow> int \<Rightarrow> int \<Rightarrow> string \<Rightarrow> 'w \<Rightarrow> tool_result \<times> 'w" where
  "search run title err cmd max_length max_results pattern w =
     (case validate_pattern pattern max_length of
        Inl e \<Rightarrow> (handled ''Pattern'' err pattern e, w)
      | Inr _ \<Rightarrow> (case run (Exec cmd) None w of
          (Inl e, w) \<Rightarrow> (handled ''Pattern'' err pattern e, w)
        | (Inr p, w) \<Rightarrow> (let lines = result_lines max_results (pr_out p)
            in (tool_answer (title @ pattern) (str_join newline lines) [(''matches'', JNum (of_nat (length lines)))], w))))"

definition grep_execute :: "'w runner \<Rightarrow> string \<Rightarrow> string option \<Rightarrow> int \<Rightarrow> 'w \<Rightarrow> tool_result \<times> 'w" where
  "grep_execute run query files max_results w =
     (if query = [] then (tool_answer ''No query'' [] [(''error'', JStr ''Query is required'')], w)
      else search run ''Grep: '' ''Error searching: ''
        ([''rg'', ''-e'', query] @ (case files of Some g \<Rightarrow> if g = ''*'' then [] else [''--glob'', g] | None \<Rightarrow> [])) 1000 max_results query w)"

definition glob_execute :: "'w runner \<Rightarrow> string \<Rightarrow> int \<Rightarrow> 'w \<Rightarrow> tool_result \<times> 'w" where
  "glob_execute run pattern max_results w =
     (if pattern = [] then (tool_answer ''No pattern'' [] [(''error'', JStr ''Pattern is required'')], w)
      else search run ''Glob: '' ''Error finding: '' [''rg'', ''--files'', ''--glob'', pattern] 500 max_results pattern w)"

definition ast_grep_execute :: "'w runner \<Rightarrow> string \<Rightarrow> string \<Rightarrow> string list option \<Rightarrow> 'w \<Rightarrow> tool_result \<times> 'w" where
  "ast_grep_execute run pattern language paths w =
     (if pattern = [] then (tool_answer ''No pattern'' [] [(''error'', JStr ''Pattern is required'')], w)
      else case validate_pattern pattern 500 of
        Inl e \<Rightarrow> (handled ''Pattern'' ''Error in AST grep: '' pattern e, w)
      | Inr _ \<Rightarrow> (case run (Exec ([''ast-grep'', ''run'', ''--pattern'', pattern, ''--lang'', language] @ (case paths of Some ps \<Rightarrow> ps | None \<Rightarrow> []))) None w of
          (Inl e, w) \<Rightarrow>
            (if exn_type e = ''TimeoutExpired'' then tool_answer (''AST Grep timeout: '' @ pattern) [] [(''error'', JStr ''timeout'')]
             else if exn_type e = ''FileNotFoundError'' then tool_answer ''AST Grep not available'' ''ast-grep tool not found in PATH'' [(''error'', JStr ''tool_not_found'')]
             else handled ''Pattern'' ''Error in AST grep: '' pattern e, w)
        | (Inr p, w) \<Rightarrow> (let out = str_strip (pr_out p)
            in (tool_answer (''AST Grep: '' @ pattern) out
                 [(''language'', JStr language), (''matches'', JNum (of_nat (if out = [] then 0 else length (split_on CHR 0x0A out))))], w))))"

subsection \<open>What a command starts\<close>

definition bash_report :: "string \<Rightarrow> string option \<Rightarrow> process_result raising \<times> 'w \<Rightarrow> tool_result \<times> 'w" where
  "bash_report command description x = (case x of
     (Inl e, w) \<Rightarrow> (handled ''Command'' ''Error: '' command e, w)
   | (Inr p, w) \<Rightarrow> (tool_answer (if nonempty description then the description else command)
       (if pr_err p \<noteq> [] then pr_out p @ newline @ ''[Stderr]'' @ newline @ pr_err p else pr_out p)
       [(''exit_code'', JNum (of_int (pr_code p))), (''description'', opt_str description)], w))"

lemma bash_accepted:
  "validate_command metachars command (Some ALLOWED_SHELL_COMMANDS) = Inr ts
    \<Longrightarrow> bash_execute metachars run command description workdir w
       = bash_report command description (run (if metachars then Shell command else Exec ts) workdir w)"
  by (simp add: bash_execute_def bash_report_def)

lemma bash_starts_facts:
  assumes "list_all plain_word (cmd # ws)" "cmd \<in> set ALLOWED_SHELL_COMMANDS" "\<forall>a \<in> set ws. \<not> suspicious a"
  shows "bash_execute True run (str_join '' '' (cmd # ws)) description workdir w
      = bash_report (str_join '' '' (cmd # ws)) description (run (Shell (str_join '' '' (cmd # ws))) workdir w)"
    and "snd (bash_execute False run command description workdir w) \<noteq> w \<Longrightarrow>
      \<exists>ts. bash_execute False run command description workdir w = bash_report command description (run (Exec ts) workdir w)
        \<and> hd ts \<in> set ALLOWED_SHELL_COMMANDS \<and> (\<forall>t \<in> set ts. \<forall>c \<in> set t. \<not> shell_char c)"
proof -
  show "bash_execute True run (str_join '' '' (cmd # ws)) description workdir w
      = bash_report (str_join '' '' (cmd # ws)) description (run (Shell (str_join '' '' (cmd # ws))) workdir w)"
    using assms default_command_accepts [OF assms(1), of "Some ALLOWED_SHELL_COMMANDS"]
    by (subst bash_accepted) (auto simp: permitted_def)
next
  assume ran: "snd (bash_execute False run command description workdir w) \<noteq> w"
  then obtain ts where ts: "validate_command False command (Some ALLOWED_SHELL_COMMANDS) = Inr ts"
    by (cases "validate_command False command (Some ALLOWED_SHELL_COMMANDS)") (auto simp: bash_execute_def)
  then have "hd ts \<in> set ALLOWED_SHELL_COMMANDS" by (simp add: validate_command_accepts permitted_def)
  with ts strict_tokens_clean [OF ts] bash_accepted [OF ts, of run description workdir w]
  show "\<exists>ts. bash_execute False run command description workdir w = bash_report command description (run (Exec ts) workdir w)
        \<and> hd ts \<in> set ALLOWED_SHELL_COMMANDS \<and> (\<forall>t \<in> set ts. \<forall>c \<in> set t. \<not> shell_char c)" by auto
qed

text \<open>What the bash tool starts. By default it is a shell with the whole text: when the text is made of plain words, of which the
  first is on the list of allowed commands and no other has two dashes with one of four metacharacters, the shell
  gets all of it, with whatever follows a semicolon, a pipe or an ampersand. When metacharacters are forbidden it
  is at most a process without a shell, with an allowed program and arguments without any of them.\<close>

theorem bash_starts:
  assumes "list_all plain_word (cmd # ws)" "cmd \<in> set ALLOWED_SHELL_COMMANDS" "\<forall>a \<in> set ws. \<not> suspicious a"
  shows "(bash_execute True run (str_join '' '' (cmd # ws)) description workdir w
      = bash_report (str_join '' '' (cmd # ws)) description (run (Shell (str_join '' '' (cmd # ws))) workdir w))
    \<and> (snd (bash_execute False run command description workdir w) \<noteq> w \<longrightarrow>
      (\<exists>ts. bash_execute False run command description workdir w = bash_report command description (run (Exec ts) workdir w)
        \<and> hd ts \<in> set ALLOWED_SHELL_COMMANDS \<and> (\<forall>t \<in> set ts. \<forall>c \<in> set t. \<not> shell_char c)))"
  by (intro conjI impI; rule bash_starts_facts [OF assms]; assumption?)

definition recording :: "process list runner" where
  "recording p workdir w = (Inr \<lparr>pr_code = 0, pr_out = [], pr_err = []\<rparr>, w @ [p])"

theorem bash_starts_witness:
  "snd (bash_execute True recording ''ls ; rm -rf / | cat'' None None []) = [Shell ''ls ; rm -rf / | cat'']
   \<and> snd (bash_execute False recording ''git status'' None None []) \<noteq> []
   \<and> snd (bash_execute False recording ''ls ; rm -rf /'' None None []) = []"
proof -
  have ws: "list_all plain_word [''ls'', '';'', ''rm'', ''-rf'', ''/'', ''|'', ''cat'']"
    "''ls'' \<in> set ALLOWED_SHELL_COMMANDS" "\<forall>a \<in> set ['';'', ''rm'', ''-rf'', ''/'', ''|'', ''cat'']. \<not> suspicious a"
    "snd (bash_execute False recording ''git status'' None None []) \<noteq> []" "snd (bash_execute False recording ''ls ; rm -rf /'' None None []) = []"
    by code_simp+
  from bash_starts [OF ws(1,2,3), of recording None None "[]"] ws(4,5) show ?thesis
    by (simp add: recording_def bash_report_def)
qed

subsection \<open>Reading in windows\<close>

lemma concat_read_lines: "concat (read_lines s) = s"
proof (induction s)
  case (Cons c cs)
  show ?case
  proof (cases "c = CHR 0x0A \<or> cs = []")
    case True
    with Cons show ?thesis by (auto simp: newline_def)
  next
    case False
    then obtain d ds where cs: "cs = d # ds" by (cases cs) auto
    from False Cons show ?thesis by (cases "read_lines cs") (simp_all add: cs)
  qed
qed simp

lemma concat_windows: "concat (map (\<lambda>i. take k (drop (i * k) xs)) [0..<n]) = take (n * k) xs"
proof (induction n)
  case (Suc n)
  have "take (Suc n * k) xs = take (n * k) xs @ take k (drop (n * k) xs)" using take_add [of "n * k" k xs] by (simp add: add.commute)
  with Suc show ?case by simp
qed simp

lemma slice_window:
  assumes "0 \<le> k"
  shows "slice (int a) (min (int a + k) (int (length xs))) xs = take (nat k) (drop a xs)"
proof (cases "a \<le> length xs")
  case False
  then show ?thesis by (simp add: slice_def Let_def)
next
  case True
  have "nat (min (min (int a + k) (int (length xs))) (int (length xs)) - int a) = min (nat k) (length (drop a xs))"
    using True assms by (simp add: min_def) linarith
  moreover have "take (min (nat k) (length (drop a xs))) (drop a xs) = take (nat k) (drop a xs)" by (simp add: min_def)
  ultimately show ?thesis using assms by (simp add: slice_def Let_def not_less [symmetric])
qed

definition reads :: "(string \<Rightarrow> string list raising) \<Rightarrow> string list raising \<Rightarrow> string \<Rightarrow> disk \<Rightarrow> string \<Rightarrow> bool" where
  "reads resolve base path d text \<longleftrightarrow> (\<exists>full. safe_path resolve path (Some base) False = Inr full \<and> map_of (dk_files d) full = Some text)"

lemma read_window:
  assumes "reads resolve base path d text" "0 \<le> k"
  shows "tr_output (read_execute resolve base path (Some (1 + int a)) (Some k) d) = concat (take (nat k) (drop a (read_lines (universal text))))"
proof -
  from assms(1) obtain full where full: "safe_path resolve path (Some base) False = Inr full" "map_of (dk_files d) full = Some text"
    by (auto simp: reads_def)
  then have "path \<noteq> []" by (auto simp: safe_path_def)
  moreover have "path_exists full d" "open_read full d = Inr text" using full(2) by (simp_all add: path_exists_def open_read_def)
  ultimately show ?thesis
    using full(1) slice_window [OF assms(2), of a "read_lines (universal text)"]
    by (simp add: read_execute_def Let_def tool_answer_def window_start_def window_end_def)
qed

text \<open>C26. Reading a file in consecutive windows gives the file: the outputs of the reads at the lines 1, 1 + k, 1 + 2k and so on,
  with a limit of k lines, follow one another without a gap or an overlap, and enough of them are the whole text
  (with its line ends translated).\<close>

theorem read_windows_tile:
  assumes "reads resolve base path d text" "length (read_lines (universal text)) \<le> n * k"
  shows "concat (map (\<lambda>i. tr_output (read_execute resolve base path (Some (1 + int (i * k))) (Some (int k)) d)) [0..<n]) = universal text"
proof -
  have "concat (map (\<lambda>i. tr_output (read_execute resolve base path (Some (1 + int (i * k))) (Some (int k)) d)) [0..<n])
      = concat (concat (map (\<lambda>i. take k (drop (i * k) (read_lines (universal text)))) [0..<n]))"
    unfolding read_window [OF assms(1) of_nat_0_le_iff] by (induction n) simp_all
  then show ?thesis using assms(2) by (simp add: concat_windows concat_read_lines)
qed

definition example_disk :: disk where
  "example_disk = \<lparr>dk_files = [([''home'', ''a.txt''], ''x'' @ newline @ ''y'' @ newline @ ''z'')], dk_dirs = {[], [''home'']}\<rparr>"

theorem read_windows_tile_witness:
  "concat (map (\<lambda>i. tr_output (read_execute (lexical [''home'']) (Inr []) ''a.txt'' (Some (1 + int (i * 2))) (Some (int 2)) example_disk)) [0..<2])
     = ''x'' @ newline @ ''y'' @ newline @ ''z''"
proof -
  have r: "reads (lexical [''home'']) (Inr []) ''a.txt'' example_disk (''x'' @ newline @ ''y'' @ newline @ ''z'')"
    unfolding reads_def by (intro exI [of _ "[''home'', ''a.txt'']"] conjI) code_simp+
  have u: "universal (''x'' @ newline @ ''y'' @ newline @ ''z'') = ''x'' @ newline @ ''y'' @ newline @ ''z''"
    "length (read_lines (universal (''x'' @ newline @ ''y'' @ newline @ ''z''))) \<le> 2 * 2" by code_simp+
  from read_windows_tile [OF r u(2)] u(1) show ?thesis by simp
qed

subsection \<open>A write and what becomes of it\<close>

lemma universal_id: "CHR 0x0D \<notin> set s \<Longrightarrow> universal s = s"
  by (induction s rule: universal.induct) auto

lemma write_success:
  assumes "write_execute resolve base now sid path (Some text) create s = (r, s1)" "map_of (tr_metadata r) ''bytes'' \<noteq> None"
  obtains full where "safe_path resolve path (Some base) False = Inr full" "map_of (dk_files (ws_disk s1)) full = Some text"
    "map_of (ws_recent s1) (write_key sid full) = Some now"
proof -
  have no: "map_of (tr_metadata (handled a b c e)) ''bytes'' = None" for a b c e
    by (simp add: handled_def rejected_def broken_def tool_answer_def)
  from assms no obtain full where full: "safe_path resolve path (Some base) False = Inr full"
    by (cases "safe_path resolve path (Some base) False") (auto simp: write_execute_def)
  show thesis
  proof (cases "case map_of (ws_recent s) (write_key sid full) of Some t \<Rightarrow> now - t < 8 | None \<Rightarrow> False")
    case True
    with assms full have "map_of (tr_metadata r) ''bytes'' = None" by (auto simp: write_execute_def Let_def tool_answer_def)
    with assms(2) show thesis by simp
  next
    case False
    define made where "made = (if create then make_dirs (butlast full) (ws_disk s) else Inr (ws_disk s))"
    from assms full False no obtain d where d: "made = Inr d"
      by (cases made) (auto simp: write_execute_def Let_def made_def [symmetric])
    from assms full False no d obtain d2 where d2: "write_file full text d = Inr d2" "s1 = \<lparr>ws_disk = d2, ws_recent = AList.update (write_key sid full) now (ws_recent s)\<rparr>"
      by (cases "write_file full text d") (auto simp: write_execute_def Let_def made_def [symmetric])
    with full show thesis by (intro that) (auto simp: write_file_def split: if_splits)
  qed
qed

lemma write_then_read_facts:
  assumes "write_execute resolve base now sid path (Some text) create s = (r, s1)" "map_of (tr_metadata r) ''bytes'' \<noteq> None"
  shows "CHR 0x0D \<notin> set text \<Longrightarrow> tr_output (read_execute resolve base path None None (ws_disk s1)) = concat (take 2000 (read_lines text))"
    and "CHR 0x0D \<notin> set text \<Longrightarrow> length (read_lines text) \<le> 2000 \<Longrightarrow> tr_output (read_execute resolve base path None None (ws_disk s1)) = text"
    and "now2 - now < 8 \<Longrightarrow> snd (write_execute resolve base now2 sid path (Some text2) create2 s1) = s1
      \<and> map_of (tr_metadata (fst (write_execute resolve base now2 sid path (Some text2) create2 s1))) ''skipped_duplicate'' = Some (JBool True)"
proof -
  obtain full where full: "safe_path resolve path (Some base) False = Inr full" "map_of (dk_files (ws_disk s1)) full = Some text"
    "map_of (ws_recent s1) (write_key sid full) = Some now"
    by (rule write_success [OF assms])
  from full(1,2) have "reads resolve base path (ws_disk s1) text" by (auto simp: reads_def)
  from read_window [OF this, of 2000 0]
  have "tr_output (read_execute resolve base path (Some 1) (Some 2000) (ws_disk s1)) = concat (take 2000 (read_lines (universal text)))" by simp
  moreover have "read_execute resolve base path None None (ws_disk s1) = read_execute resolve base path (Some 1) (Some 2000) (ws_disk s1)"
  proof -
    have "window_start None = window_start (Some 1)" "window_end None None = window_end (Some 1) (Some 2000)"
      by (simp_all add: fun_eq_iff window_start_def window_end_def)
    then show ?thesis by (simp only: read_execute_def)
  qed
  ultimately show *: "tr_output (read_execute resolve base path None None (ws_disk s1)) = concat (take 2000 (read_lines text))"
    if "CHR 0x0D \<notin> set text" using that by (simp add: universal_id)
  show "tr_output (read_execute resolve base path None None (ws_disk s1)) = text" if "CHR 0x0D \<notin> set text" "length (read_lines text) \<le> 2000"
    using * [OF that(1)] that(2) by (simp add: concat_read_lines)
  show "snd (write_execute resolve base now2 sid path (Some text2) create2 s1) = s1
      \<and> map_of (tr_metadata (fst (write_execute resolve base now2 sid path (Some text2) create2 s1))) ''skipped_duplicate'' = Some (JBool True)"
    if "now2 - now < 8"
    using full(1,3) that by (simp add: write_execute_def Let_def tool_answer_def)
qed

text \<open>C25. A write is read back: after a successful write of a text without carriage returns, reading the same path with the default
  window gives the text, up to its first two thousand lines. But for eight seconds the next write of the session to
  that file is dropped, whatever its text is: the tool answers that it is a duplicate, and nothing changes.\<close>

theorem write_then_read:
  assumes "write_execute resolve base now sid path (Some text) create s = (r, s1)" "map_of (tr_metadata r) ''bytes'' \<noteq> None"
  shows "(CHR 0x0D \<notin> set text \<longrightarrow> tr_output (read_execute resolve base path None None (ws_disk s1)) = concat (take 2000 (read_lines text)))
    \<and> (CHR 0x0D \<notin> set text \<longrightarrow> length (read_lines text) \<le> 2000 \<longrightarrow> tr_output (read_execute resolve base path None None (ws_disk s1)) = text)
    \<and> (now2 - now < 8 \<longrightarrow> snd (write_execute resolve base now2 sid path (Some text2) create2 s1) = s1
      \<and> map_of (tr_metadata (fst (write_execute resolve base now2 sid path (Some text2) create2 s1))) ''skipped_duplicate'' = Some (JBool True))"
  using write_then_read_facts(1) [OF assms] write_then_read_facts(2) [OF assms] write_then_read_facts(3) [OF assms] by blast

theorem write_then_read_witness:
  "\<exists>r s1. write_execute (lexical [''home'']) (Inr [''srv'']) 100 ''ses'' ''b.txt'' (Some ''one'') False \<lparr>ws_disk = example_disk, ws_recent = []\<rparr> = (r, s1)
     \<and> tr_output (read_execute (lexical [''home'']) (Inr [''srv'']) ''b.txt'' None None (ws_disk s1)) = ''one''
     \<and> snd (write_execute (lexical [''home'']) (Inr [''srv'']) 103 ''ses'' ''b.txt'' (Some ''two'') False s1) = s1"
proof -
  obtain r s1 where w: "write_execute (lexical [''home'']) (Inr [''srv'']) 100 ''ses'' ''b.txt'' (Some ''one'') False \<lparr>ws_disk = example_disk, ws_recent = []\<rparr> = (r, s1)"
    by fastforce
  have "map_of (tr_metadata (fst (write_execute (lexical [''home'']) (Inr [''srv'']) 100 ''ses'' ''b.txt'' (Some ''one'') False \<lparr>ws_disk = example_disk, ws_recent = []\<rparr>))) ''bytes'' \<noteq> None"
    by code_simp
  then have b: "map_of (tr_metadata r) ''bytes'' \<noteq> None" using w by simp
  have l: "length (read_lines ''one'') \<le> 2000" "CHR 0x0D \<notin> set ''one''" by code_simp+
  from write_then_read [OF w b, of 103 "''two''" False] l w show ?thesis by simp
qed

end
