(* ===== verification/Lifecycle.thy ===== *)
theory Lifecycle
  imports Repositories
begin

text \<open>
  The session lifecycle hooks of \<open>core/session_lifecycle.py\<close>. The seven lists of callbacks are a function of the hook.
  Callbacks, listeners and the bus are functions of the world that do not change the lists; a callback may be a
  coroutine function, which runs only when its call is awaited.
\<close>

subsection \<open>Messages as JSON\<close>

definition message_fields :: "string list" where
  "message_fields = [''id'', ''session_id'', ''role'', ''time'', ''text'', ''parts'', ''summary'', ''token_usage'', ''metadata'']"

text \<open>\<open>Message(**data)\<close>: another name is forbidden and three fields are required; \<open>valid\<close> is the validation of the others.\<close>

definition invalid_message :: "'a raising" where
  "invalid_message = Inl (Exn ''ValidationError'' ''Message'')"

definition message_load :: "(dict \<Rightarrow> bool) \<Rightarrow> dict \<Rightarrow> message raising" where
  "message_load valid d =
     (if \<not> set (keys d) \<subseteq> set message_fields then invalid_message
      else case (str_opt (jget d ''id''), str_opt (jget d ''session_id''), str_opt (jget d ''role'')) of
        (Some i, Some s, Some r) \<Rightarrow>
          if r \<in> {''user'', ''assistant'', ''system''} \<and> valid d then Inr \<lparr>msg_id = i, msg_session_id = s, msg_dump = d\<rparr> else invalid_message
      | _ \<Rightarrow> invalid_message)"

subsection \<open>The hooks\<close>

datatype hook = Session_created | Session_updated | Message_added | Message_updated | Session_archived | Session_compacted | Session_deleted

datatype payload = Data dict | Ident string

record ('c, 'l) lifecycle =
  lf_callbacks :: "hook \<Rightarrow> 'c list"
  lf_listeners :: "'l list"

definition lf_init :: "('c, 'l) lifecycle" where
  "lf_init = \<lparr>lf_callbacks = (\<lambda>_. []), lf_listeners = []\<rparr>"

definition on_hook :: "hook \<Rightarrow> 'c \<Rightarrow> ('c, 'l) lifecycle \<Rightarrow> ('c, 'l) lifecycle" where
  "on_hook h c lc = lc\<lparr>lf_callbacks := (lf_callbacks lc)(h := lf_callbacks lc h @ [c])\<rparr>"

definition unregister_hook :: "hook \<Rightarrow> 'c \<Rightarrow> ('c, 'l) lifecycle \<Rightarrow> bool \<times> ('c, 'l) lifecycle" where
  "unregister_hook h c lc = (if c \<in> set (lf_callbacks lc h)
     then (True, lc\<lparr>lf_callbacks := (lf_callbacks lc)(h := remove1 c (lf_callbacks lc h))\<rparr>) else (False, lc))"

definition register_listener :: "'l \<Rightarrow> ('c, 'l) lifecycle \<Rightarrow> ('c, 'l) lifecycle" where
  "register_listener l lc = (if l \<notin> set (lf_listeners lc) then lc\<lparr>lf_listeners := lf_listeners lc @ [l]\<rparr> else lc)"

definition unregister_listener :: "'l \<Rightarrow> ('c, 'l) lifecycle \<Rightarrow> ('c, 'l) lifecycle" where
  "unregister_listener l lc = (if l \<in> set (lf_listeners lc) then lc\<lparr>lf_listeners := remove1 l (lf_listeners lc)\<rparr> else lc)"

definition lf_clear :: "('c, 'l) lifecycle \<Rightarrow> ('c, 'l) lifecycle" where
  "lf_clear lc = \<lparr>lf_callbacks = (\<lambda>_. []), lf_listeners = []\<rparr>"

text \<open>What is called: a callback, the method of a listener with the objects it gets, and the bus.\<close>

datatype notice = On_session session | On_message session message | On_deleted string

record ('c, 'l, 'w) lf_env =
  le_coroutine :: "'c \<Rightarrow> bool"
  le_call :: "'c \<Rightarrow> payload \<Rightarrow> 'w \<Rightarrow> exn option \<times> 'w"
  le_listen :: "'l \<Rightarrow> hook \<Rightarrow> notice \<Rightarrow> 'w \<Rightarrow> exn option \<times> 'w"
  le_publish :: "string \<Rightarrow> dict \<Rightarrow> 'w \<Rightarrow> 'w"
  le_valid :: "dict \<Rightarrow> bool"
  le_now :: rat

text \<open>Only the first three hooks await a coroutine; elsewhere its call makes an object that is never run.\<close>

definition awaits :: "hook \<Rightarrow> bool" where
  "awaits h \<longleftrightarrow> h \<in> {Session_created, Session_updated, Message_added}"

definition call_one :: "('c, 'l, 'w) lf_env \<Rightarrow> hook \<Rightarrow> payload \<Rightarrow> 'c \<Rightarrow> 'w \<Rightarrow> 'w" where
  "call_one env h p c w = (if le_coroutine env c \<and> \<not> awaits h then w else snd (le_call env c p w))"

text \<open>The objects for a listener. The session of a message is the value of the key \<open>session\<close>, or an empty dictionary.\<close>

definition as_dict :: "json \<Rightarrow> dict raising" where
  "as_dict j = (case j of JObj d \<Rightarrow> Inr d | _ \<Rightarrow> Inl (Exn ''TypeError'' ''argument after ** must be a mapping''))"

definition session_entry :: "dict \<Rightarrow> json" where
  "session_entry d = (case map_of d ''session'' of Some j \<Rightarrow> j | None \<Rightarrow> JObj [])"

definition notice_of :: "('c, 'l, 'w) lf_env \<Rightarrow> hook \<Rightarrow> payload \<Rightarrow> notice raising" where
  "notice_of env h p = (case p of
     Ident i \<Rightarrow> Inr (On_deleted i)
   | Data d \<Rightarrow>
       if h \<in> {Message_added, Message_updated} then (case as_dict (session_entry d) of
           Inl e \<Rightarrow> Inl e
         | Inr sd \<Rightarrow> (case session_load (le_now env) sd of
             Inl e \<Rightarrow> Inl e
           | Inr s \<Rightarrow> (case message_load (le_valid env) d of Inl e \<Rightarrow> Inl e | Inr m \<Rightarrow> Inr (On_message s m))))
       else (case session_load (le_now env) d of Inl e \<Rightarrow> Inl e | Inr s \<Rightarrow> Inr (On_session s)))"

definition listen_one :: "('c, 'l, 'w) lf_env \<Rightarrow> hook \<Rightarrow> payload \<Rightarrow> 'l \<Rightarrow> 'w \<Rightarrow> 'w" where
  "listen_one env h p l w = (case notice_of env h p of Inl e \<Rightarrow> w | Inr n \<Rightarrow> snd (le_listen env l h n w))"

definition payload_json :: "payload \<Rightarrow> json" where
  "payload_json p = (case p of Data d \<Rightarrow> JObj d | Ident i \<Rightarrow> JStr i)"

text \<open>The event on the bus; two hooks have none.\<close>

definition hook_event :: "hook \<Rightarrow> (string \<times> string) option" where
  "hook_event h = (case h of
     Session_created \<Rightarrow> Some (''session.created'', ''session'') | Session_updated \<Rightarrow> Some (''session.updated'', ''session'')
   | Message_added \<Rightarrow> Some (''message.created'', ''message'') | Message_updated \<Rightarrow> Some (''message.updated'', ''message'')
   | Session_deleted \<Rightarrow> Some (''session.deleted'', ''session_id'') | _ \<Rightarrow> None)"

definition emit_hook :: "('c, 'l, 'w) lf_env \<Rightarrow> hook \<Rightarrow> payload \<Rightarrow> ('c, 'l) lifecycle \<Rightarrow> 'w \<Rightarrow> 'w" where
  "emit_hook env h p lc w =
     (let w = fold (call_one env h p) (lf_callbacks lc h) w;
          w = fold (listen_one env h p) (lf_listeners lc) w
      in case hook_event h of Some (name, key) \<Rightarrow> le_publish env name [(key, payload_json p)] w | None \<Rightarrow> w)"

subsection \<open>Who hears of what\<close>

lemma session_needs_id: "jget d ''id'' = JNull \<Longrightarrow> \<exists>e. session_load now d = Inl e"
  by (auto simp: session_load_def invalid_session_def str_opt_def)

lemma no_message_notice: "h \<in> {Message_added, Message_updated} \<Longrightarrow> \<exists>e. notice_of env h (Data d) = Inl e"
proof (cases "map_of d ''session''")
  case None
  have "jget [] ''id'' = JNull" by (simp add: jget_def)
  from session_needs_id [OF this, of "le_now env"] None show "h \<in> {Message_added, Message_updated} \<Longrightarrow> ?thesis"
    by (auto simp: notice_of_def session_entry_def as_dict_def)
next
  case (Some j)
  then have "''session'' \<in> set (keys d)" by (rule map_of_in_keys)
  then have "\<not> set (keys d) \<subseteq> set message_fields" by (auto simp: message_fields_def simp del: set_map)
  then have "message_load (le_valid env) d = invalid_message" by (simp add: message_load_def)
  then show "h \<in> {Message_added, Message_updated} \<Longrightarrow> ?thesis"
    by (auto simp: notice_of_def invalid_message_def split: sum.split)
qed

lemma fold_idle: "(\<And>x. x \<in> set xs \<Longrightarrow> f x = id) \<Longrightarrow> fold f xs w = w"
  by (induction xs) auto

lemma fold_filter_idle: "(\<And>x. \<not> P x \<Longrightarrow> f x = id) \<Longrightarrow> fold f xs w = fold f (filter P xs) w"
  by (induction xs arbitrary: w) auto

lemma lifecycle_omissions_facts:
  shows "h \<in> {Message_added, Message_updated} \<Longrightarrow> emit_hook env h (Data d) lc w = emit_hook env h (Data d) (lc\<lparr>lf_listeners := []\<rparr>) w"
    and "\<not> awaits h \<Longrightarrow> emit_hook env h p lc w
      = emit_hook env h p (lc\<lparr>lf_callbacks := (lf_callbacks lc)(h := filter (\<lambda>c. \<not> le_coroutine env c) (lf_callbacks lc h))\<rparr>) w"
    and "h \<in> {Session_archived, Session_compacted} \<Longrightarrow> emit_hook (env\<lparr>le_publish := pub\<rparr>) h p lc w = emit_hook env h p lc w"
proof -
  assume "h \<in> {Message_added, Message_updated}"
  then obtain e where "notice_of env h (Data d) = Inl e" using no_message_notice by metis
  then have "listen_one env h (Data d) l = id" for l by (auto simp: listen_one_def)
  then have "fold (listen_one env h (Data d)) ls v = v" for ls v by (intro fold_idle)
  then show "emit_hook env h (Data d) lc w = emit_hook env h (Data d) (lc\<lparr>lf_listeners := []\<rparr>) w"
    by (simp add: emit_hook_def)
next
  assume "\<not> awaits h"
  then have "\<not> \<not> le_coroutine env c \<Longrightarrow> call_one env h p c = id" for c by (auto simp: call_one_def)
  from fold_filter_idle [where P = "\<lambda>c. \<not> le_coroutine env c" and f = "call_one env h p", OF this]
  show "emit_hook env h p lc w
      = emit_hook env h p (lc\<lparr>lf_callbacks := (lf_callbacks lc)(h := filter (\<lambda>c. \<not> le_coroutine env c) (lf_callbacks lc h))\<rparr>) w"
    by (simp add: emit_hook_def)
next
  assume h: "h \<in> {Session_archived, Session_compacted}"
  have n: "notice_of (env\<lparr>le_publish := pub\<rparr>) h p = notice_of env h p" by (simp add: notice_of_def cong: payload.case_cong sum.case_cong if_cong)
  have "call_one (env\<lparr>le_publish := pub\<rparr>) h p = call_one env h p" "listen_one (env\<lparr>le_publish := pub\<rparr>) h p = listen_one env h p"
    by (simp_all add: fun_eq_iff call_one_def listen_one_def n cong: sum.case_cong if_cong)
  with h show "emit_hook (env\<lparr>le_publish := pub\<rparr>) h p lc w = emit_hook env h p lc w" by (auto simp: emit_hook_def hook_event_def)
qed

text \<open>What the hooks leave out. No listener ever hears of a message: the data either has no session to build one from, or the key
  that carries it is forbidden in a message. A callback that is a coroutine is never run for an update of a message
  or when a session is archived, compacted or deleted. And an archived or compacted session is not published.\<close>

theorem lifecycle_omissions:
  shows "(h \<in> {Message_added, Message_updated} \<longrightarrow> emit_hook env h (Data d) lc w = emit_hook env h (Data d) (lc\<lparr>lf_listeners := []\<rparr>) w)
    \<and> (\<not> awaits h \<longrightarrow> emit_hook env h p lc w
      = emit_hook env h p (lc\<lparr>lf_callbacks := (lf_callbacks lc)(h := filter (\<lambda>c. \<not> le_coroutine env c) (lf_callbacks lc h))\<rparr>) w)
    \<and> (h \<in> {Session_archived, Session_compacted} \<longrightarrow> emit_hook (env\<lparr>le_publish := pub\<rparr>) h p lc w = emit_hook env h p lc w)"
  by (intro conjI impI; (rule lifecycle_omissions_facts(1), assumption | rule lifecycle_omissions_facts(2), assumption | rule lifecycle_omissions_facts(3), assumption))

text \<open>An environment that records what is called.\<close>

datatype heard = Called nat | Heard nat | Published string

definition recorder :: "(nat, nat, heard list) lf_env" where
  "recorder = \<lparr>le_coroutine = (\<lambda>c. c = 1), le_call = (\<lambda>c p w. (Some (Exn ''ValueError'' []), w @ [Called c])),
     le_listen = (\<lambda>l h n w. (None, w @ [Heard l])), le_publish = (\<lambda>e d w. w @ [Published e]), le_valid = (\<lambda>_. True), le_now = 0\<rparr>"

definition full_lifecycle :: "(nat, nat) lifecycle" where
  "full_lifecycle = \<lparr>lf_callbacks = (\<lambda>_. [1, 2]), lf_listeners = [7]\<rparr>"

theorem lifecycle_omissions_witness:
  "emit_hook recorder Message_updated (Data [(''id'', JStr ''m'')]) full_lifecycle [] = [Called 2, Published ''message.updated'']
   \<and> emit_hook recorder Session_deleted (Ident ''s'') full_lifecycle [] = [Called 2, Heard 7, Published ''session.deleted'']
   \<and> emit_hook (recorder\<lparr>le_publish := (\<lambda>e d w. [])\<rparr>) Session_archived (Data []) full_lifecycle [] = [Called 2]"
proof -
  have 1: "Message_updated \<in> {Message_added, Message_updated}" "\<not> awaits Session_deleted" "Session_archived \<in> {Session_archived, Session_compacted}"
    by (simp_all add: awaits_def)
  have e: "emit_hook recorder Message_updated (Data [(''id'', JStr ''m'')]) (full_lifecycle\<lparr>lf_listeners := []\<rparr>) [] = [Called 2, Published ''message.updated'']"
    "emit_hook recorder Session_archived (Data []) full_lifecycle [] = [Called 2]"
    by code_simp+
  have f: "emit_hook recorder Session_deleted (Ident ''s'') (full_lifecycle\<lparr>lf_callbacks := (lf_callbacks full_lifecycle)(Session_deleted :=
      filter (\<lambda>c. \<not> le_coroutine recorder c) (lf_callbacks full_lifecycle Session_deleted))\<rparr>) [] = [Called 2, Heard 7, Published ''session.deleted'']"
    by code_simp
  show ?thesis
    using lifecycle_omissions [where h = Message_updated and env = recorder and d = "[(''id'', JStr ''m'')]" and lc = full_lifecycle and w = "[]"] 1(1)
      lifecycle_omissions [where h = Session_deleted and env = recorder and p = "Ident ''s''" and lc = full_lifecycle and w = "[]"] 1(2)
      lifecycle_omissions [where h = Session_archived and env = recorder and pub = "\<lambda>e d w. []" and p = "Data []" and lc = full_lifecycle and w = "[]"] 1(3) e f
    by auto
qed

text \<open>A failing callback or listener does not keep the others from being called: of an event that everybody gets each is called once, in the order callbacks, listeners, bus.\<close>

lemma emit_in_order:
  assumes "awaits h" "notice_of env h p = Inr n" "hook_event h = Some (name, key)"
    and "\<And>c w. le_call env c p w = (r c, w @ [Called c])" "\<And>l w. le_listen env l h n w = (q l, w @ [Heard l])"
    and "\<And>d w. le_publish env name d w = w @ [Published name]"
  shows "emit_hook env h p lc w = w @ map Called (lf_callbacks lc h) @ map Heard (lf_listeners lc) @ [Published name]"
proof -
  have "fold (call_one env h p) cs w = w @ map Called cs" for cs w
    by (induction cs arbitrary: w) (simp_all add: call_one_def assms)
  moreover have "fold (listen_one env h p) ls w = w @ map Heard ls" for ls w
    by (induction ls arbitrary: w) (simp_all add: listen_one_def assms)
  ultimately show ?thesis by (simp add: emit_hook_def assms)
qed

end
