(* ===== verification/MessageStore.thy ===== *)
theory MessageStore
  imports Lifecycle "HOL-Library.Multiset"
begin

text \<open>
  The rest of \<open>storage/store.py\<close> and \<open>core/repositories.py\<close>: the lists of messages and parts, and the repositories
  of both. A stored object is read as the dictionary it is; turning it into a message or a part checks its fields.
\<close>

declare map_of_eq_Some_iff [simp del] Some_eq_map_of_iff [simp del]

subsection \<open>Reading what a directory holds\<close>

fun read_rows :: "path list \<Rightarrow> store \<Rightarrow> dict list raising" where
  "read_rows [] st = Inr []"
| "read_rows (k # ks) st = (case st_read k st of
     Inl e \<Rightarrow> Inl e
   | Inr (Some (x # d)) \<Rightarrow> (case read_rows ks st of Inl e \<Rightarrow> Inl e | Inr ds \<Rightarrow> Inr ((x # d) # ds))
   | Inr _ \<Rightarrow> read_rows ks st)"

definition rows :: "string list \<Rightarrow> store \<Rightarrow> dict list raising" where
  "rows pre st = (case st_list pre st of Inl e \<Rightarrow> Inl e | Inr ks \<Rightarrow> read_rows ks st)"

text \<open>\<open>(m.get("time") or {}).get("created") or 0\<close>. A time that is not a dictionary raises. Numbers and texts are ordered
  among themselves, other kinds and mixtures are not comparable (lists, which Python orders, are counted among these).\<close>

datatype sort_value = is_number: Number rat | is_word: Word string | Unordered

definition created_of :: "dict \<Rightarrow> sort_value raising" where
  "created_of d = (let t = jget d ''time'' in
     if \<not> jtrue t then Inr (Number 0)
     else case t of
       JObj td \<Rightarrow> (let c = jget td ''created'' in if \<not> jtrue c then Inr (Number 0)
         else Inr (case c of JNum x \<Rightarrow> Number x | JBool b \<Rightarrow> Number 1 | JStr s \<Rightarrow> Word s | _ \<Rightarrow> Unordered))
     | _ \<Rightarrow> Inl (Exn ''AttributeError'' ''get''))"

text \<open>\<open>list.sort\<close> is stable, also when it is reversed.\<close>

definition py_sort :: "('a \<Rightarrow> 'k :: linorder) \<Rightarrow> bool \<Rightarrow> 'a list \<Rightarrow> 'a list" where
  "py_sort f reverse xs = (if reverse then rev (sort_key f (rev xs)) else sort_key f xs)"

definition number_of :: "sort_value \<Rightarrow> rat" where
  "number_of v = (case v of Number x \<Rightarrow> x | _ \<Rightarrow> 0)"

definition word_of :: "sort_value \<Rightarrow> string" where
  "word_of v = (case v of Word s \<Rightarrow> s | _ \<Rightarrow> [])"

definition sort_rows :: "bool \<Rightarrow> dict list \<Rightarrow> dict list raising" where
  "sort_rows reverse ds = (case find raises (map created_of ds) of
     Some (Inl e) \<Rightarrow> Inl e
   | _ \<Rightarrow>
     (let v = (\<lambda>d. case created_of d of Inr x \<Rightarrow> x | Inl e \<Rightarrow> Unordered)
      in if length ds \<le> 1 then Inr ds
         else if list_all (\<lambda>d. is_number (v d)) ds then Inr (py_sort (\<lambda>d. number_of (v d)) reverse ds)
         else if list_all (\<lambda>d. is_word (v d)) ds then Inr (py_sort (\<lambda>d. word_of (v d)) reverse ds)
         else Inl (Exn ''TypeError'' ''not supported between these instances'')))"

definition list_messages :: "string \<Rightarrow> bool \<Rightarrow> store \<Rightarrow> dict list raising" where
  "list_messages sid reverse st = (case rows [''message'', sid] st of Inl e \<Rightarrow> Inl e | Inr ds \<Rightarrow> sort_rows reverse ds)"

definition list_parts :: "string \<Rightarrow> store \<Rightarrow> dict list raising" where
  "list_parts mid st = rows [''part'', mid] st"

definition update_part :: "string \<Rightarrow> part \<Rightarrow> store \<Rightarrow> part raising \<times> store" where
  "update_part = create_part"

subsection \<open>The repositories\<close>

text \<open>\<open>_dict_to_part\<close>: the fields each kind requires; \<open>valid\<close> checks their types.\<close>

definition part_fields :: "string \<Rightarrow> string list option" where
  "part_fields t =
     map_of [(''text'', [''text'']), (''file'', [''url'', ''mime'']), (''tool'', [''tool'', ''state'']), (''reasoning'', [''text'']), (''snapshot'', [''snapshot'']),
       (''patch'', [''hash'', ''files'']), (''agent'', [''name'']), (''subtask'', [''category'']), (''retry'', [''attempt'']), (''compaction'', [''auto''])] t"

definition dict_to_part :: "(dict \<Rightarrow> bool) \<Rightarrow> dict \<Rightarrow> part raising" where
  "dict_to_part valid d = (case (case jget d ''part_type'' of JStr t \<Rightarrow> part_fields t | _ \<Rightarrow> None) of
     None \<Rightarrow> Inl (Exn ''ValueError'' ''Unknown part_type'')
   | Some fs \<Rightarrow>
       (case str_opt (jget d ''id'') of
          Some i \<Rightarrow> if set ([''session_id'', ''message_id''] @ fs) \<subseteq> set (keys d) \<and> valid d then Inr \<lparr>pt_id = i, pt_dump = d\<rparr>
                    else Inl (Exn ''ValidationError'' ''Part'')
        | None \<Rightarrow> Inl (Exn ''ValidationError'' ''Part'')))"

fun load_all :: "('a \<Rightarrow> 'b raising) \<Rightarrow> 'a list \<Rightarrow> 'b list raising" where
  "load_all f [] = Inr []"
| "load_all f (x # xs) = (case f x of Inl e \<Rightarrow> Inl e | Inr y \<Rightarrow> (case load_all f xs of Inl e \<Rightarrow> Inl e | Inr ys \<Rightarrow> Inr (y # ys)))"

definition loaded :: "string \<Rightarrow> string \<Rightarrow> string \<Rightarrow> (dict \<Rightarrow> 'a raising) \<Rightarrow> dict option raising \<Rightarrow> 'a result" where
  "loaded what missing i f r = (case r of
     Inl e \<Rightarrow> stored_result what (Inl e)
   | Inr None \<Rightarrow> Err (missing @ i) (Some ''NOT_FOUND'') False
   | Inr (Some d) \<Rightarrow> stored_result what (f d))"

definition mr_get_by_id :: "(dict \<Rightarrow> bool) \<Rightarrow> string \<Rightarrow> string \<Rightarrow> store \<Rightarrow> message result" where
  "mr_get_by_id valid sid mid st = loaded ''Failed to get message: '' ''Message not found: '' mid (message_load valid) (get_message sid mid st)"

definition mr_list_by_session :: "(dict \<Rightarrow> bool) \<Rightarrow> string \<Rightarrow> bool \<Rightarrow> store \<Rightarrow> message list result" where
  "mr_list_by_session valid sid reverse st = stored_result ''Failed to list messages: ''
     (case list_messages sid reverse st of Inl e \<Rightarrow> Inl e | Inr ds \<Rightarrow> load_all (message_load valid) ds)"

definition pr_get_by_id :: "(dict \<Rightarrow> bool) \<Rightarrow> string \<Rightarrow> string \<Rightarrow> store \<Rightarrow> part result" where
  "pr_get_by_id valid mid pid st = loaded ''Failed to get part: '' ''Part not found: '' pid (dict_to_part valid) (get_part mid pid st)"

definition pr_update :: "string \<Rightarrow> part \<Rightarrow> store \<Rightarrow> part result \<times> store" where
  "pr_update mid p st = map_prod (stored_result ''Failed to update part: '') id (update_part mid p st)"

definition pr_list_by_message :: "(dict \<Rightarrow> bool) \<Rightarrow> string \<Rightarrow> store \<Rightarrow> part list result" where
  "pr_list_by_message valid mid st = stored_result ''Failed to list parts: ''
     (case list_parts mid st of Inl e \<Rightarrow> Inl e | Inr ds \<Rightarrow> load_all (dict_to_part valid) ds)"

subsection \<open>What a list holds\<close>

lemma read_rows_eq:
  assumes "\<forall>k \<in> set ks. \<exists>d. st_read k st = Inr (Some d) \<and> f k = d"
  shows "read_rows ks st = Inr (filter (\<lambda>d. d \<noteq> []) (map f ks))"
  using assms
proof (induction ks)
  case (Cons k ks)
  then obtain d where "st_read k st = Inr (Some d)" "f k = d" by auto
  with Cons show ?case by (cases d) auto
qed simp

text \<open>The rows of a directory are the objects of the files below it, in the order of their paths.\<close>

lemma rows_eq:
  assumes "st_inv st" "get_path pre = Inr p"
  shows "rows pre st = Inr (filter (\<lambda>d. d \<noteq> []) (map (\<lambda>k. the (map_of (st_files st) k)) (sort (filter (strict_prefix p) (keys (st_files st))))))"
proof -
  obtain ks where ks: "st_list pre st = Inr ks" "ks = sort (filter (strict_prefix p) (keys (st_files st)))"
    using assms(2) by (simp add: st_list_def)
  have "\<exists>d. st_read k st = Inr (Some d) \<and> the (map_of (st_files st) k) = d" if "k \<in> set ks" for k
    using listed_reads [OF assms(1) ks(1) that] by (metis option.sel)
  then show ?thesis using read_rows_eq [of ks st "\<lambda>k. the (map_of (st_files st) k)"] ks by (simp add: rows_def)
qed

lemma py_sort_mset [simp]: "mset (py_sort f r xs) = mset xs"
  by (simp add: py_sort_def)

lemma sort_rows_mset: "sort_rows r ds = Inr es \<Longrightarrow> mset es = mset ds"
  by (auto simp: sort_rows_def Let_def split: option.splits sum.splits if_splits)

lemma under_path:
  assumes "key_path (pre @ [k]) = Inr p"
  obtains b where "get_path pre = Inr b" "p = b @ [with_json k]"
proof -
  have "with_json k \<noteq> ''.''" for k by (auto simp: with_json_def suffix_def append_eq_Cons_conv)
  with assms that show thesis by (auto simp: key_path_def get_path_def split: list.splits if_splits)
qed

lemma message_file:
  assumes "mr_create m st = (Ok x, st')"
  obtains p b where "key_path [''message'', msg_session_id m, msg_id m] = Inr p" "st_files st' = AList.update p (msg_dump m) (st_files st)"
    "x = m" "get_path [''message'', msg_session_id m] = Inr b" "strict_prefix b p"
    "st_write [''message'', msg_session_id m, msg_id m] (msg_dump m) st = (Inr (), st')"
proof -
  from assms have w: "st_write [''message'', msg_session_id m, msg_id m] (msg_dump m) st = (Inr (), st')" "x = m"
    by (auto simp: mr_create_def create_message_def split: prod.splits sum.splits)
  from w(1) obtain p where p: "key_path [''message'', msg_session_id m, msg_id m] = Inr p" "st_files st' = AList.update p (msg_dump m) (st_files st)"
    by (rule st_write_file)
  from p(1) obtain b where b: "get_path [''message'', msg_session_id m] = Inr b" "p = b @ [with_json (msg_id m)]"
    using under_path [of "[''message'', msg_session_id m]" "msg_id m" p] by auto
  from b(2) have "strict_prefix b p" by (simp add: strict_prefix_def)
  with p w b(1) show thesis by (intro that)
qed

lemma messages_roundtrip_facts:
  assumes "st_inv st" "mr_create m st = (Ok x, st')" "message_load valid (msg_dump m) = Inr m"
  shows "x = m" "st_inv st'" "mr_get_by_id valid (msg_session_id m) (msg_id m) st' = Ok m"
    and "list_messages (msg_session_id m) reverse st' = Inr ds \<Longrightarrow> msg_dump m \<in> set ds"
    and "list_messages (msg_session_id m) reverse st' = Inr ds \<Longrightarrow> \<exists>b. get_path [''message'', msg_session_id m] = Inr b
      \<and> mset ds = mset (filter (\<lambda>d. d \<noteq> []) (map (\<lambda>k. the (map_of (st_files st') k)) (filter (strict_prefix b) (keys (st_files st')))))"
proof -
  obtain p b where f: "key_path [''message'', msg_session_id m, msg_id m] = Inr p" "st_files st' = AList.update p (msg_dump m) (st_files st)"
    "x = m" "get_path [''message'', msg_session_id m] = Inr b" "strict_prefix b p"
    "st_write [''message'', msg_session_id m, msg_id m] (msg_dump m) st = (Inr (), st')"
    by (rule message_file [OF assms(2)])
  show "x = m" by (rule f(3))
  show inv: "st_inv st'" by (rule st_write_inv [OF assms(1) f(6)])
  have ne: "msg_dump m \<noteq> []" using assms(3) by (auto simp: message_load_def invalid_message_def jget_def str_opt_def split: if_splits)
  then obtain y d where md: "msg_dump m = y # d" by (cases "msg_dump m") auto
  have "st_read [''message'', msg_session_id m, msg_id m] st' = Inr (Some (msg_dump m))" by (rule st_write_read(1) [OF assms(1) f(6)])
  with md assms(3) show "mr_get_by_id valid (msg_session_id m) (msg_id m) st' = Ok m"
    by (simp add: mr_get_by_id_def loaded_def get_message_def)
  let ?ks = "filter (strict_prefix b) (keys (st_files st'))"
  have "mset (map (\<lambda>k. the (map_of (st_files st') k)) (sort ?ks)) = mset (map (\<lambda>k. the (map_of (st_files st') k)) ?ks)"
    by (simp only: mset_map mset_sort)
  then have m: "mset (filter (\<lambda>d. d \<noteq> []) (map (\<lambda>k. the (map_of (st_files st') k)) (sort ?ks)))
      = mset (filter (\<lambda>d. d \<noteq> []) (map (\<lambda>k. the (map_of (st_files st') k)) ?ks))"
    by (simp only: mset_filter)
  assume "list_messages (msg_session_id m) reverse st' = Inr ds"
  then have ds: "mset ds = mset (filter (\<lambda>d. d \<noteq> []) (map (\<lambda>k. the (map_of (st_files st') k)) ?ks))"
    using rows_eq [OF inv f(4)] m by (auto simp: list_messages_def dest: sort_rows_mset)
  with f(4) show "\<exists>b. get_path [''message'', msg_session_id m] = Inr b
      \<and> mset ds = mset (filter (\<lambda>d. d \<noteq> []) (map (\<lambda>k. the (map_of (st_files st') k)) (filter (strict_prefix b) (keys (st_files st')))))" by blast
  have "p \<in> set ?ks" using f(2,5) by (simp add: dom_update)
  then have "msg_dump m \<in> set (filter (\<lambda>d. d \<noteq> []) (map (\<lambda>k. the (map_of (st_files st') k)) ?ks))"
    using ne f(2) by (auto simp: image_iff intro!: bexI [of _ p])
  with ds show "msg_dump m \<in> set ds" by (metis set_mset_mset)
qed



end
