(* ===== verification/SessionService.thy ===== *)
theory SessionService
  imports MessageStore Texts
begin

text \<open>
  \<open>DefaultSessionService\<close> of \<open>core/services/session_service.py\<close> over the repositories and the store. The reports to the progress
  and notification handlers are a list of events; the answer of the confirmation, the new identifiers and the
  clock are arguments. The session manager of the deprecated construction never exists, see \<open>sv_init\<close>.
\<close>

declare map_of_eq_Some_iff [simp del] Some_eq_map_of_iff [simp del]

record service =
  sv_dir :: string
  sv_name :: string
  sv_repo_project :: string
  sv_has_parts :: bool

datatype report = Begun string | Progress nat string | Finished string | Notified string

text \<open>\<open>__init__\<close>. With a store in place of the repositories it reads \<open>project_dir\<close> before it is set.\<close>

definition sv_init :: "bool \<Rightarrow> bool \<Rightarrow> bool \<Rightarrow> string \<Rightarrow> string \<Rightarrow> string \<Rightarrow> bool \<Rightarrow> service raising" where
  "sv_init has_storage has_session_repo has_message_repo dir name project has_parts =
     (if has_storage then Inl (Exn ''AttributeError'' ''project_dir'')
      else if \<not> has_session_repo \<or> \<not> has_message_repo
        then Inl (Exn ''ValueError'' ''session_repo and message_repo are required (or provide storage for backward compatibility)'')
      else Inr \<lparr>sv_dir = dir, sv_name = name, sv_repo_project = project, sv_has_parts = has_parts\<rparr>)"

subsection \<open>Sessions\<close>

text \<open>\<open>re.sub(r"\s+", "-", ...)\<close>: each run of spaces is one dash; then what is not allowed in a slug is dropped.\<close>

fun dash_runs :: "bool \<Rightarrow> string \<Rightarrow> string" where
  "dash_runs inside [] = []"
| "dash_runs inside (c # cs) = (if is_space c then (if inside then dash_runs True cs else CHR ''-'' # dash_runs True cs) else c # dash_runs False cs)"

definition slug_char :: "char \<Rightarrow> bool" where
  "slug_char c = (let n = of_char c :: nat in 97 \<le> n \<and> n \<le> 122 \<or> 48 \<le> n \<and> n \<le> 57 \<or> c = CHR ''_'' \<or> c = CHR ''-'')"

definition slug_of :: "string \<Rightarrow> string" where
  "slug_of title = take 100 (filter slug_char (dash_runs False (map (\<lambda>c. if c = CHR '' '' then CHR ''-'' else c) (str_lower title))))"

definition default_rest :: dict where
  "default_rest = [(''summary'', JNull), (''share'', JNull), (''permission'', JNull), (''revert'', JNull), (''time_compacting'', JNull), (''time_archived'', JNull),
     (''message_counter'', JNum 0), (''message_count'', JNum 0), (''total_cost'', JNum 0), (''metadata'', JObj [])]"

definition session_error :: "string \<Rightarrow> string \<Rightarrow> 'a result" where
  "session_error what msg = Err (what @ msg) (Some ''SessionError'') False"

definition svc_create_session :: "service \<Rightarrow> string \<Rightarrow> rat \<Rightarrow> bool raising \<Rightarrow> string \<Rightarrow> store \<Rightarrow> session result \<times> store \<times> report list" where
  "svc_create_session sv uuid now confirmed title st = (case confirmed of
     Inl e \<Rightarrow> (session_error ''Failed to create session: '' (exn_msg e), st, [])
   | Inr use_parent \<Rightarrow>
       (let evs = [Begun ''Creating session'', Progress 50 ''Initializing...''];
            s = \<lparr>s_id = uuid, s_slug = slug_of title, s_project_id = sv_name sv, s_directory = sv_dir sv,
                 s_parent_id = (if use_parent then Some [] else None), s_title = title, s_version = ''1.0.0'',
                 s_time_created = now, s_time_updated = now, s_rest = default_rest\<rparr>
        in case sr_create s st of
             (Ok s, st) \<Rightarrow> (Ok s, st, evs @ [Progress 100 ''Session created'', Finished (''Created session: '' @ s_title s), Notified (''Session created: '' @ s_title s)])
           | (r, st) \<Rightarrow> (session_error ''Failed to create session: '' (err_error r), st, evs)))"

definition svc_delete_session :: "service \<Rightarrow> string \<Rightarrow> store \<Rightarrow> bool result \<times> store \<times> report list" where
  "svc_delete_session sv sid st =
     (let evs = [Begun ''Deleting session'', Progress 50 (''Deleting '' @ sid @ ''...'')]
      in case sr_delete (sv_repo_project sv) sid st of
           (Ok b, st) \<Rightarrow> (Ok b, st, evs @ (if b then [Progress 100 ''Session deleted'', Finished (''Deleted session: '' @ sid), Notified (''Session '' @ sid @ '' deleted'')] else []))
         | (r, st) \<Rightarrow> (session_error ''Failed to delete session: '' (err_error r), st, evs))"

definition svc_list_sessions :: "service \<Rightarrow> rat \<Rightarrow> store \<Rightarrow> session list result" where
  "svc_list_sessions sv now st = (let r = sr_list_by_project now (sv_name sv) st
     in if is_err r then session_error ''Failed to list sessions: '' (err_error r) else r)"

definition svc_get_session :: "service \<Rightarrow> rat \<Rightarrow> string \<Rightarrow> store \<Rightarrow> session option result" where
  "svc_get_session sv now sid st = (case sr_get_by_id now (sv_repo_project sv) sid st of
     Ok s \<Rightarrow> Ok (Some s)
   | Err e c b \<Rightarrow> if c = Some ''NOT_FOUND'' then Ok None else Err e c False
   | Pass m \<Rightarrow> Pass m)"

subsection \<open>Messages and parts\<close>

datatype message_args = Message_arg message | Three_args string string string | Other_args

datatype message_answer = As_result "string result" | As_id string

definition new_message :: "string \<Rightarrow> string \<Rightarrow> string \<Rightarrow> rat \<Rightarrow> string \<Rightarrow> message raising" where
  "new_message uuid sid role now text = message_load (\<lambda>_. True)
     [(''id'', JStr uuid), (''session_id'', JStr sid), (''role'', JStr role), (''time'', JObj [(''created'', JNum now)]), (''text'', JStr text),
      (''parts'', JArr []), (''summary'', JNull), (''token_usage'', JNull), (''metadata'', JObj [])]"

definition svc_add_message :: "service \<Rightarrow> string \<Rightarrow> rat \<Rightarrow> message_args \<Rightarrow> store \<Rightarrow> message_answer \<times> store \<times> report list" where
  "svc_add_message sv uuid now args st =
     (let evs = [Begun ''Adding message'', Progress 50 ''Creating message...''];
          stored = (\<lambda>m. [Progress 100 ''Message added'', Finished (''Added message to session '' @ msg_session_id m), Notified (''Message added to session '' @ msg_session_id m)])
      in case args of
           Other_args \<Rightarrow> (As_result (Err ''Invalid arguments to add_message'' (Some ''ValueError'') False), st, evs)
         | Message_arg m \<Rightarrow> (case mr_create m st of
             (Ok c, st) \<Rightarrow> (As_id (msg_id c), st, evs @ stored m)
           | (_, st) \<Rightarrow> (As_id (msg_id m), st, evs))
         | Three_args sid role text \<Rightarrow> (case new_message uuid sid role now text of
             Inl e \<Rightarrow> (As_result (session_error ''Failed to add message: '' (exn_msg e)), st, evs)
           | Inr m \<Rightarrow> (case mr_create m st of
               (Ok c, st) \<Rightarrow> (As_result (Ok (msg_id c)), st, evs @ stored m)
             | (r, st) \<Rightarrow> (As_result (session_error ''Failed to add message: '' (err_error r)), st, evs))))"

definition svc_list_messages :: "(dict \<Rightarrow> bool) \<Rightarrow> string \<Rightarrow> store \<Rightarrow> message list" where
  "svc_list_messages valid sid st = (case mr_list_by_session valid sid True st of Ok ms \<Rightarrow> ms | _ \<Rightarrow> [])"

definition svc_add_part :: "service \<Rightarrow> part \<Rightarrow> store \<Rightarrow> string \<times> store" where
  "svc_add_part sv p st = (case jget (pt_dump p) ''message_id'' of
     JStr (c # cs) \<Rightarrow> if sv_has_parts sv
       then (case pr_create (c # cs) p st of (Ok q, st) \<Rightarrow> (pt_id q, st) | (_, st) \<Rightarrow> (pt_id p, st))
       else (pt_id p, st)
   | _ \<Rightarrow> (pt_id p, st))"

subsection \<open>Export and import\<close>

text \<open>\<open>strip\<close>: \<open>model_dump(exclude_none=True)\<close>. The code behind the return, which would report the end, is not reached.\<close>

definition svc_export :: "service \<Rightarrow> (dict \<Rightarrow> bool) \<Rightarrow> (dict \<Rightarrow> dict) \<Rightarrow> rat \<Rightarrow> string \<Rightarrow> store \<Rightarrow> (dict \<times> dict list) result \<times> report list" where
  "svc_export sv valid strip now sid st =
     (let evs = [Begun ''Exporting session'', Progress 50 (''Loading session '' @ sid)]
      in case sr_get_by_id now (sv_repo_project sv) sid st of
           Ok s \<Rightarrow> (case mr_list_by_session valid sid True st of
               Ok ms \<Rightarrow> (Ok (session_dump s, map (\<lambda>m. strip (msg_dump m)) ms), evs)
             | r \<Rightarrow> (session_error ''Failed to list messages: '' (err_error r), evs))
         | _ \<Rightarrow> (session_error ''Session not found: '' sid, evs))"

definition for_session :: "string \<Rightarrow> message \<Rightarrow> message" where
  "for_session sid m = m\<lparr>msg_session_id := sid, msg_dump := AList.update ''session_id'' (JStr sid) (msg_dump m)\<rparr>"

text \<open>A message that cannot be stored is skipped, one that is not valid ends the import with the exception.\<close>

fun import_messages :: "(dict \<Rightarrow> bool) \<Rightarrow> string \<Rightarrow> dict list \<Rightarrow> store \<Rightarrow> exn option \<times> store" where
  "import_messages valid sid [] st = (None, st)"
| "import_messages valid sid (d # ds) st = (case message_load valid d of
     Inl e \<Rightarrow> (Some e, st)
   | Inr m \<Rightarrow> import_messages valid sid ds (snd (mr_create (for_session sid m) st)))"

definition imported_session :: "service \<Rightarrow> rat \<Rightarrow> string option \<Rightarrow> string \<Rightarrow> string \<Rightarrow> dict \<Rightarrow> session raising" where
  "imported_session sv now project sid title d =
     (case (jget d ''parent_id'', case map_of d ''version'' of None \<Rightarrow> JStr ''1.0.0'' | Some v \<Rightarrow> v) of
        (p, JStr v) \<Rightarrow>
          if p \<noteq> JNull \<and> str_opt p = None then invalid_session
          else Inr \<lparr>s_id = sid, s_slug = slug_of title, s_project_id = (case project of Some (c # cs) \<Rightarrow> c # cs | _ \<Rightarrow> sv_name sv), s_directory = sv_dir sv,
             s_parent_id = str_opt p, s_title = title, s_version = v, s_time_created = now, s_time_updated = now,
             s_rest = AList.update ''summary'' (jget d ''summary'') default_rest\<rparr>
      | _ \<Rightarrow> invalid_session)"

definition svc_import :: "service \<Rightarrow> (dict \<Rightarrow> bool) \<Rightarrow> rat \<Rightarrow> string option \<Rightarrow> dict \<Rightarrow> dict list \<Rightarrow> store
    \<Rightarrow> session result raising \<times> store \<times> report list" where
  "svc_import sv valid now project d ds st =
     (let evs = [Begun ''Importing session'', Progress 50 ''Processing session data''];
          ending = (\<lambda>s st. case import_messages valid (s_id s) ds st of
             (Some e, st) \<Rightarrow> (Inl e, st, evs)
           | (None, st) \<Rightarrow> (Inr (Ok s), st, evs @ [Progress 100 ''Import complete'', Finished ''Session imported successfully'']))
      in if \<not> jtrue (jget d ''id'') \<or> \<not> jtrue (jget d ''title'')
         then (Inr (Err ''Session data missing required fields: id, title'' (Some ''ValueError'') False), st, evs)
         else case (jget d ''id'', jget d ''title'') of
           (JStr sid, JStr title) \<Rightarrow>
             (case sr_get_by_id now (sv_repo_project sv) sid st of
                Ok s \<Rightarrow>
                  (let s = s\<lparr>s_title := title, s_rest := (case map_of d ''summary'' of Some j \<Rightarrow> AList.update ''summary'' j (s_rest s) | None \<Rightarrow> s_rest s)\<rparr>
                   in case sr_update now s st of
                        (Ok s, st) \<Rightarrow> ending s st
                      | (r, st) \<Rightarrow> (Inr (session_error ''Failed to update session: '' (err_error r)), st, evs))
              | _ \<Rightarrow> (case imported_session sv now project sid title d of
                  Inl e \<Rightarrow> (Inl e, st, evs)
                | Inr s \<Rightarrow> (case sr_create s st of
                    (Ok s, st) \<Rightarrow> ending s st
                  | (r, st) \<Rightarrow> (Inr (session_error ''Failed to create session: '' (err_error r)), st, evs))))
         | _ \<Rightarrow> (Inl (Exn ''ValidationError'' ''Session''), st, evs))"

subsection \<open>Properties\<close>

lemma sr_create_project: "sr_create s st = (Ok s', st') \<Longrightarrow> s' = s"
  by (auto simp: sr_create_def create_session_def split: prod.splits sum.splits)

lemma wf_default_rest: "wf_session s \<longleftrightarrow> set (keys (s_rest s)) \<subseteq> set session_rest_fields"
  by (simp add: wf_session_def)

lemma service_session_life_facts:
  assumes "st_inv st" "svc_create_session sv uuid now confirmed title st = (Ok s, st', evs)" "sv_repo_project sv = sv_name sv"
    and "\<forall>p d. map_of (st_files st) p = Some d \<longrightarrow> jget d ''id'' \<noteq> JStr uuid" "\<not> suffix ''.json'' uuid"
  shows "s_id s = uuid" "length (s_slug s) \<le> 100" "list_all slug_char (s_slug s)" "svc_get_session sv now2 uuid st' = Ok (Some s)"
    and "\<exists>st'' evs2. svc_delete_session sv uuid st' = (Ok True, st'', evs2) \<and> svc_get_session sv now2 uuid st'' = Ok None"
proof -
  from assms(2) obtain use_parent where c: "confirmed = Inr use_parent" by (cases confirmed) (auto simp: svc_create_session_def session_error_def)
  define s0 where "s0 = \<lparr>s_id = uuid, s_slug = slug_of title, s_project_id = sv_name sv, s_directory = sv_dir sv,
     s_parent_id = (if use_parent then Some [] else None), s_title = title, s_version = ''1.0.0'',
     s_time_created = now, s_time_updated = now, s_rest = default_rest\<rparr>"
  obtain r st1 where cr: "sr_create s0 st = (r, st1)" by fastforce
  with assms(2) c have ok: "r = Ok s" "st1 = st'"
    by (auto simp: svc_create_session_def Let_def s0_def [symmetric] session_error_def split: result.splits)
  with cr sr_create_project have s: "s = s0" by blast
  then show id: "s_id s = uuid" "length (s_slug s) \<le> 100" "list_all slug_char (s_slug s)"
    by (auto simp: s0_def slug_of_def list_all_iff dest: in_set_takeD)
  have wf: "wf_session s0" by (simp add: wf_session_def s0_def default_rest_def session_rest_fields_def)
  have only: "\<forall>p d. map_of (st_files st) p = Some d \<longrightarrow> jget d ''id'' = JStr (s_id s0) \<longrightarrow> key_path (session_keys s0) = Inr p"
    using assms(4) by (simp add: s0_def)
  have cr': "sr_create s0 st = (Ok s, st')" using cr ok by simp
  have proj: "s_project_id s0 = sv_repo_project sv" "s_id s0 = uuid" using assms(3) by (simp_all add: s0_def)
  from session_repository_roundtrip [OF assms(1) wf cr' only, of now2] assms(5) proj
  have get: "sr_get_by_id now2 (sv_repo_project sv) uuid st' = Ok s" and del: "\<exists>st'' e. sr_delete (sv_repo_project sv) uuid st' = (Ok True, st'')
         \<and> sr_get_by_id now2 (sv_repo_project sv) uuid st'' = Err e (Some ''NOT_FOUND'') False"
    by (auto simp: s)
  from get show "svc_get_session sv now2 uuid st' = Ok (Some s)" by (simp add: svc_get_session_def)
  from del show "\<exists>st'' evs2. svc_delete_session sv uuid st' = (Ok True, st'', evs2) \<and> svc_get_session sv now2 uuid st'' = Ok None"
    by (auto simp: svc_get_session_def svc_delete_session_def Let_def)
qed

text \<open>C30. The life of a session of the service: a session it created is found by its identifier with all its fields, its slug is at most a hundred
  letters, digits, dashes and underscores, and after its deletion it is not found. This needs that the repository
  is that of the project of the service, and that no other object claims the new identifier.\<close>

theorem service_session_life:
  assumes "st_inv st" "svc_create_session sv uuid now confirmed title st = (Ok s, st', evs)" "sv_repo_project sv = sv_name sv"
    and "\<forall>p d. map_of (st_files st) p = Some d \<longrightarrow> jget d ''id'' \<noteq> JStr uuid" "\<not> suffix ''.json'' uuid"
  shows "(s_id s = uuid)
    \<and> (length (s_slug s) \<le> 100)
    \<and> (list_all slug_char (s_slug s))
    \<and> (svc_get_session sv now2 uuid st' = Ok (Some s))
    \<and> (\<exists>st'' evs2. svc_delete_session sv uuid st' = (Ok True, st'', evs2) \<and> svc_get_session sv now2 uuid st'' = Ok None)"
  using service_session_life_facts(1) [OF assms] service_session_life_facts(2) [OF assms] service_session_life_facts(3) [OF assms] service_session_life_facts(4) [OF assms] service_session_life_facts(5) [OF assms] by blast

definition example_service :: service where
  "example_service = \<lparr>sv_dir = ''/p'', sv_name = ''p'', sv_repo_project = ''p'', sv_has_parts = False\<rparr>"

theorem service_session_life_witness:
  "\<exists>s st' evs. svc_create_session example_service ''u1'' 5 (Inr False) ''My  new Session!'' st_init = (Ok s, st', evs)
     \<and> s_slug s = ''my--new-session'' \<and> svc_get_session example_service 9 ''u1'' st' = Ok (Some s)"
proof -
  obtain r st' evs where c: "svc_create_session example_service ''u1'' 5 (Inr False) ''My  new Session!'' st_init = (r, st', evs)" by (metis prod_cases3)
  have "is_ok (fst (svc_create_session example_service ''u1'' 5 (Inr False) ''My  new Session!'' st_init))"
    "s_slug (ok_value (fst (svc_create_session example_service ''u1'' 5 (Inr False) ''My  new Session!'' st_init))) = ''my--new-session''"
    by code_simp+
  with c obtain s where s: "r = Ok s" "s_slug s = ''my--new-session''" by (auto simp: is_ok_iff)
  have pre: "sv_repo_project example_service = sv_name example_service" "\<forall>p d. map_of (st_files st_init) p = Some d \<longrightarrow> jget d ''id'' \<noteq> JStr ''u1''"
    "\<not> suffix ''.json'' ''u1''"
    by (simp_all add: example_service_def st_init_def suffix_def append_eq_Cons_conv Cons_eq_append_conv)
  from service_session_life [OF st_inv_init c [unfolded s(1)] pre] c s show ?thesis by blast
qed

lemma protocol_call_hides_failure_facts:
  assumes "svc_add_message sv uuid now (Message_arg m) st = (a, st', evs)"
  shows "a = As_id (msg_id m)"
    and "is_err (fst (mr_create m st)) \<Longrightarrow> st_files st' = st_files st \<and> length evs = 2"
    and "is_err (mr_list_by_session valid sid True st) \<Longrightarrow> svc_list_messages valid sid st = []"
proof -
  have created: "mr_create m st = (Ok c, s2) \<Longrightarrow> c = m" for c s2
    by (auto simp: mr_create_def create_message_def split: prod.splits sum.splits)
  from assms show "a = As_id (msg_id m)"
    by (auto simp: svc_add_message_def Let_def split: prod.splits result.splits dest: created)
  assume err: "is_err (fst (mr_create m st))"
  obtain r s2 where c: "mr_create m st = (r, s2)" by fastforce
  obtain q s3 where w: "st_write [''message'', msg_session_id m, msg_id m] (msg_dump m) st = (q, s3)" by fastforce
  with c have "s3 = s2" and r: "is_ok r \<longleftrightarrow> (\<exists>u. q = Inr u)"
    by (auto simp: mr_create_def create_message_def stored_result_def split: sum.splits prod.splits)
  moreover from err c r obtain e where "q = Inl e" by (cases q) (auto simp: is_err_iff)
  ultimately have "st_files s2 = st_files st" using w by (auto elim: st_write_cases)
  with assms c err show "st_files st' = st_files st \<and> length evs = 2" by (auto simp: svc_add_message_def Let_def is_err_iff)
next
  assume "is_err (mr_list_by_session valid sid True st)"
  then show "svc_list_messages valid sid st = []" by (auto simp: svc_list_messages_def is_err_iff)
qed

text \<open>Messages in the calling pattern of the protocol are never reported as lost: the identifier is the answer whether the message
  was stored or not. A failure leaves the files as they were, and the list of the messages of a session that cannot
  be listed is empty.\<close>

theorem protocol_call_hides_failure:
  assumes "svc_add_message sv uuid now (Message_arg m) st = (a, st', evs)"
  shows "(a = As_id (msg_id m))
    \<and> (is_err (fst (mr_create m st)) \<longrightarrow> st_files st' = st_files st \<and> length evs = 2)
    \<and> (is_err (mr_list_by_session valid sid True st) \<longrightarrow> svc_list_messages valid sid st = [])"
  using protocol_call_hides_failure_facts(1) [OF assms] protocol_call_hides_failure_facts(2) [OF assms] protocol_call_hides_failure_facts(3) [OF assms] by blast

theorem protocol_call_hides_failure_witness:
  "\<exists>st' evs. svc_add_message example_service [] 0 (Message_arg \<lparr>msg_id = ''m1'', msg_session_id = ''../x'', msg_dump = []\<rparr>) st_init = (As_id ''m1'', st', evs)
     \<and> st_files st' = [] \<and> svc_list_messages (\<lambda>_. True) ''../x'' st_init = []"
proof -
  let ?m = "\<lparr>msg_id = ''m1'', msg_session_id = ''../x'', msg_dump = []\<rparr>"
  obtain a st' evs where a: "svc_add_message example_service [] 0 (Message_arg ?m) st_init = (a, st', evs)" by (metis prod_cases3)
  have e: "is_err (fst (mr_create ?m st_init))" "is_err (mr_list_by_session (\<lambda>_. True) ''../x'' True st_init)" by code_simp+
  from protocol_call_hides_failure [OF a, of "\<lambda>_. True" "''../x''"] e a show ?thesis
    by (simp add: st_init_def)
qed

text \<open>The deprecated construction never succeeds.\<close>

lemma storage_construction_fails: "raises (sv_init True a b dir name project parts)"
  by (simp add: sv_init_def)

end
