(* ===== verification/Forks.thy ===== *)
theory Forks
  imports MessageStore Texts
begin

text \<open>
  Forks, session trees and reverts of \<open>session/fork_revert.py\<close>, and the compaction of \<open>session/compaction.py\<close>. All of them work on the
  store of the directory of the session. The identifier of a fork has the whole seconds of the clock; the git
  snapshots are a function of the world.
\<close>

declare map_of_eq_Some_iff [simp del] Some_eq_map_of_iff [simp del]

subsection \<open>Forks\<close>

definition fork_rest :: dict where
  "fork_rest = [(''summary'', JNull), (''share'', JNull), (''permission'', JNull), (''revert'', JNull), (''time_compacting'', JNull), (''time_archived'', JNull),
     (''message_counter'', JNum 0), (''message_count'', JNum 0), (''total_cost'', JNum 0), (''metadata'', JObj [])]"

definition fork_title :: "session \<Rightarrow> string \<Rightarrow> string option \<Rightarrow> string" where
  "fork_title s mid title = (case title of Some (c # cs) \<Rightarrow> c # cs | _ \<Rightarrow> s_title s @ '' (fork from '' @ take 8 mid @ ''...)'')"

definition plain_slug :: "string \<Rightarrow> string" where
  "plain_slug t = map (\<lambda>c. if c = CHR '' '' then CHR ''-'' else c) (str_lower t)"

definition fork_session :: "int \<Rightarrow> rat \<Rightarrow> session \<Rightarrow> string \<Rightarrow> string option \<Rightarrow> store \<Rightarrow> string option raising \<times> store \<times> session list" where
  "fork_session seconds now s mid title st =
     (if s_project_id s = [] then (Inr None, st, [])
      else let t = fork_title s mid title;
          child = \<lparr>s_id = s_id s @ ''_fork_'' @ str_int seconds, s_slug = plain_slug t, s_project_id = s_project_id s, s_directory = s_directory s,
            s_parent_id = Some (s_id s), s_title = t, s_version = ''1.0.0'', s_time_created = now, s_time_updated = now, s_rest = fork_rest\<rparr>
        in case create_session child st of
             (Inl e, st) \<Rightarrow> (Inl e, st, [])
           | (Inr c, st) \<Rightarrow> (Inr (Some (s_id c)), st, [c]))"

definition list_child_sessions :: "rat \<Rightarrow> session \<Rightarrow> store \<Rightarrow> session list raising" where
  "list_child_sessions now s st = map_sum id (filter (\<lambda>c. s_parent_id c = Some (s_id s))) (list_sessions now (s_project_id s) st)"

subsection \<open>Trees\<close>

datatype tree = Tree string string "tree list"

text \<open>\<open>build_tree\<close> with its depth; the empty dictionary is \<open>None\<close>. \<open>project\<close>: the name of the directory of the first session.\<close>

fun build_tree :: "nat \<Rightarrow> rat \<Rightarrow> string \<Rightarrow> store \<Rightarrow> string \<Rightarrow> tree option raising" where
  "build_tree 0 now project st sid = Inr None"
| "build_tree (Suc n) now project st sid = (case get_session now sid project st of
     Inl e \<Rightarrow> Inl e
   | Inr None \<Rightarrow> Inr None
   | Inr (Some s) \<Rightarrow> (case list_sessions now (s_project_id s) st of
       Inl e \<Rightarrow> Inl e
     | Inr ss \<Rightarrow> (case load_all (\<lambda>c. build_tree n now project st (s_id c)) (filter (\<lambda>c. s_parent_id c = Some sid) ss) of
         Inl e \<Rightarrow> Inl e
       | Inr ts \<Rightarrow> Inr (Some (Tree sid (s_title s) (List.map_filter id ts))))))"

definition path_name :: "string \<Rightarrow> string" where
  "path_name dir = rev (takeWhile (\<lambda>c. c \<noteq> CHR ''/'') (dropWhile (\<lambda>c. c = CHR ''/'') (rev dir)))"

definition get_session_tree :: "rat \<Rightarrow> session \<Rightarrow> store \<Rightarrow> tree option raising" where
  "get_session_tree now s st = build_tree 10 now (path_name (s_directory s)) st (s_id s)"

text \<open>\<open>_format_tree\<close>: \<open>list.extend\<close> with a text adds its characters, each a line of its own. The bullet is a parameter.\<close>

abbreviation line_end :: string where "line_end \<equiv> [CHR 0x0A]"

fun format_tree :: "char \<Rightarrow> string \<Rightarrow> tree list \<Rightarrow> string" where
  "format_tree bullet indent ts =
     str_join line_end (concat (map (\<lambda>t. case t of Tree i title cs \<Rightarrow>
       (indent @ [bullet] @ '' '' @ title) # map (\<lambda>c. [c]) (format_tree bullet (indent @ ''  '') cs)) ts))"

definition export_session_tree :: "char \<Rightarrow> rat \<Rightarrow> session \<Rightarrow> store \<Rightarrow> string raising" where
  "export_session_tree bullet now s st = (case get_session_tree now s st of
     Inl e \<Rightarrow> Inl e
   | Inr None \<Rightarrow> Inl (Exn ''KeyError'' ''title'')
   | Inr (Some (Tree i title cs)) \<Rightarrow> Inr (''Session Tree:'' @ line_end @ title @ line_end @ format_tree bullet ''  '' cs))"

subsection \<open>Reverts\<close>

text \<open>The identifier of the first part of a message that holds the snapshot.\<close>

definition snapshot_part :: "string \<Rightarrow> dict list \<Rightarrow> json option" where
  "snapshot_part snap ps = map_option (\<lambda>p. jget p ''id'') (find (\<lambda>p. jget p ''part_type'' = JStr ''snapshot'' \<and> jget p ''snapshot'' = JStr snap) ps)"

fun find_snapshot :: "string \<Rightarrow> dict list \<Rightarrow> store \<Rightarrow> json option raising" where
  "find_snapshot snap [] st = Inr None"
| "find_snapshot snap (m # ms) st = (case map_of m ''id'' of
     Some (JStr mid) \<Rightarrow> (case list_parts mid st of
         Inl e \<Rightarrow> Inl e
       | Inr ps \<Rightarrow> (case snapshot_part snap ps of
           Some j \<Rightarrow> if jtrue j then Inr (Some j) else find_snapshot snap ms st
         | None \<Rightarrow> find_snapshot snap ms st))
   | _ \<Rightarrow> Inl (Exn ''KeyError'' ''id''))"

text \<open>\<open>revert_file\<close> of the snapshots, file by file; an exception counts as a failure.\<close>

fun revert_files :: "(string \<Rightarrow> json \<Rightarrow> 'w \<Rightarrow> bool raising \<times> 'w) \<Rightarrow> json \<Rightarrow> string list \<Rightarrow> 'w \<Rightarrow> string list \<times> 'w" where
  "revert_files revert target [] w = ([], w)"
| "revert_files revert target (f # fs) w = (case revert f target w of
     (r, w) \<Rightarrow> (case revert_files revert target fs w of (done_files, w) \<Rightarrow> (if r = Inr True then f # done_files else done_files, w)))"

definition revert_session :: "(string \<Rightarrow> json \<Rightarrow> 'w \<Rightarrow> bool raising \<times> 'w) \<Rightarrow> int \<Rightarrow> session \<Rightarrow> string \<Rightarrow> string list \<Rightarrow> store \<Rightarrow> 'w
    \<Rightarrow> bool raising \<times> store \<times> 'w" where
  "revert_session revert seconds s snap files st w =
     (if snap = [] then (Inr False, st, w)
      else case list_messages (s_id s) True st of
        Inl e \<Rightarrow> (Inl e, st, w)
      | Inr ms \<Rightarrow> (case find_snapshot snap ms st of
          Inl e \<Rightarrow> (Inl e, st, w)
        | Inr None \<Rightarrow> (Inr False, st, w)
        | Inr (Some target) \<Rightarrow> (case revert_files revert target files w of
            (reverted, w) \<Rightarrow>
              if reverted = [] then (Inr False, st, w)
              else let i = s_id s @ ''_revert_'' @ str_int seconds;
                  j = s_id s @ ''_revert_summary'';
                  base = [(''session_id'', JStr (s_id s)), (''message_id'', JStr (s_id s))];
                  p1 = \<lparr>pt_id = i, pt_dump = (''id'', JStr i) # base @ [(''part_type'', JStr ''snapshot''), (''snapshot'', target)]\<rparr>;
                  p2 = \<lparr>pt_id = j, pt_dump = (''id'', JStr j) # base @ [(''part_type'', JStr ''text''),
                    (''text'', JStr (''Reverted '' @ str_nat (length reverted) @ '' files to snapshot '' @ (case target of JStr t \<Rightarrow> t | _ \<Rightarrow> []))),
                    (''time'', JObj []), (''metadata'', JNull), (''synthetic'', JNull), (''ignored'', JNull)]\<rparr>
                in case create_part (s_id s) p1 st of
                     (Inl e, st) \<Rightarrow> (Inl e, st, w)
                   | (Inr _, st) \<Rightarrow> (case create_part (s_id s) p2 st of
                       (Inl e, st) \<Rightarrow> (Inl e, st, w)
                     | (Inr _, st) \<Rightarrow> (Inr True, st, w)))))"

subsection \<open>Compaction\<close>

record model_limit =
  ml_context :: int
  ml_input :: "int option"
  ml_output :: int

text \<open>\<open>is_overflow\<close> with the settings switched on; the counts default to zero.\<close>

definition is_overflow :: "int \<Rightarrow> int \<Rightarrow> int \<Rightarrow> model_limit \<Rightarrow> bool" where
  "is_overflow input cache_read out m =
     (if ml_context m = 0 then False
      else let room = min (ml_output m) 32000;
               given = (case ml_input m of Some i \<Rightarrow> i | None \<Rightarrow> ml_context m);
               usable = (if given \<noteq> 0 then given else ml_context m - room)
        in usable < input + cache_read + out)"

text \<open>The parts of a message as \<open>prune\<close> reads them: the tool, whether it is completed, the length of its output and whether it was
  compacted. The tokens pruned and the parts marked are counted from the newest message backwards.\<close>

record old_part =
  op_tool :: string
  op_completed :: bool
  op_output :: nat
  op_compacted :: bool

record old_message =
  om_role :: string
  om_summary :: bool
  om_parts :: "old_part list"

record pruning =
  pn_turns :: nat
  pn_total :: nat
  pn_pruned :: nat
  pn_marked :: nat

text \<open>The loop over the parts of a message; a compacted part ends it.\<close>

fun prune_parts :: "old_part list \<Rightarrow> pruning \<Rightarrow> pruning" where
  "prune_parts [] s = s"
| "prune_parts (p # ps) s =
     (if \<not> op_completed p \<or> op_tool p = ''skill'' then prune_parts ps s
      else if op_compacted p then s
      else if op_output p = 0 then prune_parts ps s
      else let n = op_output p div 4; s = s\<lparr>pn_total := pn_total s + n\<rparr>
        in prune_parts ps (if 40000 < pn_total s then s\<lparr>pn_pruned := pn_pruned s + n, pn_marked := Suc (pn_marked s)\<rparr> else s))"

fun prune_messages :: "old_message list \<Rightarrow> pruning \<Rightarrow> pruning" where
  "prune_messages [] s = s"
| "prune_messages (m # ms) s =
     (let s = (if om_role m = ''user'' then s\<lparr>pn_turns := Suc (pn_turns s)\<rparr> else s)
      in if pn_turns s < 2 then prune_messages ms s
         else if om_role m = ''assistant'' \<and> om_summary m then s
         else prune_messages ms (prune_parts (om_parts m) s))"

definition prune_count :: "old_message list \<Rightarrow> pruning" where
  "prune_count msgs = prune_messages (rev msgs) \<lparr>pn_turns = 0, pn_total = 0, pn_pruned = 0, pn_marked = 0\<rparr>"

text \<open>\<open>prune\<close>: the messages are listed with one key that holds a slash. \<open>parse\<close> reads a stored message. What is marked is not written back.\<close>

definition prune :: "(dict \<Rightarrow> old_message) \<Rightarrow> bool \<Rightarrow> string \<Rightarrow> store \<Rightarrow> nat raising" where
  "prune parse enabled sid st =
     (if \<not> enabled then Inr 0
      else case rows [''message/'' @ sid] st of
        Inl e \<Rightarrow> Inl e
      | Inr ds \<Rightarrow> Inr (pn_pruned (prune_count (map parse ds))))"

text \<open>Pruning never happens: when it is switched on it raises for every session and every store, since a key with a slash is
  refused.\<close>

theorem prune_always_fails:
  "prune parse True sid st = Inl (Exn ''SecurityError'' (''Invalid storage key: message/'' @ sid))"
proof -
  have "bad_key (''message/'' @ sid)" by (simp add: bad_key_def)
  then show ?thesis by (simp add: prune_def rows_def st_list_def get_path_def)
qed

text \<open>What it would count: the tokens it does not prune are at most the protected ones, and nothing is pruned as long as there are no more.\<close>

definition prune_ok :: "pruning \<Rightarrow> bool" where
  "prune_ok s \<longleftrightarrow> pn_pruned s \<le> pn_total s \<and> pn_total s - pn_pruned s \<le> 40000 \<and> (pn_total s \<le> 40000 \<longrightarrow> pn_pruned s = 0)"

lemma prune_parts_ok: "prune_ok s \<Longrightarrow> prune_ok (prune_parts ps s)"
proof (induction ps arbitrary: s)
  case (Cons p ps)
  let ?n = "op_output p div 4"
  let ?s = "s\<lparr>pn_total := pn_total s + ?n\<rparr>"
  have "prune_ok (if 40000 < pn_total ?s then ?s\<lparr>pn_pruned := pn_pruned ?s + ?n, pn_marked := Suc (pn_marked ?s)\<rparr> else ?s)"
    using Cons.prems by (auto simp: prune_ok_def)
  with Cons show ?case by (simp add: Let_def)
qed simp

lemma prune_messages_ok: "prune_ok s \<Longrightarrow> prune_ok (prune_messages ms s)"
proof (induction ms arbitrary: s)
  case (Cons m ms)
  have "prune_ok (s\<lparr>pn_turns := k\<rparr>)" for k using Cons.prems by (simp add: prune_ok_def)
  with Cons show ?case by (simp add: Let_def prune_parts_ok)
qed simp

lemma prune_protects: "prune_ok (prune_count msgs)"
  unfolding prune_count_def by (rule prune_messages_ok) (simp add: prune_ok_def)

subsection \<open>Properties of forks and trees\<close>

text \<open>A tree is never deeper than its bound, also when the parents of sessions form a cycle.\<close>

fun depth :: "tree \<Rightarrow> nat" where
  "depth (Tree i t cs) = Suc (Max (insert 0 (depth ` set cs)))"

lemma load_all_set: "load_all f xs = Inr ys \<Longrightarrow> y \<in> set ys \<Longrightarrow> \<exists>x \<in> set xs. f x = Inr y"
  by (induction xs arbitrary: ys) (auto split: sum.splits)

lemma build_tree_step:
  assumes "build_tree (Suc n) now project st sid = Inr (Some t)"
  obtains s :: session and ts where "t = Tree sid (s_title s) (List.map_filter id ts)" "\<exists>xs. load_all (\<lambda>c :: session. build_tree n now project st (s_id c)) xs = Inr ts"
proof (cases "get_session now sid project st")
  case (Inr r)
  with assms obtain s where s: "get_session now sid project st = Inr (Some s)" by (cases r) simp_all
  with assms obtain ss where ss: "list_sessions now (s_project_id s) st = Inr ss" by (cases "list_sessions now (s_project_id s) st") simp_all
  let ?l = "load_all (\<lambda>c. build_tree n now project st (s_id c)) (filter (\<lambda>c. s_parent_id c = Some sid) ss)"
  show ?thesis
  proof (cases ?l)
    case (Inr ts)
    with assms s ss have "t = Tree sid (s_title s) (List.map_filter id ts)" by simp
    then show ?thesis by (rule that) (rule exI, rule Inr)
  qed (use assms s ss in simp)
qed (use assms in simp)

lemma build_tree_depth: "build_tree n now project st sid = Inr (Some t) \<Longrightarrow> depth t \<le> n"
proof (induction n arbitrary: sid t)
  case (Suc n)
  from Suc.prems obtain s :: session and ts where ts: "t = Tree sid (s_title s) (List.map_filter id ts)"
    and all: "\<exists>xs. load_all (\<lambda>c :: session. build_tree n now project st (s_id c)) xs = Inr ts"
    by (rule build_tree_step)
  have "depth c \<le> n" if "c \<in> set (List.map_filter id ts)" for c
  proof -
    from that have "Some c \<in> set ts" by (auto simp: List.map_filter_def)
    with all load_all_set obtain i where "build_tree n now project st i = Inr (Some c)" by metis
    then show ?thesis by (rule Suc.IH)
  qed
  then show ?case by (auto simp: ts)
qed simp

lemma create_session_same: "create_session c st = (r, st') \<Longrightarrow> r = Inr d \<Longrightarrow> d = c"
  by (simp add: create_session_def split: prod.splits sum.splits)

text \<open>Two forks of a session within the same second are one: they get the same identifier, whatever message they start from, so the second
  replaces the session of the first and no file is added.\<close>

theorem forks_collide:
  assumes "fork_session seconds now1 s mid1 title1 st = (Inr (Some i), st1, new1)"
    and "fork_session seconds now2 s mid2 title2 st1 = (Inr (Some j), st2, new2)"
  shows "i = j \<and> keys (st_files st2) = keys (st_files st1)
    \<and> (\<exists>p c. new2 = [c] \<and> s_title c = fork_title s mid2 title2 \<and> map_of (st_files st2) p = Some (session_dump c))"
proof -
  have fork: "\<exists>c p. i = s_id s @ ''_fork_'' @ str_int seconds \<and> new = [c] \<and> s_title c = fork_title s mid title
      \<and> key_path [''session'', s_project_id s, s_id s @ ''_fork_'' @ str_int seconds] = Inr p \<and> st_files st' = AList.update p (session_dump c) (st_files st)"
    if f: "fork_session seconds now s mid title st = (Inr (Some i), st', new)" for now mid title i st st' new
  proof -
    have "s_project_id s \<noteq> []" using f by (auto simp: fork_session_def)
    then obtain c where c0: "fork_session seconds now s mid title st
        = (case create_session c st of (Inl e, st) \<Rightarrow> (Inl e, st, []) | (Inr c, st) \<Rightarrow> (Inr (Some (s_id c)), st, [c]))"
      and ids: "s_title c = fork_title s mid title" "s_id c = s_id s @ ''_fork_'' @ str_int seconds" "s_project_id c = s_project_id s"
      unfolding fork_session_def Let_def by (metis (no_types, lifting) session.select_convs(1,3,6))
    obtain r st'' where r: "create_session c st = (r, st'')" by (cases "create_session c st")
    have "r = Inr c \<and> st'' = st' \<and> i = s_id c \<and> new = [c]"
      using f r create_session_same [OF r] unfolding c0 by (cases r) auto
    with r ids have c: "create_session c st = (Inr c, st')" "i = s_id c" "new = [c]" "s_title c = fork_title s mid title"
      "s_id c = s_id s @ ''_fork_'' @ str_int seconds" "s_project_id c = s_project_id s" by simp_all
    from c(1) have "st_write (session_keys c) (session_dump c) st = (Inr (), st')"
      by (auto simp: create_session_def split: prod.splits sum.splits)
    then obtain p where "key_path (session_keys c) = Inr p" "st_files st' = AList.update p (session_dump c) (st_files st)"
      by (rule st_write_file)
    with c show ?thesis by (intro exI [of _ c] exI [of _ p]) (simp add: session_keys_def)
  qed
  from fork [OF assms(1)] obtain c1 p where 1: "i = s_id s @ ''_fork_'' @ str_int seconds"
    "key_path [''session'', s_project_id s, s_id s @ ''_fork_'' @ str_int seconds] = Inr p" "st_files st1 = AList.update p (session_dump c1) (st_files st)" by blast
  from fork [OF assms(2)] 1(2) obtain c2 where 2: "j = s_id s @ ''_fork_'' @ str_int seconds" "new2 = [c2]" "s_title c2 = fork_title s mid2 title2"
    "st_files st2 = AList.update p (session_dump c2) (st_files st1)" by auto
  have "p \<in> set (keys (st_files st1))" using 1(3) by (simp add: dom_update)
  then have "keys (st_files st2) = keys (st_files st1)" unfolding 2(4) by (simp add: update_keys del: set_map)
  moreover have "map_of (st_files st2) p = Some (session_dump c2)" by (simp add: 2(4))
  ultimately show ?thesis using 1(1) 2 by blast
qed

definition example_session :: session where
  "example_session = \<lparr>s_id = ''s1'', s_slug = ''one'', s_project_id = ''p'', s_directory = ''/w/p'', s_parent_id = None, s_title = ''One'', s_version = ''1.0.0'',
     s_time_created = 0, s_time_updated = 0, s_rest = fork_rest\<rparr>"

theorem forks_collide_witness:
  "\<exists>st1 st2 new1 new2. fork_session 7 7 example_session ''message1'' None st_init = (Inr (Some ''s1_fork_7''), st1, new1)
     \<and> fork_session 7 8 example_session ''message2'' (Some ''Other'') st1 = (Inr (Some ''s1_fork_7''), st2, new2)
     \<and> keys (st_files st2) = [[''session'', ''p'', ''s1_fork_7.json'']]"
proof -
  obtain i st1 new1 where 1: "fork_session 7 7 example_session ''message1'' None st_init = (i, st1, new1)" by (metis prod_cases3)
  obtain j st2 new2 where 2: "fork_session 7 8 example_session ''message2'' (Some ''Other'') st1 = (j, st2, new2)" by (metis prod_cases3)
  have e: "fst (fork_session 7 7 example_session ''message1'' None st_init) = Inr (Some ''s1_fork_7'')"
    "fst (fork_session 7 8 example_session ''message2'' (Some ''Other'') (fst (snd (fork_session 7 7 example_session ''message1'' None st_init)))) = Inr (Some ''s1_fork_7'')"
    "keys (st_files (fst (snd (fork_session 7 7 example_session ''message1'' None st_init)))) = [[''session'', ''p'', ''s1_fork_7.json'']]"
    by code_simp+
  with 1 2 have ij: "i = Inr (Some ''s1_fork_7'')" "j = Inr (Some ''s1_fork_7'')" "keys (st_files st1) = [[''session'', ''p'', ''s1_fork_7.json'']]" by auto
  from forks_collide [OF 1 [unfolded ij] 2 [unfolded ij]] 1 2 ij show ?thesis by simp
qed

end
