(* ===== verification/SessionManager.thy ===== *)
theory SessionManager
  imports SessionService Forks
begin

text \<open>
  The session manager of \<open>core/session.py\<close> over the store, with the events it publishes. Its lock only orders the operations. Attributes are set without validation, so
  an updated session is the dictionary it is dumped to. A title or an identifier to import that is no text is refused here.
\<close>

declare map_of_eq_Some_iff [simp del] Some_eq_map_of_iff [simp del]

record manager =
  mg_dir :: string
  mg_name :: string

type_synonym published = "(string \<times> dict) list"

subsection \<open>Sessions\<close>

definition mg_create :: "manager \<Rightarrow> string \<Rightarrow> rat \<Rightarrow> string \<Rightarrow> string option \<Rightarrow> string \<Rightarrow> json \<Rightarrow> store \<Rightarrow> session raising \<times> store \<times> published" where
  "mg_create mg uuid now title parent version summary st =
     (let s = \<lparr>s_id = uuid, s_slug = plain_slug title, s_project_id = mg_name mg, s_directory = mg_dir mg, s_parent_id = parent, s_title = title,
            s_version = version, s_time_created = now, s_time_updated = now, s_rest = AList.update ''summary'' summary default_rest\<rparr>
      in case create_session s st of
           (Inl e, st) \<Rightarrow> (Inl e, st, [])
         | (Inr _, st) \<Rightarrow> (Inr s, st, [(''session.created'', [(''session'', JObj (session_dump s))])]))"

definition mg_get_session :: "manager \<Rightarrow> rat \<Rightarrow> string \<Rightarrow> store \<Rightarrow> session option raising" where
  "mg_get_session mg now sid st = get_session now sid (mg_name mg) st"

text \<open>\<open>setattr\<close> for the keys that are attributes.\<close>

definition set_fields :: "dict \<Rightarrow> dict \<Rightarrow> dict" where
  "set_fields changes d = fold (\<lambda>(k, v) d. if k \<in> set session_fields \<union> set session_rest_fields then AList.update k v d else d) changes d"

definition dump_keys :: "dict \<Rightarrow> string list raising" where
  "dump_keys d = (case (jget d ''project_id'', jget d ''id'') of
     (JStr p, JStr i) \<Rightarrow> Inr [''session'', p, i] | _ \<Rightarrow> Inl (Exn ''TypeError'' ''argument is not iterable''))"

definition mg_update_session :: "manager \<Rightarrow> rat \<Rightarrow> string \<Rightarrow> dict \<Rightarrow> store \<Rightarrow> dict raising \<times> store \<times> published" where
  "mg_update_session mg now sid changes st = (case mg_get_session mg now sid st of
     Inl e \<Rightarrow> (Inl e, st, [])
   | Inr None \<Rightarrow> (Inl (Exn ''ValueError'' (''Session not found: '' @ sid)), st, [])
   | Inr (Some s) \<Rightarrow>
       (let d = AList.update ''time_updated'' (JNum now) (set_fields changes (session_dump s))
        in case dump_keys d of
             Inl e \<Rightarrow> (Inl e, st, [])
           | Inr ks \<Rightarrow> (case st_write ks d st of
               (Inl e, st) \<Rightarrow> (Inl e, st, [])
             | (Inr _, st) \<Rightarrow> (Inr d, st, [(''session.updated'', [(''session'', JObj d)])]))))"

definition mg_delete_session :: "manager \<Rightarrow> rat \<Rightarrow> string \<Rightarrow> store \<Rightarrow> bool raising \<times> store \<times> published" where
  "mg_delete_session mg now sid st = (case mg_get_session mg now sid st of
     Inl e \<Rightarrow> (Inl e, st, [])
   | Inr None \<Rightarrow> (Inr False, st, [])
   | Inr (Some s) \<Rightarrow> (case delete_session sid (s_project_id s) st of
       (Inl e, st) \<Rightarrow> (Inl e, st, [])
     | (Inr _, st) \<Rightarrow> (Inr True, st, [(''session.deleted'', [(''session_id'', JStr sid)])])))"

definition mg_list_sessions :: "manager \<Rightarrow> rat \<Rightarrow> store \<Rightarrow> session list raising" where
  "mg_list_sessions mg now st = list_sessions now (mg_name mg) st"

definition generate_slug :: "string \<Rightarrow> string" where
  "generate_slug title = take 100 (filter slug_char (dash_runs False (str_strip (str_lower title))))"

subsection \<open>Messages and parts\<close>

definition message_created :: "message \<Rightarrow> string \<times> dict" where
  "message_created m = (''message.created'', [(''message'', JObj (msg_dump m))])"

text \<open>\<open>extra\<close>: further fields of the message, with other names than those given here.\<close>

definition mg_create_message :: "(dict \<Rightarrow> bool) \<Rightarrow> string \<Rightarrow> rat \<Rightarrow> string \<Rightarrow> string \<Rightarrow> string \<Rightarrow> dict \<Rightarrow> store \<Rightarrow> unit raising \<times> store \<times> published" where
  "mg_create_message valid uuid now sid role text extra st =
     (case message_load valid ([(''id'', JStr uuid), (''session_id'', JStr sid), (''role'', JStr role), (''time'', JObj [(''created'', JNum now)]), (''text'', JStr text)] @ extra) of
        Inl e \<Rightarrow> (Inl e, st, [])
      | Inr m \<Rightarrow> (case create_message sid m st of
          (Inl e, st) \<Rightarrow> (Inl e, st, [])
        | (Inr _, st) \<Rightarrow> (Inr (), st, [message_created m])))"

fun mg_create_messages :: "string \<Rightarrow> message list \<Rightarrow> store \<Rightarrow> unit raising \<times> store" where
  "mg_create_messages sid [] st = (Inr (), st)"
| "mg_create_messages sid (m # ms) st = (case create_message sid m st of
     (Inl e, st) \<Rightarrow> (Inl e, st) | (Inr _, st) \<Rightarrow> mg_create_messages sid ms st)"

definition mg_list_messages :: "(dict \<Rightarrow> bool) \<Rightarrow> string \<Rightarrow> store \<Rightarrow> message list raising" where
  "mg_list_messages valid sid st = (case list_messages sid True st of Inl e \<Rightarrow> Inl e | Inr ds \<Rightarrow> load_all (message_load valid) ds)"

definition mg_delete_message :: "string \<Rightarrow> string \<Rightarrow> store \<Rightarrow> bool raising \<times> store \<times> published" where
  "mg_delete_message sid mid st = (case get_message sid mid st of
     Inl e \<Rightarrow> (Inl e, st, [])
   | Inr None \<Rightarrow> (Inr False, st, [])
   | Inr (Some d) \<Rightarrow> (case st_remove [''message'', sid, mid] st of
       (Inl e, st) \<Rightarrow> (Inl e, st, [])
     | (Inr _, st) \<Rightarrow> (Inr True, st, [(''message.deleted'', [(''session_id'', JStr sid), (''message_id'', JStr mid)])])))"

definition mg_add_message :: "message \<Rightarrow> store \<Rightarrow> string raising \<times> store \<times> published" where
  "mg_add_message m st = (case create_message (msg_session_id m) m st of
     (Inl e, st) \<Rightarrow> (Inl e, st, []) | (Inr _, st) \<Rightarrow> (Inr (msg_id m), st, [message_created m]))"

definition mg_add_part :: "part \<Rightarrow> store \<Rightarrow> string raising \<times> store \<times> published" where
  "mg_add_part p st = (case jget (pt_dump p) ''message_id'' of
     JStr mid \<Rightarrow> (case create_part mid p st of
       (Inl e, st) \<Rightarrow> (Inl e, st, [])
     | (Inr _, st) \<Rightarrow> (Inr (pt_id p), st, [(''message.part.updated'', [(''message_id'', JStr mid), (''part_id'', JStr (pt_id p))])]))
   | _ \<Rightarrow> (Inl (Exn ''TypeError'' ''argument is not iterable''), st, []))"

subsection \<open>Export and import\<close>

definition mg_get_export_data :: "manager \<Rightarrow> (dict \<Rightarrow> bool) \<Rightarrow> (dict \<Rightarrow> dict) \<Rightarrow> rat \<Rightarrow> string \<Rightarrow> store \<Rightarrow> (dict \<times> dict list) raising" where
  "mg_get_export_data mg valid strip now sid st = (case mg_get_session mg now sid st of
     Inl e \<Rightarrow> Inl e
   | Inr None \<Rightarrow> Inl (Exn ''ValueError'' (''Session not found: '' @ sid))
   | Inr (Some s) \<Rightarrow> map_sum id (\<lambda>ms. (session_dump s, map (\<lambda>m. strip (msg_dump m)) ms)) (mg_list_messages valid sid st))"

definition text_field :: "dict \<Rightarrow> string \<Rightarrow> string raising" where
  "text_field d k = (case jget d k of JStr s \<Rightarrow> Inr s | _ \<Rightarrow> Inl (Exn ''AttributeError'' ''lower''))"

text \<open>The new session of an import: another version or parent than a text is refused by the class.\<close>

definition mg_create_imported :: "manager \<Rightarrow> string \<Rightarrow> rat \<Rightarrow> string \<Rightarrow> dict \<Rightarrow> store \<Rightarrow> session raising \<times> store \<times> published" where
  "mg_create_imported mg uuid now title d st =
     (case (jget d ''parent_id'', case map_of d ''version'' of None \<Rightarrow> JStr ''1.0.0'' | Some v \<Rightarrow> v) of
        (p, JStr v) \<Rightarrow> if p \<noteq> JNull \<and> str_opt p = None then (invalid_session, st, [])
          else mg_create mg uuid now title (str_opt p) v (jget d ''summary'') st
      | _ \<Rightarrow> (invalid_session, st, []))"

text \<open>The messages are all made before the first is stored. The answer is the dumped session.\<close>

definition import_into :: "(dict \<Rightarrow> bool) \<Rightarrow> dict \<Rightarrow> dict list \<Rightarrow> store \<Rightarrow> published \<Rightarrow> dict raising \<times> store \<times> published" where
  "import_into valid d ds st evs = (case (text_field d ''id'', load_all (message_load valid) ds) of
     (Inl e, _) \<Rightarrow> (Inl e, st, evs)
   | (_, Inl e) \<Rightarrow> (Inl e, st, evs)
   | (Inr sid, Inr ms) \<Rightarrow> (case mg_create_messages sid (map (for_session sid) ms) st of
       (Inl e, st) \<Rightarrow> (Inl e, st, evs) | (Inr _, st) \<Rightarrow> (Inr d, st, evs)))"

definition mg_import_data :: "manager \<Rightarrow> (dict \<Rightarrow> bool) \<Rightarrow> string \<Rightarrow> rat \<Rightarrow> string option \<Rightarrow> dict \<Rightarrow> dict list \<Rightarrow> store \<Rightarrow> dict raising \<times> store \<times> published" where
  "mg_import_data mg valid uuid now project d ds st =
     (if \<not> jtrue (jget d ''id'') \<or> \<not> jtrue (jget d ''title'') then (Inl (Exn ''ValueError'' ''Session data missing required fields: id, title''), st, [])
      else case (text_field d ''id'', text_field d ''title'') of
        (Inr sid, Inr title) \<Rightarrow>
          (case get_session now sid (case project of Some (c # cs) \<Rightarrow> c # cs | _ \<Rightarrow> mg_name mg) st of
             Inl e \<Rightarrow> (Inl e, st, [])
           | Inr (Some _) \<Rightarrow> (case mg_update_session mg now sid [(''title'', JStr title), (''summary'', jget d ''summary'')] st of
               (Inl e, st, evs) \<Rightarrow> (Inl e, st, evs) | (Inr x, st, evs) \<Rightarrow> import_into valid x ds st evs)
           | Inr None \<Rightarrow> (case mg_create_imported mg uuid now title d st of
               (Inl e, st, evs) \<Rightarrow> (Inl e, st, evs) | (Inr s, st, evs) \<Rightarrow> import_into valid (session_dump s) ds st evs))
      | _ \<Rightarrow> (Inl (Exn ''AttributeError'' ''lower''), st, []))"

subsection \<open>Todos and questions are not stored\<close>

definition get_todos :: "string \<Rightarrow> store \<Rightarrow> dict list" where "get_todos sid st = []"
definition update_todos :: "string \<Rightarrow> dict list \<Rightarrow> store \<Rightarrow> store" where "update_todos sid todos st = st"
definition get_user_questions :: "string \<Rightarrow> store \<Rightarrow> dict list" where "get_user_questions sid st = []"

subsection \<open>Finding sessions\<close>

lemma find_session_None:
  assumes "\<forall>k \<in> set ks. st_read k st = Inr (map_of (st_files st) k) \<and> map_of (st_files st) k \<noteq> None"
  shows "find_session now sid ks st = Inr None \<longleftrightarrow> (\<forall>k \<in> set ks. \<forall>d. map_of (st_files st) k = Some d \<longrightarrow> jget d ''id'' \<noteq> JStr sid)"
  using assms
proof (induction ks)
  case (Cons k ks)
  then obtain d where "map_of (st_files st) k = Some d" "st_read k st = Inr (Some d)" by auto
  with Cons show ?case by (cases d) (auto simp: jget_def split: sum.splits)
qed simp

lemma get_session_None:
  assumes "st_inv st"
  shows "get_session now sid project st = Inr None \<longleftrightarrow> (\<exists>b. get_path [''session'', project] = Inr b
     \<and> (\<forall>k d. map_of (st_files st) k = Some d \<longrightarrow> strict_prefix b k \<longrightarrow> jget d ''id'' \<noteq> JStr sid))"
proof (cases "get_path [''session'', project]")
  case (Inr b)
  let ?ks = "sort (filter (strict_prefix b) (keys (st_files st)))"
  have l: "st_list [''session'', project] st = Inr ?ks" using Inr by (simp add: st_list_def)
  have "\<forall>k \<in> set ?ks. st_read k st = Inr (map_of (st_files st) k) \<and> map_of (st_files st) k \<noteq> None"
    using listed_reads [OF assms l] by (metis option.distinct(1))
  from find_session_None [OF this] show ?thesis using Inr l by (auto simp: get_session_def dest: map_of_in_keys simp del: set_map)
qed (simp add: get_session_def st_list_def)

lemma create_messages_files:
  "st_inv st \<Longrightarrow> mg_create_messages sid ms st = (r, st') \<Longrightarrow> st_inv st'
     \<and> (\<forall>k d. map_of (st_files st') k = Some d \<longrightarrow> map_of (st_files st) k = Some d \<or> (\<exists>s i. key_path [''message'', s, i] = Inr k))"
proof (induction ms arbitrary: st)
  case (Cons m ms)
  obtain q st1 where c: "st_write [''message'', sid, msg_id m] (msg_dump m) st = (q, st1)" by fastforce
  have inv: "st_inv st1" using Cons.prems(1) c by (rule st_write_inv)
  have files: "map_of (st_files st1) k = Some d \<Longrightarrow> map_of (st_files st) k = Some d \<or> (\<exists>s i. key_path [''message'', s, i] = Inr k)" for k d
    using c by (auto elim!: st_write_cases split: if_splits)
  show ?case
  proof (cases q)
    case (Inl e)
    with Cons.prems(2) c inv files show ?thesis by (auto simp: create_message_def)
  next
    case (Inr x)
    with Cons.prems(2) c have "mg_create_messages sid ms st1 = (r, st')" by (simp add: create_message_def)
    from Cons.IH [OF inv this] files show ?thesis by blast
  qed
qed simp

lemma message_not_session: "key_path [''message'', s, i] = Inr k \<Longrightarrow> get_path [''session'', project] = Inr b \<Longrightarrow> \<not> strict_prefix b k"
  by (auto simp: key_path_def get_path_def strict_prefix_def bad_key_def split: list.splits if_splits)

lemma create_session_None:
  assumes "st_inv st" "get_session now i project st = Inr None" "create_session s st = (Inr s', st')" "s_id s \<noteq> i"
  shows "st_inv st' \<and> get_session now' i project st' = Inr None"
proof -
  from assms(3) have w: "st_write (session_keys s) (session_dump s) st = (Inr (), st')" by (auto simp: create_session_def split: prod.splits sum.splits)
  have inv: "st_inv st'" using assms(1) w by (rule st_write_inv)
  have "jget (session_dump s) ''id'' \<noteq> JStr i" using assms(4) by (simp add: session_dump_def jget_def)
  then show ?thesis using assms(2) w inv unfolding get_session_None [OF assms(1)] get_session_None [OF inv]
    by (auto elim!: st_write_file split: if_splits)
qed

lemma create_messages_None:
  assumes "st_inv st" "get_session now i project st = Inr None" "mg_create_messages sid ms st = (r, st')"
  shows "st_inv st' \<and> get_session now' i project st' = Inr None"
proof -
  from create_messages_files [OF assms(1,3)] have inv: "st_inv st'"
    and f: "map_of (st_files st') k = Some d \<Longrightarrow> map_of (st_files st) k = Some d \<or> (\<exists>s i. key_path [''message'', s, i] = Inr k)" for k d by blast+
  from assms(2) show ?thesis unfolding get_session_None [OF assms(1)] get_session_None [OF inv] using inv f message_not_session by blast
qed

lemma import_new:
  assumes "st_inv st" "jget d ''id'' = JStr i" "i \<noteq> uuid" "get_session now i (mg_name mg) st = Inr None"
    and "mg_import_data mg valid uuid now None d ds st = (Inr x, st', evs)"
  shows "st_inv st' \<and> jget x ''id'' = JStr uuid \<and> get_session now' i (mg_name mg) st' = Inr None"
proof -
  from assms(5) obtain title where t: "jget d ''title'' = JStr title"
    by (auto simp: mg_import_data_def text_field_def split: if_splits sum.splits json.splits)
  from assms(2,4,5) t obtain s st1 ev where c: "mg_create_imported mg uuid now title d st = (Inr s, st1, ev)" "import_into valid (session_dump s) ds st1 ev = (Inr x, st', evs)"
    by (auto simp: mg_import_data_def text_field_def split: if_splits sum.splits prod.splits)
  from c(1) have s: "create_session s st = (Inr s, st1)" "s_id s = uuid"
    by (auto simp: mg_create_imported_def mg_create_def Let_def invalid_session_def create_session_def session_keys_def session_dump_def split: if_splits sum.splits prod.splits json.splits)
  from create_session_None [OF assms(1,4) s(1)] s(2) assms(3) have 1: "st_inv st1" "get_session now i (mg_name mg) st1 = Inr None" by auto
  have "text_field (session_dump s) ''id'' = Inr uuid" using s(2) by (simp add: text_field_def session_dump_def jget_def)
  with c(2) obtain ms r where m: "mg_create_messages uuid ms st1 = (r, st')" "x = session_dump s"
    by (auto simp: import_into_def split: sum.splits prod.splits)
  from create_messages_None [OF 1 m(1)] m(2) s(2) show ?thesis by (simp add: session_dump_def jget_def)
qed


definition exported :: dict where
  "exported = [(''id'', JStr ''s1''), (''title'', JStr ''One'')]"

definition here :: manager where
  "here = \<lparr>mg_dir = ''/w/p'', mg_name = ''p''\<rparr>"


end
