(* ===== verification/AdditionalTools.thy ===== *)
theory AdditionalTools
  imports BuiltinTools SessionManager
begin

text \<open>
  The tools of \<open>tools/additional.py\<close> that act on files, todos and other tools: edit, the two tools for several edits, the
  batch and the two tools for todos, and the table of \<open>tools/registry.py\<close>. Arguments are the JSON object of the call; \<open>resolve\<close>
  gives the file a path names for the process. The texts of the errors of the interpreter itself are empty.
\<close>

declare map_of_eq_Some_iff [simp del] Some_eq_map_of_iff [simp del]

subsection \<open>Texts and paths\<close>

text \<open>\<open>content.replace(old, new, 1)\<close>.\<close>

fun replace_first :: "string \<Rightarrow> string \<Rightarrow> string \<Rightarrow> string" where
  "replace_first old new [] = (if old = [] then new else [])"
| "replace_first old new (c # cs) = (if prefix old (c # cs) then new @ drop (length old) (c # cs) else c # replace_first old new cs)"

text \<open>\<open>content.replace(old, new)\<close> and \<open>content.count(old)\<close> for a text \<open>old\<close> that is not empty; the first argument counts the characters
  of an occurrence that are still to be passed.\<close>

fun replace_from :: "nat \<Rightarrow> string \<Rightarrow> string \<Rightarrow> string \<Rightarrow> string" where
  "replace_from k old new [] = []"
| "replace_from (Suc k) old new (c # cs) = replace_from k old new cs"
| "replace_from 0 old new (c # cs) =
     (if prefix old (c # cs) then new @ replace_from (length old - 1) old new cs else c # replace_from 0 old new cs)"

fun count_from :: "nat \<Rightarrow> string \<Rightarrow> string \<Rightarrow> nat" where
  "count_from k old [] = 0"
| "count_from (Suc k) old (c # cs) = count_from k old cs"
| "count_from 0 old (c # cs) = (if prefix old (c # cs) then Suc (count_from (length old - 1) old cs) else count_from 0 old cs)"

text \<open>\<open>Path(s).name\<close> and \<open>str(Path(s))\<close>.\<close>

definition path_parts :: "string \<Rightarrow> string list" where
  "path_parts s = filter (\<lambda>p. p \<noteq> [] \<and> p \<noteq> ''.'') (split_on CHR ''/'' s)"

definition path_name :: "string \<Rightarrow> string" where
  "path_name s = (if path_parts s = [] then [] else last (path_parts s))"

definition path_str :: "string \<Rightarrow> string" where
  "path_str s = (let t = (if prefix ''//'' s \<and> \<not> prefix ''///'' s then ''//'' else if prefix ''/'' s then ''/'' else []) @ str_join ''/'' (path_parts s)
     in if t = [] then ''.'' else t)"

definition given :: "dict \<Rightarrow> string \<Rightarrow> json \<Rightarrow> json" where
  "given d k dflt = (case map_of d k of None \<Rightarrow> dflt | Some v \<Rightarrow> v)"

definition quoted :: "string \<Rightarrow> string" where
  "quoted s = CHR 0x27 # s @ [CHR 0x27]"

definition failing :: "string \<Rightarrow> string \<Rightarrow> (string \<times> json) list \<Rightarrow> tool_result" where
  "failing title text meta = tool_answer title (''Error: '' @ text) meta"

definition err :: "string \<Rightarrow> string \<times> json" where
  "err t = (''error'', JStr t)"

definition num :: "nat \<Rightarrow> json" where
  "num n = JNum (of_nat n)"

subsection \<open>Edit\<close>

definition edited :: "bool \<Rightarrow> string \<Rightarrow> string \<Rightarrow> string \<Rightarrow> string \<times> nat" where
  "edited all old new content = (if all then (replace_from 0 old new content, count_from 0 old content) else (replace_first old new content, 1))"

definition edit_file :: "(string \<Rightarrow> string list) \<Rightarrow> string \<Rightarrow> string \<Rightarrow> string \<Rightarrow> bool \<Rightarrow> disk \<Rightarrow> tool_result \<times> disk" where
  "edit_file resolve path old new all d =
     (let full = resolve path in
      if \<not> path_exists full d then (failing ''File not found'' (''File '' @ path @ '' does not exist'') [err ''file_not_found'', (''file_path'', JStr path)], d)
      else case open_read full d of
        Inl e \<Rightarrow> (tool_answer ''Failed to read file'' (''Error reading file: '' @ exn_msg e) [err ''read_error''], d)
      | Inr text \<Rightarrow>
          (let content = universal text in
           if \<not> contains old content
           then (failing ''String not found'' (''Could not find '' @ quoted (take 50 old @ ''...'') @ '' in file'')
                   [err ''string_not_found'', (''old_string_preview'', JStr (take 50 old))], d)
           else (case edited all old new content of
             (new_content, n) \<Rightarrow> (case write_file full new_content d of
                 Inl e \<Rightarrow> (tool_answer ''Failed to write file'' (''Error writing file: '' @ exn_msg e) [err ''write_error''], d)
               | Inr d \<Rightarrow> (tool_answer (''Edited '' @ path_name path) (str_nat n @ '' occurrence(s) replaced'')
                    [(''file_path'', JStr (path_str path)), (''occurrences'', num n), (''bytes_written'', num (length new_content))], d)))))"

definition edit_execute :: "(string \<Rightarrow> string list) \<Rightarrow> dict \<Rightarrow> disk \<Rightarrow> tool_result raising \<times> disk" where
  "edit_execute resolve args d =
     (if \<not> jtrue (jget args ''filePath'') then (Inr (failing ''File path required'' ''No file path specified'' [err ''no_file_path'']), d)
      else case jget args ''oldString'' of
        JStr (c # cs) \<Rightarrow> (case jget args ''newString'' of
            JStr new \<Rightarrow> (case jget args ''filePath'' of
                JStr path \<Rightarrow> apfst Inr (edit_file resolve path (c # cs) new (jtrue (jget args ''replaceAll'')) d)
              | _ \<Rightarrow> (Inl (Exn ''TypeError'' []), d))
          | _ \<Rightarrow> (Inr (failing ''Invalid newString'' (quoted ''newString'' @ '' parameter must be a string'') [err ''invalid_new_string'']), d))
      | _ \<Rightarrow> (Inr (failing ''Invalid oldString'' (quoted ''oldString'' @ '' parameter must be a non-empty string'') [err ''invalid_old_string'']), d))"

subsection \<open>Several edits, each written at once\<close>

text \<open>The edits after \<open>idx\<close> others, with the number of operations, additions and replacements so far; every edit starts from the same text.\<close>

record totals =
  tt_operations :: nat
  tt_additions :: nat
  tt_replacements :: nat

definition old_summary :: "totals \<Rightarrow> string" where
  "old_summary t = ''Multi-edit complete: '' @ str_nat (tt_operations t) @ '' operations'' @ newline
     @ ''  '' @ str_nat (tt_additions t) @ '' additions, 0 deletions, '' @ str_nat (tt_replacements t) @ '' replacements''"

fun old_edits :: "string list \<Rightarrow> string \<Rightarrow> string \<Rightarrow> nat \<Rightarrow> json list \<Rightarrow> totals \<Rightarrow> disk \<Rightarrow> tool_result raising \<times> disk" where
  "old_edits full path content idx [] t d = (Inr (tool_answer (''Multi-edited '' @ path_name path) (old_summary t)
     [(''file_path'', JStr (path_str path)), (''total_operations'', num (tt_operations t)), (''additions'', num (tt_additions t)),
      (''deletions'', num 0), (''replacements'', num (tt_replacements t))]), d)"
| "old_edits full path content idx (JObj e # es) t d =
     (let invalid = (\<lambda>text code. (Inr (failing (''Edit '' @ str_nat (idx + 1) @ '' invalid'') text [err code, (''edit_index'', num idx)]), d));
          all = jtrue (jget e ''replaceAll'')
      in case jget e ''oldString'' of
        JStr (c # cs) \<Rightarrow> (case jget e ''newString'' of
            JStr new \<Rightarrow>
              (let old = c # cs in
               if \<not> contains old content
               then (Inr (failing (''String not found: '' @ take 50 old) (''Could not find '' @ quoted (take 50 old @ ''...'') @ '' in file'')
                       [err ''string_not_found'', (''old_string'', JStr (take 50 old))]), d)
               else (case edited all old new content of
                 (new_content, n) \<Rightarrow> (case write_file full new_content d of
                     Inl x \<Rightarrow> (Inr (tool_answer (''Edit '' @ str_nat (idx + 1) @ '' failed'') (''Error writing to file: '' @ exn_msg x)
                         [err ''write_error'', (''edit_index'', num idx)]), d)
                   | Inr d \<Rightarrow> old_edits full path content (Suc idx) es
                       \<lparr>tt_operations = Suc (tt_operations t), tt_additions = tt_additions t + n,
                        tt_replacements = tt_replacements t + n + (if all then n else 1)\<rparr> d)))
          | _ \<Rightarrow> invalid ''newString must be a string'' ''invalid_new_string'')
      | _ \<Rightarrow> invalid ''oldString must be a non-empty string'' ''invalid_old_string'')"
| "old_edits full path content idx (j # es) t d = (Inl (Exn ''AttributeError'' []), d)"

definition multi_edit_old_execute :: "(string \<Rightarrow> string list) \<Rightarrow> dict \<Rightarrow> disk \<Rightarrow> tool_result raising \<times> disk" where
  "multi_edit_old_execute resolve args d =
     (if \<not> jtrue (jget args ''filePath'') then (Inr (failing ''File path required'' ''No file path specified'' [err ''no_file_path'']), d)
      else case given args ''edits'' (JArr []) of
        JArr es \<Rightarrow> (case jget args ''filePath'' of
            JStr path \<Rightarrow>
              (let full = resolve path in
               if \<not> path_exists full d then (Inr (failing ''File not found'' (''File '' @ path @ '' does not exist'') [err ''file_not_found'']), d)
               else case open_read full d of
                 Inl e \<Rightarrow> (Inr (tool_answer ''Failed to read file'' (''Error reading file '' @ path @ '': '' @ exn_msg e) [err ''read_error'']), d)
               | Inr text \<Rightarrow> old_edits full path (universal text) 0 es \<lparr>tt_operations = 0, tt_additions = 0, tt_replacements = 0\<rparr> d)
          | _ \<Rightarrow> (Inl (Exn ''TypeError'' []), d))
      | _ \<Rightarrow> (Inr (failing ''Edits must be a list'' (quoted ''edits'' @ '' parameter must be a list of edit operations'') [err ''invalid_edits_type'']), d))"

subsection \<open>Several edits, written together\<close>

text \<open>What a loop over a JSON value takes.\<close>

definition json_items :: "json \<Rightarrow> json list raising" where
  "json_items j = (case j of JArr xs \<Rightarrow> Inr xs | JStr s \<Rightarrow> Inr (map (\<lambda>c. JStr [c]) s) | JObj d \<Rightarrow> Inr (map (JStr \<circ> fst) d)
     | _ \<Rightarrow> Inl (Exn ''TypeError'' []))"

text \<open>One edit: \<open>None\<close> when its text is not found.\<close>

definition edit_step :: "string \<Rightarrow> json \<Rightarrow> string option raising" where
  "edit_step content j = (case j of
     JObj e \<Rightarrow> (case given e ''oldString'' (JStr []) of
         JStr old \<Rightarrow>
           (if \<not> contains old content then Inr None
            else case given e ''newString'' (JStr []) of
              JStr new \<Rightarrow> Inr (Some (replace_first old new content))
            | _ \<Rightarrow> Inl (Exn ''TypeError'' []))
       | _ \<Rightarrow> Inl (Exn ''TypeError'' []))
   | _ \<Rightarrow> Inl (Exn ''AttributeError'' []))"

text \<open>All edits: the text, the messages of the failed ones, the number of the others.\<close>

fun edit_steps :: "nat \<Rightarrow> json list \<Rightarrow> string \<Rightarrow> string list \<Rightarrow> nat \<Rightarrow> (string \<times> string list \<times> nat) raising" where
  "edit_steps i [] content failed applied = Inr (content, failed, applied)"
| "edit_steps i (j # js) content failed applied = (case edit_step content j of
     Inl e \<Rightarrow> Inl e
   | Inr None \<Rightarrow> edit_steps (Suc i) js content (failed @ [''Edit '' @ str_nat (i + 1) @ '': oldString not found'']) applied
   | Inr (Some content) \<Rightarrow> edit_steps (Suc i) js content failed (Suc applied))"

definition multi_edit_execute :: "(string \<Rightarrow> string list) \<Rightarrow> dict \<Rightarrow> disk \<Rightarrow> tool_result raising \<times> disk" where
  "multi_edit_execute resolve args d =
     (let edits = given args ''edits'' (JArr []) in
      if \<not> jtrue (given args ''filePath'' (JStr [])) then (Inr (tool_answer ''File path required'' [] [err ''no_file_path'']), d)
      else if \<not> jtrue edits then (Inr (tool_answer ''No edits provided'' [] [err ''no_edits'']), d)
      else case given args ''filePath'' (JStr []) of
        JStr path \<Rightarrow>
          (let broken = (\<lambda>e. (Inr (tool_answer (''Error editing: '' @ path) (exn_msg e) [err (exn_msg e)]), d)) in
           case open_read (resolve path) d of
             Inl e \<Rightarrow> broken e
           | Inr text \<Rightarrow> (case json_items edits of
               Inl e \<Rightarrow> broken e
             | Inr js \<Rightarrow> (case edit_steps 0 js (universal text) [] 0 of
                 Inl e \<Rightarrow> broken e
               | Inr (content, failed, applied) \<Rightarrow>
                   (if failed \<noteq> []
                    then (Inr (tool_answer ''MultiEdit failed'' (''Errors:'' @ newline @ str_join newline failed)
                            [(''errors'', num (length failed)), (''applied'', num applied)]), d)
                    else case write_file (resolve path) content d of
                      Inl e \<Rightarrow> broken e
                    | Inr d \<Rightarrow> (Inr (tool_answer (''MultiEdit: '' @ path)
                        (''Applied '' @ str_nat applied @ '' of '' @ str_nat (length js) @ '' edits successfully'' @ newline)
                        [(''file_path'', JStr (path_str path)), (''total_edits'', num (length js)), (''applied'', num applied), (''failed'', num 0)]), d)))))
      | _ \<Rightarrow> (Inl (Exn ''TypeError'' []), d))"

subsection \<open>Batch\<close>

text \<open>One call of a batch: \<open>run\<close> validates the arguments and executes the tool. Only what leaves \<open>execute_single_tool\<close> is an
  exception here; the list of the errors that are caught is never read. Without one the answer of the coroutine is \<open>None\<close>.\<close>

definition BATCH_TOOLS :: "string list" where
  "BATCH_TOOLS = [''read'', ''write'', ''grep'', ''glob'', ''bash'']"

definition entry :: "string \<Rightarrow> tool_result \<Rightarrow> json" where
  "entry tool r = JObj [(''tool'', JStr tool), (''status'', JStr (if jtrue (jget (tr_metadata r) ''error'') then ''completed'' else ''error'')),
     (''output'', JStr (tr_output r)), (''metadata'', JObj (tr_metadata r))]"

definition batch_call :: "(string \<Rightarrow> json \<Rightarrow> 'w \<Rightarrow> tool_result raising \<times> 'w) \<Rightarrow> json \<Rightarrow> json list \<Rightarrow> 'w \<Rightarrow> exn option \<times> json list \<times> 'w" where
  "batch_call run call results w = (case call of
     JObj c \<Rightarrow> (case given c ''tool'' (JStr []) of
         JArr _ \<Rightarrow> (Some (Exn ''TypeError'' []), results, w)
       | JObj _ \<Rightarrow> (Some (Exn ''TypeError'' []), results, w)
       | JStr tool \<Rightarrow>
           (if tool \<notin> set BATCH_TOOLS then (None, results, w)
            else case run tool (given c ''parameters'' (JObj [])) w of
              (Inl e, w) \<Rightarrow> (None, results, w)
            | (Inr r, w) \<Rightarrow> (None, results @ [entry tool r], w))
       | _ \<Rightarrow> (None, results, w))
   | _ \<Rightarrow> (Some (Exn ''AttributeError'' []), results, w))"

text \<open>The coroutines of the gather in turn: none of the five tools waits.\<close>

fun batch_calls :: "(string \<Rightarrow> json \<Rightarrow> 'w \<Rightarrow> tool_result raising \<times> 'w) \<Rightarrow> json list \<Rightarrow> json list \<Rightarrow> 'w \<Rightarrow> exn option list \<times> json list \<times> 'w" where
  "batch_calls run [] results w = ([], results, w)"
| "batch_calls run (c # cs) results w = (case batch_call run c results w of
     (x, results, w) \<Rightarrow> (case batch_calls run cs results w of (xs, results, w) \<Rightarrow> (x # xs, results, w)))"

text \<open>The loop over the answers: it takes \<open>metadata\<close> of an answer that is no exception.\<close>

fun batch_report :: "(json \<times> exn option) list \<Rightarrow> nat \<Rightarrow> nat raising" where
  "batch_report [] successes = Inr successes"
| "batch_report ((call, x) # rest) successes = (case call of
     JObj c \<Rightarrow> (case x of Some e \<Rightarrow> batch_report rest successes | None \<Rightarrow> Inl (Exn ''AttributeError'' []))
   | _ \<Rightarrow> Inl (Exn ''AttributeError'' []))"

definition batch_execute :: "(string \<Rightarrow> json \<Rightarrow> 'w \<Rightarrow> tool_result raising \<times> 'w) \<Rightarrow> dict \<Rightarrow> 'w \<Rightarrow> tool_result raising \<times> 'w" where
  "batch_execute run args w = (case given args ''tools'' (JArr []) of
     JArr (c # cs) \<Rightarrow> (case batch_calls run (c # cs) [] w of
       (xs, results, w) \<Rightarrow> (case batch_report (zip (c # cs) xs) 0 of
           Inl e \<Rightarrow> (Inl e, w)
         | Inr n \<Rightarrow> (Inr (tool_answer (''Batch execution: '' @ str_nat n @ '' succeeded, 0 failed'') []
             [(''total_tools'', num (length (c # cs))), (''success_count'', num n), (''error_count'', num 0), (''results'', JArr results)]), w)))
   | _ \<Rightarrow> (Inr (tool_answer ''Invalid tools parameter'' [] [err ''tools must be an array'']), w))"

subsection \<open>Todos\<close>

text \<open>\<open>todo.get("state", TodoState.PENDING)\<close>: only the default is a member of the enumeration, the text of a call or of a file has no \<open>value\<close>.\<close>

definition state_value :: "dict \<Rightarrow> string raising" where
  "state_value todo = (if map_of todo ''state'' = None then Inr ''pending'' else Inl (Exn ''AttributeError'' []))"

definition in_state :: "string \<Rightarrow> dict list \<Rightarrow> nat" where
  "in_state s todos = length (filter (\<lambda>t. jget t ''state'' = JStr s) todos)"

fun todo_lines :: "(json \<Rightarrow> string) \<Rightarrow> dict list \<Rightarrow> string list raising" where
  "todo_lines str [] = Inr []"
| "todo_lines str (t # ts) = (case state_value t of
     Inl e \<Rightarrow> Inl e
   | Inr state \<Rightarrow> map_sum id (Cons (state @ '' - '' @ str (given t ''description'' (JStr []))
       @ (if jtrue (jget t ''due_date'') then '', due: '' @ str (jget t ''due_date'') else []))) (todo_lines str ts))"

definition todo_counts :: "nat \<Rightarrow> dict list \<Rightarrow> string" where
  "todo_counts n todos = '' ('' @ str_nat n @ '' items):'' @ newline
     @ ''  Completed: '' @ str_nat (in_state ''completed'' todos) @ newline
     @ ''  In Progress: '' @ str_nat (in_state ''in_progress'' todos) @ newline
     @ ''  Cancelled: '' @ str_nat (in_state ''cancelled'' todos) @ newline"

definition todo_meta :: "string \<Rightarrow> dict list \<Rightarrow> (string \<times> json) list" where
  "todo_meta sid todos = [(''completed'', num (in_state ''completed'' todos)), (''in_progress'', num (in_state ''in_progress'' todos)),
     (''cancelled'', num (in_state ''cancelled'' todos)), (''session_id'', JStr sid)]"

definition todo_list :: "(json \<Rightarrow> string) \<Rightarrow> string \<Rightarrow> dict list \<Rightarrow> tool_result raising" where
  "todo_list str sid todos =
     (if todos = [] then Inr (tool_answer ''No todos found'' ''No todos found in current session'' [(''total'', num 0), (''session_id'', JStr sid)])
      else case todo_lines str todos of
        Inl e \<Rightarrow> Inl e
      | Inr ls \<Rightarrow> Inr (tool_answer ''Todo list'' (''Todo list'' @ todo_counts (length todos) todos
            @ str_join newline (map (\<lambda>l. ''  '' @ take 80 l @ ''...'') (take 20 ls))
            @ (if 20 < length ls then newline @ ''  ... ('' @ str_nat (length ls - 20) @ '' more items)'' else []))
          ((''total'', num (length todos)) # todo_meta sid todos)))"

definition todo_execute :: "(json \<Rightarrow> string) \<Rightarrow> string \<Rightarrow> store \<Rightarrow> tool_result raising" where
  "todo_execute str sid st = todo_list str sid (get_todos sid st)"

text \<open>The todos of a call as they are to be stored, or the answer to a bad one.\<close>

fun todo_entries :: "string \<Rightarrow> nat \<Rightarrow> json list \<Rightarrow> (tool_result + dict list) raising" where
  "todo_entries now idx [] = Inr (Inr [])"
| "todo_entries now idx (JObj t # ts) =
     (if \<not> jtrue (jget t ''id'')
      then Inr (Inl (failing (''Todo '' @ str_nat idx @ '' missing ID'') (''Todo at index '' @ str_nat idx @ '' missing '' @ quoted ''id'' @ '' field'')
             [err ''missing_todo_id'', (''index'', num idx)]))
      else case state_value t of
        Inl e \<Rightarrow> Inl e
      | Inr state \<Rightarrow> map_sum id (map_sum id (Cons [(''description'', given t ''description'' (JStr [])), (''state'', JStr state),
            (''due_date'', jget t ''due_date''), (''updated_at'', JStr now)])) (todo_entries now (Suc idx) ts))"
| "todo_entries now idx (j # ts) = Inl (Exn ''AttributeError'' [])"

definition todo_line :: "(json \<Rightarrow> string) \<Rightarrow> dict \<Rightarrow> string" where
  "todo_line str t = ''  ['' @ (case map_of t ''state'' of Some s \<Rightarrow> str s | None \<Rightarrow> ''TodoState.PENDING'') @ ''] '' @ str (jget t ''description'')
     @ (if jtrue (jget t ''due_date'') then '', due: '' @ str (jget t ''due_date'') @ ''...'' else []) @ newline"

definition todowrite_execute :: "(json \<Rightarrow> string) \<Rightarrow> string \<Rightarrow> string \<Rightarrow> dict \<Rightarrow> store \<Rightarrow> tool_result raising \<times> store" where
  "todowrite_execute str now sid args st = (case given args ''todos'' (JArr []) of
     JArr ts \<Rightarrow> (case todo_entries now 0 ts of
         Inl e \<Rightarrow> (Inl e, st)
       | Inr (Inl r) \<Rightarrow> (Inr r, st)
       | Inr (Inr entries) \<Rightarrow>
           (let st = update_todos sid entries st; todos = get_todos sid st; n = length todos
            in (Inr (tool_answer ''Updated todo list'' (''Updated todo list'' @ todo_counts n todos @ concat (map (todo_line str) (take 10 todos))
                    @ (if 10 < n then ''  ... ('' @ str_nat (n - 10) @ '' more items)'' else []))
                  ((''total'', num n) # (''updated'', num n) # todo_meta sid todos)), st)))
   | _ \<Rightarrow> (Inr (failing ''Todos must be a list'' (quoted ''todos'' @ '' parameter must be a list of todo items'') [err ''invalid_todos_type'']), st))"

subsection \<open>The table of all tools\<close>

definition REGISTRY_TOOLS :: "string list" where
  "REGISTRY_TOOLS = [''bash'', ''read'', ''write'', ''grep'', ''glob'', ''ast_grep_search'', ''edit'', ''list'', ''task'', ''question'', ''todoread'', ''todowrite'',
     ''webfetch'', ''websearch'', ''multiedit'', ''codesearch'', ''lsp'', ''skill'', ''externaldirectory'', ''planenter'', ''planexit'', ''batch'', ''compact'']"

definition registry_execute :: "(string \<Rightarrow> dict \<Rightarrow> 'w \<Rightarrow> tool_result raising \<times> 'w) \<Rightarrow> string \<Rightarrow> dict \<Rightarrow> 'w \<Rightarrow> tool_result raising \<times> 'w" where
  "registry_execute run name args w =
     (if str_lower name \<in> set REGISTRY_TOOLS then run (str_lower name) args w
      else (Inr (tool_answer (''Unknown tool: '' @ name) (''Tool '' @ name @ '' is not available'') [err (''unknown_tool: '' @ name)]), w))"

subsection \<open>What is replaced\<close>

lemma replace_first_spec:
  "contains old s \<Longrightarrow> \<exists>a b. s = a @ old @ b \<and> replace_first old new s = a @ new @ b \<and> (\<forall>a' b'. s = a' @ old @ b' \<longrightarrow> length a \<le> length a')"
proof (induction s)
  case Nil
  then show ?case by (simp add: contains_def)
next
  case (Cons c cs)
  show ?case
  proof (cases "prefix old (c # cs)")
    case True
    then obtain b where b: "c # cs = old @ b" by (auto simp: prefix_def)
    then have "drop (length old) (c # cs) = b" by simp
    moreover have "replace_first old new (c # cs) = new @ drop (length old) (c # cs)" using True by (simp only: replace_first.simps if_True)
    ultimately have "replace_first old new (c # cs) = new @ b" by simp
    with b show ?thesis by (metis append_Nil le0 list.size(3))
  next
    case False
    with Cons.prems have "contains old cs" by (cases old) auto
    from Cons.IH [OF this] obtain a b where ab: "cs = a @ old @ b" "replace_first old new cs = a @ new @ b"
      "\<And>a' b'. cs = a' @ old @ b' \<Longrightarrow> length a \<le> length a'" by blast
    have "length (c # a) \<le> length a'" if "c # cs = a' @ old @ b'" for a' b'
      using that ab(3) False by (cases a') auto
    with ab(1,2) False show ?thesis by (intro exI [of _ "c # a"] exI [of _ b]) simp
  qed
qed

lemma replace_from_drop: "replace_from k old new s = replace_from 0 old new (drop k s)"
  by (induction k old new s rule: replace_from.induct) simp_all

lemma count_from_drop: "count_from k old s = count_from 0 old (drop k s)"
  by (induction k old s rule: count_from.induct) simp_all

lemma replace_all_spec:
  assumes "old \<noteq> []"
  shows "\<exists>ps. ps \<noteq> [] \<and> s = str_join old ps \<and> replace_from 0 old new s = str_join new ps \<and> Suc (count_from 0 old s) = length ps \<and> (\<forall>p \<in> set ps. \<not> contains old p)"
proof (induction s rule: length_induct)
  case (1 s)
  have none: "\<not> contains old []" using assms by (cases old) simp_all
  show ?case
  proof (cases s)
    case Nil
    with none show ?thesis by (intro exI [of _ "[[]]"]) simp
  next
    case (Cons c cs)
    show ?thesis
    proof (cases "prefix old s")
      case True
      then obtain r where r: "s = old @ r" by (auto simp: prefix_def)
      then have "length r < length s" "drop (length old - 1) cs = r" using assms Cons by (cases old; force)+
      with 1 obtain ps where ps: "ps \<noteq> []" "r = str_join old ps" "replace_from 0 old new r = str_join new ps" "Suc (count_from 0 old r) = length ps"
        "\<forall>p \<in> set ps. \<not> contains old p" by blast
      have "replace_from 0 old new s = new @ replace_from 0 old new r" "count_from 0 old s = Suc (count_from 0 old r)"
        using True \<open>drop (length old - 1) cs = r\<close> replace_from_drop [of "length old - 1" old new cs] count_from_drop [of "length old - 1" old cs]
        by (simp_all add: Cons)
      with ps r none show ?thesis by (intro exI [of _ "[] # ps"]) (auto simp: neq_Nil_conv)
    next
      case False
      have "length cs < length s" by (simp add: Cons)
      with 1 obtain ps where ps: "ps \<noteq> []" "cs = str_join old ps" "replace_from 0 old new cs = str_join new ps" "Suc (count_from 0 old cs) = length ps"
        "\<forall>p \<in> set ps. \<not> contains old p" by blast
      then obtain p qs where p: "ps = p # qs" by (cases ps) auto
      have join: "str_join sep ((c # p) # qs) = c # str_join sep ps" for sep by (cases qs) (simp_all add: p)
      have "prefix p cs" using ps(2) by (cases qs) (auto simp: p prefix_def)
      then have "\<not> prefix old (c # p)" using False Cons prefix_order.trans by (metis Cons_prefix_Cons)
      with ps(5) p have "\<not> contains old (c # p)" by (cases old) (use none in auto)
      with ps p join False show ?thesis by (intro exI [of _ "(c # p) # qs"]) (auto simp: Cons)
    qed
  qed
qed

subsection \<open>What an edit does to a file\<close>

definition plain_file :: "string list \<Rightarrow> string \<Rightarrow> disk \<Rightarrow> bool" where
  "plain_file p text d \<longleftrightarrow> map_of (dk_files d) p = Some text \<and> p \<notin> dk_dirs d \<and> \<not> under_file p d \<and> butlast p \<in> dk_dirs d"

definition with_text :: "string list \<Rightarrow> string \<Rightarrow> disk \<Rightarrow> disk" where
  "with_text p text d = d\<lparr>dk_files := AList.update p text (dk_files d)\<rparr>"

lemma plain_file_ops:
  assumes "plain_file p text d"
  shows "path_exists p d" "open_read p d = Inr text" "write_file p t d = Inr (with_text p t d)"
  using assms by (simp_all add: plain_file_def path_exists_def open_read_def write_file_def with_text_def)

lemma with_text_file: "map_of (dk_files (with_text p t d)) q = (if q = p then Some t else map_of (dk_files d) q)"
  by (simp add: with_text_def update_conv)

lemma with_text_plain: "plain_file p text d \<Longrightarrow> plain_file p t (with_text p t d)"
  by (auto simp: plain_file_def with_text_def under_file_def list_ex_iff update_conv)

lemma with_text_twice: "with_text p t (with_text p u d) = with_text p t d"
  by (simp add: with_text_def)

text \<open>An edit of a file that has the text replaces its first occurrence, or with \<open>replaceAll\<close> each one from the left, and nothing else, but the
  line ends of the whole file become those of Unix.\<close>

theorem edit_spec:
  assumes "plain_file (resolve path) text d" "path \<noteq> []" "old \<noteq> []" "contains old (universal text)"
  shows "\<exists>r t. edit_execute resolve [(''filePath'', JStr path), (''oldString'', JStr old), (''newString'', JStr new), (''replaceAll'', JBool all)] d
        = (Inr r, with_text (resolve path) t d)
      \<and> (\<not> all \<longrightarrow> (\<exists>a b. universal text = a @ old @ b \<and> t = a @ new @ b \<and> (\<forall>a' b'. universal text = a' @ old @ b' \<longrightarrow> length a \<le> length a')))
      \<and> (all \<longrightarrow> (\<exists>ps. universal text = str_join old ps \<and> t = str_join new ps \<and> (\<forall>p \<in> set ps. \<not> contains old p)
          \<and> map_of (tr_metadata r) ''occurrences'' = Some (num (length ps - 1))))"
proof -
  obtain c cs where old: "old = c # cs" using assms(3) by (cases old) auto
  obtain ps where ps: "universal text = str_join old ps" "replace_from 0 old new (universal text) = str_join new ps"
    "Suc (count_from 0 old (universal text)) = length ps" "\<forall>p \<in> set ps. \<not> contains old p"
    using replace_all_spec [OF assms(3), of "universal text" new] by blast
  from ps(3) have n: "count_from 0 old (universal text) = length ps - 1" by simp
  define r where "r = fst (edit_file resolve path old new all d)"
  define t where "t = fst (edited all old new (universal text))"
  have e: "edit_file resolve path old new all d = (r, with_text (resolve path) t d)"
    and m: "map_of (tr_metadata r) ''occurrences'' = Some (num (snd (edited all old new (universal text))))"
    using plain_file_ops [OF assms(1)] assms(4)
    by (simp_all add: edit_file_def r_def t_def Let_def tool_answer_def split: prod.splits)
  have "edit_execute resolve [(''filePath'', JStr path), (''oldString'', JStr old), (''newString'', JStr new), (''replaceAll'', JBool all)] d
      = (Inr r, with_text (resolve path) t d)"
    using e assms(2) by (simp add: edit_execute_def jget_def jtrue_def old)
  moreover have "\<exists>a b. universal text = a @ old @ b \<and> t = a @ new @ b \<and> (\<forall>a' b'. universal text = a' @ old @ b' \<longrightarrow> length a \<le> length a')" if "\<not> all"
    using replace_first_spec [OF assms(4), of new] that by (simp add: t_def edited_def)
  moreover have "\<exists>ps. universal text = str_join old ps \<and> t = str_join new ps \<and> (\<forall>p \<in> set ps. \<not> contains old p)
      \<and> map_of (tr_metadata r) ''occurrences'' = Some (num (length ps - 1))" if all
    using ps m n that by (intro exI [of _ ps]) (simp add: t_def edited_def)
  ultimately show ?thesis by blast
qed

subsection \<open>Several edits\<close>

definition edit_json :: "string \<times> string \<Rightarrow> json" where
  "edit_json e = JObj [(''oldString'', JStr (fst e)), (''newString'', JStr (snd e))]"

text \<open>The edits in turn, each on the text the ones before have left; \<open>None\<close> when one of them is not found.\<close>

fun apply_edits :: "(string \<times> string) list \<Rightarrow> string \<Rightarrow> string option" where
  "apply_edits [] t = Some t"
| "apply_edits ((old, new) # es) t = (if contains old t then apply_edits es (replace_first old new t) else None)"

lemma edit_step_json: "edit_step t (edit_json (old, new)) = Inr (if contains old t then Some (replace_first old new t) else None)"
  by (simp add: edit_step_def edit_json_def given_def)

lemma edit_steps_apply:
  "\<exists>t' failed' applied'. edit_steps i (map edit_json es) t failed applied = Inr (t', failed', applied')
     \<and> (failed' = [] \<longleftrightarrow> failed = [] \<and> apply_edits es t \<noteq> None)
     \<and> (\<forall>u. apply_edits es t = Some u \<longrightarrow> t' = u \<and> failed' = failed \<and> applied' = applied + length es)"
proof (induction es arbitrary: i t failed applied)
  case (Cons e es)
  obtain old new where e: "e = (old, new)" by (cases e)
  show ?case
  proof (cases "contains old t")
    case True
    with Cons.IH [of "Suc i" "replace_first old new t" failed "Suc applied"] show ?thesis by (auto simp: e edit_step_json)
  next
    case False
    with Cons.IH [of "Suc i" t "failed @ [''Edit '' @ str_nat (i + 1) @ '': oldString not found'']" applied] show ?thesis
      by (auto simp: e edit_step_json)
  qed
qed simp

text \<open>C40. Several edits of one file are made together or not at all: when each is found in the text that those before it leave, the file has
  their result and the answer counts all of them; otherwise the disk is as it was and the answer counts the errors.\<close>

theorem multi_edit_spec:
  assumes "plain_file (resolve path) text d" "path \<noteq> []" "es \<noteq> []"
  shows "\<exists>r. multi_edit_execute resolve [(''filePath'', JStr path), (''edits'', JArr (map edit_json es))] d
        = (Inr r, case apply_edits es (universal text) of Some t \<Rightarrow> with_text (resolve path) t d | None \<Rightarrow> d)
      \<and> (case apply_edits es (universal text) of
           Some t \<Rightarrow> map_of (tr_metadata r) ''applied'' = Some (num (length es)) \<and> map_of (tr_metadata r) ''errors'' = None
         | None \<Rightarrow> (\<exists>n > 0. map_of (tr_metadata r) ''errors'' = Some (num n)))"
proof -
  obtain t failed applied where steps: "edit_steps 0 (map edit_json es) (universal text) [] 0 = Inr (t, failed, applied)"
    "failed = [] \<longleftrightarrow> apply_edits es (universal text) \<noteq> None" "\<forall>u. apply_edits es (universal text) = Some u \<longrightarrow> t = u \<and> applied = length es"
    using edit_steps_apply [of 0 es "universal text" "[]" 0] by auto
  have run: "multi_edit_execute resolve [(''filePath'', JStr path), (''edits'', JArr (map edit_json es))] d
      = (if failed \<noteq> [] then (Inr (tool_answer ''MultiEdit failed'' (''Errors:'' @ newline @ str_join newline failed)
              [(''errors'', num (length failed)), (''applied'', num applied)]), d)
         else (Inr (tool_answer (''MultiEdit: '' @ path) (''Applied '' @ str_nat applied @ '' of '' @ str_nat (length es) @ '' edits successfully'' @ newline)
              [(''file_path'', JStr (path_str path)), (''total_edits'', num (length es)), (''applied'', num applied), (''failed'', num 0)]),
            with_text (resolve path) t d))"
    using plain_file_ops [OF assms(1)] assms(2,3) steps(1)
    by (simp add: multi_edit_execute_def given_def jtrue_def json_items_def Let_def)
  show ?thesis
  proof (cases "apply_edits es (universal text)")
    case None
    with steps(2) have "failed \<noteq> []" by simp
    with run None show ?thesis by (auto simp: tool_answer_def)
  next
    case (Some u)
    with steps have "failed = []" "t = u" "applied = length es" by auto
    with run Some show ?thesis by (simp add: tool_answer_def)
  qed
qed

theorem multi_edit_spec_witness:
  "dk_files (snd (multi_edit_execute (\<lambda>_. [''home'', ''a.txt'']) [(''filePath'', JStr ''a.txt''),
      (''edits'', JArr (map edit_json [(''x'', ''u''), (''u'', ''vv'')]))] example_disk))
     = [([''home'', ''a.txt''], ''vv'' @ newline @ ''y'' @ newline @ ''z'')]
   \<and> snd (multi_edit_execute (\<lambda>_. [''home'', ''a.txt'']) [(''filePath'', JStr ''a.txt''),
      (''edits'', JArr (map edit_json [(''x'', ''u''), (''x'', ''v'')]))] example_disk) = example_disk"
proof -
  let ?t = "''x'' @ newline @ ''y'' @ newline @ ''z''"
  let ?resolve = "\<lambda>_ :: string. [''home'', ''a.txt'']"
  have f: "plain_file (?resolve ''a.txt'') ?t example_disk"
    by (simp add: plain_file_def example_disk_def under_file_def)
  have a: "apply_edits [(''x'', ''u''), (''u'', ''vv'')] (universal ?t) = Some (''vv'' @ newline @ ''y'' @ newline @ ''z'')"
    "apply_edits [(''x'', ''u''), (''x'', ''v'')] (universal ?t) = None" by code_simp+
  from multi_edit_spec [of ?resolve "''a.txt''" ?t example_disk "[(''x'', ''u''), (''u'', ''vv'')]", OF f]
    multi_edit_spec [of ?resolve "''a.txt''" ?t example_disk "[(''x'', ''u''), (''x'', ''v'')]", OF f] a
  show ?thesis by (auto simp: with_text_def example_disk_def)
qed

text \<open>The older tool for several edits starts each of them from the text it has read and writes it at once: of edits that are all found,
  the last one alone is in the file.\<close>

lemma old_edits_last:
  assumes "plain_file p s d" "\<forall>e \<in> set es. fst e \<noteq> [] \<and> contains (fst e) content" "es \<noteq> []"
  shows "snd (old_edits p path content idx (map edit_json es) t d) = with_text p (replace_first (fst (last es)) (snd (last es)) content) d"
  using assms
proof (induction es arbitrary: s idx t d)
  case (Cons e es)
  obtain old new where e: "e = (old, new)" by (cases e)
  with Cons.prems(2) obtain c cs where old: "old = c # cs" by (cases old) auto
  have step: "snd (old_edits p path content idx (map edit_json (e # es)) t d)
      = snd (old_edits p path content (Suc idx) (map edit_json es)
          \<lparr>tt_operations = Suc (tt_operations t), tt_additions = tt_additions t + 1, tt_replacements = tt_replacements t + 1 + 1\<rparr>
          (with_text p (replace_first old new content) d))"
    using plain_file_ops(3) [OF Cons.prems(1)] Cons.prems(2) by (simp add: e old edit_json_def jget_def jtrue_def edited_def Let_def del: contains_simps)
  show ?case
  proof (cases "es = []")
    case True
    with step show ?thesis by (simp add: e)
  next
    case False
    then show ?thesis
      unfolding step using Cons.IH [OF with_text_plain [OF Cons.prems(1)] _ False] Cons.prems(2) by (simp add: with_text_twice)
  qed
qed simp

subsection \<open>Batches and todos\<close>

lemma batch_calls_length: "length (fst (batch_calls run cs rs w)) = length cs"
proof (induction cs arbitrary: rs w)
  case (Cons c cs)
  obtain x rs' w' where "batch_call run c rs w = (x, rs', w')" by (cases "batch_call run c rs w") auto
  with Cons.IH [of rs' w'] show ?case by (auto split: prod.split)
qed simp

lemma batch_report_raises:
  "length xs = length cs \<Longrightarrow> i < length cs \<Longrightarrow> (\<forall>c. cs ! i \<noteq> JObj c) \<or> xs ! i = None \<Longrightarrow> batch_report (zip cs xs) n = Inl (Exn ''AttributeError'' [])"
proof (induction cs arbitrary: xs i n)
  case (Cons c cs)
  then obtain x ys where xs: "xs = x # ys" by (cases xs) auto
  show ?case
  proof (cases i)
    case 0
    with Cons.prems show ?thesis by (auto simp: xs split: json.split option.split)
  next
    case (Suc k)
    with Cons.IH [of ys k n] Cons.prems show ?thesis by (auto simp: xs split: json.split option.split)
  qed
qed simp

lemma batch_call_none:
  assumes "call = JObj c" "\<forall>x. given c ''tool'' (JStr []) \<noteq> JArr x" "\<forall>x. given c ''tool'' (JStr []) \<noteq> JObj x"
  shows "fst (batch_call run call rs w) = None"
  using assms by (auto simp: batch_call_def split: json.split sum.split prod.split)

lemma batch_calls_none:
  assumes "cs ! i = JObj c" "i < length cs" "\<forall>x. given c ''tool'' (JStr []) \<noteq> JArr x" "\<forall>x. given c ''tool'' (JStr []) \<noteq> JObj x"
  shows "fst (batch_calls run cs rs w) ! i = None"
  using assms(1,2)
proof (induction cs arbitrary: i rs w)
  case (Cons a cs)
  obtain x rs' w' where b: "batch_call run a rs w = (x, rs', w')" by (cases "batch_call run a rs w") auto
  show ?case
  proof (cases i)
    case 0
    with Cons.prems batch_call_none [OF _ assms(3,4), of a run rs w] b show ?thesis by (simp split: prod.split)
  next
    case (Suc k)
    with Cons.prems Cons.IH [of k rs' w'] b show ?thesis by (auto split: prod.split)
  qed
qed simp

text \<open>A batch never answers: when one of its calls names a tool, known or not, the tools have done their work and the batch raises.\<close>

theorem batch_always_raises:
  assumes "cs ! i = JObj c" "i < length cs" "\<forall>x. given c ''tool'' (JStr []) \<noteq> JArr x" "\<forall>x. given c ''tool'' (JStr []) \<noteq> JObj x"
  shows "batch_execute run [(''tools'', JArr cs)] w = (Inl (Exn ''AttributeError'' []), snd (snd (batch_calls run cs [] w)))"
proof -
  obtain a as where cs: "cs = a # as" using assms(2) by (cases cs) auto
  obtain xs rs w' where b: "batch_calls run cs [] w = (xs, rs, w')" by (cases "batch_calls run cs [] w") auto
  from batch_calls_none [OF assms, of run "[]" w] batch_calls_length [of run cs "[]" w] b
  have "batch_report (zip cs xs) 0 = Inl (Exn ''AttributeError'' [])" using assms(2) by (intro batch_report_raises) auto
  with b show ?thesis by (simp add: batch_execute_def given_def cs)
qed

text \<open>Writing todos stores nothing, and a todo that gives its state makes the call raise.\<close>

lemma todowrite_stores_nothing: "snd (todowrite_execute str now sid args st) = st"
  by (auto simp: todowrite_execute_def update_todos_def Let_def split: json.split sum.split)

lemma todowrite_answers_zero:
  assumes "todowrite_execute str now sid [(''todos'', JArr ts)] st = (Inr r, st')" "map_of (tr_metadata r) ''error'' = None"
  shows "map_of (tr_metadata r) ''total'' = Some (num 0)"
proof -
  have inl: "todo_entries now i us = Inr (Inl q) \<Longrightarrow> map_of (tr_metadata q) ''error'' \<noteq> None" for i us q
    by (induction now i us rule: todo_entries.induct)
      (auto simp: failing_def tool_answer_def err_def map_sum_Inr split: if_splits sum.splits; case_tac z; simp)+
  with inl [of 0 ts r] assms show ?thesis
    by (auto simp: todowrite_execute_def given_def get_todos_def Let_def tool_answer_def split: sum.splits)
qed

lemma todo_state_raises:
  assumes "jtrue (jget t ''id'')" "map_of t ''state'' \<noteq> None"
  shows "todowrite_execute str now sid [(''todos'', JArr (JObj t # ts))] st = (Inl (Exn ''AttributeError'' []), st)"
proof -
  from assms(2) have "state_value t = Inl (Exn ''AttributeError'' [])" by (simp add: state_value_def)
  with assms(1) show ?thesis by (simp add: todowrite_execute_def given_def)
qed

lemma todo_execute_empty: "\<exists>r. todo_execute str sid st = Inr r \<and> tr_title r = ''No todos found''"
  by (simp add: todo_execute_def todo_list_def get_todos_def tool_answer_def)

text \<open>The names that the plan tools give themselves are not those of the table.\<close>

lemma registry_misses_plan_tools:
  "fst (registry_execute run ''plan_enter'' args w) = Inr (tool_answer ''Unknown tool: plan_enter'' ''Tool plan_enter is not available'' [err ''unknown_tool: plan_enter''])"
proof -
  have "str_lower ''plan_enter'' \<notin> set REGISTRY_TOOLS" by code_simp
  then show ?thesis by (simp add: registry_execute_def)
qed

end
