(* ===== verification/Json.thy ===== *)
theory Json
  imports Results Texts
begin

text \<open>
  The texts of JSON values, as far as the components read and write them: \<open>json.loads\<close> with its grammar, and \<open>json.dumps\<close> of lists of
  texts with \<open>ensure_ascii\<close>; the search of a text (\<open>find\<close>, \<open>split\<close>, slices). Numbers are rationals, so the names of the infinities and NaN, which Python
  also reads, are refused; characters are those of Latin-1, so an escape of another one is refused.
\<close>

subsection \<open>Texts\<close>

text \<open>The text before and after the first occurrence.\<close>

fun split_first :: "string \<Rightarrow> string \<Rightarrow> (string \<times> string) option" where
  "split_first sub [] = (if sub = [] then Some ([], []) else None)"
| "split_first sub (c # cs) =
     (if prefix sub (c # cs) then Some ([], drop (length sub) (c # cs)) else map_option (apfst (Cons c)) (split_first sub cs))"

text \<open>\<open>text.split()\<close>: the words between white space.\<close>

fun str_words :: "string \<Rightarrow> string list" where
  "str_words [] = []"
| "str_words (c # cs) =
     (if is_space c then str_words cs
      else case cs of [] \<Rightarrow> [[c]]
        | d # _ \<Rightarrow> if is_space d then [c] # str_words cs
            else (case str_words cs of w # ws \<Rightarrow> (c # w) # ws | [] \<Rightarrow> [[c]]))"

subsection \<open>\<open>json.loads\<close>\<close>

definition json_space :: "char \<Rightarrow> bool" where
  "json_space c \<longleftrightarrow> c = CHR '' '' \<or> c = CHR 0x09 \<or> c = CHR 0x0A \<or> c = CHR 0x0D"

abbreviation skip :: "string \<Rightarrow> string" where "skip \<equiv> dropWhile json_space"

definition digit_of :: "char \<Rightarrow> nat option" where
  "digit_of c = (let n = of_char c :: nat in if 48 \<le> n \<and> n \<le> 57 then Some (n - 48) else None)"

definition hex_of :: "char \<Rightarrow> nat option" where
  "hex_of c = (let n = of_char c :: nat
     in if 48 \<le> n \<and> n \<le> 57 then Some (n - 48)
        else if 65 \<le> n \<and> n \<le> 70 then Some (n - 55)
        else if 97 \<le> n \<and> n \<le> 102 then Some (n - 87) else None)"

definition backslash :: char where "backslash = CHR 0x5C"

definition escapes :: "(char \<times> char) list" where
  "escapes = [(CHR 0x22, CHR 0x22), (backslash, backslash), (CHR ''/'', CHR ''/''), (CHR ''b'', CHR 0x08), (CHR ''f'', CHR 0x0C),
     (CHR ''n'', CHR 0x0A), (CHR ''r'', CHR 0x0D), (CHR ''t'', CHR 0x09)]"

definition hex_char :: "string \<Rightarrow> char option" where
  "hex_char ds = (case map hex_of ds of
     [Some 0, Some 0, Some c, Some d] \<Rightarrow> Some (char_of (16 * c + d)) | _ \<Rightarrow> None)"

text \<open>The rest of a text up to its closing quote; a control character in it is refused.\<close>

fun read_text :: "string \<Rightarrow> (string \<times> string) option" where
  "read_text [] = None"
| "read_text (c # r) =
     (if c = CHR 0x22 then Some ([], r)
      else if (of_char c :: nat) < 32 then None
      else if c \<noteq> backslash then map_option (apfst (Cons c)) (read_text r)
      else case r of [] \<Rightarrow> None
        | e # r \<Rightarrow> if e = CHR ''u''
            then (case hex_char (take 4 r) of Some x \<Rightarrow> map_option (apfst (Cons x)) (read_text (drop 4 r)) | None \<Rightarrow> None)
            else (case map_of escapes e of Some x \<Rightarrow> map_option (apfst (Cons x)) (read_text r) | None \<Rightarrow> None))"

definition read_digits :: "string \<Rightarrow> nat list \<times> string" where
  "read_digits s = (map (the \<circ> digit_of) (takeWhile (\<lambda>c. digit_of c \<noteq> None) s), dropWhile (\<lambda>c. digit_of c \<noteq> None) s)"

definition read_fraction :: "string \<Rightarrow> rat \<times> string" where
  "read_fraction s = (case s of
     c # r \<Rightarrow> (case read_digits r of (ds, r') \<Rightarrow>
       if c = CHR ''.'' \<and> ds \<noteq> [] then (of_nat (digits_val ds) / 10 ^ length ds, r') else (0, s))
   | [] \<Rightarrow> (0, s))"

definition read_exponent :: "string \<Rightarrow> rat \<times> string" where
  "read_exponent s = (case s of
     c # r \<Rightarrow>
       if c = CHR ''e'' \<or> c = CHR ''E''
       then (case (case r of x # xs \<Rightarrow> if x = CHR ''-'' then (True, xs) else if x = CHR ''+'' then (False, xs) else (False, r) | [] \<Rightarrow> (False, r)) of
         (neg, r) \<Rightarrow> (case read_digits r of (ds, r') \<Rightarrow>
           if ds = [] then (1, s) else let p = 10 ^ digits_val ds in (if neg then 1 / p else p, r')))
       else (1, s)
   | [] \<Rightarrow> (1, s))"

definition read_number :: "string \<Rightarrow> (json \<times> string) option" where
  "read_number s = (case (case s of c # r \<Rightarrow> if c = CHR ''-'' then (- 1, r) else (1, s) | [] \<Rightarrow> (1, s)) of
     (sign, r) \<Rightarrow> (case (case r of c # r' \<Rightarrow> if c = CHR ''0'' then ([0], r') else read_digits r | [] \<Rightarrow> ([], r)) of
       (ds, r) \<Rightarrow> if ds = [] then None
         else (case read_fraction r of (q, r) \<Rightarrow> (case read_exponent r of
           (p, r) \<Rightarrow> Some (JNum (sign * (of_nat (digits_val ds) + q) * p), r)))))"

text \<open>Values, the elements of a list and the members of an object. Of two calls in a row one at least reads a character, so a fuel above twice the length of the text is enough, see \<open>loads_fuel\<close>.\<close>

fun read_value :: "nat \<Rightarrow> string \<Rightarrow> (json \<times> string) option"
  and read_elements :: "nat \<Rightarrow> string \<Rightarrow> (json list \<times> string) option"
  and read_members :: "nat \<Rightarrow> (string \<times> json) list \<Rightarrow> string \<Rightarrow> ((string \<times> json) list \<times> string) option" where
  "read_value 0 s = None"
| "read_value (Suc n) s = (case s of
     [] \<Rightarrow> None
   | c # r \<Rightarrow>
       if c = CHR 0x22 then map_option (apfst JStr) (read_text r)
       else if c = CHR 0x5B then (case skip r of
         [] \<Rightarrow> None
       | d # r' \<Rightarrow> if d = CHR 0x5D then Some (JArr [], r') else map_option (apfst JArr) (read_elements n (d # r')))
       else if c = CHR 0x7B then (case skip r of
         [] \<Rightarrow> None
       | d # r' \<Rightarrow> if d = CHR 0x7D then Some (JObj [], r') else map_option (apfst JObj) (read_members n [] (d # r')))
       else if prefix ''null'' s then Some (JNull, drop 4 s)
       else if prefix ''true'' s then Some (JBool True, drop 4 s)
       else if prefix ''false'' s then Some (JBool False, drop 5 s)
       else read_number s)"
| "read_elements 0 s = None"
| "read_elements (Suc n) s = (case read_value n s of
     None \<Rightarrow> None
   | Some (j, r) \<Rightarrow> (case skip r of
       [] \<Rightarrow> None
     | d # r \<Rightarrow>
         if d = CHR 0x5D then Some ([j], r)
         else if d = CHR '','' then map_option (apfst (Cons j)) (read_elements n (skip r))
         else None))"
| "read_members 0 d s = None"
| "read_members (Suc n) d s = (case s of
     [] \<Rightarrow> None
   | c # r \<Rightarrow>
       if c \<noteq> CHR 0x22 then None
       else (case read_text r of
         None \<Rightarrow> None
       | Some (k, r) \<Rightarrow> (case skip r of
           [] \<Rightarrow> None
         | c # r \<Rightarrow>
             if c \<noteq> CHR '':'' then None
             else (case read_value n (skip r) of
               None \<Rightarrow> None
             | Some (j, r) \<Rightarrow> (case skip r of
                 [] \<Rightarrow> None
               | c # r \<Rightarrow>
                   if c = CHR 0x7D then Some (AList.update k j d, r)
                   else if c = CHR '','' then read_members n (AList.update k j d) (skip r)
                   else None)))))"

definition loads :: "string \<Rightarrow> json option" where
  "loads s = (case read_value (Suc (2 * length s)) (skip s) of Some (j, r) \<Rightarrow> if skip r = [] then Some j else None | None \<Rightarrow> None)"

subsection \<open>\<open>json.dumps\<close> of lists of texts\<close>

definition hex_digit :: "nat \<Rightarrow> char" where
  "hex_digit n = (if n < 10 then char_of (48 + n) else char_of (87 + n))"

definition escape_char :: "char \<Rightarrow> string" where
  "escape_char c = (let n = of_char c :: nat
     in if c = CHR 0x22 \<or> c = backslash then [backslash, c]
        else if n = 8 then [backslash, CHR ''b''] else if n = 9 then [backslash, CHR ''t''] else if n = 10 then [backslash, CHR ''n'']
        else if n = 12 then [backslash, CHR ''f''] else if n = 13 then [backslash, CHR ''r'']
        else if 32 \<le> n \<and> n < 127 then [c]
        else [backslash, CHR ''u'', CHR ''0'', CHR ''0'', hex_digit (n div 16), hex_digit (n mod 16)])"

definition dumps_text :: "string \<Rightarrow> string" where
  "dumps_text s = [CHR 0x22] @ concat (map escape_char s) @ [CHR 0x22]"

definition dumps_texts :: "string list \<Rightarrow> string" where
  "dumps_texts xs = ''['' @ str_join '', '' (map dumps_text xs) @ '']''"

subsection \<open>Properties\<close>

lemma of_char_bound: "(of_char c :: nat) < 256"
  by simp

lemma hex_of_digit: "n < 16 \<Longrightarrow> hex_of (hex_digit n) = Some n"
  by (auto simp: hex_of_def hex_digit_def Let_def of_char_of take_bit_nat_eq_self)

lemma hex_char_escape: "hex_char [CHR ''0'', CHR ''0'', hex_digit ((of_char c :: nat) div 16), hex_digit (of_char c mod 16)] = Some c"
proof -
  have "(of_char c :: nat) div 16 < 16" using of_char_bound [of c] by linarith
  moreover have "hex_of CHR ''0'' = Some 0" by (simp add: hex_of_def)
  moreover have "16 * ((of_char c :: nat) div 16) + of_char c mod 16 = of_char c" by simp
  ultimately show ?thesis by (simp add: hex_char_def hex_of_digit del: mult_div_mod_eq)
qed

lemma escapes_plain: "map_of escapes CHR 0x22 = Some CHR 0x22" "map_of escapes backslash = Some backslash" "map_of escapes CHR ''b'' = Some CHR 0x08"
  "map_of escapes CHR ''t'' = Some CHR 0x09" "map_of escapes CHR ''n'' = Some CHR 0x0A" "map_of escapes CHR ''f'' = Some CHR 0x0C" "map_of escapes CHR ''r'' = Some CHR 0x0D"
  by code_simp+

lemma char_is: "(of_char c :: nat) = of_char d \<longleftrightarrow> c = d"
  using inj_on_def by (metis char_of_char)

lemma read_backslash:
  "e \<noteq> CHR ''u'' \<Longrightarrow> map_of escapes e = Some x \<Longrightarrow> read_text (backslash # e # t) = map_option (apfst (Cons x)) (read_text t)"
  "hex_char [a, b, c, d] = Some x \<Longrightarrow> read_text (backslash # CHR ''u'' # a # b # c # d # t) = map_option (apfst (Cons x)) (read_text t)"
  by (simp_all add: backslash_def)

lemma read_plain: "c \<noteq> CHR 0x22 \<Longrightarrow> c \<noteq> backslash \<Longrightarrow> 32 \<le> (of_char c :: nat) \<Longrightarrow> read_text (c # t) = map_option (apfst (Cons c)) (read_text t)"
  by simp

lemma escape_special:
  "escape_char CHR 0x08 = [backslash, CHR ''b'']" "escape_char CHR 0x09 = [backslash, CHR ''t'']" "escape_char CHR 0x0A = [backslash, CHR ''n'']"
  "escape_char CHR 0x0C = [backslash, CHR ''f'']" "escape_char CHR 0x0D = [backslash, CHR ''r'']"
  "escape_char CHR 0x22 = [backslash, CHR 0x22]" "escape_char backslash = [backslash, backslash]"
  by code_simp+

lemma read_escape: "read_text (escape_char c @ t) = map_option (apfst (Cons c)) (read_text t)"
proof -
  let ?n = "of_char c :: nat"
  have ctl: "?n = 8 \<Longrightarrow> c = CHR 0x08" "?n = 9 \<Longrightarrow> c = CHR 0x09" "?n = 10 \<Longrightarrow> c = CHR 0x0A" "?n = 12 \<Longrightarrow> c = CHR 0x0C" "?n = 13 \<Longrightarrow> c = CHR 0x0D"
    by (simp_all add: char_is [symmetric])
  have b: "backslash \<noteq> CHR ''u''" by (simp add: backslash_def)
  consider "c \<in> {CHR 0x08, CHR 0x09, CHR 0x0A, CHR 0x0C, CHR 0x0D, CHR 0x22, backslash}"
    | "c \<noteq> CHR 0x22" "c \<noteq> backslash" "32 \<le> ?n" "?n < 127"
    | "c \<noteq> CHR 0x22" "c \<noteq> backslash" "\<not> (32 \<le> ?n \<and> ?n < 127)" "?n \<noteq> 8" "?n \<noteq> 9" "?n \<noteq> 10" "?n \<noteq> 12" "?n \<noteq> 13"
    using ctl by auto
  then show ?thesis
  proof cases
    case 1
    then show ?thesis using b by (auto simp: escape_special read_backslash(1) escapes_plain simp del: read_text.simps)
  next
    case 2
    then have "escape_char c = [c]" by (simp add: escape_char_def Let_def)
    with 2 show ?thesis by (simp add: read_plain del: read_text.simps)
  next
    case 3
    then have "escape_char c = [backslash, CHR ''u'', CHR ''0'', CHR ''0'', hex_digit (?n div 16), hex_digit (?n mod 16)]"
      by (simp add: escape_char_def Let_def)
    then show ?thesis by (simp add: read_backslash(2) [OF hex_char_escape] del: read_text.simps)
  qed
qed

lemma read_escaped: "read_text (concat (map escape_char s) @ CHR 0x22 # r) = Some (s, r)"
  by (induction s) (simp_all add: read_escape)

lemma read_value_text: "read_value (Suc n) (dumps_text s @ r) = Some (JStr s, r)"
  by (simp add: dumps_text_def read_escaped)

declare read_value.simps(2) [simp del]

lemma skip_text: "skip (dumps_text s @ r) = dumps_text s @ r" "skip (CHR '' '' # dumps_text s @ r) = dumps_text s @ r"
  by (simp_all add: dumps_text_def json_space_def)

lemma read_elements_texts:
  "Suc (length xs) < n \<Longrightarrow> read_elements n (str_join '', '' (map dumps_text (x # xs)) @ CHR '']'' # r) = Some (map JStr (x # xs), r)"
proof (induction xs arbitrary: x n)
  case Nil
  then obtain m where "n = Suc (Suc m)" by (cases n) (auto simp: gr0_conv_Suc)
  then show ?case by (simp add: read_value_text json_space_def)
next
  case (Cons y ys)
  then obtain k where m: "n = Suc (Suc k)" "Suc (length ys) < Suc k" by (cases n) (auto simp: gr0_conv_Suc Suc_less_eq2)
  have "skip (CHR '' '' # str_join '', '' (map dumps_text (y # ys)) @ CHR '']'' # r) = str_join '', '' (map dumps_text (y # ys)) @ CHR '']'' # r"
    by (cases ys) (simp_all add: skip_text json_space_def)
  then show ?case using Cons.IH [OF m(2), of y] m(1) by (simp add: json_space_def read_value_text)
qed

text \<open>A list of texts that was dumped is read back.\<close>

lemma loads_dumps_texts: "loads (dumps_texts xs) = Some (JArr (map JStr xs))"
proof (cases xs)
  case Nil
  then show ?thesis by (simp add: loads_def dumps_texts_def json_space_def eval_nat_numeral read_value.simps(2))
next
  case (Cons y ys)
  have len: "length zs \<le> length (str_join '', '' (map dumps_text zs))" for zs
  proof (induction zs)
    case (Cons z zs) then show ?case by (cases zs) (simp_all add: dumps_text_def)
  qed simp
  let ?s = "str_join '', '' (map dumps_text (y # ys))"
  have "skip (?s @ '']'') = ?s @ '']''" by (cases ys) (simp_all add: skip_text)
  moreover have "?s @ '']'' = CHR 0x22 # tl (?s @ '']'')" by (cases ys) (simp_all add: dumps_text_def)
  ultimately have "read_value (Suc n) (CHR ''['' # ?s @ '']'') = map_option (apfst JArr) (read_elements n (?s @ '']''))" for n
    by (simp add: json_space_def read_value.simps(2) del: str_join.simps list.map) (auto split: list.splits)
  moreover have "Suc (length ys) < 2 * length (dumps_texts xs)" using len [of xs] Cons by (simp add: dumps_texts_def)
  ultimately show ?thesis using read_elements_texts [of ys "2 * length (dumps_texts xs)" y "[]"] Cons
    by (simp add: loads_def dumps_texts_def json_space_def del: str_join.simps)
qed

subsection \<open>The fuel\<close>

lemma skip_shorter: "skip s = c # r \<Longrightarrow> Suc (length r) \<le> length s"
  by (metis length_Cons length_dropWhile_le)

lemma read_text_shorter: "read_text s = Some (t, r) \<Longrightarrow> length r < length s"
proof (induction "length s" arbitrary: s t rule: less_induct)
  case less
  have IH: "length r < length s'" if "read_text s' = Some (u, r)" "length s' < length s" for s' u
    using less.hyps that by blast
  obtain c s' where s: "s = c # s'" using less.prems by (cases s) auto
  have "length r < length s'" if "c \<noteq> CHR 0x22" "c \<noteq> backslash"
    using less.prems that IH [of s'] by (auto simp: s split: if_splits)
  moreover have "length r < length s'" if "c = backslash" "s' = e # s''" for e s''
  proof -
    have "backslash \<noteq> CHR 0x22" by (simp add: backslash_def)
    with less.prems that consider u where "read_text s'' = Some (u, r)" | u where "read_text (drop 4 s'') = Some (u, r)"
      by (auto simp: s split: if_splits option.splits)
    then show ?thesis using IH [of s''] IH [of "drop 4 s''"] that by cases (force simp: s)+
  qed
  moreover have "s' \<noteq> []" if "c = backslash" using less.prems that by (auto simp: s backslash_def split: if_splits)
  moreover have "r = s'" if "c = CHR 0x22" using less.prems that by (simp add: s)
  ultimately show ?case by (cases "c = CHR 0x22"; cases "c = backslash") (auto simp: s neq_Nil_conv less_Suc_eq)
qed

lemma read_digits_shorter: "read_digits s = (ds, r) \<Longrightarrow> length ds + length r = length s"
proof -
  assume "read_digits s = (ds, r)"
  then have "length ds = length (takeWhile (\<lambda>c. digit_of c \<noteq> None) s)" "r = dropWhile (\<lambda>c. digit_of c \<noteq> None) s"
    by (auto simp: read_digits_def)
  then show ?thesis by (metis length_append takeWhile_dropWhile_id)
qed

lemma read_fraction_shorter: "read_fraction s = (q, r) \<Longrightarrow> length r \<le> length s"
  by (auto simp: read_fraction_def split: list.splits prod.splits if_splits dest!: read_digits_shorter)

lemma read_exponent_shorter: "read_exponent s = (p, r) \<Longrightarrow> length r \<le> length s"
  by (auto simp: read_exponent_def Let_def split: list.splits prod.splits if_splits dest!: read_digits_shorter)

lemma read_number_shorter: "read_number s = Some (j, r) \<Longrightarrow> length r < length s"
proof -
  have *: "length r' < length s'" if "read_digits s' = (ds, r')" "ds \<noteq> []" for s' ds r'
    using read_digits_shorter [OF that(1)] that(2) by (cases ds) simp_all
  show "read_number s = Some (j, r) \<Longrightarrow> length r < length s"
    by (auto simp: read_number_def split: list.splits prod.splits if_splits
      dest!: * read_fraction_shorter read_exponent_shorter)
qed

lemma read_shorter:
  "(\<forall>s j r. read_value n s = Some (j, r) \<longrightarrow> length r < length s)
   \<and> (\<forall>s js r. read_elements n s = Some (js, r) \<longrightarrow> length r < length s)
   \<and> (\<forall>s d ms r. read_members n d s = Some (ms, r) \<longrightarrow> length r < length s)"
proof (induction n)
  case (Suc n)
  note V = Suc.IH [THEN conjunct1, rule_format] and E = Suc.IH [THEN conjunct2, THEN conjunct1, rule_format]
    and M = Suc.IH [THEN conjunct2, THEN conjunct2, rule_format]
  have "length r < length s" if rv: "read_value (Suc n) s = Some (j, r)" for s j r
  proof -
    obtain c s' where s: "s = c # s'" using rv by (cases s) (simp_all add: read_value.simps(2))
    have list: "length r < length s" if "skip s' = d # r'" "r = r' \<or> length r < length (d # r')" for d r'
      using that skip_shorter [OF that(1)] by (auto simp: s)
    consider "c = CHR 0x22" | "c = CHR 0x5B" | "c = CHR 0x7B" | "c \<noteq> CHR 0x22" "c \<noteq> CHR 0x5B" "c \<noteq> CHR 0x7B" by blast
    then show ?thesis
    proof cases
      case 1
      with rv have "\<exists>u. read_text s' = Some (u, r)" by (auto simp: s read_value.simps(2))
      then show ?thesis using read_text_shorter by (auto simp: s less_Suc_eq)
    next
      case 2
      with rv obtain d r' where d: "skip s' = d # r'"
        and "(if d = CHR 0x5D then Some (JArr [], r') else map_option (apfst JArr) (read_elements n (d # r'))) = Some (j, r)"
        by (cases "skip s'") (simp_all add: s read_value.simps(2))
      then have "r = r' \<or> (\<exists>js. read_elements n (d # r') = Some (js, r))" by (auto split: if_splits)
      then show ?thesis using list [OF d] E by blast
    next
      case 3
      with rv obtain d r' where d: "skip s' = d # r'"
        and "(if d = CHR 0x7D then Some (JObj [], r') else map_option (apfst JObj) (read_members n [] (d # r'))) = Some (j, r)"
        by (cases "skip s'") (simp_all add: s read_value.simps(2))
      then have "r = r' \<or> (\<exists>ms. read_members n [] (d # r') = Some (ms, r))" by (auto split: if_splits)
      then show ?thesis using list [OF d] M by blast
    next
      case 4
      with rv have "(if prefix ''null'' s then Some (JNull, drop 4 s) else if prefix ''true'' s then Some (JBool True, drop 4 s)
          else if prefix ''false'' s then Some (JBool False, drop 5 s) else read_number s) = Some (j, r)"
        by (simp only: s read_value.simps(2) list.case if_False)
      then consider "r = drop 4 s" | "r = drop 5 s" | "read_number s = Some (j, r)"
        by (simp only: split: if_splits) auto
      then show ?thesis by cases (auto simp: s dest!: read_number_shorter)
    qed
  qed
  moreover have "length r < length s" if re: "read_elements (Suc n) s = Some (js, r)" for s js r
  proof -
    obtain j r1 where 1: "read_value n s = Some (j, r1)" using re by (cases "read_value n s") auto
    obtain d r2 where 2: "skip r1 = d # r2" using re 1 by (cases "skip r1") auto
    from re have "r = r2 \<or> (\<exists>js'. read_elements n (skip r2) = Some (js', r))" by (auto simp: 1 2 split: if_splits)
    then have "length r \<le> length r2" using E [of "skip r2"] length_dropWhile_le [of json_space r2] by (meson eq_imp_le less_imp_le le_trans)
    with V [OF 1] skip_shorter [OF 2] show ?thesis by simp
  qed
  moreover have "length r < length s" if rm: "read_members (Suc n) d s = Some (ms, r)" for s d ms r
  proof -
    obtain c s' where s: "s = c # s'" using rm by (cases s) auto
    have c: "c = CHR 0x22" using rm by (simp add: s split: if_splits)
    obtain k r1 where 1: "read_text s' = Some (k, r1)" using rm by (cases "read_text s'") (auto simp: s c)
    obtain c1 r2 where 2: "skip r1 = c1 # r2" using rm 1 by (cases "skip r1") (auto simp: s c)
    have c1: "c1 = CHR '':''" using rm by (simp add: s c 1 2 split: if_splits)
    obtain j r3 where 3: "read_value n (skip r2) = Some (j, r3)" using rm by (cases "read_value n (skip r2)") (auto simp: s c 1 2 c1)
    obtain c2 r4 where 4: "skip r3 = c2 # r4" using rm by (cases "skip r3") (auto simp: s c 1 2 c1 3)
    from rm have "r = r4 \<or> (\<exists>d' ms'. read_members n d' (skip r4) = Some (ms', r))" by (auto simp: s c 1 2 c1 3 4 split: if_splits)
    then have "length r \<le> length r4" using M [of _ "skip r4"] length_dropWhile_le [of json_space r4] by (meson eq_imp_le less_imp_le le_trans)
    with V [OF 3] skip_shorter [OF 2] skip_shorter [OF 4] read_text_shorter [OF 1] length_dropWhile_le [of json_space r2] s show ?thesis by simp
  qed
  ultimately show ?case by (intro conjI allI impI)
qed (simp add: read_value.simps(1))

lemmas value_shorter = read_shorter [THEN conjunct1, rule_format]

text \<open>A fuel of more than twice the length of the text is enough: more of it gives the same answer.\<close>

lemma read_fuel:
  "(\<forall>s m. 2 * length s < n \<longrightarrow> n \<le> m \<longrightarrow> read_value m s = read_value n s)
   \<and> (\<forall>s m. 2 * length s + 1 < n \<longrightarrow> n \<le> m \<longrightarrow> read_elements m s = read_elements n s)
   \<and> (\<forall>s d m. 2 * length s < n \<longrightarrow> n \<le> m \<longrightarrow> read_members m d s = read_members n d s)"
proof (induction n)
  case (Suc n)
  note V = Suc.IH [THEN conjunct1, rule_format] and E = Suc.IH [THEN conjunct2, THEN conjunct1, rule_format]
    and M = Suc.IH [THEN conjunct2, THEN conjunct2, rule_format]
  have "read_value m s = read_value (Suc n) s" if "2 * length s < Suc n" "Suc n \<le> m" for s m
  proof -
    obtain k where m: "m = Suc k" "n \<le> k" using \<open>Suc n \<le> m\<close> by (cases m) auto
    show ?thesis
    proof (cases s)
      case (Cons c s')
      have "read_elements k (d # r) = read_elements n (d # r)" "read_members k [] (d # r) = read_members n [] (d # r)" if "skip s' = d # r" for d r
        using E [of "d # r" k] M [of "d # r" k] skip_shorter [OF that] \<open>2 * length s < Suc n\<close> m(2) by (simp_all add: Cons)
      then show ?thesis by (cases "skip s'") (simp_all add: m(1) Cons read_value.simps(2) del: dropWhile_eq_Nil_conv)
    qed (simp add: m(1) read_value.simps(2))
  qed
  moreover have "read_elements m s = read_elements (Suc n) s" if "2 * length s + 1 < Suc n" "Suc n \<le> m" for s m
  proof -
    obtain k where m: "m = Suc k" "n \<le> k" using \<open>Suc n \<le> m\<close> by (cases m) auto
    have v: "read_value k s = read_value n s" by (rule V) (use that m(2) in simp_all)
    have "read_elements k (skip r') = read_elements n (skip r')" if "read_value n s = Some (j, r)" "skip r = d # r'" for j r d r'
      using E [of "skip r'" k] value_shorter [OF that(1)] skip_shorter [OF that(2)] length_dropWhile_le [of json_space r'] m(2) \<open>2 * length s + 1 < Suc n\<close>
      by simp
    then show ?thesis unfolding m(1) read_elements.simps(2) v
      by (auto simp del: dropWhile_eq_Nil_conv split: option.split list.split)
  qed
  moreover have "read_members m d s = read_members (Suc n) d s" if "2 * length s < Suc n" "Suc n \<le> m" for s d m
  proof -
    obtain k where m: "m = Suc k" "n \<le> k" using \<open>Suc n \<le> m\<close> by (cases m) auto
    have v: "read_value k (skip r') = read_value n (skip r')" if "s = c # s'" "read_text s' = Some (t, r)" "skip r = e # r'" for c s' t r e r'
      using V [of "skip r'" k] read_text_shorter [OF that(2)] skip_shorter [OF that(3)] length_dropWhile_le [of json_space r'] m(2) that(1) \<open>2 * length s < Suc n\<close>
      by simp
    have "read_members k d' (skip r3) = read_members n d' (skip r3)"
      if "s = c # s'" "read_text s' = Some (t, r)" "skip r = e # r'" "read_value n (skip r') = Some (j, r2)" "skip r2 = e' # r3" for c s' t r e r' j r2 e' r3 d'
      using M [of "skip r3" k d'] read_text_shorter [OF that(2)] skip_shorter [OF that(3)] length_dropWhile_le [of json_space r']
        value_shorter [OF that(4)] skip_shorter [OF that(5)] length_dropWhile_le [of json_space r3] m(2) that(1) \<open>2 * length s < Suc n\<close>
      by simp
    with v show ?thesis unfolding m(1) read_members.simps(2)
      by (auto simp del: dropWhile_eq_Nil_conv split: option.split list.split)
  qed
  ultimately show ?case by (intro conjI allI impI)
qed simp

lemma loads_fuel:
  assumes "2 * length s < n"
  shows "loads s = (case read_value n (skip s) of Some (j, r) \<Rightarrow> if skip r = [] then Some j else None | None \<Rightarrow> None)"
proof -
  have "length (skip s) \<le> length s" by (rule length_dropWhile_le)
  then have "read_value n (skip s) = read_value (Suc (2 * length s)) (skip s)"
    using assms read_fuel [of "Suc (2 * length s)", THEN conjunct1, rule_format, of "skip s" n] by simp
  then show ?thesis by (simp add: loads_def)
qed

end
