(* ===== verification/PhaseContracts.thy ===== *)
theory PhaseContracts
  imports Json
begin

text \<open>
  The outputs of the workflow phases of \<open>agents/workflow.py\<close>: the classes as lists of fields in the order of the source, with their types and
  defaults, and the validation and the dump that pydantic makes of them (\<open>extra="forbid"\<close>: an unknown key is an error; a text is never converted). The conversions
  of numbers and flags from other values are parameters. Of the text of a validation error the first offending field is kept.
\<close>

declare map_of_eq_Some_iff [simp del] Some_eq_map_of_iff [simp del]

subsection \<open>Fields\<close>

datatype kind = Text | Text_list | Literal "string list" | Number | Integer | Flag | Share | Dict | Or_none kind
    | Model "field list" | Models "field list"
  and field = Field string kind "json option"

record coercions =
  co_number :: "json \<Rightarrow> rat option"
  co_integer :: "json \<Rightarrow> int option"
  co_flag :: "json \<Rightarrow> bool option"

text \<open>What is certain of them: a value of the type stays what it is.\<close>

definition plain_coercions :: coercions where
  "plain_coercions = \<lparr>co_number = (\<lambda>j. case j of JNum x \<Rightarrow> Some x | _ \<Rightarrow> None),
     co_integer = (\<lambda>j. case j of JNum x \<Rightarrow> if x = of_int \<lfloor>x\<rfloor> then Some \<lfloor>x\<rfloor> else None | _ \<Rightarrow> None),
     co_flag = (\<lambda>j. case j of JBool b \<Rightarrow> Some b | _ \<Rightarrow> None)\<rparr>"

definition invalid :: "string \<Rightarrow> 'a raising" where
  "invalid name = Inl (Exn ''ValidationError'' name)"

definition is_text :: "json \<Rightarrow> bool" where
  "is_text j = (case j of JStr s \<Rightarrow> True | _ \<Rightarrow> False)"

definition of_option :: "string \<Rightarrow> ('a \<Rightarrow> json) \<Rightarrow> 'a option \<Rightarrow> json raising" where
  "of_option name f x = (case x of Some v \<Rightarrow> Inr (f v) | None \<Rightarrow> invalid name)"

text \<open>The validator of the confidences runs before the conversion: none is one half, a number (or a flag) has to be between 0 and 1, and comparing another value raises.\<close>

definition check_share :: "string \<Rightarrow> json \<Rightarrow> json raising" where
  "check_share name j = (case j of
     JNull \<Rightarrow> Inr (JNum (1 / 2))
   | JNum x \<Rightarrow> if 0 \<le> x \<and> x \<le> 1 then Inr (JNum x) else invalid name
   | JBool b \<Rightarrow> Inr (JNum (if b then 1 else 0))
   | _ \<Rightarrow> Inl (Exn ''TypeError'' ''not supported between instances''))"

definition names :: "field list \<Rightarrow> string list" where
  "names fs = map (\<lambda>f. case f of Field n _ _ \<Rightarrow> n) fs"

definition known :: "field list \<Rightarrow> (string \<times> json) list \<Rightarrow> bool" where
  "known fs d \<longleftrightarrow> list_all (\<lambda>k. k \<in> set (names fs)) (keys d)"

text \<open>A value of a field as the dump shows it.\<close>

fun check_kind :: "coercions \<Rightarrow> string \<Rightarrow> kind \<Rightarrow> json \<Rightarrow> json raising"
  and check_fields :: "coercions \<Rightarrow> field list \<Rightarrow> (string \<times> json) list \<Rightarrow> (string \<times> json) list raising"
  and check_models :: "coercions \<Rightarrow> string \<Rightarrow> field list \<Rightarrow> json list \<Rightarrow> json list raising" where
  "check_kind co name Text j = (if is_text j then Inr j else invalid name)"
| "check_kind co name Text_list j = (case j of JArr xs \<Rightarrow> if list_all is_text xs then Inr j else invalid name | _ \<Rightarrow> invalid name)"
| "check_kind co name (Literal ws) j = (case j of JStr s \<Rightarrow> if s \<in> set ws then Inr j else invalid name | _ \<Rightarrow> invalid name)"
| "check_kind co name Number j = of_option name JNum (co_number co j)"
| "check_kind co name Integer j = of_option name (\<lambda>i. JNum (of_int i)) (co_integer co j)"
| "check_kind co name Flag j = of_option name JBool (co_flag co j)"
| "check_kind co name Share j = check_share name j"
| "check_kind co name Dict j = (case j of JObj d \<Rightarrow> Inr j | _ \<Rightarrow> invalid name)"
| "check_kind co name (Or_none k) j = (if j = JNull then Inr JNull else check_kind co name k j)"
| "check_kind co name (Model fs) j = (case j of
     JObj d \<Rightarrow> if known fs d then map_sum id JObj (check_fields co fs d) else invalid name
   | _ \<Rightarrow> invalid name)"
| "check_kind co name (Models fs) j = (case j of JArr xs \<Rightarrow> map_sum id JArr (check_models co name fs xs) | _ \<Rightarrow> invalid name)"
| "check_fields co [] d = Inr []"
| "check_fields co (Field n k dflt # fs) d = (case (case map_of d n of Some j \<Rightarrow> check_kind co n k j | None \<Rightarrow> of_option n id dflt) of
     Inl e \<Rightarrow> Inl e
   | Inr j \<Rightarrow> map_sum id (Cons (n, j)) (check_fields co fs d))"
| "check_models co name fs [] = Inr []"
| "check_models co name fs (j # js) = (case j of
     JObj d \<Rightarrow> if known fs d
       then (case check_fields co fs d of Inl e \<Rightarrow> Inl e | Inr m \<Rightarrow> map_sum id (Cons (JObj m)) (check_models co name fs js))
       else invalid name
   | _ \<Rightarrow> invalid name)"

text \<open>\<open>Model(**parsed)\<close> of a value that was read from JSON: one that is not an object raises before the validation.\<close>

definition load_model :: "coercions \<Rightarrow> field list \<Rightarrow> json \<Rightarrow> (string \<times> json) list raising" where
  "load_model co fs j = (case j of
     JObj d \<Rightarrow> if known fs d then check_fields co fs d else invalid ''extra''
   | _ \<Rightarrow> Inl (Exn ''TypeError'' ''argument after ** must be a mapping''))"

subsection \<open>The classes\<close>

definition IntakeOutput :: "field list" where
  "IntakeOutput = [Field ''intent'' Text None, Field ''constraints'' Text_list (Some (JArr [])), Field ''initial_evidence'' Text_list (Some (JArr []))]"

definition TodoItem :: "field list" where
  "TodoItem = [Field ''id'' Text None, Field ''operation'' (Literal [''create'', ''modify'', ''prioritize'', ''skip'']) None,
     Field ''description'' Text None, Field ''priority'' (Literal [''high'', ''medium'', ''low'']) (Some (JStr ''medium'')),
     Field ''status'' (Literal [''pending'', ''in_progress'', ''completed'', ''skipped'', ''blocked'']) (Some (JStr ''pending'')),
     Field ''dependencies'' Text_list (Some (JArr [])), Field ''notes'' Text (Some (JStr []))]"

definition PlanOutput :: "field list" where
  "PlanOutput = [Field ''todos'' (Models TodoItem) (Some (JArr [])), Field ''reasoning'' Text (Some (JStr [])),
     Field ''estimated_iterations'' Integer (Some (JNum 1)), Field ''strategy_selected'' Text (Some (JStr []))]"

definition ReasonOutput :: "field list" where
  "ReasonOutput = [Field ''todo_id'' Text None, Field ''atomic_step'' Text None, Field ''why_now'' Text None,
     Field ''next_phase'' (Literal [''act'', ''done'']) (Some (JStr ''act'')), Field ''confidence'' (Or_none Number) (Some JNull),
     Field ''evidence_used'' (Or_none Text_list) (Some JNull), Field ''risks'' (Or_none Text_list) (Some JNull)]"

definition ToolExecution :: "field list" where
  "ToolExecution = [Field ''tool_name'' Text None, Field ''selection_reason'' Text None, Field ''arguments'' Dict (Some (JObj [])),
     Field ''status'' (Literal [''success'', ''failure'', ''timeout'']) None, Field ''result_summary'' Text (Some (JStr [])),
     Field ''duration_seconds'' Number (Some (JNum 0)), Field ''artifacts'' Text_list (Some (JArr []))]"

definition ActOutput :: "field list" where
  "ActOutput = [Field ''action'' (Or_none (Model ToolExecution)) (Some JNull), Field ''acted_todo_id'' Text (Some (JStr [])),
     Field ''tool_result_summary'' Text (Some (JStr [])), Field ''artifacts'' Text_list (Some (JArr [])), Field ''failure'' Text (Some (JStr []))]"

definition SynthesizedFinding :: "field list" where
  "SynthesizedFinding = [Field ''id'' Text None,
     Field ''category'' (Literal [''security'', ''performance'', ''correctness'', ''style'', ''architecture'', ''documentation'', ''other'']) None,
     Field ''severity'' (Literal [''critical'', ''high'', ''medium'', ''low'', ''info'']) None, Field ''title'' Text None,
     Field ''description'' Text (Some (JStr [])), Field ''evidence'' Text (Some (JStr [])), Field ''recommendation'' Text (Some (JStr [])),
     Field ''confidence'' Share (Some (JNum (1 / 2))), Field ''related_todos'' Text_list (Some (JArr []))]"

definition SynthesizeOutput :: "field list" where
  "SynthesizeOutput = [Field ''findings'' (Models SynthesizedFinding) (Some (JArr [])), Field ''updated_todos'' (Models TodoItem) (Some (JArr [])),
     Field ''summary'' Text (Some (JStr [])), Field ''uncertainty_reduction'' Number (Some (JNum 0)), Field ''confidence_level'' Share (Some (JNum (1 / 2)))]"

definition BudgetConsumed :: "field list" where
  "BudgetConsumed = [Field ''iterations'' Integer (Some (JNum 0)), Field ''subagent_calls'' Integer (Some (JNum 0)),
     Field ''wall_time_seconds'' Number (Some (JNum 0)), Field ''tool_calls'' Integer (Some (JNum 0)), Field ''tokens_consumed'' Integer (Some (JNum 0))]"

definition CheckOutput :: "field list" where
  "CheckOutput = [Field ''current_todo_id'' Text (Some (JStr [])), Field ''todo_complete'' Flag (Some (JBool False)),
     Field ''next_phase'' (Literal [''act'', ''plan'', ''reason'', ''done'']) (Some (JStr ''act'')), Field ''confidence'' Share (Some (JNum (1 / 2))),
     Field ''budget_consumed'' (Model BudgetConsumed) (Some (JObj [(''iterations'', JNum 0), (''subagent_calls'', JNum 0), (''wall_time_seconds'', JNum 0),
       (''tool_calls'', JNum 0), (''tokens_consumed'', JNum 0)])),
     Field ''blocking_question'' Text (Some (JStr [])), Field ''novelty_detected'' Flag (Some (JBool True)), Field ''stagnation_detected'' Flag (Some (JBool False)),
     Field ''reasoning'' Text (Some (JStr [])), Field ''completed_todo_ids'' Text_list (Some (JArr []))]"

subsection \<open>What was validated stays valid\<close>

definition stable :: "coercions \<Rightarrow> bool" where
  "stable co \<longleftrightarrow> (\<forall>x. co_number co (JNum x) = Some x) \<and> (\<forall>i. co_integer co (JNum (of_int i)) = Some i) \<and> (\<forall>b. co_flag co (JBool b) = Some b)"

lemma stable_plain: "stable plain_coercions"
  by (simp add: stable_def plain_coercions_def)

fun wf_kind :: "coercions \<Rightarrow> kind \<Rightarrow> bool" and wf_fields :: "coercions \<Rightarrow> field list \<Rightarrow> bool" where
  "wf_kind co (Or_none k) = wf_kind co k"
| "wf_kind co (Model fs) = (distinct (names fs) \<and> wf_fields co fs)"
| "wf_kind co (Models fs) = (distinct (names fs) \<and> wf_fields co fs)"
| "wf_kind co k = True"
| "wf_fields co [] = True"
| "wf_fields co (Field n k dflt # fs) = (wf_kind co k \<and> (case dflt of Some j \<Rightarrow> check_kind co n k j = Inr j | None \<Rightarrow> True) \<and> wf_fields co fs)"

lemma names_simps [simp]: "names [] = []" "names (Field n k j # fs) = n # names fs"
  by (simp_all add: names_def)

declare map_sum_Inr [simp]

lemma of_option_Inr [simp]: "of_option n f x = Inr y \<longleftrightarrow> (\<exists>v. x = Some v \<and> y = f v)"
  by (cases x) (auto simp: of_option_def invalid_def)

lemma check_share_again: "check_share n j = Inr v \<Longrightarrow> check_share n v = Inr v"
  by (auto simp: check_share_def invalid_def split: json.splits if_splits)

lemma check_fields_keys: "check_fields co fs d = Inr m \<Longrightarrow> keys m = names fs"
proof (induction fs arbitrary: m)
  case (Cons f fs)
  obtain n k dflt where "f = Field n k dflt" by (cases f)
  with Cons show ?case by (auto split: sum.splits)
qed simp

lemma known_self: "check_fields co fs d = Inr m \<Longrightarrow> known fs m"
  unfolding known_def by (simp add: check_fields_keys list_all_iff del: set_map)

lemma check_fields_Cons:
  "check_fields co (Field n k dflt # fs) d = Inr m \<longleftrightarrow> (\<exists>j ms. (case map_of d n of Some i \<Rightarrow> check_kind co n k i | None \<Rightarrow> of_option n id dflt) = Inr j
     \<and> check_fields co fs d = Inr ms \<and> m = (n, j) # ms)"
  by (auto split: sum.splits)

lemma check_models_Cons:
  "check_models co n fs (j # js) = Inr vs \<longleftrightarrow> (\<exists>d m ms. j = JObj d \<and> known fs d \<and> check_fields co fs d = Inr m
     \<and> check_models co n fs js = Inr ms \<and> vs = JObj m # ms)"
  by (auto simp: invalid_def split: sum.splits json.splits)

lemma check_kind_Model:
  "check_kind co n (Model fs) j = Inr v \<longleftrightarrow> (\<exists>d m. j = JObj d \<and> known fs d \<and> check_fields co fs d = Inr m \<and> v = JObj m)"
  by (auto simp: invalid_def split: json.splits)

lemma check_kind_Models:
  "check_kind co n (Models fs) j = Inr v \<longleftrightarrow> (\<exists>js vs. j = JArr js \<and> check_models co n fs js = Inr vs \<and> v = JArr vs)"
  by (auto simp: invalid_def split: json.splits)

lemmas check_compound = check_fields_Cons check_models_Cons check_kind_Model check_kind_Models

lemma check_again:
  assumes "stable co"
  shows "wf_kind co k \<Longrightarrow> check_kind co n k j = Inr v \<Longrightarrow> check_kind co n k v = Inr v"
    and "wf_fields co fs \<Longrightarrow> distinct (names fs) \<Longrightarrow> check_fields co fs d = Inr m \<Longrightarrow> (\<forall>n \<in> set (names fs). map_of d' n = map_of m n)
      \<Longrightarrow> check_fields co fs d' = Inr m"
    and "wf_fields co fs \<Longrightarrow> distinct (names fs) \<Longrightarrow> check_models co n fs js = Inr vs \<Longrightarrow> check_models co n fs vs = Inr vs"
  using assms
proof (induction co n k j and co fs d and co n fs js arbitrary: v and m d' and vs rule: check_kind_check_fields_check_models.induct)
  case (1 co name j) then show ?case by (simp split: if_splits add: invalid_def)
next
  case (2 co name j) then show ?case by (auto split: if_splits json.splits simp: invalid_def)
next
  case (3 co name ws j) then show ?case by (auto split: if_splits json.splits simp: invalid_def)
next
  case (4 co name j) then show ?case by (auto simp: stable_def)
next
  case (5 co name j) then show ?case by (auto simp: stable_def)
next
  case (6 co name j) then show ?case by (auto simp: stable_def)
next
  case (7 co name j) then show ?case by (simp add: check_share_again)
next
  case (8 co name j) then show ?case by (auto split: json.splits simp: invalid_def)
next
  case (9 co name k j) then show ?case by (auto split: if_splits)
next
  case (10 co name fs j)
  from 10(3) obtain d m where m: "j = JObj d" "known fs d" "check_fields co fs d = Inr m" "v = JObj m"
    unfolding check_compound by blast
  with 10(1) [OF m(1,2), of m m] 10(2,4) have "check_fields co fs m = Inr m" by simp
  with m show ?case unfolding check_compound by (simp add: known_self [OF m(3)])
next
  case (11 co name fs j)
  from 11(3) obtain js vs where "j = JArr js" "check_models co name fs js = Inr vs" "v = JArr vs" unfolding check_compound by blast
  with 11(1) 11(2,4) show ?case unfolding check_compound by simp
next
  case (12 co d) then show ?case by simp
next
  case (13 co n k dflt fs d)
  from 13(5) obtain j ms where j: "(case map_of d n of Some i \<Rightarrow> check_kind co n k i | None \<Rightarrow> of_option n id dflt) = Inr j"
    and ms: "check_fields co fs d = Inr ms" "m = (n, j) # ms" unfolding check_compound by blast
  have "map_of d' n = Some j" using 13(6) ms by simp
  moreover have "check_kind co n k j = Inr j"
  proof (cases "map_of d n")
    case None
    with j 13(3) show ?thesis by (simp split: option.splits)
  next
    case (Some i)
    with j 13(1) [OF Some] 13(3,7) show ?thesis by simp
  qed
  moreover have "check_fields co fs d' = Inr ms"
    by (rule 13(2) [OF j]) (use 13 ms in auto)
  ultimately show ?case using ms by simp
next
  case (14 co name fs) then show ?case by simp
next
  case (15 co name fs j js)
  from 15(5) obtain d m ms where m: "j = JObj d" "known fs d" "check_fields co fs d = Inr m" "check_models co name fs js = Inr ms" "vs = JObj m # ms"
    unfolding check_compound by blast
  from 15(1) [OF m(1,2), of m m] 15(3,4,6) m have "check_fields co fs m = Inr m" by simp
  moreover from 15(2) [OF m(1,2,3), of ms] 15(3,4,6) m have "check_models co name fs ms = Inr ms" by simp
  ultimately show ?case using known_self [OF m(3)] unfolding m(5) check_compound by blast
qed

definition phase_outputs :: "field list list" where
  "phase_outputs = [IntakeOutput, PlanOutput, ReasonOutput, ActOutput, SynthesizeOutput, CheckOutput]"

lemma stable_simps:
  assumes "stable co"
  shows "co_number co (JNum x) = Some x" "co_integer co (JNum 0) = Some 0" "co_integer co (JNum 1) = Some 1" "co_flag co (JBool b) = Some b"
  using assms of_int_0 of_int_1 unfolding stable_def by metis+

lemma phase_outputs_wf: "stable co \<Longrightarrow> fs \<in> set phase_outputs \<Longrightarrow> wf_fields co fs \<and> distinct (names fs)"
  by (auto simp: phase_outputs_def stable_simps known_def IntakeOutput_def PlanOutput_def ReasonOutput_def ActOutput_def SynthesizeOutput_def CheckOutput_def TodoItem_def
    ToolExecution_def SynthesizedFinding_def BudgetConsumed_def check_share_def is_text_def of_option_def simp del: map_sum_Inr of_option_Inr)

text \<open>C31. A validated output of a phase can be handed on: its dump has exactly the fields of the class, in their order, and validating the dump again
  gives the same object, whatever was converted or filled in the first time.\<close>

theorem outputs_revalidate:
  assumes "stable co" "fs \<in> set phase_outputs" "load_model co fs j = Inr m"
  shows "keys m = names fs \<and> load_model co fs (JObj m) = Inr m"
proof -
  from assms(3) obtain d where d: "check_fields co fs d = Inr m" by (auto simp: load_model_def invalid_def split: json.splits if_splits)
  with check_again(2) [OF assms(1), of fs d m m] phase_outputs_wf [OF assms(1,2)] have "check_fields co fs m = Inr m" by simp
  then show ?thesis using known_self [OF d] check_fields_keys [OF d] by (simp add: load_model_def)
qed

theorem outputs_revalidate_witness:
  "\<exists>m. load_model plain_coercions ReasonOutput (JObj [(''why_now'', JStr ''c''), (''todo_id'', JStr ''a''), (''atomic_step'', JStr ''b'')]) = Inr m
     \<and> keys m = [''todo_id'', ''atomic_step'', ''why_now'', ''next_phase'', ''confidence'', ''evidence_used'', ''risks'']
     \<and> load_model plain_coercions ReasonOutput (JObj m) = Inr m"
proof -
  let ?j = "JObj [(''why_now'', JStr ''c''), (''todo_id'', JStr ''a''), (''atomic_step'', JStr ''b'')]"
  obtain m where m: "load_model plain_coercions ReasonOutput ?j = Inr m"
    by (simp add: load_model_def ReasonOutput_def known_def is_text_def of_option_def)
  have "ReasonOutput \<in> set phase_outputs" by (simp add: phase_outputs_def)
  from outputs_revalidate [OF stable_plain this m] m show ?thesis by (auto simp: ReasonOutput_def simp del: set_map)
qed

end
