(* ===== verification/FsmPhases.thy ===== *)
theory FsmPhases
  imports PhaseContracts
begin

text \<open>
  The phases of the workflow with a language model, \<open>agents/fsm_orchestrator.py\<close>: the state of \<open>FSMOrchestrator\<close>, the extraction of JSON from an
  answer, and one function per phase with its event, its changes of the state and its output. The model, the bus and the clock act on the world. A prompt is the
  values that are put into its template; \<open>fe_repr\<close> is \<open>str\<close> of a value that is no text.
\<close>

declare map_of_eq_Some_iff [simp del] Some_eq_map_of_iff [simp del]

type_synonym obj = "(string \<times> json) list"

abbreviation line_feed :: string where "line_feed \<equiv> [CHR 0x0A]"

subsection \<open>The state and the world\<close>

record phases =
  fo_session :: string
  fo_state :: string
  fo_todos :: "obj list"
  fo_iteration :: int
  fo_evidence :: "string list"
  fo_last_tool :: string
  fo_intent :: string
  fo_constraints :: "string list"
  fo_reason :: "obj option"

definition fo_init :: "string \<Rightarrow> phases" where
  "fo_init session = \<lparr>fo_session = session, fo_state = ''intake'', fo_todos = [], fo_iteration = 0, fo_evidence = [], fo_last_tool = [],
     fo_intent = [], fo_constraints = [], fo_reason = None\<rparr>"

datatype prompt = Ask_intake string | Ask_reason string | Ask_act obj | Ask_synthesize string string | Ask_plan string | Ask_check obj

record 'w fsm_env =
  fe_ask :: "prompt \<Rightarrow> obj \<Rightarrow> 'w \<Rightarrow> string option raising \<times> 'w"
  fe_publish :: "string \<Rightarrow> obj \<Rightarrow> 'w \<Rightarrow> 'w"
  fe_clock :: "'w \<Rightarrow> rat"
  fe_repr :: "json \<Rightarrow> string"
  fe_coercions :: coercions
  fe_policy_engine :: bool
  fe_policy_mode :: string

subsection \<open>Helpers\<close>

definition str_of :: "'w fsm_env \<Rightarrow> json \<Rightarrow> string" where
  "str_of env j = (case j of JStr s \<Rightarrow> s | _ \<Rightarrow> fe_repr env j)"

text \<open>\<open>d.get(k, default)\<close>; an attribute of a validated output is its field.\<close>

definition jget_or :: "obj \<Rightarrow> string \<Rightarrow> json \<Rightarrow> json" where
  "jget_or d k dflt = (case map_of d k of Some j \<Rightarrow> j | None \<Rightarrow> dflt)"

definition text_of :: "obj \<Rightarrow> string \<Rightarrow> string" where
  "text_of d k = (case jget d k of JStr s \<Rightarrow> s | _ \<Rightarrow> [])"

definition or_text :: "string \<Rightarrow> string \<Rightarrow> string" where
  "or_text a b = (if a = [] then b else a)"

definition to_str_list :: "'w fsm_env \<Rightarrow> json \<Rightarrow> string list" where
  "to_str_list env j = (case j of JArr xs \<Rightarrow> map (str_of env) (filter (\<lambda>x. x \<noteq> JNull) xs) | _ \<Rightarrow> [])"

definition get_current_todo :: "'w fsm_env \<Rightarrow> string \<Rightarrow> phases \<Rightarrow> obj" where
  "get_current_todo env tid s =
     (case (if tid = [] then None else find (\<lambda>t. str_of env (jget t ''id'') = tid) (fo_todos s)) of
        Some t \<Rightarrow> t
      | None \<Rightarrow> (case find (\<lambda>t. jget t ''status'' \<in> {JStr ''in_progress'', JStr ''pending''}) (fo_todos s) of
          Some t \<Rightarrow> t
        | None \<Rightarrow> (case fo_todos s of t # _ \<Rightarrow> t | [] \<Rightarrow> [])))"

definition compact_text :: "string \<Rightarrow> string" where
  "compact_text t = str_join '' '' (str_words t)"

definition todo_line :: "'w fsm_env \<Rightarrow> obj \<Rightarrow> string" where
  "todo_line env t = ''- '' @ str_of env (jget_or t ''id'' (JStr [])) @ '' | '' @ compact_text (str_of env (jget_or t ''description'' (JStr [])))
     @ '' | '' @ str_of env (jget_or t ''status'' (JStr ''pending'')) @ '' | '' @ str_of env (jget_or t ''priority'' (JStr ''medium''))"

definition build_context_summary :: "'w fsm_env \<Rightarrow> string \<Rightarrow> phases \<Rightarrow> string" where
  "build_context_summary env extra s = str_join line_feed
     ([''Intent: '' @ fo_intent s, ''Constraints: '' @ dumps_texts (fo_constraints s), ''Todos:'']
      @ (if fo_todos s = [] then [''- none''] else map (todo_line env) (take 10 (fo_todos s)))
      @ [''Evidence:'']
      @ (if fo_evidence s = [] then [''- none''] else map (\<lambda>e. ''- '' @ compact_text e) (take 10 (fo_evidence s)))
      @ [''Iteration: '' @ str_int (fo_iteration s), ''Last tool result: '' @ or_text (compact_text (fo_last_tool s)) ''none'']
      @ (if extra = [] then [] else [''Context: '' @ extra]))"

text \<open>\<open>_extract_json\<close>: the text of a fenced block (an empty one is passed over to the end of the answer), or from the first to the last brace.\<close>

definition fence :: string where "fence = ''```''"

definition fenced :: "string \<Rightarrow> string" where
  "fenced rest = (case split_first fence rest of Some (c # body, _) \<Rightarrow> str_strip (c # body) | _ \<Rightarrow> str_strip rest)"

definition braced :: "string \<Rightarrow> string option" where
  "braced t = (let r = dropWhile (\<lambda>c. c \<noteq> CHR ''{'') t; b = rev (dropWhile (\<lambda>c. c \<noteq> CHR ''}'') (rev r)) in if b = [] then None else Some b)"

definition json_text :: "string \<Rightarrow> string option" where
  "json_text t = (case split_first (fence @ ''json'') t of
     Some (_, rest) \<Rightarrow> Some (fenced rest)
   | None \<Rightarrow> (case split_first fence t of Some (_, rest) \<Rightarrow> Some (fenced rest) | None \<Rightarrow> braced t))"

definition extract_json :: "string \<Rightarrow> json option" where
  "extract_json t = (if t = [] then None else Option.bind (json_text t) loads)"

text \<open>An answer whose value is empty counts as one that could not be read.\<close>

definition parsed_answer :: "string \<Rightarrow> json option" where
  "parsed_answer t = (case extract_json t of Some j \<Rightarrow> if jtrue j then Some j else None | None \<Rightarrow> None)"

definition no_get :: "'a raising" where
  "no_get = Inl (Exn ''AttributeError'' ''object has no attribute get'')"

definition as_obj :: "json \<Rightarrow> obj raising" where
  "as_obj j = (case j of JObj d \<Rightarrow> Inr d | _ \<Rightarrow> no_get)"

text \<open>The first that counts as true of the values of some keys.\<close>

definition first_true :: "obj \<Rightarrow> string list \<Rightarrow> json option" where
  "first_true d ks = find jtrue (map (jget d) ks)"

subsection \<open>Events\<close>

definition reason_text :: "string \<Rightarrow> phases \<Rightarrow> string" where
  "reason_text k s = (case fo_reason s of Some r \<Rightarrow> text_of r k | None \<Rightarrow> [])"

definition set_default :: "string \<Rightarrow> json \<Rightarrow> obj \<Rightarrow> obj" where
  "set_default k j d = (if map_of d k = None then AList.update k j d else d)"

definition fill :: "string \<Rightarrow> json \<Rightarrow> obj \<Rightarrow> obj" where
  "fill k j d = (if jtrue (jget d k) then d else AList.update k j d)"

definition event_data :: "string \<Rightarrow> string \<Rightarrow> obj \<Rightarrow> phases \<Rightarrow> rat \<Rightarrow> obj" where
  "event_data state reasoning d s now =
     (let payload = set_default ''selection_reason'' (JStr []) (set_default ''tool_name'' (JStr [])
            (fill ''atomic_step'' (JStr (reason_text ''atomic_step'' s)) (fill ''todo_id'' (JStr (reason_text ''todo_id'' s))
              (set_default ''intent'' (JStr (fo_intent s)) d))));
          base = [(''session_id'', JStr (fo_session s)), (''state'', JStr state), (''reasoning'', JStr reasoning),
            (''iteration'', JNum (of_int (fo_iteration s))), (''timestamp'', JNum now)]
      in fold (\<lambda>(k, v). AList.update k v) payload base)"

definition emit_fsm_event :: "'w fsm_env \<Rightarrow> string \<Rightarrow> string \<Rightarrow> obj \<Rightarrow> phases \<Rightarrow> 'w \<Rightarrow> 'w" where
  "emit_fsm_event env state reasoning d s w =
     (let e = event_data state reasoning d s (fe_clock env w);
          w = fe_publish env ''fsm.thinking'' e w
      in if fe_policy_engine env then fe_publish env ''policy.reasoning'' (set_default ''policy_mode'' (JStr (fe_policy_mode env)) e) w else w)"

definition strs :: "string list \<Rightarrow> json" where "strs xs = JArr (map JStr xs)"

text \<open>The values that most events begin with.\<close>

definition base_data :: "phases \<Rightarrow> string \<Rightarrow> string \<Rightarrow> obj" where
  "base_data s tid step = [(''intent'', JStr (fo_intent s)), (''todo_id'', JStr tid), (''atomic_step'', JStr step)]"

definition ask_options :: "rat \<Rightarrow> obj" where
  "ask_options t = [(''temperature'', JNum t), (''disable_tools'', JBool True)]"

text \<open>The text of the answer; an answer without one is empty.\<close>

definition ask :: "'w fsm_env \<Rightarrow> prompt \<Rightarrow> obj \<Rightarrow> 'w \<Rightarrow> string raising \<times> 'w" where
  "ask env p opts w = (case fe_ask env p opts w of (r, w) \<Rightarrow> (map_sum id (\<lambda>t. case t of Some t \<Rightarrow> t | None \<Rightarrow> []) r, w))"

subsection \<open>Intake\<close>

definition intake_output :: "string \<Rightarrow> string list \<Rightarrow> string list \<Rightarrow> obj" where
  "intake_output intent cs ev = [(''intent'', JStr intent), (''constraints'', strs cs), (''initial_evidence'', strs ev)]"

definition intake_parsed :: "'w fsm_env \<Rightarrow> string \<Rightarrow> string \<Rightarrow> obj \<Rightarrow> phases \<Rightarrow> 'w \<Rightarrow> obj \<times> phases \<times> 'w" where
  "intake_parsed env msg text d s w =
     (let intent = str_of env (jget_or d ''intent'' (JStr (take 200 msg)));
          cs = to_str_list env (jget_or d ''constraints'' (JArr []));
          ev = to_str_list env (jget_or d ''initial_evidence'' (JArr []));
          s = s\<lparr>fo_intent := intent, fo_constraints := cs, fo_evidence := ev\<rparr>;
          reasoning = (case first_true d [''reasoning'', ''thinking''] of Some j \<Rightarrow> str_of env j | None \<Rightarrow> or_text intent ''Intake complete'');
          w = emit_fsm_event env ''intake'' reasoning (base_data s [] [] @ [(''selection_reason'', JStr []), (''constraints'', strs (take 3 cs)),
            (''initial_evidence'', strs (take 3 ev)), (''llm_response'', JStr (take 4000 text))]) s w
      in (intake_output intent cs ev, s\<lparr>fo_state := ''plan''\<rparr>, w))"

definition intake_raw :: "'w fsm_env \<Rightarrow> string \<Rightarrow> string \<Rightarrow> phases \<Rightarrow> 'w \<Rightarrow> obj \<times> phases \<times> 'w" where
  "intake_raw env msg text s w =
     (let intent = (if text = [] then take 200 msg else take 200 text);
          s = s\<lparr>fo_intent := intent, fo_constraints := []\<rparr>;
          w = emit_fsm_event env ''intake'' (if text = [] then intent else take 600 text)
            (base_data s [] [] @ [(''selection_reason'', JStr []), (''llm_response'', JStr (take 4000 text))]) s w
      in (intake_output intent [] [], s, w))"

definition intake_failed :: "'w fsm_env \<Rightarrow> string \<Rightarrow> exn \<Rightarrow> phases \<Rightarrow> 'w \<Rightarrow> obj \<times> phases \<times> 'w" where
  "intake_failed env msg e s w =
     (let s = s\<lparr>fo_intent := take 100 msg, fo_constraints := []\<rparr>;
          w = emit_fsm_event env ''intake'' ''Parsing failed, using raw message''
            ((''error'', JStr (exn_msg e)) # base_data s [] [] @ [(''selection_reason'', JStr []), (''llm_response'', JStr [])]) s w
      in (intake_output (take 100 msg) [] [], s, w))"

definition run_intake :: "'w fsm_env \<Rightarrow> string \<Rightarrow> phases \<Rightarrow> 'w \<Rightarrow> obj \<times> phases \<times> 'w" where
  "run_intake env msg s w = (case ask env (Ask_intake msg) (ask_options (3 / 10)) w of
     (Inl e, w) \<Rightarrow> intake_failed env msg e s w
   | (Inr text, w) \<Rightarrow> (case parsed_answer text of
       None \<Rightarrow> intake_raw env msg text s w
     | Some j \<Rightarrow> (case as_obj j of Inl e \<Rightarrow> intake_failed env msg e s w | Inr d \<Rightarrow> intake_parsed env msg text d s w)))"

subsection \<open>Reason\<close>

definition reason_output :: "string \<Rightarrow> string \<Rightarrow> string \<Rightarrow> obj" where
  "reason_output tid step why = [(''todo_id'', JStr tid), (''atomic_step'', JStr step), (''why_now'', JStr why), (''next_phase'', JStr ''act''),
     (''confidence'', JNull), (''evidence_used'', JNull), (''risks'', JNull)]"

definition current_id :: "'w fsm_env \<Rightarrow> phases \<Rightarrow> string" where
  "current_id env s = str_of env (jget_or (get_current_todo env [] s) ''id'' (JStr []))"

definition reason_parsed :: "'w fsm_env \<Rightarrow> string \<Rightarrow> obj \<Rightarrow> phases \<Rightarrow> 'w \<Rightarrow> obj \<times> phases \<times> 'w" where
  "reason_parsed env text r s w =
     (let s = s\<lparr>fo_reason := Some r\<rparr>;
          w = emit_fsm_event env ''reason'' (or_text (text_of r ''why_now'') (text_of r ''atomic_step''))
            (base_data s (text_of r ''todo_id'') (text_of r ''atomic_step'') @ [(''why_now'', jget r ''why_now''), (''next_phase'', jget r ''next_phase''),
             (''iteration'', JNum (of_int (fo_iteration s))), (''llm_response'', JStr (take 4000 text))]) s w
      in (r, s, w))"

definition reason_raw :: "'w fsm_env \<Rightarrow> string \<Rightarrow> phases \<Rightarrow> 'w \<Rightarrow> obj \<times> phases \<times> 'w" where
  "reason_raw env text s w =
     (let tid = current_id env s;
          step = (if tid = [] then ''Determine next step based on intent'' else ''Continue with current todo'');
          why = (if text = [] then ''Continuing based on intent'' else take 300 text);
          r = reason_output tid step why;
          s = s\<lparr>fo_reason := Some r\<rparr>;
          w = emit_fsm_event env ''reason'' why (base_data s tid step @ [(''next_phase'', JStr ''act''), (''raw_response'', JBool True),
             (''llm_response'', JStr (take 4000 text))]) s w
      in (r, s, w))"

definition reason_failed :: "'w fsm_env \<Rightarrow> exn \<Rightarrow> phases \<Rightarrow> 'w \<Rightarrow> obj \<times> phases \<times> 'w" where
  "reason_failed env e s w =
     (let tid = current_id env s;
          why = ''Error: '' @ take 100 (exn_msg e);
          r = reason_output tid ''Fallback reasoning'' why;
          s = s\<lparr>fo_reason := Some r\<rparr>;
          w = emit_fsm_event env ''reason'' why (base_data s tid ''Fallback reasoning'' @ [(''next_phase'', JStr ''act''), (''error'', JStr (take 100 (exn_msg e)))]) s w
      in (r, s, w))"

definition run_reason :: "'w fsm_env \<Rightarrow> string \<Rightarrow> obj \<Rightarrow> phases \<Rightarrow> 'w \<Rightarrow> obj \<times> phases \<times> 'w" where
  "run_reason env context opts s w =
     (case ask env (Ask_reason (build_context_summary env context s)) (fold (\<lambda>(k, v). AList.update k v) opts (ask_options (3 / 10))) w of
        (Inl e, w) \<Rightarrow> reason_failed env e s w
      | (Inr text, w) \<Rightarrow> (case parsed_answer text of
          None \<Rightarrow> reason_raw env text s w
        | Some j \<Rightarrow> (case load_model (fe_coercions env) ReasonOutput j of
            Inl e \<Rightarrow> reason_failed env e s w
          | Inr r \<Rightarrow> reason_parsed env text r s w)))"

subsection \<open>Act\<close>

definition act_output :: "string \<Rightarrow> string \<Rightarrow> string \<Rightarrow> obj" where
  "act_output tid summary failure = [(''action'', JNull), (''acted_todo_id'', JStr tid), (''tool_result_summary'', JStr summary), (''artifacts'', JArr []),
     (''failure'', JStr failure)]"

definition act_values :: "'w fsm_env \<Rightarrow> obj \<Rightarrow> string list \<Rightarrow> phases \<Rightarrow> obj" where
  "act_values env reason tools s =
     (let todo = get_current_todo env (text_of reason ''todo_id'') s;
          todo_notes = compact_text (str_of env (jget_or todo ''notes'' (JStr [])));
          parts = (if todo_notes = [] then [] else [''Todo notes: '' @ todo_notes]) @ [''Last tool result: '' @ or_text (compact_text (fo_last_tool s)) ''none'']
      in [(''intent'', JStr (fo_intent s)), (''atomic_step'', jget reason ''atomic_step''), (''why_now'', jget reason ''why_now''),
          (''constraints'', JStr (dumps_texts (fo_constraints s))), (''allowed_tools'', JStr (str_join '', '' (map str_lower tools))),
          (''current_todo_id'', JStr (str_of env (jget_or todo ''id'' (jget reason ''todo_id'')))),
          (''description'', JStr (str_of env (jget_or todo ''description'' (JStr [])))),
          (''priority'', JStr (str_of env (jget_or todo ''priority'' (JStr ''medium'')))), (''notes'', JStr (str_join '' '' parts))])"

definition action_text :: "obj \<Rightarrow> string \<Rightarrow> string" where
  "action_text r k = (case jget r ''action'' of JObj a \<Rightarrow> text_of a k | _ \<Rightarrow> [])"

definition act_selected :: "'w fsm_env \<Rightarrow> obj \<Rightarrow> string \<Rightarrow> obj \<Rightarrow> phases \<Rightarrow> 'w \<Rightarrow> obj \<times> 'w" where
  "act_selected env reason text r s w =
     (r, emit_fsm_event env ''act'' (or_text (action_text r ''selection_reason'') ''Selected tool'')
        (base_data s (text_of reason ''todo_id'') (text_of reason ''atomic_step'') @ [(''tool_name'', JStr (action_text r ''tool_name'')),
         (''selection_reason'', JStr (action_text r ''selection_reason'')), (''llm_response'', JStr (take 4000 text))]) s w)"

definition act_failed :: "'w fsm_env \<Rightarrow> obj \<Rightarrow> exn \<Rightarrow> phases \<Rightarrow> 'w \<Rightarrow> obj \<times> 'w" where
  "act_failed env reason e s w =
     (act_output (text_of reason ''todo_id'') ''Selection failed'' (take 200 (exn_msg e)),
      emit_fsm_event env ''act'' (''Error: '' @ take 100 (exn_msg e))
        (base_data s (text_of reason ''todo_id'') (text_of reason ''atomic_step'') @ [(''tool_name'', JStr []), (''selection_reason'', JStr []),
         (''error'', JStr (take 100 (exn_msg e)))]) s w)"

definition run_act_select :: "'w fsm_env \<Rightarrow> obj \<Rightarrow> string list \<Rightarrow> phases \<Rightarrow> 'w \<Rightarrow> obj \<times> 'w" where
  "run_act_select env reason tools s w = (case ask env (Ask_act (act_values env reason tools s)) (ask_options (2 / 10)) w of
     (Inl e, w) \<Rightarrow> act_failed env reason e s w
   | (Inr text, w) \<Rightarrow> (case parsed_answer text of
       None \<Rightarrow> act_selected env reason text (act_output (text_of reason ''todo_id'') ''Selection failed'' ''Parse failed'') s w
     | Some j \<Rightarrow> (case load_model (fe_coercions env) ActOutput j of
         Inl e \<Rightarrow> act_failed env reason e s w
       | Inr r \<Rightarrow> act_selected env reason text r s w)))"

text \<open>\<open>run_act\<close> only publishes the command.\<close>

definition command_text :: "'w fsm_env \<Rightarrow> string \<Rightarrow> obj \<Rightarrow> json" where
  "command_text env tool args =
     (if tool = ''bash'' then jget_or args ''command'' (JStr [])
      else if tool = ''read'' \<or> tool = ''write'' then JStr (tool @ ''('' @ str_of env (jget_or args ''filePath'' (JStr [])) @ '')'')
      else JStr (tool @ ''('' @ fe_repr env (JObj args) @ '')''))"

definition run_act :: "'w fsm_env \<Rightarrow> string \<Rightarrow> obj \<Rightarrow> string \<Rightarrow> phases \<Rightarrow> 'w \<Rightarrow> obj \<times> 'w" where
  "run_act env tool args tid s w =
     (act_output tid ''Pending'' [],
      emit_fsm_event env ''act'' (''Executing: '' @ tool) (base_data s tid (reason_text ''atomic_step'' s) @ [(''tool_name'', JStr tool), (''selection_reason'', JStr []),
        (''command'', command_text env tool args), (''copiable'', JBool True)]) s w)"

subsection \<open>Synthesize\<close>

definition tool_lines :: "'w fsm_env \<Rightarrow> obj \<Rightarrow> string" where
  "tool_lines env r = str_join line_feed [''Tool Result:'', ''- Tool: '' @ str_of env (jget_or r ''tool'' (JStr ''unknown'')), ''- Status: unknown'',
     ''- Summary: '' @ take 200 (str_of env (jget_or r ''output'' (JStr []))), ''- Artifacts: none'']"

definition act_summary :: "'w fsm_env \<Rightarrow> obj list \<Rightarrow> string" where
  "act_summary env rs = (if rs = [] then ''Tool Result:'' @ line_feed @ ''- Tool: none'' else str_join (line_feed @ line_feed) (map (tool_lines env) rs))"

text \<open>What \<open>len\<close> and \<open>enumerate\<close> take: the characters of a text and the keys of an object are items, too.\<close>

definition items_of :: "json \<Rightarrow> json list raising" where
  "items_of j = (case j of JArr xs \<Rightarrow> Inr xs | JStr s \<Rightarrow> Inr (map (\<lambda>c. JStr [c]) s) | JObj d \<Rightarrow> Inr (map JStr (keys d))
     | _ \<Rightarrow> Inl (Exn ''TypeError'' ''object has no len()''))"

definition finding_title :: "'w fsm_env \<Rightarrow> nat \<Rightarrow> json \<Rightarrow> string" where
  "finding_title env i j = (case j of JObj d \<Rightarrow> str_of env (jget_or d ''title'' (JStr (''finding-'' @ str_nat (Suc i)))) | _ \<Rightarrow> str_of env j)"

definition finding_evidence :: "'w fsm_env \<Rightarrow> json list \<Rightarrow> string list" where
  "finding_evidence env js = map (\<lambda>(i, j). ''finding:'' @ str_nat (Suc i) @ '':'' @ finding_title env i j) (enumerate 0 js)"

definition last_data :: "phases \<Rightarrow> obj" where
  "last_data s = base_data s (reason_text ''todo_id'' s) (reason_text ''atomic_step'' s) @ [(''selection_reason'', JStr [])]"

definition synthesize_failed :: "'w fsm_env \<Rightarrow> exn \<Rightarrow> phases \<Rightarrow> 'w \<Rightarrow> obj \<times> phases \<times> 'w" where
  "synthesize_failed env e s w = ([(''summary'', JStr (''Error: '' @ exn_msg e))], s,
     emit_fsm_event env ''synthesize'' (''Parsing failed: '' @ exn_msg e) (last_data s @ [(''error'', JStr (exn_msg e)), (''llm_response'', JStr [])]) s w)"

definition synthesize_raw :: "'w fsm_env \<Rightarrow> string \<Rightarrow> phases \<Rightarrow> 'w \<Rightarrow> obj \<times> phases \<times> 'w" where
  "synthesize_raw env text s w =
     (let summary = (if text = [] then ''Synthesis complete'' else take 300 text)
      in ([(''summary'', JStr summary)], s,
          emit_fsm_event env ''synthesize'' summary (last_data s @ [(''raw_summary'', JStr summary), (''llm_response'', JStr (take 4000 text))]) s w))"

definition synthesize_parsed :: "'w fsm_env \<Rightarrow> string \<Rightarrow> obj \<Rightarrow> json list \<Rightarrow> json list \<Rightarrow> phases \<Rightarrow> 'w \<Rightarrow> obj \<times> phases \<times> 'w" where
  "synthesize_parsed env text d findings updated s w =
     (let reasoning = (case first_true d [''summary'', ''thinking''] of Some j \<Rightarrow> str_of env j | None \<Rightarrow> ''Synthesis complete'');
          w = emit_fsm_event env ''synthesize'' reasoning (last_data s @ [(''findings_count'', JNum (of_nat (length findings))), (''summary'', JStr (take 300 reasoning)),
            (''updated_todos_count'', JNum (of_nat (length updated))), (''llm_response'', JStr (take 4000 text))]) s w
      in ([(''findings'', jget_or d ''findings'' (JArr [])), (''summary'', JStr reasoning), (''updated_todos'', jget_or d ''updated_todos'' (JArr []))],
          s\<lparr>fo_evidence := fo_evidence s @ finding_evidence env findings\<rparr>, w))"

definition run_synthesize :: "'w fsm_env \<Rightarrow> obj list \<Rightarrow> phases \<Rightarrow> 'w \<Rightarrow> obj \<times> phases \<times> 'w" where
  "run_synthesize env results s w =
     (let summary = act_summary env results; s = s\<lparr>fo_last_tool := take 400 summary\<rparr>
      in case ask env (Ask_synthesize (reason_text ''todo_id'' s) summary) (ask_options (3 / 10)) w of
           (Inl e, w) \<Rightarrow> synthesize_failed env e s w
         | (Inr text, w) \<Rightarrow> (case parsed_answer text of
             None \<Rightarrow> synthesize_raw env text s w
           | Some j \<Rightarrow> (case as_obj j of
               Inl e \<Rightarrow> synthesize_failed env e s w
             | Inr d \<Rightarrow> (case items_of (jget_or d ''findings'' (JArr [])) of
                 Inl e \<Rightarrow> synthesize_failed env e s w
               | Inr findings \<Rightarrow> (case items_of (jget_or d ''updated_todos'' (JArr [])) of
                   Inl e \<Rightarrow> synthesize_failed env e s w
                 | Inr updated \<Rightarrow> synthesize_parsed env text d findings updated s w)))))"

subsection \<open>Plan\<close>

definition plan_keys :: "string list" where
  "plan_keys = [''todos'', ''reasoning'', ''estimated_iterations'', ''strategy_selected'']"

text \<open>The comprehension over the keys works on any container: a list or a text without them gives an empty object.\<close>

definition plan_payload :: "json \<Rightarrow> obj raising" where
  "plan_payload j = (case j of
     JObj d \<Rightarrow> Inr (List.map_filter (\<lambda>k. map_option (Pair k) (map_of d k)) plan_keys)
   | JArr xs \<Rightarrow> if list_ex (\<lambda>k. JStr k \<in> set xs) plan_keys then Inl (Exn ''TypeError'' ''list indices must be integers'') else Inr []
   | JStr t \<Rightarrow> if list_ex (\<lambda>k. contains k t) plan_keys then Inl (Exn ''TypeError'' ''string indices must be integers'') else Inr []
   | _ \<Rightarrow> Inl (Exn ''TypeError'' ''argument is not iterable''))"

definition objs_of :: "obj \<Rightarrow> string \<Rightarrow> obj list" where
  "objs_of d k = (case jget d k of JArr xs \<Rightarrow> map (\<lambda>j. case j of JObj e \<Rightarrow> e | _ \<Rightarrow> []) xs | _ \<Rightarrow> [])"

definition empty_plan :: obj where
  "empty_plan = [(''todos'', JArr []), (''reasoning'', JStr []), (''estimated_iterations'', JNum 1), (''strategy_selected'', JStr [])]"

definition plan_failed :: "'w fsm_env \<Rightarrow> exn \<Rightarrow> phases \<Rightarrow> 'w \<Rightarrow> obj \<times> phases \<times> 'w" where
  "plan_failed env e s w = (empty_plan, s, emit_fsm_event env ''plan'' (''Error: '' @ exn_msg e)
     (base_data s [] [] @ [(''selection_reason'', JStr []), (''error'', JStr (exn_msg e))]) s w)"

definition plan_raw :: "'w fsm_env \<Rightarrow> string \<Rightarrow> phases \<Rightarrow> 'w \<Rightarrow> obj \<times> phases \<times> 'w" where
  "plan_raw env text s w = (empty_plan, s, emit_fsm_event env ''plan'' (if text = [] then ''Plan parse failed'' else take 600 text)
     (base_data s [] [] @ [(''selection_reason'', JStr []), (''error'', JStr ''Parse failed''), (''raw'', JStr (take 200 text)), (''llm_response'', JStr (take 4000 text))]) s w)"

text \<open>The reasoning of a plan; without one the answer is asked, which fails when it is no object.\<close>

definition plan_reasoning :: "'w fsm_env \<Rightarrow> string \<Rightarrow> json \<Rightarrow> obj \<Rightarrow> string raising" where
  "plan_reasoning env text j r =
     (if text_of r ''reasoning'' \<noteq> [] then Inr (text_of r ''reasoning'')
      else map_sum id (\<lambda>d. case first_true d [''thinking''] of Some v \<Rightarrow> str_of env v | None \<Rightarrow> take 600 text) (as_obj j))"

definition run_plan :: "'w fsm_env \<Rightarrow> string \<Rightarrow> string list \<Rightarrow> string list \<Rightarrow> phases \<Rightarrow> 'w \<Rightarrow> obj \<times> phases \<times> 'w" where
  "run_plan env intent cs ev s w =
     (let s = s\<lparr>fo_intent := intent, fo_constraints := cs, fo_evidence := ev\<rparr>
      in case ask env (Ask_plan (build_context_summary env [] s)) (ask_options (3 / 10)) w of
           (Inl e, w) \<Rightarrow> plan_failed env e s w
         | (Inr text, w) \<Rightarrow> (case parsed_answer text of
             None \<Rightarrow> plan_raw env text s w
           | Some j \<Rightarrow> (case plan_payload j of
               Inl e \<Rightarrow> plan_failed env e s w
             | Inr d \<Rightarrow> (case load_model (fe_coercions env) PlanOutput (JObj d) of
                 Inl e \<Rightarrow> plan_failed env e s w
               | Inr r \<Rightarrow> (let s = s\<lparr>fo_todos := objs_of r ''todos''\<rparr>
                   in case plan_reasoning env text j r of
                        Inl e \<Rightarrow> plan_failed env e s w
                      | Inr reasoning \<Rightarrow> (r, s\<lparr>fo_state := ''reason''\<rparr>, emit_fsm_event env ''plan'' reasoning
                          (base_data s [] [] @ [(''selection_reason'', JStr []), (''todos_count'', JNum (of_nat (length (objs_of r ''todos'')))), (''todos'', jget r ''todos''),
                           (''strategy'', jget r ''strategy_selected''), (''estimated_iterations'', jget r ''estimated_iterations''),
                           (''llm_response'', JStr (take 4000 text))]) s w))))))"

subsection \<open>Check\<close>

definition completed :: "obj \<Rightarrow> bool" where
  "completed t \<longleftrightarrow> jget t ''status'' = JStr ''completed''"

definition complete :: "obj \<Rightarrow> obj" where
  "complete t = AList.update ''status'' (JStr ''completed'') t"

fun mark_first :: "string \<Rightarrow> obj list \<Rightarrow> obj list" where
  "mark_first i [] = []"
| "mark_first i (t # ts) = (if jget t ''id'' = JStr i \<and> \<not> completed t then complete t # ts else t # mark_first i ts)"

definition mark_all :: "obj list \<Rightarrow> obj list" where
  "mark_all = map (\<lambda>t. if completed t then t else complete t)"

definition check_ids :: "obj \<Rightarrow> string list" where
  "check_ids r =
     (let ids = (case jget r ''completed_todo_ids'' of JArr xs \<Rightarrow> List.map_filter str_opt xs | _ \<Rightarrow> []); c = text_of r ''current_todo_id''
      in if jget r ''todo_complete'' = JBool True \<and> c \<noteq> [] \<and> c \<notin> set ids then ids @ [c] else ids)"

definition marked_todos :: "obj \<Rightarrow> obj list \<Rightarrow> obj list" where
  "marked_todos r ts = (let ts = fold mark_first (check_ids r) ts in if text_of r ''next_phase'' = ''done'' then mark_all ts else ts)"

text \<open>A list of completed todos that is not empty is extended in place, so the output has the extended one.\<close>

definition check_result :: "obj \<Rightarrow> obj" where
  "check_result r = (if jget r ''completed_todo_ids'' = JArr [] then r else AList.update ''completed_todo_ids'' (strs (check_ids r)) r)"

definition check_output :: "bool \<Rightarrow> string \<Rightarrow> string \<Rightarrow> obj" where
  "check_output finished next reasoning = [(''current_todo_id'', JStr []), (''todo_complete'', JBool finished), (''next_phase'', JStr next),
     (''confidence'', JNum (1 / 2)), (''budget_consumed'', JObj [(''iterations'', JNum 0), (''subagent_calls'', JNum 0), (''wall_time_seconds'', JNum 0),
       (''tool_calls'', JNum 0), (''tokens_consumed'', JNum 0)]), (''blocking_question'', JStr []), (''novelty_detected'', JBool True),
     (''stagnation_detected'', JBool False), (''reasoning'', JStr reasoning), (''completed_todo_ids'', JArr [])]"

definition check_values :: "'w fsm_env \<Rightarrow> nat \<Rightarrow> nat \<Rightarrow> phases \<Rightarrow> obj" where
  "check_values env count pending s =
     (let todo = get_current_todo env (reason_text ''todo_id'' s) s
      in [(''current_todo_id'', JStr (str_of env (jget_or todo ''id'' (JStr [])))), (''description'', JStr (str_of env (jget_or todo ''description'' (JStr [])))),
          (''status'', JStr (str_of env (jget_or todo ''status'' (JStr ''pending'')))), (''total_todos'', JNum (of_nat count)), (''pending_count'', JNum (of_nat pending)),
          (''last_action'', JStr (or_text (fo_last_tool s) ''No recent tool results'')), (''iterations_consumed'', JNum (of_int (fo_iteration s))),
          (''iterations_max'', JNum 10), (''tool_calls_consumed'', JNum 0), (''tool_calls_max'', JNum 100), (''wall_time_consumed'', JNum 0),
          (''wall_time_max'', JNum 3600), (''stagnation_count'', JNum 0), (''stagnation_threshold'', JNum 3)])"

definition todo_objs :: "obj list \<Rightarrow> json" where "todo_objs ts = JArr (map JObj ts)"

text \<open>The values of the events of this phase: the identifier is that of the current todo.\<close>

definition check_data :: "phases \<Rightarrow> json \<Rightarrow> obj" where
  "check_data s tid = [(''intent'', JStr (fo_intent s)), (''todo_id'', tid), (''atomic_step'', JStr (reason_text ''atomic_step'' s)), (''selection_reason'', JStr [])]"

definition check_failed :: "'w fsm_env \<Rightarrow> json \<Rightarrow> exn \<Rightarrow> phases \<Rightarrow> 'w \<Rightarrow> obj \<times> phases \<times> 'w" where
  "check_failed env tid e s w = (check_output False ''act'' (''Error: '' @ exn_msg e), s,
     emit_fsm_event env ''check'' (''Error: '' @ exn_msg e) (check_data s tid @ [(''error'', JStr (exn_msg e)), (''llm_response'', JStr [])]) s w)"

definition check_parsed :: "'w fsm_env \<Rightarrow> json \<Rightarrow> string \<Rightarrow> obj \<Rightarrow> phases \<Rightarrow> 'w \<Rightarrow> obj \<times> phases \<times> 'w" where
  "check_parsed env tid text r s w =
     (let ts = marked_todos r (fo_todos s); s = s\<lparr>fo_todos := ts\<rparr>; ready = filter completed ts; open_todos = filter (\<lambda>t. \<not> completed t) ts
      in (check_result r, s, emit_fsm_event env ''check'' (or_text (text_of r ''reasoning'') ''No reasoning provided'')
        (check_data s tid @ [(''todo_complete'', jget r ''todo_complete''), (''next_phase'', jget r ''next_phase''), (''confidence'', jget r ''confidence''),
         (''completed_count'', JNum (of_nat (length ready))), (''pending_count'', JNum (of_nat (length open_todos))), (''completed_todos'', todo_objs ready),
         (''pending_todos'', todo_objs open_todos), (''completed_todo_ids'', strs (check_ids r)), (''llm_response'', JStr (take 4000 text))]) s w))"

text \<open>The phase an invalid answer asks for; a list or an object is not hashable.\<close>

definition derived_next :: "obj \<Rightarrow> bool \<Rightarrow> string raising" where
  "derived_next d all_done = (case (if jtrue (jget d ''next_phase'') then jget d ''next_phase'' else jget d ''next'') of
     JArr xs \<Rightarrow> Inl (Exn ''TypeError'' ''unhashable type'')
   | JObj x \<Rightarrow> Inl (Exn ''TypeError'' ''unhashable type'')
   | JStr n \<Rightarrow> Inr (if n \<in> {''act'', ''plan'', ''reason'', ''done''} then n else if all_done then ''done'' else ''reason'')
   | _ \<Rightarrow> Inr (if all_done then ''done'' else ''reason''))"

definition check_invalid :: "'w fsm_env \<Rightarrow> json \<Rightarrow> string \<Rightarrow> json \<Rightarrow> obj list \<Rightarrow> obj list \<Rightarrow> phases \<Rightarrow> 'w \<Rightarrow> obj \<times> phases \<times> 'w" where
  "check_invalid env tid text j ready open_todos s w = (case as_obj j of
     Inl e \<Rightarrow> check_failed env tid e s w
   | Inr d \<Rightarrow> (case derived_next d (open_todos = []) of
       Inl e \<Rightarrow> check_failed env tid e s w
     | Inr next \<Rightarrow>
         (let reasoning = (case first_true d [''reasoning'', ''thinking''] of Some v \<Rightarrow> str_of env v
                | None \<Rightarrow> ''Checked '' @ str_nat (length ready) @ '' complete, '' @ str_nat (length open_todos) @ '' pending'');
              finished = jtrue (jget_or d ''todo_complete'' (JBool (open_todos = [])))
          in (check_output finished next reasoning, s, emit_fsm_event env ''check'' reasoning
            (check_data s tid @ [(''todo_complete'', JBool finished), (''next_phase'', JStr next), (''completed_count'', JNum (of_nat (length ready))),
             (''pending_count'', JNum (of_nat (length open_todos))), (''completed_todos'', todo_objs ready), (''pending_todos'', todo_objs open_todos),
             (''llm_response'', JStr (take 4000 text))]) s w))))"

definition check_raw :: "'w fsm_env \<Rightarrow> json \<Rightarrow> string \<Rightarrow> obj list \<Rightarrow> obj list \<Rightarrow> phases \<Rightarrow> 'w \<Rightarrow> obj \<times> phases \<times> 'w" where
  "check_raw env tid text ready open_todos s w =
     (let next = (if open_todos = [] then ''done'' else ''reason'')
      in (check_output (open_todos = []) next ''Fallback: checked pending todos'', s,
        emit_fsm_event env ''check'' (''Parsed '' @ str_nat (length ready) @ '' complete, '' @ str_nat (length open_todos) @ '' pending'')
          (check_data s tid @ [(''todo_complete'', JBool (open_todos = [])), (''next_phase'', JStr next), (''completed_todos'', todo_objs ready),
           (''pending_todos'', todo_objs open_todos), (''parse_failed'', JBool True), (''llm_response'', JStr (take 4000 text))]) s w))"

definition run_check :: "'w fsm_env \<Rightarrow> obj list \<Rightarrow> obj list \<Rightarrow> obj list \<Rightarrow> phases \<Rightarrow> 'w \<Rightarrow> obj \<times> phases \<times> 'w" where
  "run_check env all_todos ready open_todos s w =
     (let tid = jget_or (get_current_todo env (reason_text ''todo_id'' s) s) ''id'' (JStr [])
      in case ask env (Ask_check (check_values env (length all_todos) (length open_todos) s)) (ask_options (3 / 10)) w of
           (Inl e, w) \<Rightarrow> check_failed env tid e s w
         | (Inr text, w) \<Rightarrow> (case parsed_answer text of
             None \<Rightarrow> check_raw env tid text ready open_todos s w
           | Some j \<Rightarrow> (case load_model (fe_coercions env) CheckOutput j of
               Inl e \<Rightarrow> check_invalid env tid text j ready open_todos s w
             | Inr r \<Rightarrow> check_parsed env tid text r s w)))"

subsection \<open>The extraction of JSON\<close>

lemma split_first_append:
  assumes "\<not> contains sub (a @ butlast sub)" "sub \<noteq> []"
  shows "split_first sub (a @ sub @ b) = Some (a, b)"
  using assms
proof (induction a)
  case Nil
  then show ?case by (cases sub) simp_all
next
  case (Cons c a)
  have "\<not> prefix sub (c # a @ sub @ b)"
  proof
    assume "prefix sub (c # a @ sub @ b)"
    then have "sub = take (length sub) (c # a @ sub @ b)" by (metis append_eq_conv_conj prefixE)
    also have "\<dots> = take (length sub) (c # a @ butlast sub)"
      using Cons.prems(2) by (cases sub rule: rev_cases) (auto simp: take_Cons split: nat.splits)
    finally have "prefix sub (c # a @ butlast sub)" by (metis take_is_prefix)
    with Cons.prems(1) show False by (metis append_Cons contains_def prefix_imp_sublist)
  qed
  moreover have "\<not> contains sub (a @ butlast sub)" using Cons.prems(1) by (auto simp: contains_def sublist_Cons_right)
  ultimately show ?case using Cons by simp
qed

text \<open>C32. The JSON of an answer is found in its fenced block, whatever is written around it: what is read is the stripped text between the fences, provided it is not
  empty and the opening fence is the first of its kind. Without a fence it is the text from the first to the last brace.\<close>

theorem extract_json_spec:
  "(\<not> contains (fence @ ''json'') (before @ butlast (fence @ ''json'')) \<and> \<not> contains fence (body @ butlast fence) \<and> body \<noteq> []
      \<longrightarrow> extract_json (before @ fence @ ''json'' @ body @ fence @ after) = loads (str_strip body))
   \<and> (\<not> contains fence (before @ ''{'' @ body @ ''}'' @ after) \<and> CHR ''{'' \<notin> set before \<and> CHR ''}'' \<notin> set after
      \<longrightarrow> extract_json (before @ ''{'' @ body @ ''}'' @ after) = loads (''{'' @ body @ ''}''))"
proof (intro conjI impI)
  assume "\<not> contains (fence @ ''json'') (before @ butlast (fence @ ''json'')) \<and> \<not> contains fence (body @ butlast fence) \<and> body \<noteq> []"
  then have h: "\<not> contains (fence @ ''json'') (before @ butlast (fence @ ''json''))" "\<not> contains fence (body @ butlast fence)" "body \<noteq> []" by auto
  have "split_first (fence @ ''json'') (before @ fence @ ''json'' @ body @ fence @ after) = Some (before, body @ fence @ after)"
    using split_first_append [OF h(1), of "body @ fence @ after"] by simp
  moreover have "split_first fence (body @ fence @ after) = Some (body, after)" using split_first_append [OF h(2)] by (simp add: fence_def)
  ultimately show "extract_json (before @ fence @ ''json'' @ body @ fence @ after) = loads (str_strip body)"
    using h(3) by (cases body) (simp_all add: extract_json_def json_text_def fenced_def fence_def)
next
  let ?t = "before @ ''{'' @ body @ ''}'' @ after"
  assume "\<not> contains fence ?t \<and> CHR ''{'' \<notin> set before \<and> CHR ''}'' \<notin> set after"
  then have h: "\<not> contains fence ?t" "CHR ''{'' \<notin> set before" "CHR ''}'' \<notin> set after" by auto
  have none: "split_first sub x = None" if "\<not> contains sub x" for sub x using that
    by (induction x) (auto simp: contains_def sublist_Cons_right)
  have "\<not> contains (fence @ ''json'') ?t" using h(1) unfolding contains_def by (metis sublist_appendI sublist_order.order_trans append.left_neutral)
  then have "json_text ?t = braced ?t" using none h(1) by (simp add: json_text_def del: append_Cons)
  also have "dropWhile (\<lambda>c. c \<noteq> CHR ''{'') ?t = ''{'' @ body @ ''}'' @ after" using h(2) by (simp add: dropWhile_append2 dropWhile_append)
  then have "braced ?t = Some (''{'' @ body @ ''}'')" using h(3) by (simp add: braced_def Let_def dropWhile_append)
  finally show "extract_json ?t = loads (''{'' @ body @ ''}'')" by (simp add: extract_json_def)
qed

definition quote :: "string \<Rightarrow> string" where "quote t = [CHR 0x22] @ t @ [CHR 0x22]"

theorem extract_json_spec_witness:
  "extract_json (''So: '' @ fence @ ''json'' @ ('' {'' @ quote ''a'' @ '': ['' @ quote ''}'' @ '']} '') @ fence @ ''!'') = Some (JObj [(''a'', JArr [JStr ''}''])])
   \<and> extract_json (''So '' @ ''{'' @ (quote ''a'' @ '': true'') @ ''}'' @ ''!'') = Some (JObj [(''a'', JBool True)])"
proof (rule conjI, goal_cases)
  case 1
  have "loads (str_strip ('' {'' @ quote ''a'' @ '': ['' @ quote ''}'' @ '']} '')) = Some (JObj [(''a'', JArr [JStr ''}''])])" by code_simp
  moreover have "\<not> contains (fence @ ''json'') (''So: '' @ butlast (fence @ ''json''))" by code_simp
  moreover have "\<not> contains fence (('' {'' @ quote ''a'' @ '': ['' @ quote ''}'' @ '']} '') @ butlast fence)" by code_simp
  ultimately show ?case
    using extract_json_spec [of "''So: ''" "'' {'' @ quote ''a'' @ '': ['' @ quote ''}'' @ '']} ''" "''!''"] by simp
next
  case 2
  have "loads (''{'' @ (quote ''a'' @ '': true'') @ ''}'') = Some (JObj [(''a'', JBool True)])" by code_simp
  moreover have "\<not> contains fence (''So '' @ ''{'' @ (quote ''a'' @ '': true'') @ ''}'' @ ''!'')" by code_simp
  ultimately show ?case
    using extract_json_spec [of "''So ''" "quote ''a'' @ '': true''" "''!''"] by simp
qed

subsection \<open>The todos after a check\<close>

lemma jget_complete: "jget (complete t) ''id'' = jget t ''id''" "completed (complete t)"
  by (simp_all add: complete_def completed_def jget_def)

lemma mark_first_map:
  "distinct (map (\<lambda>t. jget t ''id'') ts)
     \<Longrightarrow> mark_first i ts = map (\<lambda>t. if jget t ''id'' = JStr i \<and> \<not> completed t then complete t else t) ts"
proof (induction ts)
  case (Cons t ts)
  then show ?case by (force intro: map_idI [symmetric])
qed simp

lemma marks_ids: "map (\<lambda>t. jget t ''id'') (map (\<lambda>t. if P t then complete t else t) ts) = map (\<lambda>t. jget t ''id'') ts"
  by (simp add: jget_complete)

lemma fold_mark_first:
  "distinct (map (\<lambda>t. jget t ''id'') ts)
     \<Longrightarrow> fold mark_first ids ts = map (\<lambda>t. if jget t ''id'' \<in> JStr ` set ids \<and> \<not> completed t then complete t else t) ts"
proof (induction ids arbitrary: ts)
  case (Cons i ids)
  let ?ts = "map (\<lambda>t. if jget t ''id'' = JStr i \<and> \<not> completed t then complete t else t) ts"
  have "fold mark_first (i # ids) ts = fold mark_first ids ?ts" using Cons.prems by (simp add: mark_first_map)
  also have "\<dots> = map (\<lambda>t. if jget t ''id'' \<in> JStr ` set ids \<and> \<not> completed t then complete t else t) ?ts"
    by (rule Cons.IH) (use Cons.prems in \<open>simp only: marks_ids\<close>)
  also have "\<dots> = map (\<lambda>t. if jget t ''id'' \<in> JStr ` set (i # ids) \<and> \<not> completed t then complete t else t) ts"
    by (auto simp: jget_complete)
  finally show ?case .
qed simp


subsection \<open>What the model is not told\<close>

lemma run_synthesize_state:
  "\<exists>es. fst (snd (run_synthesize env rs s w)) = s\<lparr>fo_last_tool := take 400 (act_summary env rs), fo_evidence := fo_evidence s @ es\<rparr>"
proof -
  have e: "\<exists>es. s\<lparr>fo_last_tool := l\<rparr> = s\<lparr>fo_last_tool := l, fo_evidence := fo_evidence s @ es\<rparr>" for l by (rule exI [of _ "[]"]) simp
  have "\<exists>es. s\<lparr>fo_last_tool := l, fo_evidence := fo_evidence s @ xs\<rparr> = s\<lparr>fo_last_tool := l, fo_evidence := fo_evidence s @ es\<rparr>" for l xs by blast
  note e = e this
  show ?thesis
    by (simp add: run_synthesize_def Let_def synthesize_failed_def synthesize_raw_def synthesize_parsed_def e split: prod.splits sum.splits option.splits)
qed


subsection \<open>Failures of the model\<close>


subsection \<open>Witnesses\<close>

text \<open>A model that gives one answer, and one that cannot be reached.\<close>

definition one_answer :: "string option \<Rightarrow> obj list fsm_env" where
  "one_answer t = \<lparr>fe_ask = (\<lambda>p opts w. (case t of Some x \<Rightarrow> Inr (Some x) | None \<Rightarrow> Inl (Exn ''ConnectError'' ''down''), w)),
     fe_publish = (\<lambda>k e w. w @ [e]), fe_clock = (\<lambda>w. of_nat (length w)), fe_repr = (\<lambda>j. ''None''), fe_coercions = plain_coercions,
     fe_policy_engine = False, fe_policy_mode = ''fsm''\<rparr>"

definition two_todos :: phases where
  "two_todos = (fo_init ''s'')\<lparr>fo_todos := [[(''id'', JStr ''1''), (''status'', JStr ''pending'')], [(''id'', JStr ''2''), (''status'', JStr ''pending'')]],
     fo_evidence := replicate 10 ''known''\<rparr>"

definition check_answer :: string where
  "check_answer = ''{'' @ quote ''completed_todo_ids'' @ '': ['' @ quote ''2'' @ '']}''"


definition finder :: "obj list fsm_env" where
  "finder = one_answer (Some (''{'' @ quote ''findings'' @ '': ['' @ quote ''new'' @ '']}''))"



end
