(* ===== verification/FsmReasoning.thy ===== *)
theory FsmReasoning
  imports FsmPhases
begin

text \<open>
  The prompts, the parser and the summaries of \<open>agents/fsm_reasoning.py\<close>. A template is a list of texts and holes, each with its format specification; the file of the check
  phase is written out. \<open>dumps\<close> is \<open>json.dumps\<close> with an indentation of two and \<open>percent\<close> formats a number with \<open>.0%\<close>; \<open>schema\<close> gives the texts of the schemas.
\<close>

declare map_of_eq_Some_iff [simp del] Some_eq_map_of_iff [simp del]

record 'w prompt_env =
  pe_env :: "'w fsm_env"
  pe_dumps :: "json \<Rightarrow> string"
  pe_percent :: "rat \<Rightarrow> string"
  pe_schema :: "string \<Rightarrow> string"

subsection \<open>Context summaries\<close>

definition type_error :: "'a raising" where
  "type_error = Inl (Exn ''TypeError'' [])"

text \<open>\<open>xs[:n]\<close> and \<open>text[:n]\<close>.\<close>

definition first_items :: "nat \<Rightarrow> json \<Rightarrow> json list raising" where
  "first_items n j = (case j of JArr xs \<Rightarrow> Inr (take n xs) | JStr s \<Rightarrow> Inr (map (\<lambda>c. JStr [c]) (take n s)) | _ \<Rightarrow> type_error)"

definition first_text :: "'w prompt_env \<Rightarrow> nat \<Rightarrow> json \<Rightarrow> string raising" where
  "first_text pe n j = (case j of JStr s \<Rightarrow> Inr (take n s) | JArr xs \<Rightarrow> Inr (str_of (pe_env pe) (JArr (take n xs))) | _ \<Rightarrow> type_error)"

definition len_of :: "json \<Rightarrow> nat raising" where
  "len_of j = map_sum id length (items_of j)"

abbreviation str_pe :: "'w prompt_env \<Rightarrow> json \<Rightarrow> string" where "str_pe pe \<equiv> str_of (pe_env pe)"

text \<open>The parts of a text in order; the first that raises ends it.\<close>

fun collect :: "'a list raising list \<Rightarrow> 'a list raising" where
  "collect [] = Inr []"
| "collect (p # ps) = (case p of Inl e \<Rightarrow> Inl e | Inr xs \<Rightarrow> map_sum id ((@) xs) (collect ps))"

definition only_if :: "bool \<Rightarrow> 'a list raising \<Rightarrow> 'a list raising" where
  "only_if b p = (if b then p else Inr [])"

definition line :: "string \<Rightarrow> string list raising" where "line t = Inr [t]"

definition count_line :: "string \<Rightarrow> json \<Rightarrow> string \<Rightarrow> string list raising" where
  "count_line before j after = map_sum id (\<lambda>n. [before @ str_nat n @ after]) (len_of j)"

definition todo_entry :: "'w prompt_env \<Rightarrow> bool \<Rightarrow> json \<Rightarrow> string list raising" where
  "todo_entry pe status j = (case j of
     JObj d \<Rightarrow> map_sum id (\<lambda>t. [''  - '' @ str_pe pe (jget_or d ''id'' (JStr ''?'')) @ '': '' @ t
       @ (if status then '' (status: '' @ str_pe pe (jget_or d ''status'' (JStr ''pending'')) @ '')'' else [])])
       (first_text pe 50 (jget_or d ''description'' (JStr [])))
   | _ \<Rightarrow> Inr [])"

definition todo_entries :: "'w prompt_env \<Rightarrow> bool \<Rightarrow> json \<Rightarrow> string list raising" where
  "todo_entries pe status j = only_if (jtrue j) (collect [count_line ''Current todos: '' j '' items'',
     (case first_items 5 j of Inl e \<Rightarrow> Inl e | Inr xs \<Rightarrow> collect (map (todo_entry pe status) xs))])"

definition iteration_line :: "'w prompt_env \<Rightarrow> obj \<Rightarrow> string" where
  "iteration_line pe c = ''Iteration: '' @ str_pe pe (jget_or c ''iteration'' (JStr ''0'')) @ ''/'' @ str_pe pe (jget_or c ''max_iterations'' (JStr ''10''))"

definition last_results :: "'w prompt_env \<Rightarrow> obj \<Rightarrow> string list raising" where
  "last_results pe c = (let j = jget_or c ''last_tool_results'' (JStr []) in only_if (jtrue j) (line (''Last tool results: '' @ take 200 (str_pe pe j))))"

definition evidence_line :: "obj \<Rightarrow> string list raising" where
  "evidence_line c = (let j = jget_or c ''evidence'' (JArr []) in only_if (jtrue j) (count_line ''Evidence gathered: '' j '' items''))"

definition context_lines :: "'w prompt_env \<Rightarrow> string \<Rightarrow> obj \<Rightarrow> string list raising" where
  "context_lines pe state c =
     (let get = jget_or c; intent = line (''Intent: '' @ str_pe pe (get ''intent'' (JStr ''Unknown'')))
      in if state = ''plan'' then collect [intent,
             (let j = get ''constraints'' (JArr []) in only_if (jtrue j) (map_sum id (\<lambda>xs. [''Constraints: '' @ str_join '', '' (map (str_pe pe) xs)]) (first_items 5 j))),
             evidence_line c, todo_entries pe False (get ''current_todos'' (JArr [])), last_results pe c]
         else if state = ''reason'' then collect [intent, line (iteration_line pe c), todo_entries pe True (get ''current_todos'' (JArr [])), evidence_line c, last_results pe c]
         else if state = ''check'' then collect [intent, count_line ''Total todos: '' (get ''all_todos'' (JArr [])) [], count_line ''Completed: '' (get ''completed_todos'' (JArr [])) [],
             count_line ''Pending: '' (get ''pending_todos'' (JArr [])) [], evidence_line c, line (iteration_line pe c),
             line (''Tokens used: '' @ str_pe pe (get ''tokens_used'' (JStr ''0'')))]
         else Inr (map (\<lambda>(k, v). k @ '': '' @ take 200 (case v of JArr xs \<Rightarrow> pe_dumps pe v | JObj d \<Rightarrow> pe_dumps pe v | _ \<Rightarrow> str_pe pe v)) c))"

definition prompt_summary :: "'w prompt_env \<Rightarrow> string \<Rightarrow> obj \<Rightarrow> string raising" where
  "prompt_summary pe state c = map_sum id (str_join line_feed) (context_lines pe state c)"

subsection \<open>Templates\<close>

datatype piece = Lit string | Hole string string

text \<open>\<open>template.format(**values)\<close> with texts as values: a specification other than the empty one is that of a number and refused.\<close>

fun format_pieces :: "piece list \<Rightarrow> (string \<times> string) list \<Rightarrow> string raising" where
  "format_pieces [] vs = Inr []"
| "format_pieces (Lit t # ps) vs = map_sum id ((@) t) (format_pieces ps vs)"
| "format_pieces (Hole n spec # ps) vs = (case map_of vs n of
     None \<Rightarrow> Inl (Exn ''KeyError'' n)
   | Some v \<Rightarrow> if spec = [] then map_sum id ((@) v) (format_pieces ps vs)
       else Inl (Exn ''ValueError'' (''Unknown format code''))) "

text \<open>The text of a template as it stands in its file.\<close>

definition raw_template :: "piece list \<Rightarrow> string" where
  "raw_template ps = concat (map (\<lambda>p. case p of Lit t \<Rightarrow> t | Hole n spec \<Rightarrow> ''{'' @ n @ (if spec = [] then [] else '':'' @ spec) @ ''}'') ps)"

definition text_lines :: "string list \<Rightarrow> piece" where
  "text_lines ls = Lit (concat (map (\<lambda>l. l @ line_feed) ls))"

definition CHECK_TEMPLATE :: "piece list" where
  "CHECK_TEMPLATE = [text_lines [''You are in the CHECK phase of a workflow loop.'', [], ''Your task:'', ''1. Evaluate if the current todo is complete'', ''2. Decide where to route next:'',
       ''   - '' @ quote ''act'' @ '': Continue working on current todo (todo_complete=false)'',
       ''   - '' @ quote ''plan'' @ '': Todo complete, pick next todo (todo_complete=true, more todos pending)'',
       ''   - '' @ quote ''done'' @ '': All todos complete (todo_complete=true, no more todos)'', [], ''Current todo:''],
     Lit ''- ID: '', Hole ''current_todo_id'' [], Lit (line_feed @ ''- Description: ''), Hole ''description'' [], Lit (line_feed @ ''- Status: ''), Hole ''status'' [],
     Lit (line_feed @ line_feed @ ''Todo summary:'' @ line_feed @ ''- Total todos: ''), Hole ''total_todos'' [],
     Lit (line_feed @ ''- Pending/Running: ''), Hole ''pending_count'' [], Lit (line_feed @ line_feed @ ''Recent tool result:'' @ line_feed), Hole ''last_action'' [],
     Lit (line_feed @ line_feed @ ''Budget consumed:'' @ line_feed @ ''- Iterations: ''), Hole ''iterations_consumed'' [], Lit ''/'', Hole ''iterations_max'' [],
     Lit (line_feed @ ''- Tool calls: ''), Hole ''tool_calls_consumed'' [], Lit ''/'', Hole ''tool_calls_max'' [],
     Lit (line_feed @ ''- Wall time: ''), Hole ''wall_time_consumed'' ''.1f'', Lit ''/'', Hole ''wall_time_max'' [], Lit (''s'' @ line_feed @ line_feed @ ''Stagnation: ''),
     Hole ''stagnation_count'' [], Lit ''/'', Hole ''stagnation_threshold'' [], Lit (line_feed @ line_feed), Hole ''schema'' [],
     Lit (line_feed @ line_feed @ ''Respond with ONLY valid JSON matching the schema above.'')]"

subsection \<open>Prompts\<close>

definition with_default :: "obj \<Rightarrow> (string \<times> string) list \<Rightarrow> obj" where
  "with_default c kds = map (\<lambda>(k, dflt). (k, jget_or c k (JStr dflt))) kds"

definition schema_entry :: "'w prompt_env \<Rightarrow> string \<Rightarrow> string \<times> json" where
  "schema_entry pe state = (''schema'', JStr (pe_schema pe state))"

text \<open>The defaults of \<open>get\<close> are computed in any case, the lengths of lists included.\<close>

definition prompt_values :: "'w prompt_env \<Rightarrow> string \<Rightarrow> obj \<Rightarrow> obj raising" where
  "prompt_values pe state c =
     (if state = ''intake'' then Inr (with_default c [(''user_message'', [])] @ [schema_entry pe state])
      else if state = ''act'' then Inr (with_default c [(''intent'', []), (''atomic_step'', []), (''why_now'', []), (''constraints'', []), (''allowed_tools'', []),
          (''current_todo_id'', []), (''description'', []), (''priority'', ''medium''), (''notes'', [])] @ [schema_entry pe state])
      else if state = ''synthesize'' then Inr (with_default c [(''current_todo_id'', []), (''act_summary'', [])] @ [schema_entry pe state])
      else if state = ''check'' then (case (len_of (jget_or c ''all_todos'' (JArr [])), len_of (jget_or c ''pending_todos'' (JArr []))) of
          (Inl e, _) \<Rightarrow> Inl e
        | (_, Inl e) \<Rightarrow> Inl e
        | (Inr n, Inr m) \<Rightarrow> Inr (with_default c [(''current_todo_id'', []), (''description'', []), (''status'', ''pending''), (''total_todos'', str_nat n),
            (''pending_count'', str_nat m), (''last_action'', [])]
            @ [(''iterations_consumed'', jget_or c ''iterations_consumed'' (jget_or c ''iteration'' (JStr ''0''))),
               (''iterations_max'', jget_or c ''iterations_max'' (jget_or c ''max_iterations'' (JStr ''10'')))]
            @ with_default c [(''tool_calls_consumed'', ''0''), (''tool_calls_max'', ''100''), (''wall_time_consumed'', ''0.0''), (''wall_time_max'', ''3600.0''),
               (''stagnation_count'', ''0''), (''stagnation_threshold'', ''3'')] @ [schema_entry pe state]))
      else map_sum id (\<lambda>t. [(''context_summary'', JStr t), schema_entry pe state]) (prompt_summary pe state c))"

definition final_text :: "'w prompt_env \<Rightarrow> json \<Rightarrow> string" where
  "final_text pe j = (case j of JArr xs \<Rightarrow> if xs = [] then ''[]'' else pe_dumps pe j | JObj d \<Rightarrow> if d = [] then ''{}'' else pe_dumps pe j
     | JNull \<Rightarrow> [] | _ \<Rightarrow> str_pe pe j)"

text \<open>\<open>template\<close>: the parsed template of a state, or \<open>None\<close> when there is no file.\<close>

definition format_fsm_prompt :: "'w prompt_env \<Rightarrow> (string \<Rightarrow> piece list option) \<Rightarrow> string \<Rightarrow> obj \<Rightarrow> string raising" where
  "format_fsm_prompt pe template state c = (case template state of
     None \<Rightarrow> Inr []
   | Some ps \<Rightarrow> (case prompt_values pe state c of
       Inl e \<Rightarrow> Inl e
     | Inr vs \<Rightarrow> (case format_pieces ps (map (apsnd (final_text pe)) vs) of
         Inl e \<Rightarrow> if exn_type e = ''KeyError'' then Inr (raw_template ps) else Inl e
       | Inr t \<Rightarrow> Inr t)))"

text \<open>The prompt of the check phase is never made: whatever the context holds, also with a number as wall time, the values are turned into texts before
  they are put into a template that formats one of them as a number.\<close>

theorem check_prompt_raises:
  "template ''check'' = Some CHECK_TEMPLATE \<Longrightarrow> raises (format_fsm_prompt pe template ''check'' c)"
  by (simp add: format_fsm_prompt_def prompt_values_def with_default_def CHECK_TEMPLATE_def text_lines_def split: sum.splits)

definition plain_pe :: "obj list prompt_env" where
  "plain_pe = \<lparr>pe_env = one_answer None, pe_dumps = (\<lambda>j. ''...''), pe_percent = (\<lambda>x. ''50%''), pe_schema = (\<lambda>s. ''schema'')\<rparr>"

theorem check_prompt_raises_witness:
  "raises (format_fsm_prompt plain_pe (\<lambda>s. if s = ''check'' then Some CHECK_TEMPLATE else None) ''check'' [(''wall_time_consumed'', JNum 3)])"
  by (rule check_prompt_raises) simp

subsection \<open>Answers\<close>

text \<open>The text that is read as JSON. A fence that is not closed costs the last character, since the end of the block is at -1.\<close>

definition block_text :: "string \<Rightarrow> string" where
  "block_text rest = (case split_first fence rest of Some (body, _) \<Rightarrow> str_strip body | None \<Rightarrow> str_strip (butlast rest))"

definition output_text :: "string \<Rightarrow> string" where
  "output_text t = (let t = str_strip t in case split_first (fence @ ''json'') t of
     Some (_, rest) \<Rightarrow> block_text rest
   | None \<Rightarrow> (case split_first fence t of Some (_, rest) \<Rightarrow> block_text rest | None \<Rightarrow> t))"

definition phase_class :: "string \<Rightarrow> field list option" where
  "phase_class state = map_of [(''intake'', IntakeOutput), (''plan'', PlanOutput), (''act'', ActOutput), (''synthesize'', SynthesizeOutput),
     (''check'', CheckOutput), (''reason'', ReasonOutput)] state"

text \<open>\<open>dict(parsed)\<close> also takes a list of pairs.\<close>

definition pair_of :: "json \<Rightarrow> (string \<times> json) option" where
  "pair_of j = (case j of JArr [JStr k, v] \<Rightarrow> Some (k, v) | JStr [a, b] \<Rightarrow> Some ([a], JStr [b]) | JObj [(a, _), (b, _)] \<Rightarrow> Some (a, JStr b) | _ \<Rightarrow> None)"

definition dict_of :: "json \<Rightarrow> obj raising" where
  "dict_of j = (case j of
     JObj d \<Rightarrow> Inr d
   | JArr xs \<Rightarrow> if list_all (\<lambda>x. pair_of x \<noteq> None) xs then Inr (fold (\<lambda>x. case pair_of x of Some (k, v) \<Rightarrow> AList.update k v | None \<Rightarrow> id) xs [])
       else Inl (Exn ''ValueError'' ''dictionary update sequence'')
   | JStr [] \<Rightarrow> Inr []
   | _ \<Rightarrow> type_error)"

definition read_output :: "coercions \<Rightarrow> string \<Rightarrow> string \<Rightarrow> obj raising" where
  "read_output co state t = (case loads (output_text t) of
     None \<Rightarrow> Inl (Exn ''JSONDecodeError'' [])
   | Some j \<Rightarrow> (case phase_class state of Some fs \<Rightarrow> load_model co fs j | None \<Rightarrow> dict_of j))"

definition parse_fsm_output :: "coercions \<Rightarrow> string \<Rightarrow> string \<Rightarrow> obj" where
  "parse_fsm_output co state t = (case read_output co state t of
     Inr d \<Rightarrow> d | Inl e \<Rightarrow> [(''thinking'', JStr t), (''parse_error'', JStr (exn_msg e))])"

subsection \<open>Summaries of answers\<close>

definition joined :: "json list \<Rightarrow> string raising" where
  "joined xs = (if list_all is_text xs then Inr (str_join '', '' (List.map_filter str_opt xs)) else type_error)"

definition part :: "string \<Rightarrow> string raising \<Rightarrow> string raising" where
  "part before r = map_sum id ((@) before) r"

definition percent :: "'w prompt_env \<Rightarrow> json \<Rightarrow> string raising" where
  "percent pe j = (case j of JNum x \<Rightarrow> Inr (pe_percent pe x) | JBool b \<Rightarrow> Inr (pe_percent pe (if b then 1 else 0))
     | JStr s \<Rightarrow> Inl (Exn ''ValueError'' ''Unknown format code'') | _ \<Rightarrow> type_error)"

definition bind_raising :: "'a raising \<Rightarrow> ('a \<Rightarrow> 'b raising) \<Rightarrow> 'b raising" where
  "bind_raising r f = (case r of Inl e \<Rightarrow> Inl e | Inr x \<Rightarrow> f x)"

definition shown_if :: "bool \<Rightarrow> string raising \<Rightarrow> string raising" where
  "shown_if b r = (if b then r else Inr [])"

text \<open>The objects among the items, each with a value of a key; another item has no \<open>get\<close>.\<close>

definition with_value :: "string \<Rightarrow> string \<Rightarrow> json \<Rightarrow> json list raising" where
  "with_value k v j = bind_raising (items_of j) (\<lambda>xs. if list_all (\<lambda>x. case x of JObj d \<Rightarrow> True | _ \<Rightarrow> False) xs
     then Inr (filter (\<lambda>x. case x of JObj d \<Rightarrow> jget d k = JStr v | _ \<Rightarrow> False) xs) else no_get)"

definition descriptions :: "'w prompt_env \<Rightarrow> json list \<Rightarrow> string raising" where
  "descriptions pe xs = map_sum id (str_join '', '')
     (collect (map (\<lambda>x. case x of JObj d \<Rightarrow> map_sum id (\<lambda>t. [t]) (first_text pe 50 (jget_or d ''description'' (JStr []))) | _ \<Rightarrow> no_get) xs))"

definition intake_summary :: "'w prompt_env \<Rightarrow> obj \<Rightarrow> string raising list" where
  "intake_summary pe d =
     (let cs = jget_or d ''constraints'' (JArr []); ev = jget_or d ''initial_evidence'' (JArr [])
      in [Inr (''Intent: '' @ str_pe pe (jget_or d ''intent'' (JStr []))),
          shown_if (jtrue cs) (part (line_feed @ ''Constraints: '') (bind_raising (first_items 3 cs) joined)),
          shown_if (jtrue cs) (map_sum id (\<lambda>n. if 3 < n then '' (+'' @ str_nat (n - 3) @ '' more)'' else []) (len_of cs)),
          shown_if (jtrue ev) (map_sum id (\<lambda>n. line_feed @ ''Initial evidence: '' @ str_nat n @ '' items'') (len_of ev))])"

definition plan_summary :: "'w prompt_env \<Rightarrow> obj \<Rightarrow> string raising list" where
  "plan_summary pe d =
     (let ts = jget_or d ''todos'' (JArr []); r = jget_or d ''reasoning'' (JStr [])
      in [map_sum id (\<lambda>n. ''Created '' @ str_nat n @ '' todos'') (len_of ts),
          shown_if (jtrue r) (part (line_feed @ ''Reasoning: '') (first_text pe 200 r)),
          bind_raising (with_value ''priority'' ''high'' ts) (\<lambda>xs. shown_if (xs \<noteq> []) (part (line_feed @ ''High priority: '') (descriptions pe (take 3 xs))))])"

definition reason_summary :: "'w prompt_env \<Rightarrow> obj \<Rightarrow> string raising list" where
  "reason_summary pe d =
     (let step = jget_or d ''atomic_step'' (JStr []); why = jget_or d ''why_now'' (JStr []); risks = jget_or d ''risks'' (JArr [])
      in [Inr (''Todo: '' @ str_pe pe (jget_or d ''todo_id'' (JStr []))),
          shown_if (jtrue step) (part (line_feed @ ''Atomic step: '') (first_text pe 200 step)),
          shown_if (jtrue why) (part (line_feed @ ''Why now: '') (first_text pe 200 why)),
          Inr (line_feed @ ''Next phase: '' @ str_pe pe (jget_or d ''next_phase'' (JStr ''act''))),
          part (line_feed @ ''Confidence: '') (percent pe (jget_or d ''confidence'' (JNum 0))),
          shown_if (jtrue risks) (part (line_feed @ ''Risks: '') (bind_raising (first_items 3 risks) joined))])"

definition synthesize_summary :: "'w prompt_env \<Rightarrow> obj \<Rightarrow> string raising list" where
  "synthesize_summary pe d =
     (let us = jget_or d ''updated_todos'' (JArr []); t = jget_or d ''summary'' (JStr [])
      in [map_sum id (\<lambda>n. ''Found '' @ str_nat n @ '' findings'') (len_of (jget_or d ''findings'' (JArr []))),
          shown_if (jtrue us) (bind_raising (with_value ''status'' ''completed'' us) (\<lambda>ready. map_sum id (\<lambda>n. '', updated '' @ str_nat n @ '' todos (''
            @ str_nat (length ready) @ '' completed)'') (len_of us))),
          shown_if (jtrue t) (part line_feed (first_text pe 300 t))])"

definition check_summary :: "'w prompt_env \<Rightarrow> obj \<Rightarrow> string raising list" where
  "check_summary pe d =
     (let r = jget_or d ''reasoning'' (JStr [])
      in [Inr (''Todo complete: '' @ str_pe pe (jget_or d ''todo_complete'' (JBool False))),
          Inr (line_feed @ ''Next phase: '' @ str_pe pe (jget_or d ''next_phase'' (JStr []))),
          part (line_feed @ ''Confidence: '') (percent pe (jget_or d ''confidence'' (JNum 0))),
          shown_if (jtrue r) (part (line_feed @ ''Reasoning: '') (first_text pe 200 r))])"

definition get_fsm_reasoning_summary :: "'w prompt_env \<Rightarrow> string \<Rightarrow> obj \<Rightarrow> string raising" where
  "get_fsm_reasoning_summary pe state d =
     (if d = [] then Inr []
      else if state = ''intake'' then collect (intake_summary pe d)
      else if state = ''plan'' then collect (plan_summary pe d)
      else if state = ''reason'' then collect (reason_summary pe d)
      else if state = ''synthesize'' then collect (synthesize_summary pe d)
      else if state = ''check'' then collect (check_summary pe d)
      else Inr (take 500 (str_pe pe (JObj d))))"

subsection \<open>Properties\<close>



lemma collect_raises: "Inl e \<in> set ps \<Longrightarrow> raises (collect ps)"
  by (induction ps) (auto split: sum.splits simp: raises_def)

text \<open>The summary of a valid answer of the reasoning phase that says nothing of its confidence raises: the field is there, and none cannot be formatted.\<close>

theorem reason_summary_raises:
  assumes "load_model co ReasonOutput j = Inr r" "jget r ''confidence'' = JNull"
  shows "raises (get_fsm_reasoning_summary pe ''reason'' r)"
proof -
  from assms(1) have "keys r = names ReasonOutput" by (auto simp: load_model_def invalid_def split: json.splits if_splits dest: check_fields_keys)
  then have "''confidence'' \<in> set (keys r)" "r \<noteq> []" by (auto simp: ReasonOutput_def simp del: set_map)
  then obtain v where "map_of r ''confidence'' = Some v" by (metis map_of_eq_None_keys not_None_eq)
  with assms(2) have "jget_or r ''confidence'' (JNum 0) = JNull" by (simp add: jget_def jget_or_def)
  then have "Inl (Exn ''TypeError'' []) \<in> set (reason_summary pe r)"
    by (simp add: reason_summary_def Let_def part_def percent_def type_error_def)
  then show ?thesis using \<open>r \<noteq> []\<close> by (simp add: get_fsm_reasoning_summary_def collect_raises)
qed

theorem reason_summary_raises_witness:
  "\<exists>r. load_model plain_coercions ReasonOutput (JObj [(''todo_id'', JStr ''1''), (''atomic_step'', JStr ''read''), (''why_now'', JStr ''new'')]) = Inr r
     \<and> raises (get_fsm_reasoning_summary plain_pe ''reason'' r)"
proof -
  let ?j = "JObj [(''todo_id'', JStr ''1''), (''atomic_step'', JStr ''read''), (''why_now'', JStr ''new'')]"
  let ?r = "[(''todo_id'', JStr ''1''), (''atomic_step'', JStr ''read''), (''why_now'', JStr ''new''), (''next_phase'', JStr ''act''), (''confidence'', JNull),
    (''evidence_used'', JNull), (''risks'', JNull)]"
  have l: "load_model plain_coercions ReasonOutput ?j = Inr ?r" by code_simp
  have "jget ?r ''confidence'' = JNull" by (simp add: jget_def)
  from reason_summary_raises [OF l this] l show ?thesis by blast
qed

end
