(* ===== verification/SessionFiles.thy ===== *)
theory SessionFiles
  imports SessionManager FsmPhases Redaction
begin

text \<open>
  Export of sessions to files and import from them, \<open>session/export_import.py\<close>. A file holds a text, a compressed text, or what a failing
  \<open>json.dump\<close> had written before it raised. \<open>dump\<close> is the indented text of an object; sizes are those of UTF-8.
\<close>

declare map_of_eq_Some_iff [simp del] Some_eq_map_of_iff [simp del]

datatype content = Plain string | Gzip string | Torn

type_synonym files = "(string \<times> content) list"

subsection \<open>Export\<close>

definition utf8_size :: "string \<Rightarrow> nat" where
  "utf8_size t = sum_list (map (\<lambda>c. if (of_char c :: nat) < 128 then 1 else 2) t)"

definition message_text :: "message \<Rightarrow> string" where
  "message_text m = (case jget_or (msg_dump m) ''text'' (JStr []) of JStr t \<Rightarrow> t | _ \<Rightarrow> [])"

definition message_role :: "message \<Rightarrow> string" where
  "message_role m = (case jget (msg_dump m) ''role'' of JStr t \<Rightarrow> t | _ \<Rightarrow> [])"

text \<open>\<open>json.dumps({"role": ..., "content": ...})\<close>.\<close>

definition role_line :: "message \<Rightarrow> string" where
  "role_line m = ''{'' @ dumps_text ''role'' @ '': '' @ dumps_text (message_role m) @ '', '' @ dumps_text ''content'' @ '': '' @ dumps_text (message_text m) @ ''}''"

definition jsonl :: "message list \<Rightarrow> string" where
  "jsonl ms = concat (map (\<lambda>m. role_line m @ line_feed) ms)"

definition session_part :: "session \<Rightarrow> json" where
  "session_part s = JObj [(''id'', JStr (s_id s)), (''title'', JStr (s_title s)), (''project_id'', JStr (s_project_id s)), (''directory'', JStr (s_directory s)),
     (''time_created'', JNum (s_time_created s)), (''time_updated'', JNum (s_time_updated s)), (''version'', JStr (s_version s))]"

record export_info =
  ei_path :: string
  ei_format :: string
  ei_count :: nat
  ei_size :: nat

definition written :: "string \<Rightarrow> string \<Rightarrow> nat \<Rightarrow> content \<Rightarrow> string \<Rightarrow> files \<Rightarrow> export_info raising \<times> files" where
  "written path fmt n c text fs = (Inr \<lparr>ei_path = path, ei_format = fmt, ei_count = n, ei_size = utf8_size text\<rparr>, AList.update path c fs)"

text \<open>The messages are objects of a class, which redaction keeps and \<open>json.dump\<close> refuses.\<close>

definition export_session :: "manager \<Rightarrow> (dict \<Rightarrow> bool) \<Rightarrow> (json \<Rightarrow> string) \<Rightarrow> string \<Rightarrow> rat \<Rightarrow> string \<Rightarrow> string option \<Rightarrow> string \<Rightarrow> store \<Rightarrow> files
    \<Rightarrow> export_info raising \<times> files" where
  "export_session mg valid dump cwd now sid path fmt st fs =
     (let path = (case path of Some p \<Rightarrow> p | None \<Rightarrow> cwd @ ''/'' @ sid @ ''.'' @ fmt)
      in case mg_get_session mg now sid st of
           Inl e \<Rightarrow> (Inl e, fs)
         | Inr None \<Rightarrow> (Inl (Exn ''ValueError'' (''Session not found: '' @ sid)), fs)
         | Inr (Some s) \<Rightarrow> (case mg_list_messages valid sid st of
             Inl e \<Rightarrow> (Inl e, fs)
           | Inr ms \<Rightarrow>
               if fmt = ''json'' then
                 (if ms = [] then (let t = dump (redact_value (JObj [(''session'', session_part s), (''messages'', JArr [])])) in written path fmt 0 (Plain t) t fs)
                  else (Inl (Exn ''TypeError'' ''Object of type Message is not JSON serializable''), AList.update path Torn fs))
               else if fmt = ''jsonl'' then written path fmt (length ms) (Plain (jsonl ms)) (jsonl ms) fs
               else if fmt = ''jsonl.gz'' then written path fmt (length ms) (Gzip (jsonl ms)) (jsonl ms) fs
               else (Inl (Exn ''ValueError'' (''Unsupported format: '' @ fmt)), fs)))"

subsection \<open>Import\<close>

text \<open>A suffix is only the last one of a name, so the branch for compressed files is never taken: every file is read as a text of JSON, and a compressed one is not UTF-8.\<close>

definition read_export :: "string \<Rightarrow> files \<Rightarrow> json raising" where
  "read_export path fs = (case map_of fs path of
     None \<Rightarrow> Inl (Exn ''FileNotFoundError'' (''Import file not found: '' @ path))
   | Some (Plain t) \<Rightarrow> (case loads t of Some j \<Rightarrow> Inr j | None \<Rightarrow> Inl (Exn ''JSONDecodeError'' []))
   | Some (Gzip t) \<Rightarrow> Inl (Exn ''UnicodeDecodeError'' [])
   | Some Torn \<Rightarrow> Inl (Exn ''JSONDecodeError'' []))"

text \<open>Items that are no objects are passed over.\<close>

definition messages_of :: "(dict \<Rightarrow> bool) \<Rightarrow> json \<Rightarrow> message list raising" where
  "messages_of valid j = (case items_of j of
     Inl e \<Rightarrow> Inl e
   | Inr xs \<Rightarrow> load_all (message_load valid) (List.map_filter (\<lambda>x. case x of JObj d \<Rightarrow> Some d | _ \<Rightarrow> None) xs))"

definition store_messages :: "string \<Rightarrow> message list \<Rightarrow> store \<Rightarrow> published \<Rightarrow> (string \<times> nat) raising \<times> store \<times> published" where
  "store_messages sid ms st evs = (case mg_create_messages sid ms st of
     (Inl e, st) \<Rightarrow> (Inl e, st, evs) | (Inr _, st) \<Rightarrow> (Inr (sid, length ms), st, evs))"

definition import_session :: "manager \<Rightarrow> (dict \<Rightarrow> bool) \<Rightarrow> string \<Rightarrow> string \<Rightarrow> rat \<Rightarrow> string \<Rightarrow> files \<Rightarrow> store \<Rightarrow> (string \<times> nat) raising \<times> store \<times> published" where
  "import_session mg valid cwd_name uuid now path fs st =
     (case read_export path fs of
        Inl e \<Rightarrow> (Inl e, st, [])
      | Inr j \<Rightarrow> (case as_obj j of
          Inl e \<Rightarrow> (Inl e, st, [])
        | Inr d \<Rightarrow> (case as_obj (jget_or d ''session'' (JObj [])) of
            Inl e \<Rightarrow> (Inl e, st, [])
          | Inr sd \<Rightarrow> (case messages_of valid (jget_or d ''messages'' (JArr [])) of
              Inl e \<Rightarrow> (Inl e, st, [])
            | Inr ms \<Rightarrow> (case (case jget sd ''id'' of JStr i \<Rightarrow> get_session now i cwd_name st | _ \<Rightarrow> Inr None) of
                Inl e \<Rightarrow> (Inl e, st, [])
              | Inr (Some s) \<Rightarrow> (case mg_update_session mg now (case jget sd ''id'' of JStr i \<Rightarrow> i | _ \<Rightarrow> []) [(''title'', jget sd ''title''), (''summary'', jget sd ''summary'')] st of
                  (Inl e, st, evs) \<Rightarrow> (Inl e, st, evs)
                | (Inr x, st, evs) \<Rightarrow> (case jget x ''id'' of JStr i \<Rightarrow> store_messages i ms st evs | _ \<Rightarrow> (no_get, st, evs)))
              | Inr None \<Rightarrow> (case (jget_or sd ''title'' (JStr ''Imported Session''), jget_or sd ''version'' (JStr ''1.0.0'')) of
                  (JStr t, JStr v) \<Rightarrow> (case mg_create mg uuid now t None v (jget sd ''summary'') st of
                    (Inl e, st, evs) \<Rightarrow> (Inl e, st, evs) | (Inr s, st, evs) \<Rightarrow> store_messages (s_id s) ms st evs)
                | _ \<Rightarrow> (invalid_session, st, [])))))))"

subsection \<open>What was exported as lines\<close>

lemma read_member:
  assumes "c = CHR 0x7D \<or> c = CHR '',''"
  shows "read_members (Suc (Suc n)) d (dumps_text k @ '': '' @ dumps_text v @ c # r)
    = (if c = CHR 0x7D then Some (AList.update k (JStr v) d, r) else read_members (Suc n) (AList.update k (JStr v) d) (skip r))"
proof -
  have "read_text (concat (map escape_char k) @ CHR 0x22 # '': '' @ dumps_text v @ c # r) = Some (k, '': '' @ dumps_text v @ c # r)" by (rule read_escaped)
  moreover have "read_value (Suc n) (dumps_text v @ c # r) = Some (JStr v, c # r)" by (rule read_value_text)
  moreover have "skip (CHR '' '' # dumps_text v @ c # r) = dumps_text v @ c # r" by (rule skip_text)
  moreover have "dumps_text k @ '': '' @ dumps_text v @ c # r = CHR 0x22 # concat (map escape_char k) @ CHR 0x22 # '': '' @ dumps_text v @ c # r"
    by (simp add: dumps_text_def)
  moreover have "skip (CHR '':'' # x) = CHR '':'' # x" "skip (c # x) = c # x" for x using assms by (auto simp: json_space_def)
  ultimately show ?thesis using assms by auto
qed

lemma read_role_line:
  "read_value (Suc (Suc (Suc (Suc n)))) (role_line m @ r) = Some (JObj [(''role'', JStr (message_role m)), (''content'', JStr (message_text m))], r)"
proof -
  let ?t = "dumps_text ''content'' @ '': '' @ dumps_text (message_text m) @ ''}'' @ r"
  have l: "role_line m @ r = CHR 0x7B # dumps_text ''role'' @ '': '' @ dumps_text (message_role m) @ CHR '','' # CHR '' '' # ?t"
    by (simp add: role_line_def)
  have h: "dumps_text ''role'' @ x = CHR 0x22 # tl (dumps_text ''role'' @ x)" for x by (simp add: dumps_text_def)
  have "read_members (Suc (Suc (Suc n))) [] (dumps_text ''role'' @ '': '' @ dumps_text (message_role m) @ CHR '','' # CHR '' '' # ?t)
      = read_members (Suc (Suc n)) [(''role'', JStr (message_role m))] ?t"
    by (subst read_member) (simp_all add: skip_text json_space_def)
  also have "\<dots> = Some ([(''role'', JStr (message_role m)), (''content'', JStr (message_text m))], r)"
    using read_member [of "CHR 0x7D" n "[(''role'', JStr (message_role m))]" "''content''" "message_text m" r] by simp
  finally show ?thesis unfolding l
    by (subst h, subst (asm) h) (simp add: read_value.simps(2) json_space_def)
qed

lemma jsonl_read: "read_value (Suc (2 * length (jsonl (m # ms)))) (skip (jsonl (m # ms)))
   = Some (JObj [(''role'', JStr (message_role m)), (''content'', JStr (message_text m))], line_feed @ jsonl ms)"
proof -
  have "4 \<le> Suc (2 * length (jsonl (m # ms)))" by (simp add: jsonl_def role_line_def)
  then obtain n where "Suc (2 * length (jsonl (m # ms))) = 4 + n" using le_Suc_ex by blast
  then have n: "Suc (2 * length (jsonl (m # ms))) = Suc (Suc (Suc (Suc n)))" by linarith
  have "skip (jsonl (m # ms)) = role_line m @ line_feed @ jsonl ms" by (simp add: jsonl_def role_line_def json_space_def)
  then show ?thesis unfolding n by (simp only: read_role_line)
qed

lemma loads_jsonl:
  "loads (jsonl ms) = (case ms of [m] \<Rightarrow> Some (JObj [(''role'', JStr (message_role m)), (''content'', JStr (message_text m))]) | _ \<Rightarrow> None)"
proof (cases ms)
  case Nil
  then show ?thesis by (simp add: jsonl_def loads_def read_value.simps(2))
next
  case (Cons m ns)
  have "skip (CHR 0x0A # jsonl ns) = jsonl ns" by (cases ns) (simp_all add: jsonl_def role_line_def json_space_def)
  moreover have "jsonl ns = [] \<longleftrightarrow> ns = []" by (cases ns) (simp_all add: jsonl_def role_line_def)
  ultimately show ?thesis using Cons jsonl_read [of m ns] by (simp add: loads_def del: dropWhile_eq_Nil_conv dropWhile.simps split: list.splits)
qed

text \<open>C38. No exported message comes back. A session that has messages cannot be exported as JSON, which leaves a torn file; as lines it is written, but its
  file is imported only when it has exactly one line, and then as a new session without any message; the compressed file is never read.\<close>

theorem exports_do_not_return:
  assumes "mg_get_session mg now sid st = Inr (Some s)" "mg_list_messages valid sid st = Inr ms" "ms \<noteq> []"
    and "export_session mg valid dump cwd now sid (Some path) fmt st fs = (r, fs')"
    and "import_session mg valid cwd_name uuid now2 path fs' st2 = (q, st3, evs)"
  shows "(fmt = ''json'' \<longrightarrow> raises r \<and> map_of fs' path = Some Torn \<and> raises q)
    \<and> (fmt = ''jsonl'' \<longrightarrow> \<not> raises r \<and> (if length ms = 1 then \<forall>i n. q = Inr (i, n) \<longrightarrow> i = uuid \<and> n = 0 else raises q))
    \<and> (fmt = ''jsonl.gz'' \<longrightarrow> \<not> raises r \<and> raises q)"
proof (intro conjI impI)
  assume "fmt = ''json''"
  with assms show "raises r" "map_of fs' path = Some Torn" "raises q"
    by (auto simp: export_session_def Let_def import_session_def read_export_def raises_def)
next
  assume "fmt = ''jsonl.gz''"
  with assms show "\<not> raises r" "raises q"
    by (auto simp: export_session_def Let_def import_session_def read_export_def raises_def written_def)
next
  assume f: "fmt = ''jsonl''"
  with assms have r: "\<not> raises r" and m: "map_of fs' path = Some (Plain (jsonl ms))"
    by (auto simp: export_session_def Let_def raises_def written_def)
  show "\<not> raises r" by (rule r)
  show "if length ms = 1 then \<forall>i n. q = Inr (i, n) \<longrightarrow> i = uuid \<and> n = 0 else raises q"
  proof (cases "length ms = 1")
    case False
    then have "read_export path fs' = Inl (Exn ''JSONDecodeError'' [])" using m assms(3)
      by (auto simp: read_export_def loads_jsonl split: list.splits)
    with False assms(5) show ?thesis by (auto simp: import_session_def raises_def)
  next
    case True
    then obtain x where "ms = [x]" by (cases ms) auto
    with m have "read_export path fs' = Inr (JObj [(''role'', JStr (message_role x)), (''content'', JStr (message_text x))])"
      by (simp add: read_export_def loads_jsonl)
    with True assms(5) show ?thesis
      by (auto simp: import_session_def as_obj_def jget_or_def jget_def messages_of_def items_of_def List.map_filter_def mg_create_def Let_def store_messages_def
        create_session_def split: sum.splits prod.splits)
  qed
qed

definition example_message :: "string \<Rightarrow> message" where
  "example_message i = \<lparr>msg_id = i, msg_session_id = ''s1'', msg_dump = [(''id'', JStr i), (''session_id'', JStr ''s1''), (''role'', JStr ''user''), (''text'', JStr ''Hi'')]\<rparr>"

definition busy_store :: store where
  "busy_store = snd (create_message ''s1'' (example_message ''m2'') (snd (create_message ''s1'' (example_message ''m1'') (snd (create_session example_session st_init)))))"

theorem exports_do_not_return_witness:
  "\<exists>r fs q st evs. export_session here (\<lambda>_. True) (\<lambda>_. []) ''/w'' 0 ''s1'' (Some ''f'') ''jsonl'' busy_store [] = (r, fs)
     \<and> import_session here (\<lambda>_. True) ''p'' ''u1'' 0 ''f'' fs st_init = (q, st, evs) \<and> \<not> raises r \<and> raises q"
proof -
  have g: "mg_get_session here 0 ''s1'' busy_store = Inr (Some example_session)" by code_simp
  have l: "mg_list_messages (\<lambda>_. True) ''s1'' busy_store = Inr [example_message ''m1'', example_message ''m2'']" by code_simp
  obtain r fs where e: "export_session here (\<lambda>_. True) (\<lambda>_. []) ''/w'' 0 ''s1'' (Some ''f'') ''jsonl'' busy_store [] = (r, fs)" by fastforce
  obtain q st evs where i: "import_session here (\<lambda>_. True) ''p'' ''u1'' 0 ''f'' fs st_init = (q, st, evs)" by (metis prod_cases3)
  from exports_do_not_return [OF g l _ e i] e i show ?thesis by simp
qed

subsection \<open>An import without a title\<close>

lemma load_sessions_raises:
  assumes "k \<in> set ks" "st_read k st = Inr (Some (x # d))" "\<exists>e. session_load now (x # d) = Inl e"
  shows "raises (load_sessions now ks st)"
  using assms(1)
proof (induction ks)
  case (Cons j ks)
  show ?case
  proof (cases "j = k")
    case True
    with assms(2,3) show ?thesis by (auto simp: raises_def)
  next
    case False
    with Cons have "raises (load_sessions now ks st)" by simp
    then show ?thesis by (auto simp: raises_def split: sum.splits option.splits list.splits)
  qed
qed simp

lemma untitled_not_loaded: "jget d ''title'' = JNull \<Longrightarrow> \<exists>e. session_load now d = Inl e"
  by (auto simp: session_load_def invalid_session_def str_opt_def split: if_splits option.splits)

lemma list_sessions_raises:
  assumes "st_inv st" "map_of (st_files st) p = Some d" "get_path [''session'', project] = Inr b" "strict_prefix b p" "d \<noteq> []" "jget d ''title'' = JNull"
  shows "raises (list_sessions now project st)"
proof -
  let ?ks = "sort (filter (strict_prefix b) (keys (st_files st)))"
  have l: "st_list [''session'', project] st = Inr ?ks" using assms(3) by (simp add: st_list_def)
  have m: "p \<in> set ?ks" using map_of_in_keys [OF assms(2)] assms(4) by (simp del: set_map)
  obtain x xs where d: "d = x # xs" using assms(5) by (cases d) auto
  have "st_read p st = Inr (Some (x # xs))" using listed_reads [OF assms(1) l m] assms(2) d by (metis option.inject)
  from load_sessions_raises [OF m this] untitled_not_loaded [OF assms(6)] d have "raises (load_sessions now ?ks st)" by blast
  then show ?thesis by (cases "load_sessions now ?ks st") (simp_all add: list_sessions_def l)
qed

lemma untitled_update:
  assumes "st_inv st" "mg_get_session mg now i st = Inr (Some s)" "s_project_id s = mg_name mg"
    and "mg_update_session mg now i [(''title'', JNull), (''summary'', j)] st = (Inr x, st', evs)"
  shows "st_inv st' \<and> raises (mg_list_sessions mg later st')"
proof -
  let ?d = "AList.update ''time_updated'' (JNum now) (set_fields [(''title'', JNull), (''summary'', j)] (session_dump s))"
  have f: "jget ?d ''title'' = JNull" "jget ?d ''project_id'' = JStr (mg_name mg)" "jget ?d ''id'' = JStr (s_id s)" "?d \<noteq> []"
    using assms(3) by (simp_all add: set_fields_def session_fields_def session_rest_fields_def jget_def session_dump_def)
  then have "dump_keys ?d = Inr (session_keys s)" using assms(3) by (simp add: dump_keys_def session_keys_def)
  with assms(2,4) have w: "st_write (session_keys s) ?d st = (Inr (), st')"
    by (auto simp: mg_update_session_def Let_def split: prod.splits sum.splits)
  have inv: "st_inv st'" using assms(1) w by (rule st_write_inv)
  from w obtain p where p: "key_path (session_keys s) = Inr p" "st_files st' = AList.update p ?d (st_files st)" by (rule st_write_file)
  from p(1) obtain b where b: "get_path [''session'', s_project_id s] = Inr b" "p = b @ [with_json (s_id s)]" by (rule session_path)
  have "map_of (st_files st') p = Some ?d" using p(2) by simp
  moreover have "strict_prefix b p" by (simp add: b(2) strict_prefix_def)
  ultimately show ?thesis using list_sessions_raises [OF inv _ b(1) _ f(4,1)] inv assms(3) by (simp add: mg_list_sessions_def)
qed



end
