(* ===== verification/Strategies.thy ===== *)
theory Strategies
  imports Results Texts "HOL-Library.Multiset"
begin

text \<open>
  The routing and rendering strategies of \<open>core/strategies.py\<close> and their selector. A provider is a value of any type with a function for its optional attribute
  \<open>cost\<close>; prices are rationals.
\<close>

declare map_of_eq_Some_iff [simp del] Some_eq_map_of_iff [simp del]

subsection \<open>Routing\<close>

definition no_providers :: "'p result" where
  "no_providers = Err ''No providers available'' (Some ''NO_PROVIDERS'') False"

text \<open>\<open>RoundRobinRouting.select_provider\<close> with its index.\<close>

definition round_robin :: "'p list \<Rightarrow> nat \<Rightarrow> 'p result raising \<times> nat" where
  "round_robin ps i =
     (if ps = [] then (Inr no_providers, i)
      else if length ps \<le> i then (Inl (Exn ''IndexError'' ''list index out of range''), i)
      else (Inr (Ok (ps ! i)), (i + 1) mod length ps))"

fun round_robins :: "nat \<Rightarrow> 'p list \<Rightarrow> nat \<Rightarrow> 'p result raising list \<times> nat" where
  "round_robins 0 ps i = ([], i)"
| "round_robins (Suc n) ps i = (case round_robin ps i of (r, i) \<Rightarrow> (case round_robins n ps i of (rs, i) \<Rightarrow> (r # rs, i)))"

definition estimate_tokens :: "string list \<Rightarrow> nat" where
  "estimate_tokens texts = sum_list (map (\<lambda>t. length t div 4) texts)"

definition get_pricing :: "('p \<Rightarrow> rat option) \<Rightarrow> 'p \<Rightarrow> rat" where
  "get_pricing cost p = (case cost p of Some c \<Rightarrow> c | None \<Rightarrow> 1 / 1000)"

definition affordable :: "rat option \<Rightarrow> rat \<Rightarrow> bool" where
  "affordable budget c = (case budget of None \<Rightarrow> True | Some b \<Rightarrow> c \<le> b)"

text \<open>The loop; without a provider so far every cost is less than infinity.\<close>

fun cheapest :: "('p \<Rightarrow> rat) \<Rightarrow> rat option \<Rightarrow> 'p list \<Rightarrow> 'p option \<Rightarrow> 'p option" where
  "cheapest price budget [] best = best"
| "cheapest price budget (p # ps) best = cheapest price budget ps
     (if (case best of None \<Rightarrow> True | Some q \<Rightarrow> price p < price q) \<and> affordable budget (price p) then Some p else best)"

definition cost_optimized :: "('p \<Rightarrow> rat option) \<Rightarrow> string list \<Rightarrow> rat option \<Rightarrow> 'p list \<Rightarrow> 'p result" where
  "cost_optimized cost texts budget ps =
     (if ps = [] then no_providers
      else case cheapest (\<lambda>p. of_nat (estimate_tokens texts) * get_pricing cost p) budget ps None of
        Some p \<Rightarrow> Ok p
      | None \<Rightarrow> Err ''No suitable provider found'' (Some ''NO_PROVIDER'') False)"

subsection \<open>Rendering\<close>

definition plain_text :: "string \<Rightarrow> string" where
  "plain_text response = response"

text \<open>\<open>text.split("\n")\<close>.\<close>

fun split_on :: "char \<Rightarrow> string \<Rightarrow> string list" where
  "split_on c [] = [[]]"
| "split_on c (x # xs) = (if x = c then [] # split_on c xs else case split_on c xs of l # ls \<Rightarrow> (x # l) # ls | [] \<Rightarrow> [[x]])"

definition markdown_line :: "string \<Rightarrow> string" where
  "markdown_line l = (if prefix ''- '' (str_strip l) then ''  '' @ l else l)"

definition markdown :: "string \<Rightarrow> string" where
  "markdown response = str_join [CHR 0x0A] (map markdown_line (split_on CHR 0x0A response))"

subsection \<open>The selector\<close>

datatype 's chosen = Registered 's | New_cost_optimized

definition register_strategy :: "string \<Rightarrow> 's \<Rightarrow> (string \<times> 's) list \<Rightarrow> (string \<times> 's) list" where
  "register_strategy name s ss = AList.update name s ss"

definition select_strategy :: "string \<Rightarrow> bool \<Rightarrow> (string \<times> 's) list \<Rightarrow> 's chosen result" where
  "select_strategy kind production ss = (case map_of ss kind of
     None \<Rightarrow> Err (''Strategy not found: '' @ kind) (Some ''STRATEGY_NOT_FOUND'') False
   | Some s \<Rightarrow> if production \<and> kind = ''routing'' then Ok New_cost_optimized else Ok (Registered (snd (hd ss))))"

subsection \<open>Properties\<close>

lemma round_robins_rotate:
  "i < length ps \<Longrightarrow> n \<le> length ps \<Longrightarrow> round_robins n ps i = (map (\<lambda>j. Inr (Ok (ps ! ((i + j) mod length ps)))) [0..<n], (i + n) mod length ps)"
proof (induction n arbitrary: i)
  case (Suc n)
  let ?i = "(i + 1) mod length ps"
  have "ps \<noteq> []" using Suc.prems by auto
  then have "?i < length ps" by simp
  with Suc have "round_robins n ps ?i = (map (\<lambda>j. Inr (Ok (ps ! ((?i + j) mod length ps)))) [0..<n], (?i + n) mod length ps)" by simp
  moreover have "map f [0..<Suc n] = f 0 # map (\<lambda>j. f (Suc j)) [0..<n]" for f :: "nat \<Rightarrow> 'a result raising"
    by (simp only: upt_conv_Cons [OF zero_less_Suc] list.map map_Suc_upt [symmetric] map_map comp_def)
  moreover have "(?i + j) mod length ps = (i + Suc j) mod length ps" for j using mod_add_left_eq [of "i + 1" "length ps" j] by simp
  moreover have "round_robin ps i = (Inr (Ok (ps ! i)), ?i)" using Suc.prems \<open>ps \<noteq> []\<close> by (simp add: round_robin_def)
  ultimately show ?case using Suc.prems by (simp del: upt_Suc)
qed simp

text \<open>Round robin is fair: as long as the providers stay the same, each of as many calls as there are providers is answered by another one, whatever the index
  was, and the index comes back. When the list has become shorter the index may point behind it, and then this and every later call raises.\<close>

theorem round_robin_fair:
  "(i < length ps \<longrightarrow> (case round_robins (length ps) ps i of (rs, j) \<Rightarrow> j = i \<and> mset rs = image_mset (\<lambda>p. Inr (Ok p)) (mset ps)))
   \<and> (ps \<noteq> [] \<and> length ps \<le> i \<longrightarrow> (case round_robins (Suc n) ps i of (rs, j) \<Rightarrow> j = i \<and> length rs = Suc n \<and> list_all raises rs))"
proof (intro conjI impI)
  assume i: "i < length ps"
  have r: "map (\<lambda>j. ps ! ((i + j) mod length ps)) [0..<length ps] = rotate i ps"
    by (rule nth_equalityI) (simp_all add: nth_rotate ac_simps)
  have "mset (map (\<lambda>j. Inr (Ok (ps ! ((i + j) mod length ps)))) [0..<length ps]) = image_mset (\<lambda>p. Inr (Ok p)) (mset (rotate i ps))"
    unfolding r [symmetric] by (simp add: image_mset.compositionality comp_def)
  moreover have "mset (rotate i ps) = mset ps" by (simp add: rotate_drop_take) (metis append_take_drop_id mset_append union_commute)
  ultimately show "case round_robins (length ps) ps i of (rs, j) \<Rightarrow> j = i \<and> mset rs = image_mset (\<lambda>p. Inr (Ok p)) (mset ps)"
    using i by (simp add: round_robins_rotate del: mset_map)
next
  assume i: "ps \<noteq> [] \<and> length ps \<le> i"
  have r: "\<exists>rs. round_robins n ps i = (rs, i) \<and> length rs = n \<and> list_all raises rs" for n
    by (induction n) (use i in \<open>auto simp: round_robin_def\<close>)
  obtain rs where "round_robins (Suc n) ps i = (rs, i)" "length rs = Suc n" "list_all raises rs" using r by blast
  then show "case round_robins (Suc n) ps i of (rs, j) \<Rightarrow> j = i \<and> length rs = Suc n \<and> list_all raises rs" by (simp del: round_robins.simps)
qed

theorem round_robin_fair_witness:
  "round_robins 3 [''a'', ''b'', ''c''] 1 = ([Inr (Ok ''b''), Inr (Ok ''c''), Inr (Ok ''a'')], 1) \<and> list_all raises (fst (round_robins (Suc 1) [''a''] 1))"
proof
  show "round_robins 3 [''a'', ''b'', ''c''] 1 = ([Inr (Ok ''b''), Inr (Ok ''c''), Inr (Ok ''a'')], 1)" by code_simp
  have "case round_robins (Suc 1) [''a''] 1 of (rs, j) \<Rightarrow> j = 1 \<and> length rs = Suc 1 \<and> list_all raises rs"
    using round_robin_fair [of 1 "[''a'']" 1] by simp
  then show "list_all raises (fst (round_robins (Suc 1) [''a''] 1))" by (cases "round_robins (Suc 1) [''a''] 1") simp
qed

lemma cheapest_best:
  "cheapest price budget ps (Some q) = Some r \<Longrightarrow> affordable budget (price q) \<Longrightarrow>
     affordable budget (price r) \<and> (r = q \<or> r \<in> set ps) \<and> price r \<le> price q \<and> (\<forall>p \<in> set ps. affordable budget (price p) \<longrightarrow> price r \<le> price p)"
  by (induction ps arbitrary: q) (fastforce split: if_splits)+

lemma cheapest_some: "\<exists>r. cheapest price budget ps (Some q) = Some r"
  by (induction ps arbitrary: q) auto

lemma cheapest_spec:
  "(case cheapest price budget ps None of
      None \<Rightarrow> \<forall>p \<in> set ps. \<not> affordable budget (price p)
    | Some r \<Rightarrow> r \<in> set ps \<and> affordable budget (price r) \<and> (\<forall>p \<in> set ps. affordable budget (price p) \<longrightarrow> price r \<le> price p))"
proof (induction ps)
  case (Cons p ps)
  show ?case
  proof (cases "affordable budget (price p)")
    case True
    obtain r where "cheapest price budget ps (Some p) = Some r" using cheapest_some [of price budget ps p] by blast
    with True cheapest_best [OF this True] show ?thesis by auto
  next
    case False
    with Cons show ?thesis by (auto split: option.splits)
  qed
qed simp

text \<open>The provider of the cost strategy is a cheapest one among those within the budget, and there is none exactly when no cost is within it.\<close>

lemma cost_optimized_spec:
  fixes cost :: "'p \<Rightarrow> rat option" and texts :: "string list"
  assumes "ps \<noteq> []"
  defines "price \<equiv> \<lambda>p. of_nat (estimate_tokens texts) * get_pricing cost p"
  shows "case cost_optimized cost texts budget ps of
      Ok r \<Rightarrow> r \<in> set ps \<and> affordable budget (price r) \<and> (\<forall>p \<in> set ps. affordable budget (price p) \<longrightarrow> price r \<le> price p)
    | _ \<Rightarrow> \<forall>p \<in> set ps. \<not> affordable budget (price p)"
  using cheapest_spec [where price = price and budget = budget and ps = ps] assms(1) by (auto simp: cost_optimized_def price_def split: option.splits)

lemma select_ignores_type:
  "map_of ss kind = Some s \<Longrightarrow> \<not> (production \<and> kind = ''routing'') \<Longrightarrow> select_strategy kind production ss = Ok (Registered (snd (hd ss)))"
  by (auto simp: select_strategy_def)

lemma join_split: "str_join [c] (split_on c t) = t"
proof (induction t)
  case (Cons x t)
  then show ?case by (cases "split_on c t"; cases "tl (split_on c t)") (auto split: list.splits)
qed simp

lemma markdown_id: "\<forall>l \<in> set (split_on CHR 0x0A t). \<not> prefix ''- '' (str_strip l) \<Longrightarrow> markdown t = t"
proof -
  assume "\<forall>l \<in> set (split_on CHR 0x0A t). \<not> prefix ''- '' (str_strip l)"
  then have "map markdown_line (split_on CHR 0x0A t) = split_on CHR 0x0A t" by (simp add: markdown_line_def map_idI)
  then show ?thesis by (simp add: markdown_def join_split)
qed

end
