(* ===== verification/ProviderRegistry.thy ===== *)
theory ProviderRegistry
  imports Storage
begin

text \<open>
  Provider configurations, \<open>core/provider_config.py\<close>, and their registry, \<open>providers/registry.py\<close>. A configuration is a dataclass
  without validation, so its fields are JSON values. The directory of the registry is a dictionary from names to the JSON value of the file,
  \<open>None\<close> for a file that cannot be read; a name is not empty and has no slash. What opening or removing a file raises is an
  argument. An event is the data that the session lifecycle is given.
\<close>

declare map_of_eq_Some_iff [simp del] Some_eq_map_of_iff [simp del]

subsection \<open>Configurations\<close>

record provider_config =
  pc_provider_id :: json
  pc_model :: json
  pc_api_key :: json
  pc_base_url :: json
  pc_options :: json
  pc_is_default :: json
  pc_name :: json
  pc_description :: json

definition config_dict :: "provider_config \<Rightarrow> dict" where
  "config_dict c = [(''provider_id'', pc_provider_id c), (''model'', pc_model c), (''api_key'', pc_api_key c), (''base_url'', pc_base_url c),
     (''options'', pc_options c), (''is_default'', pc_is_default c), (''name'', pc_name c), (''description'', pc_description c)]"

definition field_of :: "dict \<Rightarrow> string \<Rightarrow> json \<Rightarrow> json" where
  "field_of d k dflt = (case map_of d k of None \<Rightarrow> dflt | Some v \<Rightarrow> v)"

definition config_from :: "dict \<Rightarrow> provider_config" where
  "config_from d = \<lparr>pc_provider_id = field_of d ''provider_id'' (JStr []), pc_model = field_of d ''model'' (JStr []), pc_api_key = jget d ''api_key'',
     pc_base_url = jget d ''base_url'', pc_options = field_of d ''options'' (JObj []), pc_is_default = field_of d ''is_default'' (JBool False),
     pc_name = jget d ''name'', pc_description = jget d ''description''\<rparr>"

text \<open>Only dictionaries and lists have \<open>copy\<close>.\<close>

definition with_model :: "string \<Rightarrow> provider_config \<Rightarrow> provider_config raising" where
  "with_model m c = (case pc_options c of
     JObj _ \<Rightarrow> Inr (c\<lparr>pc_model := JStr m\<rparr>) | JArr _ \<Rightarrow> Inr (c\<lparr>pc_model := JStr m\<rparr>) | _ \<Rightarrow> Inl (Exn ''AttributeError'' ''copy''))"

definition create_provider_config :: "string \<Rightarrow> string \<Rightarrow> string option \<Rightarrow> string option \<Rightarrow> dict option \<Rightarrow> bool \<Rightarrow> string option \<Rightarrow> string option \<Rightarrow> provider_config" where
  "create_provider_config pid m key url options dflt name descr =
     \<lparr>pc_provider_id = JStr pid, pc_model = JStr m, pc_api_key = opt_str key, pc_base_url = opt_str url,
      pc_options = JObj (case options of Some d \<Rightarrow> d | None \<Rightarrow> []), pc_is_default = JBool dflt, pc_name = opt_str name, pc_description = opt_str descr\<rparr>"

lemma config_roundtrip: "config_from (config_dict c) = c"
  by (cases c) (simp add: config_from_def config_dict_def field_of_def jget_def)

subsection \<open>The registry\<close>

record provider_registry =
  pv_files :: "(string \<times> json option) list"
  pv_providers :: "(string \<times> provider_config) list"
  pv_default :: "string option"
  pv_lifecycle :: bool

definition pv_init :: "(string \<times> json option) list \<Rightarrow> provider_registry" where
  "pv_init files = \<lparr>pv_files = files, pv_providers = [], pv_default = None, pv_lifecycle = False\<rparr>"

definition register_lifecycle :: "provider_registry \<Rightarrow> provider_registry" where
  "register_lifecycle r = r\<lparr>pv_lifecycle := True\<rparr>"

definition emit_lifecycle_event :: "string \<Rightarrow> dict \<Rightarrow> provider_registry \<Rightarrow> dict list" where
  "emit_lifecycle_event event_type data r =
     (if pv_lifecycle r \<and> event_type \<in> {''provider_registered'', ''provider_removed'', ''provider_updated''} then [data] else [])"

definition persist :: "exn option \<Rightarrow> provider_config \<Rightarrow> string \<Rightarrow> provider_registry \<Rightarrow> exn option \<times> provider_registry" where
  "persist io c name r = (case io of Some e \<Rightarrow> (Some e, r)
     | None \<Rightarrow> (None, r\<lparr>pv_files := AList.update name (Some (JObj (config_dict c))) (pv_files r)\<rparr>))"

definition remove_from_storage :: "exn option \<Rightarrow> string \<Rightarrow> provider_registry \<Rightarrow> exn option \<times> provider_registry" where
  "remove_from_storage io name r =
     (if map_of (pv_files r) name = None then (None, r)
      else case io of Some e \<Rightarrow> (Some e, r) | None \<Rightarrow> (None, r\<lparr>pv_files := AList.delete name (pv_files r)\<rparr>))"

definition register_provider :: "exn option \<Rightarrow> string \<Rightarrow> provider_config \<Rightarrow> bool \<Rightarrow> provider_registry
    \<Rightarrow> provider_config raising \<times> provider_registry \<times> dict list" where
  "register_provider io name c is_default r =
     (if map_of (pv_providers r) name \<noteq> None then (Inl (Exn ''ValueError'' (''Provider already exists: '' @ name)), r, [])
      else let r = r\<lparr>pv_providers := AList.update name c (pv_providers r), pv_default := if is_default then Some name else pv_default r\<rparr>
           in case persist io c name r of
             (Some e, r) \<Rightarrow> (Inl e, r, [])
           | (None, r) \<Rightarrow> (Inr c, r, emit_lifecycle_event ''provider_registered'' [(''provider_name'', JStr name), (''config'', JObj (config_dict c))] r))"

definition get_provider :: "string \<Rightarrow> provider_registry \<Rightarrow> provider_config option" where
  "get_provider name r = map_of (pv_providers r) name"

definition list_providers :: "provider_registry \<Rightarrow> dict list" where
  "list_providers r = map (\<lambda>(name, c). [(''name'', JStr name), (''config'', JObj (config_dict c)), (''is_default'', JBool (Some name = pv_default r))]) (pv_providers r)"

definition remove_provider :: "exn option \<Rightarrow> string \<Rightarrow> provider_registry \<Rightarrow> bool raising \<times> provider_registry \<times> dict list" where
  "remove_provider io name r =
     (if map_of (pv_providers r) name = None then (Inr False, r, [])
      else let r = r\<lparr>pv_providers := AList.delete name (pv_providers r), pv_default := if pv_default r = Some name then None else pv_default r\<rparr>
           in case remove_from_storage io name r of
             (Some e, r) \<Rightarrow> (Inl e, r, [])
           | (None, r) \<Rightarrow> (Inr True, r, emit_lifecycle_event ''provider_removed'' [(''provider_name'', JStr name)] r))"

definition update_provider :: "exn option \<Rightarrow> string \<Rightarrow> provider_config \<Rightarrow> provider_registry \<Rightarrow> provider_config raising \<times> provider_registry \<times> dict list" where
  "update_provider io name c r =
     (if map_of (pv_providers r) name = None then (Inl (Exn ''ValueError'' (''Provider not found: '' @ name)), r, [])
      else let r = r\<lparr>pv_providers := AList.update name c (pv_providers r)\<rparr>
           in case persist io c name r of
             (Some e, r) \<Rightarrow> (Inl e, r, [])
           | (None, r) \<Rightarrow> (Inr c, r, emit_lifecycle_event ''provider_updated'' [(''provider_name'', JStr name), (''config'', JObj (config_dict c))] r))"

definition get_default_provider :: "provider_registry \<Rightarrow> provider_config option" where
  "get_default_provider r = (case pv_default r of Some (c # cs) \<Rightarrow> map_of (pv_providers r) (c # cs) | _ \<Rightarrow> None)"

definition set_default_provider :: "string \<Rightarrow> provider_registry \<Rightarrow> bool \<times> provider_registry" where
  "set_default_provider name r = (if map_of (pv_providers r) name = None then (False, r) else (True, r\<lparr>pv_default := Some name\<rparr>))"

definition load_one :: "string \<times> json option \<Rightarrow> provider_registry \<Rightarrow> provider_registry" where
  "load_one f r = (case snd f of
     Some (JObj d) \<Rightarrow> (let c = config_from d in r\<lparr>pv_providers := AList.update (fst f) c (pv_providers r),
         pv_default := if jtrue (pc_is_default c) then Some (fst f) else pv_default r\<rparr>)
   | _ \<Rightarrow> r)"

definition load_from_storage :: "provider_registry \<Rightarrow> provider_registry" where
  "load_from_storage r = fold load_one (pv_files r) r"

subsection \<open>Any history of operations\<close>

datatype provider_op =
    Register "exn option" string provider_config bool
  | Remove "exn option" string
  | Update "exn option" string provider_config
  | Set_default string
  | Load

fun provider_step :: "provider_op \<Rightarrow> provider_registry \<Rightarrow> provider_registry" where
  "provider_step (Register io n c b) r = fst (snd (register_provider io n c b r))"
| "provider_step (Remove io n) r = fst (snd (remove_provider io n r))"
| "provider_step (Update io n c) r = fst (snd (update_provider io n c r))"
| "provider_step (Set_default n) r = snd (set_default_provider n r)"
| "provider_step Load r = load_from_storage r"

text \<open>The default is always the name of a provider that is there.\<close>

definition default_ok :: "provider_registry \<Rightarrow> bool" where
  "default_ok r \<longleftrightarrow> (\<forall>n. pv_default r = Some n \<longrightarrow> map_of (pv_providers r) n \<noteq> None)"

lemma persist_memory: "persist io c n r = (x, r') \<Longrightarrow> pv_providers r' = pv_providers r \<and> pv_default r' = pv_default r"
  by (auto simp: persist_def split: option.splits)

lemma unlink_memory: "remove_from_storage io n r = (x, r') \<Longrightarrow> pv_providers r' = pv_providers r \<and> pv_default r' = pv_default r"
  by (auto simp: remove_from_storage_def split: option.splits if_splits)

lemma load_one_default: "default_ok r \<Longrightarrow> default_ok (load_one f r)"
  by (auto simp: load_one_def default_ok_def Let_def update_conv split: option.splits json.splits)

lemma fold_load_default: "default_ok r \<Longrightarrow> default_ok (fold load_one fs r)"
  by (induction fs arbitrary: r) (simp_all add: load_one_default)

lemma provider_step_default: "default_ok r \<Longrightarrow> default_ok (provider_step x r)"
proof (cases x)
  case (Register io n c b)
  then show "default_ok r \<Longrightarrow> ?thesis"
    by (auto simp: register_provider_def default_ok_def Let_def update_conv split: option.splits prod.splits if_splits dest!: persist_memory)
next
  case (Remove io n)
  then show "default_ok r \<Longrightarrow> ?thesis"
    by (auto simp: remove_provider_def default_ok_def Let_def delete_conv split: option.splits prod.splits if_splits dest!: unlink_memory)
next
  case (Update io n c)
  then show "default_ok r \<Longrightarrow> ?thesis"
    by (auto simp: update_provider_def default_ok_def Let_def update_conv split: option.splits prod.splits if_splits dest!: persist_memory)
qed (auto simp: set_default_provider_def load_from_storage_def fold_load_default, auto simp: default_ok_def)

theorem default_is_registered: "default_ok (fold provider_step xs (pv_init files))"
proof -
  have "default_ok r \<Longrightarrow> default_ok (fold provider_step xs r)" for r
    by (induction xs arbitrary: r) (simp_all add: provider_step_default)
  then show ?thesis by (simp add: default_ok_def pv_init_def)
qed

subsection \<open>Restart\<close>

text \<open>While no file fails, the directory holds exactly the providers in memory.\<close>

definition stored :: "provider_registry \<Rightarrow> bool" where
  "stored r \<longleftrightarrow> distinct (map fst (pv_files r)) \<and> (\<forall>n. map_of (pv_files r) n = map_option (\<lambda>c. Some (JObj (config_dict c))) (map_of (pv_providers r) n))"

fun quiet :: "provider_op \<Rightarrow> bool" where
  "quiet (Register io n c b) \<longleftrightarrow> io = None"
| "quiet (Remove io n) \<longleftrightarrow> io = None"
| "quiet (Update io n c) \<longleftrightarrow> io = None"
| "quiet (Set_default n) \<longleftrightarrow> True"
| "quiet Load \<longleftrightarrow> False"

lemma quiet_step_stored: "stored r \<Longrightarrow> quiet x \<Longrightarrow> stored (provider_step x r)"
proof (cases x)
  case (Remove io n)
  assume "stored r" "quiet x"
  with Remove show ?thesis
    by (auto simp: remove_provider_def remove_from_storage_def stored_def Let_def delete_conv distinct_delete split: option.splits prod.splits if_splits)
qed (auto simp: register_provider_def update_provider_def set_default_provider_def persist_def stored_def Let_def update_conv distinct_update
    split: option.splits prod.splits if_splits)

lemma loads_what_is_stored:
  assumes "distinct (map fst fs)" "\<forall>n j. map_of fs n = Some j \<longrightarrow> j = Some (JObj (config_dict (the (P n)))) \<and> P n \<noteq> None"
  shows "map_of (pv_providers (fold load_one fs r)) n = (if map_of fs n = None then map_of (pv_providers r) n else P n)"
  using assms
proof (induction fs arbitrary: r)
  case (Cons f fs)
  obtain m j where f: "f = (m, j)" by (cases f)
  have j: "j = Some (JObj (config_dict (the (P m))))" "P m \<noteq> None" using Cons.prems(2) by (auto simp: f)
  have nin: "map_of fs m = None" using Cons.prems(1) by (simp add: f map_of_eq_None_iff)
  have "map_of fs k = Some i \<Longrightarrow> map_of (f # fs) k = Some i" for k i using nin by (auto simp: f)
  then have "\<forall>n j. map_of fs n = Some j \<longrightarrow> j = Some (JObj (config_dict (the (P n)))) \<and> P n \<noteq> None" using Cons.prems(2) by blast
  with Cons.IH [of "load_one f r"] Cons.prems(1)
  have "map_of (pv_providers (fold load_one fs (load_one f r))) n = (if map_of fs n = None then map_of (pv_providers (load_one f r)) n else P n)" by simp
  moreover have "map_of (pv_providers (load_one f r)) n = (if n = m then P m else map_of (pv_providers r) n)"
    using j by (auto simp: f load_one_def Let_def config_roundtrip update_conv)
  ultimately show ?case using nin by (auto simp: f)
qed simp

text \<open>A registry that starts on the directory another one has left has the same providers, but not the same default: that is the last file
  whose configuration says so, whatever was registered or set.\<close>

theorem providers_survive_restart:
  assumes "list_all quiet xs"
  shows "get_provider n (load_from_storage (pv_init (pv_files (fold provider_step xs (pv_init []))))) = get_provider n (fold provider_step xs (pv_init []))"
proof -
  have "stored r \<Longrightarrow> list_all quiet ys \<Longrightarrow> stored (fold provider_step ys r)" for r ys
    by (induction ys arbitrary: r) (simp_all add: quiet_step_stored)
  moreover have "stored (pv_init [])" by (simp add: stored_def pv_init_def)
  moreover define r where "r = fold provider_step xs (pv_init [])"
  ultimately have st: "stored r" using assms by blast
  have "map_of (pv_providers (fold load_one (pv_files r) (pv_init (pv_files r)))) n
      = (if map_of (pv_files r) n = None then map_of (pv_providers (pv_init (pv_files r))) n else map_of (pv_providers r) n)"
    using st by (intro loads_what_is_stored) (auto simp: stored_def)
  then have "get_provider n (load_from_storage (pv_init (pv_files r))) = get_provider n r"
    using st by (auto simp: get_provider_def load_from_storage_def pv_init_def stored_def)
  then show ?thesis by (simp only: r_def)
qed

theorem providers_survive_restart_witness:
  "get_provider ''a'' (load_from_storage (pv_init (pv_files (fold provider_step [Register None ''a'' (create_provider_config ''p'' ''m'' None None None False None None) True] (pv_init [])))))
     = Some (create_provider_config ''p'' ''m'' None None None False None None)"
  using providers_survive_restart [of "[Register None ''a'' (create_provider_config ''p'' ''m'' None None None False None None) True]" "''a''"]
  by (simp add: get_provider_def register_provider_def pv_init_def persist_def Let_def)

lemma default_forgotten:
  "pv_default (load_from_storage (pv_init (pv_files (fold provider_step [Register None n (create_provider_config p m k u opts False nm ds) True] (pv_init []))))) = None"
  by (simp add: register_provider_def pv_init_def persist_def Let_def load_from_storage_def load_one_def config_roundtrip jtrue_def create_provider_config_def)

text \<open>A provider whose file cannot be written is registered all the same, although the call raises.\<close>

lemma failed_write_registers:
  "map_of (pv_providers r) n = None \<Longrightarrow> fst (register_provider (Some e) n c b r) = Inl e \<and> get_provider n (fst (snd (register_provider (Some e) n c b r))) = Some c"
  by (simp add: register_provider_def persist_def get_provider_def update_conv Let_def)

end
