(* ===== verification/Traces.thy ===== *)
theory Traces
  imports Results
begin

text \<open>
  Traces, \<open>observability/trace.py\<close>: spans, the collector that starts and ends them, and the bounded store. A span of a collector is known by its
  identifier, the current span too: it is one of the spans of the collector. New identifiers, the clock and \<open>isoformat\<close> are arguments.
\<close>

record span =
  sp_id :: string
  sp_trace :: string
  sp_name :: string
  sp_start :: rat
  sp_end :: "rat option"
  sp_parent :: "string option"
  sp_attributes :: "(string \<times> json) list"
  sp_session :: "string option"

definition duration_ms :: "span \<Rightarrow> rat option" where
  "duration_ms s = map_option (\<lambda>e. (e - sp_start s) * 1000) (sp_end s)"

definition is_root :: "span \<Rightarrow> bool" where
  "is_root s \<longleftrightarrow> sp_parent s = None"

definition span_dict :: "(rat \<Rightarrow> string) \<Rightarrow> span \<Rightarrow> (string \<times> json) list" where
  "span_dict isoformat s = [(''span_id'', JStr (sp_id s)), (''trace_id'', JStr (sp_trace s)), (''name'', JStr (sp_name s)), (''start_time'', JStr (isoformat (sp_start s))),
     (''end_time'', opt_str (map_option isoformat (sp_end s))), (''parent_span_id'', opt_str (sp_parent s)),
     (''duration_ms'', case duration_ms s of Some d \<Rightarrow> JNum d | None \<Rightarrow> JNull), (''attributes'', JObj (sp_attributes s)), (''session_id'', opt_str (sp_session s))]"

subsection \<open>The collector\<close>

record collector =
  tc_spans :: "(string \<times> span) list"
  tc_current :: "string option"

definition tc_init :: collector where
  "tc_init = \<lparr>tc_spans = [], tc_current = None\<rparr>"

definition get_current_span :: "collector \<Rightarrow> span option" where
  "get_current_span c = Option.bind (tc_current c) (map_of (tc_spans c))"

definition start_span :: "string \<Rightarrow> string \<Rightarrow> rat \<Rightarrow> string \<Rightarrow> string option \<Rightarrow> string option \<Rightarrow> (string \<times> json) list option \<Rightarrow> string option
    \<Rightarrow> collector \<Rightarrow> span \<times> collector" where
  "start_span span_id new_trace now name trace_id parent attributes session c =
     (let s = \<lparr>sp_id = span_id,
               sp_trace = (case trace_id of Some t \<Rightarrow> t | None \<Rightarrow> (case get_current_span c of Some p \<Rightarrow> sp_trace p | None \<Rightarrow> new_trace)),
               sp_name = name, sp_start = now, sp_end = None,
               sp_parent = (case parent of Some p \<Rightarrow> Some p | None \<Rightarrow> map_option sp_id (get_current_span c)),
               sp_attributes = (case attributes of Some a \<Rightarrow> a | None \<Rightarrow> []), sp_session = session\<rparr>
      in (s, c\<lparr>tc_spans := AList.update span_id s (tc_spans c)\<rparr>))"

definition end_span :: "rat \<Rightarrow> string \<Rightarrow> collector \<Rightarrow> span option \<times> collector" where
  "end_span now span_id c = (case map_of (tc_spans c) span_id of
     None \<Rightarrow> (None, c)
   | Some s \<Rightarrow> (let s = s\<lparr>sp_end := Some now\<rparr> in (Some s, c\<lparr>tc_spans := AList.update span_id s (tc_spans c)\<rparr>)))"

definition get_trace :: "string \<Rightarrow> collector \<Rightarrow> span list" where
  "get_trace trace_id c = filter (\<lambda>s. sp_trace s = trace_id) (map snd (tc_spans c))"

definition set_current_span :: "string \<Rightarrow> collector \<Rightarrow> collector" where
  "set_current_span span_id c = c\<lparr>tc_current := Some span_id\<rparr>"

definition clear_current_span :: "collector \<Rightarrow> collector" where
  "clear_current_span c = c\<lparr>tc_current := None\<rparr>"

subsection \<open>The store\<close>

record trace_store =
  ts_spans :: "span list"
  ts_max :: int

definition ts_init :: "int \<Rightarrow> trace_store" where
  "ts_init m = \<lparr>ts_spans = [], ts_max = m\<rparr>"

definition ts_add :: "span \<Rightarrow> trace_store \<Rightarrow> trace_store" where
  "ts_add s st = (let ss = ts_spans st @ [s]; n = int (length ss)
     in st\<lparr>ts_spans := if 0 < ts_max st \<and> ts_max st < n then drop (nat (n - ts_max st)) ss else ss\<rparr>)"

definition ts_query :: "string option \<Rightarrow> string option \<Rightarrow> rat option \<Rightarrow> rat option \<Rightarrow> trace_store \<Rightarrow> span list" where
  "ts_query session trace_id from until st =
     (let rs = ts_spans st;
          rs = (case session of Some x \<Rightarrow> filter (\<lambda>s. sp_session s = Some x) rs | None \<Rightarrow> rs);
          rs = (case trace_id of Some x \<Rightarrow> filter (\<lambda>s. sp_trace s = x) rs | None \<Rightarrow> rs);
          rs = (case from of Some x \<Rightarrow> filter (\<lambda>s. x \<le> sp_start s) rs | None \<Rightarrow> rs)
      in case until of Some x \<Rightarrow> filter (\<lambda>s. sp_start s \<le> x) rs | None \<Rightarrow> rs)"

definition ts_clear :: "trace_store \<Rightarrow> trace_store" where
  "ts_clear st = st\<lparr>ts_spans := []\<rparr>"

definition ts_count :: "trace_store \<Rightarrow> nat" where
  "ts_count st = length (ts_spans st)"

subsection \<open>Properties\<close>

text \<open>A store with a positive limit keeps the last spans that were added, in their order, as many as the limit allows; any other keeps all.\<close>

lemma ts_add_max: "ts_max (fold ts_add ss st) = ts_max st"
  by (induction ss arbitrary: st) (simp_all add: ts_add_def Let_def)

lemma ts_add_spans:
  "0 < ts_max st \<Longrightarrow> ts_spans (ts_add s st) = drop (Suc (length (ts_spans st)) - nat (ts_max st)) (ts_spans st @ [s])"
  "\<not> 0 < ts_max st \<Longrightarrow> ts_spans (ts_add s st) = ts_spans st @ [s]"
proof -
  show "ts_spans (ts_add s st) = drop (Suc (length (ts_spans st)) - nat (ts_max st)) (ts_spans st @ [s])" if "0 < ts_max st"
  proof -
    let ?ss = "ts_spans st @ [s]"
    have "nat (int (length ?ss) - ts_max st) = Suc (length (ts_spans st)) - nat (ts_max st)" using that by simp
    moreover have "drop (Suc (length (ts_spans st)) - nat (ts_max st)) ?ss = ?ss" if "\<not> ts_max st < int (length ?ss)"
      using that by simp
    ultimately show ?thesis unfolding ts_add_def Let_def using that by (simp only: if_splits trace_store.simps) simp
  qed
qed (simp add: ts_add_def Let_def)

theorem store_keeps_last:
  "ts_spans (fold ts_add ss (ts_init m)) = (if 0 < m then drop (length ss - nat m) ss else ss)"
proof (induction ss rule: rev_induct)
  case (snoc s ss)
  define st where "st = fold ts_add ss (ts_init m)"
  have st: "fold ts_add (ss @ [s]) (ts_init m) = ts_add s st" "ts_max st = m" by (simp_all add: st_def ts_add_max) (simp add: ts_init_def)
  show ?case
  proof (cases "0 < m")
    case False
    with snoc ts_add_spans(2) [of st s] st show ?thesis by (simp add: st_def [symmetric])
  next
    case True
    with snoc have spans: "ts_spans st = drop (length ss - nat m) ss" by (simp add: st_def)
    have "drop (Suc (length (ts_spans st)) - nat m) (ts_spans st @ [s]) = drop (length (ss @ [s]) - nat m) (ss @ [s])"
    proof (cases "nat m < length ss")
      case True
      with \<open>0 < m\<close> show ?thesis by (simp add: spans Suc_diff_le drop_Suc drop_drop)
    next
      case False
      then show ?thesis by (simp add: spans)
    qed
    with ts_add_spans(1) [of st s] st \<open>0 < m\<close> show ?thesis by simp
  qed
qed (simp add: ts_init_def)

lemma query_is_filter:
  "ts_query session trace_id from until st = filter (\<lambda>s. (\<forall>x. session = Some x \<longrightarrow> sp_session s = Some x) \<and> (\<forall>x. trace_id = Some x \<longrightarrow> sp_trace s = x)
     \<and> (\<forall>x. from = Some x \<longrightarrow> x \<le> sp_start s) \<and> (\<forall>x. until = Some x \<longrightarrow> sp_start s \<le> x)) (ts_spans st)"
  by (simp add: ts_query_def Let_def conj_commute conj_left_commute split: option.split)

text \<open>A span that is started inside another belongs to its trace. A span that only names its parent does not: without a current span it
  begins a trace of its own, with one it joins the trace of that.\<close>

lemma child_in_trace:
  assumes "get_current_span c = Some p" "start_span i t now n None None a x c = (s, c')"
  shows "sp_trace s = sp_trace p \<and> sp_parent s = Some (sp_id p)"
  using assms by (auto simp: start_span_def Let_def)

lemma named_parent_other_trace:
  assumes "get_current_span c = None" "start_span i t now n None (Some p) a x c = (s, c')"
  shows "sp_trace s = t \<and> sp_parent s = Some p \<and> map_of (tc_spans c') i = Some s"
  using assms by (auto simp: start_span_def Let_def update_conv)

lemma end_span_spec:
  assumes "map_of (tc_spans c) i = Some s" "end_span now i c = (x, c')"
  shows "x = Some (s\<lparr>sp_end := Some now\<rparr>) \<and> map_of (tc_spans c') i = x \<and> (\<forall>j \<noteq> i. map_of (tc_spans c') j = map_of (tc_spans c) j)
    \<and> duration_ms (the x) = Some ((now - sp_start s) * 1000)"
  using assms by (auto simp: end_span_def Let_def update_conv duration_ms_def)

end
