(* ===== verification/Spec2Isabelle.thy ===== *)
theory Spec2Isabelle
  imports Results Circuit Limiter Retry Reliability Bulkheads Mediators Storage Repositories UnitOfWork Commands Fsm Convergence Delegation
    DelegPolicy Permissions ToolCache SingleFlight TaskQueue AgentRuntime Findings Orchestrator AgentStates ProviderBus LlmClient BuiltinTools AdditionalTools FsmReasoning SessionFiles Strategies ProviderRegistry Traces
begin

text \<open>
  A verification of the core of Dawn Kestrel, the Python package \<open>src/dawn_kestrel\<close>: an SDK that runs agents,
  that is, language models which call tools, work in sessions kept on disk, and delegate to each other. Paths below are
  relative to that package.

  \<^bold>\<open>The program.\<close> A session service stores sessions, messages and parts through repositories and typed storages in one
  JSON store. The agent runtime looks an agent up in its registry, filters the tools by the permissions of the agent and
  exchanges messages with a model; before each exchange a policy engine makes a proposal which a validator and a gate judge. The tool calls
  of the model go through a permission check, perhaps a result cache, and a tracker. Several agents are run by the
  orchestrator, the delegation engine, the multi-agent workflows or the workflow of phases; the worker pool runs batches. Calls of a provider pass
  a rate limiter, a circuit breaker, a bulkhead and retries. Components tell each other of events by a mediator,
  an event bus and observers, and answer with a three-way result.

  \<^bold>\<open>Theories and what they model.\<close> Each theory has the components of the source in its order: a class is a record of its
  attributes, an enumeration a datatype, a method a function from the state to its answer and the next state. A
  method that raises answers in a sum, \<open>Inl\<close> the exception; one that answers a Result is as in the source.
  \<^item> Foundations. \<open>Prelude\<close>: exceptions, dictionaries and lists of Python. \<open>Texts\<close>: operations of \<open>str\<close>. \<open>Results\<close>:
    \<open>core/result.py\<close> and JSON values. \<open>Json\<close>: reading and writing of JSON texts. \<open>Accounts\<close>: the contract of a token bucket.
  \<^item> Resilience, \<open>llm/\<close>. \<open>Circuit\<close>: \<open>circuit_breaker.py\<close>. \<open>Limiter\<close>: \<open>rate_limiter.py\<close>. \<open>Retry\<close>: \<open>retry.py\<close>.
    \<open>Bulkheads\<close>: \<open>bulkhead.py\<close>. \<open>Reliability\<close>: \<open>reliability.py\<close>, the composition of the three before. \<open>ProviderLimits\<close>:
    \<open>provider_limits.py\<close> and \<open>distributed_limiter.py\<close>. \<open>ProviderBus\<close>: \<open>provider_bus.py\<close>. \<open>EvidenceCache\<close>: \<open>evidence_sharing.py\<close>.
    \<open>LlmClient\<close>: \<open>client.py\<close>. \<open>ProviderRegistry\<close>: \<open>providers/registry.py\<close> with \<open>core/provider_config.py\<close>.
  \<^item> Events. \<open>Mediators\<close>: \<open>core/mediator.py\<close>, \<open>core/event_bus.py\<close>, \<open>core/observer.py\<close>. \<open>Commands\<close>: \<open>core/commands.py\<close>.
  \<^item> Data on disk. \<open>Storage\<close>: the store of \<open>storage/store.py\<close>. \<open>Repositories\<close> and \<open>MessageStore\<close>: the typed storages, \<open>core/repositories.py\<close>
    and \<open>core/fsm_state_repository.py\<close>. \<open>UnitOfWork\<close>: \<open>core/unit_of_work.py\<close>.
  \<^item> Sessions. \<open>SessionManager\<close>: \<open>core/session.py\<close>. \<open>SessionService\<close>: \<open>core/services/session_service.py\<close>. \<open>Lifecycle\<close>:
    \<open>core/session_lifecycle.py\<close>. \<open>Forks\<close>: \<open>session/fork_revert.py\<close> and \<open>session/compaction.py\<close>. \<open>SessionFiles\<close>: \<open>session/export_import.py\<close>.
  \<^item> State machines. \<open>Fsm\<close>: \<open>core/fsm.py\<close>. \<open>AgentStates\<close>: \<open>agents/state.py\<close>. \<open>PhaseContracts\<close>: \<open>agents/workflow.py\<close>. \<open>FsmPhases\<close>:
    \<open>agents/fsm_orchestrator.py\<close>. \<open>FsmReasoning\<close>: \<open>agents/fsm_reasoning.py\<close>.
  \<^item> Agents. \<open>AgentRegistry\<close>: \<open>agents/builtin.py\<close> and \<open>agents/registry.py\<close>. \<open>AgentRuntime\<close>: \<open>agents/runtime.py\<close>. \<open>Policies\<close>:
    the package \<open>policy\<close> but for delegation. \<open>Orchestrator\<close>: \<open>agents/orchestrator.py\<close>. \<open>Convergence\<close>, \<open>Delegation\<close> and \<open>DelegPolicy\<close>: the package
    \<open>delegation\<close> with \<open>policy/delegation.py\<close> and its built-in policies. \<open>MultiAgent\<close> and \<open>Findings\<close>: \<open>workflow/multi_agent.py\<close>.
    \<open>TaskQueue\<close>: \<open>reliability/queue_worker.py\<close>. \<open>Strategies\<close>: \<open>core/strategies.py\<close>. \<open>Traces\<close>: \<open>observability/trace.py\<close>.
  \<^item> Tools. \<open>Permissions\<close>: \<open>tools/permission_filter.py\<close>, \<open>tools/framework.py\<close>, \<open>permissions/evaluate.py\<close>. \<open>ToolCache\<close> and \<open>SingleFlight\<close>:
    \<open>tools/cache.py\<close>. \<open>ToolExecution\<close>: the package \<open>ai\<close> and \<open>agents/tool_execution_tracker.py\<close>. \<open>BuiltinTools\<close>: \<open>tools/builtin.py\<close>.
    \<open>AdditionalTools\<close>: edits, batches and todos of \<open>tools/additional.py\<close>, and \<open>tools/registry.py\<close>.
  \<^item> Security. \<open>InputValidation\<close>: \<open>core/security/input_validation.py\<close>. \<open>Redaction\<close>: \<open>agents/review/utils/redaction.py\<close>.

  \<^bold>\<open>State and operations.\<close> What callbacks, models, processes and other objects outside of a component do is a function of a
  world \<open>'w\<close> that returns an outcome and the next world, so that a theorem holds for every behaviour of them.
  Where a method awaits and others may run in between, it is split there into steps, and an \<open>inductive\<close> relation interleaves
  them: \<open>pool_step\<close> (workers of a pool), \<open>flight\<close> (calls of the cache), \<open>orch_step\<close> (delegations and
  cancellations), \<open>bus_step\<close> (requests of a provider); the bulkhead has its interleavings as lists of events. \<open>Fsm.built\<close> are
  the builders a program can make, \<open>MultiAgent.runnable\<close> the agents whose dependencies can run, \<open>DelegPolicy.at_head\<close> the states at the head
  of the loop. Invariants are proved by induction on these relations.

  \<^bold>\<open>Interfaces.\<close> A locale states what a client relies on, and an interpretation shows that the provider of the program
  keeps it: \<open>token_account\<close> (the bucket of \<open>Limiter\<close> and the tracker of \<open>ProviderLimits\<close>; no account grants more than its
  rate), \<open>event_channel\<close> and \<open>fsm_services\<close> (what a machine needs of its mediator and its repository), \<open>entity_store\<close>
  (what the unit of work needs of the repositories), \<open>proposer\<close> (what the runtime needs of a policy engine, kept by all six),
  \<open>fifo\<close> (the queue of the pool), \<open>secret\<close> (a pattern whose replacement leaves no match).

  \<^bold>\<open>What is shown.\<close> The properties are numbered C1 to C40 in the order of their importance.
  \<^item> Every branch of the central operations: a transition of a machine, a delegation, a tool call, a request of a provider, a retried
    operation, a completed request of the client, a persisted session or message.
  \<^item> Conservation and exclusion in every interleaving: tasks of a pool, permits of a bulkhead, active requests of a provider,
    one execution per key of the cache, states of delegated tasks.
  \<^item> Bounds and termination: agents spawned by a delegation, turns of the policy loop, tokens granted by a bucket,
    size of the cache and when its eviction returns, the rounds of a dependency graph.
  \<^item> Safety: keys that would leave the store, tools without permission, proposals the gate lets through,
    secrets in redacted values, commands and paths that the validation accepts.
  \<^item> Equivalence and round trips: the cycle check and acyclicity, the permission filter and matching of patterns, the
    store, messages, JSON forms, windows of a file, phase outputs.
  \<^item> Behaviour that is not what was meant, as theorems about the code as it is: a cancelled task that does not stay cancelled,
    exports that cannot be imported, an import that makes a project unreadable, a synthesis that is lost, phases that never
    end without a model, a bucket that is overrun by requests which wait together.

  \<^bold>\<open>Bounds and fuel.\<close> Loops are recursions with a proof of termination where one exists. \<open>MultiAgent\<close> takes
  as many rounds as there are agents, and the search for cycles a fuel that its lemmas show to be enough. The reader of JSON
  has a fuel of twice the length of the text plus one, and \<open>Json.loads_fuel\<close> shows that more does not change its answer. A session tree is cut at depth ten, as in the source. The tool loop has the
  \<open>MAX_TOOL_LOOPS\<close>, ten, of the source. A loop that may run for ever, as the eviction of the cache with a limit that is not positive, is a
  \<open>partial_function\<close> or has the bound as an argument, and that it returns, or does not, is a theorem.

  \<^bold>\<open>Conventions.\<close> A float is an exact rational, a time stamp too; a text is a list of the characters of Latin-1. A dictionary whose order
  is read is an association list, any other a map. A clock reading, a random draw and a new identifier are arguments or read from the
  world. What lies outside of the repository is a parameter: the retries of tenacity, the conversions of pydantic,
  resolving a path, starting a process, the connection to Redis, snapshots of git, SHA-256, the texts of numbers.
  Listeners of events do not act on the component that publishes them, and a JSON file on disk is the object it holds.

  \<^bold>\<open>Not modelled.\<close> The command line, the SDK clients and the composition of the components (they only forward and connect); the
  providers, HTTP, OAuth, language servers and streams (network and processes); \<open>ai_session.py\<close>, the context builder and the memory
  of agents (they assemble texts for the model or ask it; parameters of the runtime); snapshots and commands of git; settings and
  credentials (environment and files of other libraries); plugins; the records for evaluation, the review contracts and
  other declarations of data without behaviour; metrics and logs; prompts and skills; the
  other tools of \<open>tools/additional.py\<close>, which are processes, the network, questions to the user and walks through directories; benchmarks.
\<close>

end
